(* ===== verification/Prelude.thy ===== *)
theory Prelude
  imports Main "HOL-Library.Word"
begin

unbundle bit_operations_syntax

text \<open>
  Shared vocabulary of the development: the fixed-width integers of the C and C++ sources,
  the return codes of liblzma, byte buffers with their positions, and the generic lemmas on
  words and lists that the component theories rely on.

  Conventions. A C buffer is a list of bytes whose length is the size of the object.
  Positions and sizes of type \<open>size_t\<close> that only index such an object are \<open>nat\<close>: an object
  is never larger than the address space, so these never wrap. Integers whose wrap-around can
  be observed keep their width as words. A function that updates its arguments through
  pointers returns the new values in a tuple, its C return value first.
\<close>

section \<open>Machine integers\<close>

type_synonym u8 = "8 word"
type_synonym u16 = "16 word"
type_synonym u32 = "32 word"
type_synonym u64 = "64 word"

named_theorems buf_simps

section \<open>Return codes\<close>

text \<open>\<open>lzma_ret\<close> of \<open>api/lzma/base.h\<close>, with the source's order, and the extra value \<open>LZMA_TIMED_OUT\<close> of
  \<open>common.h\<close> that a coder may return to \<open>lzma_code\<close>.\<close>

datatype lzma_ret =
    LZMA_OK
  | LZMA_STREAM_END
  | LZMA_NO_CHECK
  | LZMA_UNSUPPORTED_CHECK
  | LZMA_GET_CHECK
  | LZMA_MEM_ERROR
  | LZMA_MEMLIMIT_ERROR
  | LZMA_FORMAT_ERROR
  | LZMA_OPTIONS_ERROR
  | LZMA_DATA_ERROR
  | LZMA_BUF_ERROR
  | LZMA_PROG_ERROR
  | LZMA_TIMED_OUT

section \<open>Byte buffers\<close>

text \<open>
  \<open>memcpy\<close> of a list of bytes into a buffer at a position. Nothing is written past the end of
  the object; every use in the development is proved to stay inside it.
\<close>

definition buf_write :: "nat \<Rightarrow> 'a list \<Rightarrow> 'a list \<Rightarrow> 'a list" where
  "buf_write pos bs buf = take pos buf @ take (length buf - pos) bs @ drop (pos + length bs) buf"

lemma length_buf_write [simp]: "length (buf_write pos bs buf) = length buf"
  by (auto simp: buf_write_def min_def)

lemma buf_write_Nil [simp]: "buf_write pos [] buf = buf"
  by (simp add: buf_write_def)

lemma buf_write_in:
  "pos + length bs \<le> length buf \<Longrightarrow>
     buf_write pos bs buf = take pos buf @ bs @ drop (pos + length bs) buf"
  by (simp add: buf_write_def)

lemma take_buf_write [buf_simps]:
  "n \<le> pos \<Longrightarrow> pos \<le> length buf \<Longrightarrow> take n (buf_write pos bs buf) = take n buf"
  by (simp add: buf_write_def min_def)

lemma take_buf_write_all [buf_simps]:
  "pos + length bs \<le> length buf \<Longrightarrow>
     take (pos + length bs) (buf_write pos bs buf) = take pos buf @ bs"
  by (simp add: buf_write_in)

lemma drop_buf_write_all [buf_simps]:
  "pos + length bs \<le> length buf \<Longrightarrow>
     drop (pos + length bs) (buf_write pos bs buf) = drop (pos + length bs) buf"
  by (simp add: buf_write_in)

lemma drop_buf_write [buf_simps]:
  "pos + length bs \<le> length buf \<Longrightarrow>
     drop pos (buf_write pos bs buf) = bs @ drop (pos + length bs) buf"
  by (simp add: buf_write_in)

lemma nth_buf_write:
  "pos + length bs \<le> length buf \<Longrightarrow> i < length buf \<Longrightarrow>
     buf_write pos bs buf ! i =
       (if i < pos then buf ! i
        else if i < pos + length bs then bs ! (i - pos) else buf ! i)"
  by (auto simp: buf_write_in nth_append)

lemma list_update_buf_write [buf_simps]:
  "pos < length buf \<Longrightarrow> buf[pos := x] = buf_write pos [x] buf"
  by (simp add: buf_write_in upd_conv_take_nth_drop)

lemma buf_write_append [buf_simps]:
  assumes "pos + length xs + length ys \<le> length buf"
  shows "buf_write (pos + length xs) ys (buf_write pos xs buf) = buf_write pos (xs @ ys) buf"
  using assms by (simp add: buf_write_in add.assoc add.commute [of "length ys"])

lemma buf_write_Suc [buf_simps]:
  "pos + Suc (length ys) \<le> length buf \<Longrightarrow>
     buf_write (Suc pos) ys (buf_write pos [x] buf) = buf_write pos (x # ys) buf"
  using buf_write_append [of pos "[x]" ys buf] by simp

lemma list_update_neq: "i < length xs \<Longrightarrow> b \<noteq> xs ! i \<Longrightarrow> xs[i := b] \<noteq> xs"
  by (metis nth_list_update_eq)

text \<open>A field of a buffer under a one-byte change: outside the field nothing changes, inside it the
  field changes.\<close>

lemma field_update:
  assumes "pos + n \<le> length xs" "i < length xs"
  shows "take n (drop pos (xs[i := b]))
    = (if pos \<le> i \<and> i < pos + n then (take n (drop pos xs))[i - pos := b] else take n (drop pos xs))"
  using assms by (intro nth_equalityI) (auto simp: nth_list_update)

section \<open>Iteration\<close>

lemma funpow_funpow: "(f ^^ a) ((f ^^ b) x) = (f ^^ (a + b)) x"
  by (simp add: funpow_add)

section \<open>Words as numbers\<close>

lemma unat_eqI: "unat v = unat w \<Longrightarrow> v = w"
  by (metis of_nat_unat ucast_id)

lemma xor_cancel_right [simp]: "x XOR z = y XOR z \<longleftrightarrow> x = y" for x y z :: "'a::len word"
  by (metis xor.assoc xor.right_neutral xor_self_eq)

lemma xor_cancel_left [simp]: "z XOR x = z XOR y \<longleftrightarrow> x = y" for x y z :: "'a::len word"
  by (simp add: xor.commute [of z])

lemma ucast_eq_iff:
  "LENGTH('a) \<le> LENGTH('b) \<Longrightarrow> (ucast x :: 'b::len word) = ucast y \<longleftrightarrow> x = y" for x y :: "'a::len word"
proof
  assume le: "LENGTH('a) \<le> LENGTH('b)" and eq: "(ucast x :: 'b word) = ucast y"
  show "x = y"
  proof (rule bit_word_eqI)
    fix n assume "n < LENGTH('a)"
    with arg_cong [OF eq, of "\<lambda>w. bit w n"] le show "bit x n = bit y n" by (simp add: bit_simps)
  qed
qed simp

lemma unat_u32_less: "unat (w :: u32) < 4294967296"
  using unsigned_less [of w] by simp

lemma unat_u8_less: "unat (b :: u8) < 256"
  using unsigned_less [of b] by simp

lemma unat_drop_bit_div: "unat (drop_bit n (w :: 'a::len word)) = unat w div 2 ^ n"
  by (subst unat_drop_bit_eq) (rule drop_bit_eq_div)

lemma unat_and_mask: "unat (w AND mask n :: 'a::len word) = unat w mod 2 ^ n"
  by (simp only: unsigned_take_bit_eq flip: take_bit_eq_mask take_bit_eq_mod)

lemma unat_ucast_mod: "unat (ucast (w :: 'a::len word) :: 'b::len word) = unat w mod 2 ^ LENGTH('b)"
  by (simp only: unsigned_ucast_eq take_bit_eq_mod)

lemma unat_take_bit_mod: "unat (take_bit n (w :: 'a::len word)) = unat w mod 2 ^ n"
  by (subst unsigned_take_bit_eq) (rule take_bit_eq_mod)

lemma u8_and_ff [simp]: "(b :: u8) AND 0xFF = b"
proof -
  have "b AND mask 8 = take_bit 8 b" by (rule take_bit_eq_mask [symmetric])
  also have "\<dots> = b" by (simp add: take_bit_word_beyond_length_eq)
  finally show ?thesis by (simp add: mask_eq_exp_minus_1)
qed

section \<open>Integers in buffers\<close>

text \<open>\<open>unaligned_read32le\<close> and \<open>unaligned_write32le\<close> of \<open>tuklib_integer.h\<close>, the pointer argument
  split into the buffer and the position in it.\<close>

definition load32 :: "u8 \<Rightarrow> u8 \<Rightarrow> u8 \<Rightarrow> u8 \<Rightarrow> u32" where
  "load32 b0 b1 b2 b3 =
     ucast b0 OR push_bit 8 (ucast b1) OR push_bit 16 (ucast b2) OR push_bit 24 (ucast b3)"

definition unaligned_read32le :: "u8 list \<Rightarrow> nat \<Rightarrow> u32" where
  "unaligned_read32le buf pos =
     load32 (buf ! pos) (buf ! (pos + 1)) (buf ! (pos + 2)) (buf ! (pos + 3))"

definition bytes32le :: "u32 \<Rightarrow> u8 list" where
  "bytes32le num = [ucast num, ucast (drop_bit 8 num), ucast (drop_bit 16 num), ucast (drop_bit 24 num)]"

definition unaligned_write32le :: "u8 list \<Rightarrow> nat \<Rightarrow> u32 \<Rightarrow> u8 list" where
  "unaligned_write32le buf pos num = buf_write pos (bytes32le num) buf"

lemma length_bytes32le [simp]: "length (bytes32le num) = 4"
  by (simp add: bytes32le_def)

lemma length_unaligned_write32le [simp]: "length (unaligned_write32le buf pos num) = length buf"
  by (simp add: unaligned_write32le_def)

lemma bit_u8_less: "bit (x :: u8) n \<Longrightarrow> n < 8"
  using bit_imp_le_length [of x n] by simp

lemma load32_bytes [simp]:
  "load32 (ucast n) (ucast (drop_bit 8 n)) (ucast (drop_bit 16 n)) (ucast (drop_bit 24 n)) = n"
proof (rule bit_word_eqI)
  fix i assume "i < LENGTH(32)"
  then consider "i < 8" | "8 \<le> i" "i < 16" | "16 \<le> i" "i < 24" | "24 \<le> i" "i < 32" by fastforce
  then show "bit (load32 (ucast n) (ucast (drop_bit 8 n)) (ucast (drop_bit 16 n)) (ucast (drop_bit 24 n))) i = bit n i"
    by cases (auto simp: load32_def bit_simps)
qed

lemma load32_parts:
  "ucast (load32 a b c d) = a" "ucast (drop_bit 8 (load32 a b c d)) = b"
  "ucast (drop_bit 16 (load32 a b c d)) = c" "ucast (drop_bit 24 (load32 a b c d)) = d"
  by (rule bit_word_eqI; auto simp: load32_def bit_simps dest: bit_u8_less)+

lemma load32_eq_iff: "load32 a b c d = load32 a' b' c' d' \<longleftrightarrow> a = a' \<and> b = b' \<and> c = c' \<and> d = d'"
  by (rule iffI) (metis load32_parts, simp)

lemma bytes32le_load32 [simp]: "bytes32le (load32 a b c d) = [a, b, c, d]"
  by (simp add: bytes32le_def load32_parts)

lemma bytes32le_inj: "bytes32le m = bytes32le n \<longleftrightarrow> m = n"
proof
  assume "bytes32le m = bytes32le n"
  then have "load32 (bytes32le m ! 0) (bytes32le m ! 1) (bytes32le m ! 2) (bytes32le m ! 3)
      = load32 (bytes32le n ! 0) (bytes32le n ! 1) (bytes32le n ! 2) (bytes32le n ! 3)" by simp
  then show "m = n" by (simp add: bytes32le_def)
qed simp

lemma unaligned_read32le_bytes:
  assumes "pos + 4 \<le> length buf"
  shows "bytes32le (unaligned_read32le buf pos) = take 4 (drop pos buf)"
proof -
  have "drop pos buf = buf ! pos # buf ! (pos + 1) # buf ! (pos + 2) # buf ! (pos + 3) # drop (pos + 4) buf"
    using assms Cons_nth_drop_Suc [of pos buf] Cons_nth_drop_Suc [of "pos + 1" buf]
      Cons_nth_drop_Suc [of "pos + 2" buf] Cons_nth_drop_Suc [of "pos + 3" buf]
    by (simp add: eval_nat_numeral)
  then show ?thesis by (simp add: unaligned_read32le_def)
qed

lemma unaligned_read32le_eq_iff:
  "pos + 4 \<le> length buf \<Longrightarrow> unaligned_read32le buf pos = num \<longleftrightarrow> take 4 (drop pos buf) = bytes32le num"
  by (metis unaligned_read32le_bytes bytes32le_inj)

end
