(* ===== verification/Dht_Base.thy ===== *)
theory Dht_Base
  imports Prelude
begin

text \<open>
  What the parts of Dht share: the exceptions of \<open>include/dht/exceptions.hpp\<close> and of the C++ standard
  library as values, the constants of \<open>config.hpp\<close> and \<open>version.hpp\<close>, and the string and string-stream
  operations of the standard library that the text format is written and read with.

  A function that may throw returns \<open>Inl\<close> of the exception or \<open>Inr\<close> of its result. A
  \<open>std::istringstream\<close> is the string of the characters not yet extracted.
\<close>

section \<open>Exceptions and results\<close>

datatype dht_exn =
    DhtError string
  | InvalidPasswordError
  | WeakPasswordError
  | CorruptedFileError
  | DecryptionFailedError
  | UnsupportedFormatError string
  | FileNotFoundError string
  | StdOutOfRange
  | StdInvalidArgument
  | StdLengthError

type_synonym 'a res = "dht_exn + 'a"

text \<open>The message each class hands to \<open>std::runtime_error\<close>. The exceptions of the standard library
  have an implementation-defined message.\<close>

fun dht_what :: "dht_exn \<Rightarrow> string option" where
  "dht_what (DhtError msg) = Some msg"
| "dht_what InvalidPasswordError = Some ''Invalid password''"
| "dht_what WeakPasswordError = Some ''Password must be at least 32 characters long''"
| "dht_what CorruptedFileError = Some ''File is corrupted or invalid''"
| "dht_what DecryptionFailedError = Some ''Decryption failed''"
| "dht_what (UnsupportedFormatError fmt) = Some (''Unsupported format: '' @ fmt)"
| "dht_what (FileNotFoundError path) = Some (''File not found: '' @ path)"
| "dht_what StdOutOfRange = None"
| "dht_what StdInvalidArgument = None"
| "dht_what StdLengthError = None"

text \<open>Sequencing of statements that may throw.\<close>

definition res_bind :: "'a res \<Rightarrow> ('a \<Rightarrow> 'b res) \<Rightarrow> 'b res" where
  "res_bind m f = (case m of Inl e \<Rightarrow> Inl e | Inr x \<Rightarrow> f x)"

lemma res_bind_simps [simp]: "res_bind (Inl e) f = Inl e" "res_bind (Inr x) f = f x"
  by (simp_all add: res_bind_def)

lemma res_bind_Inr_iff: "res_bind m f = Inr y \<longleftrightarrow> (\<exists>x. m = Inr x \<and> f x = Inr y)"
  by (cases m) auto

lemma res_bind_Inl_iff: "res_bind m f = Inl e \<longleftrightarrow> m = Inl e \<or> (\<exists>x. m = Inr x \<and> f x = Inl e)"
  by (cases m) auto

section \<open>Constants\<close>

definition MIN_PASSWORD_LENGTH :: nat where "MIN_PASSWORD_LENGTH = 32"
definition AES_KEY_LENGTH :: nat where "AES_KEY_LENGTH = 32"
definition AES_IV_LENGTH :: nat where "AES_IV_LENGTH = 12"
definition AES_TAG_LENGTH :: nat where "AES_TAG_LENGTH = 16"
definition DEFAULT_FPS :: int where "DEFAULT_FPS = 30"
definition DEFAULT_AUDIO_SAMPLES :: int where "DEFAULT_AUDIO_SAMPLES = 1000"
definition VERSION_STRING :: string where "VERSION_STRING = ''1.0.0''"

definition version :: string where "version = VERSION_STRING"

section \<open>Integer conversions\<close>

text \<open>The implicit conversion of a \<open>size_t\<close> to \<open>int\<close>.\<close>

definition size_to_int :: "nat \<Rightarrow> int" where
  "size_to_int n = sint (of_nat n :: 32 word)"

lemma size_to_int_small: "n < 2 ^ 31 \<Longrightarrow> size_to_int n = int n"
  by (simp add: size_to_int_def signed_of_nat signed_take_bit_int_eq_self)

lemma size_to_int_mod: "size_to_int (2 ^ 32 * j + n) = size_to_int n"
proof -
  have "(of_nat (2 ^ 32 * j) :: 32 word) = 0" unfolding word_of_nat_eq_0_iff by simp
  then have "(of_nat (2 ^ 32 * j + n) :: 32 word) = of_nat n" by (simp only: of_nat_add add_0)
  then show ?thesis by (simp only: size_to_int_def)
qed

lemma size_to_int_reduce: "size_to_int n = size_to_int (n mod 2 ^ 32)"
  using size_to_int_mod [of "n div 2 ^ 32" "n mod 2 ^ 32"] by simp

lemma size_to_int_negative: "2 ^ 31 \<le> n mod 2 ^ 32 \<Longrightarrow> size_to_int n = int (n mod 2 ^ 32) - 2 ^ 32"
proof -
  assume n: "2 ^ 31 \<le> n mod 2 ^ 32"
  define r where "r = int (n mod 2 ^ 32)"
  have "int (2 ^ 31) \<le> r" "r < int (2 ^ 32)" using n unfolding r_def by (simp_all only: of_nat_le_iff of_nat_less_iff mod_less_divisor) simp_all
  then have r: "2 ^ 31 \<le> r" "r < 2 ^ 32" by simp_all
  have "(r + 2 ^ 31) mod 2 ^ 32 = (r - 2 ^ 31 + 2 ^ 32) mod 2 ^ 32" by (rule arg_cong [of _ _ "\<lambda>x. x mod 2 ^ 32"]) simp
  also have "\<dots> = r - 2 ^ 31" using r by (simp only: mod_add_self2) (rule mod_pos_pos_trivial, simp_all)
  finally have "signed_take_bit 31 r = r - 2 ^ 32" by (simp add: signed_take_bit_eq_take_bit_shift take_bit_eq_mod)
  then have "signed_take_bit 31 (int (n mod 2 ^ 32)) = int (n mod 2 ^ 32) - 2 ^ 32" by (simp only: r_def)
  then show ?thesis by (subst size_to_int_reduce) (simp add: size_to_int_def signed_of_nat)
qed

section \<open>Characters and strings\<close>

definition newline :: char where "newline = CHR 0x0A"

definition is_space :: "char \<Rightarrow> bool" where
  "is_space c \<longleftrightarrow> c \<in> {CHR 0x20, CHR 0x09, CHR 0x0A, CHR 0x0B, CHR 0x0C, CHR 0x0D}"

text \<open>\<open>std::string::find\<close> of a string; \<open>None\<close> stands for \<open>npos\<close>.\<close>

fun find_sub :: "string \<Rightarrow> string \<Rightarrow> nat option" where
  "find_sub pat [] = (if pat = [] then Some 0 else None)"
| "find_sub pat (c # cs) =
     (if take (length pat) (c # cs) = pat then Some 0 else map_option Suc (find_sub pat cs))"

text \<open>\<open>std::string::substr(pos)\<close> and \<open>substr(pos, n)\<close>.\<close>

definition substr_from :: "string \<Rightarrow> nat \<Rightarrow> string res" where
  "substr_from s pos = (if pos > length s then Inl StdOutOfRange else Inr (drop pos s))"

definition substr :: "string \<Rightarrow> nat \<Rightarrow> nat \<Rightarrow> string res" where
  "substr s pos n = (if pos > length s then Inl StdOutOfRange else Inr (take n (drop pos s)))"

section \<open>String streams\<close>

text \<open>\<open>std::getline(stream, line)\<close>: it fails when the end of the stream is met before any character
  is extracted; the newline is extracted and not stored.\<close>

definition getline :: "string \<Rightarrow> (string \<times> string) option" where
  "getline s =
     (if s = [] then None
      else Some (takeWhile (\<lambda>c. c \<noteq> newline) s, drop 1 (dropWhile (\<lambda>c. c \<noteq> newline) s)))"

text \<open>The lines of \<open>while (std::getline(stream, line))\<close>.\<close>

function getlines :: "string \<Rightarrow> string list" where
  "getlines s = (case getline s of None \<Rightarrow> [] | Some (line, rest) \<Rightarrow> line # getlines rest)"
  by pat_completeness auto
termination
proof (relation "measure length")
  fix s p line rest
  assume "getline s = Some p" "(line, rest) = p"
  then have "s \<noteq> []" and rest: "rest = drop 1 (dropWhile (\<lambda>c. c \<noteq> newline) s)"
    by (auto simp: getline_def split: if_splits)
  moreover have "length (dropWhile (\<lambda>c. c \<noteq> newline) s) \<le> length s" by (rule length_dropWhile_le)
  ultimately show "(rest, s) \<in> measure length"
    by (cases "dropWhile (\<lambda>c. c \<noteq> newline) s") auto
qed simp

declare getlines.simps [simp del]

text \<open>The words of \<open>while (stream >> word)\<close>.\<close>

function stream_words :: "string \<Rightarrow> string list" where
  "stream_words s =
     (let s' = dropWhile is_space s in
      if s' = [] then []
      else takeWhile (\<lambda>c. \<not> is_space c) s' # stream_words (dropWhile (\<lambda>c. \<not> is_space c) s'))"
  by pat_completeness auto
termination
proof (relation "measure length")
  fix s s' :: string
  assume s': "s' = dropWhile is_space s" "s' \<noteq> []"
  then have "\<not> is_space (hd s')" using hd_dropWhile by metis
  with s'(2) have "length (dropWhile (\<lambda>c. \<not> is_space c) s') < length s'"
    by (cases s') (auto simp: le_imp_less_Suc length_dropWhile_le)
  moreover have "length s' \<le> length s" by (simp add: s'(1) length_dropWhile_le)
  ultimately show "(dropWhile (\<lambda>c. \<not> is_space c) s', s) \<in> measure length" by simp
qed simp

declare stream_words.simps [simp del]

section \<open>Joining and splitting\<close>

text \<open>The strings of a list with a separator between them: the shape of every loop of the program
  that appends an element and then, except after the last one, a separator.\<close>

fun join_with :: "'a list \<Rightarrow> 'a list list \<Rightarrow> 'a list" where
  "join_with sep [] = []"
| "join_with sep [x] = x"
| "join_with sep (x # y # ys) = x @ sep @ join_with sep (y # ys)"

lemma join_with_Cons: "join_with sep (x # xs) = (if xs = [] then x else x @ sep @ join_with sep xs)"
  by (cases xs) simp_all

lemma set_join_with: "set (join_with sep xs) \<subseteq> set sep \<union> \<Union> (set (map set xs))"
  by (induction sep xs rule: join_with.induct) auto

lemma join_with_eq_Nil: "sep \<noteq> [] \<Longrightarrow> join_with sep xs = [] \<longleftrightarrow> xs = [] \<or> xs = [[]]"
  by (cases "(sep, xs)" rule: join_with.cases) auto

lemma join_with_snoc: "join_with sep (xs @ [x]) = (if xs = [] then x else join_with sep xs @ sep @ x)"
  by (induction xs) (auto simp: join_with_Cons)

lemma separator_loop_Suc:
  "concat (map (\<lambda>i. f i @ sep) [0..<n]) @ f n = join_with sep (map f [0..<Suc n])"
proof (induction n)
  case (Suc n)
  then have "concat (map (\<lambda>i. f i @ sep) [0..<n]) @ f n = join_with sep (map f [0..<Suc n])" .
  then show ?case using join_with_snoc [of sep "map f [0..<Suc n]" "f (Suc n)"] by simp
qed simp

lemma separator_loop:
  "concat (map (\<lambda>i. f i @ (if i < n - 1 then sep else [])) [0..<n]) = join_with sep (map f [0..<n])"
proof (cases n)
  case (Suc m)
  have "map (\<lambda>i. f i @ (if i < m then sep else [])) [0..<m] = map (\<lambda>i. f i @ sep) [0..<m]" by simp
  then show ?thesis using separator_loop_Suc [of f sep m] by (simp only: Suc diff_Suc_1 upt_Suc_append map_append concat_append le0) simp
qed simp

text \<open>Reading the lines and the words of a joined text gives back what was joined.\<close>

lemma split_newline:
  assumes "newline \<notin> set line"
  shows "takeWhile (\<lambda>c. c \<noteq> newline) line = line" "dropWhile (\<lambda>c. c \<noteq> newline) line = []"
    "takeWhile (\<lambda>c. c \<noteq> newline) (line @ newline # rest) = line"
    "dropWhile (\<lambda>c. c \<noteq> newline) (line @ newline # rest) = newline # rest"
  using assms by (induction line) auto

lemma getline_append:
  "newline \<notin> set line \<Longrightarrow> getline (line @ newline # rest) = Some (line, rest)"
  by (simp add: getline_def split_newline)

lemma getlines_Nil [simp]: "getlines [] = []"
  by (simp add: getlines.simps getline_def)

lemma getlines_line:
  "newline \<notin> set line \<Longrightarrow> getlines (line @ newline # rest) = line # getlines rest"
  by (simp add: getlines.simps [of "line @ newline # rest"] getline_append)

lemma getlines_last:
  assumes "newline \<notin> set line" "line \<noteq> []"
  shows "getlines line = [line]"
  using assms(2) by (subst getlines.simps, unfold getline_def split_newline(1,2) [OF assms(1)]) simp

lemma getlines_join:
  "list_all (\<lambda>l. newline \<notin> set l) ls \<Longrightarrow> ls = [] \<or> last ls \<noteq> [] \<Longrightarrow> getlines (join_with [newline] ls) = ls"
  by (induction ls) (auto simp: join_with_Cons getlines_line getlines_last)

lemma stream_words_space: "is_space c \<Longrightarrow> stream_words (c # s) = stream_words s"
  by (simp add: stream_words.simps [of "c # s"] stream_words.simps [of s])

lemma stream_words_word:
  assumes "w \<noteq> []" "list_all (\<lambda>c. \<not> is_space c) w" "rest = [] \<or> is_space (hd rest)"
  shows "stream_words (w @ rest) = w # stream_words rest"
proof -
  have w: "dropWhile is_space (w @ rest) = w @ rest"
    using assms(1,2) by (cases w) auto
  have t: "takeWhile (\<lambda>c. \<not> is_space c) (w @ rest) = w" "dropWhile (\<lambda>c. \<not> is_space c) (w @ rest) = rest"
    using assms(2,3) by (cases rest; auto simp: list_all_iff takeWhile_append dropWhile_append)+
  show ?thesis using assms(1) by (simp add: stream_words.simps [of "w @ rest"] w t)
qed

lemma stream_words_Nil [simp]: "stream_words [] = []"
  by (simp add: stream_words.simps)

lemma stream_words_join:
  assumes "is_space sp" "list_all (\<lambda>w. w \<noteq> [] \<and> list_all (\<lambda>c. \<not> is_space c) w) ws"
  shows "stream_words (join_with [sp] ws) = ws"
  using assms(2)
proof (induction ws)
  case (Cons w ws)
  then have w: "w \<noteq> []" "list_all (\<lambda>c. \<not> is_space c) w" by simp_all
  then show ?case
    using Cons stream_words_word [OF w, of "[]"] stream_words_word [OF w, of "sp # join_with [sp] ws"] assms(1)
    by (simp add: join_with_Cons stream_words_space)
qed simp

lemma find_sub_skip:
  assumes "c \<notin> set u"
  shows "find_sub (c # pat) (u @ c # pat @ v) = Some (length u)"
  using assms by (induction u) auto

lemma find_sub_absent: "c \<notin> set u \<Longrightarrow> find_sub (c # pat) u = None"
  by (induction u) auto

text \<open>A list read row by row.\<close>

lemma concat_rows:
  "length xs = w * h \<Longrightarrow> concat (map (\<lambda>y. map (\<lambda>x. f (xs ! (y * w + x))) [0..<w]) [0..<h]) = map f xs"
proof (induction h arbitrary: xs)
  case (Suc h)
  have "map (\<lambda>x. f (xs ! (h * w + x))) [0..<w] = map f (drop (w * h) xs)"
    using Suc.prems by (intro nth_equalityI) (simp_all add: mult.commute add.commute)
  moreover have "concat (map (\<lambda>y. map (\<lambda>x. f (xs ! (y * w + x))) [0..<w]) [0..<h])
      = concat (map (\<lambda>y. map (\<lambda>x. f (take (w * h) xs ! (y * w + x))) [0..<w]) [0..<h])"
  proof -
    have "y * w + x < w * h" if "y < h" "x < w" for x y
    proof -
      have "y * w + x < Suc y * w" using that(2) by simp
      also have "\<dots> \<le> w * h" using that(1) by (simp only: mult.commute [of w]) (rule mult_le_mono1, simp)
      finally show ?thesis .
    qed
    then show ?thesis by (intro arg_cong [of _ _ concat] map_cong refl) simp
  qed
  moreover have "\<dots> = map f (take (w * h) xs)" using Suc.prems by (intro Suc.IH) simp
  ultimately have "concat (map (\<lambda>y. map (\<lambda>x. f (xs ! (y * w + x))) [0..<w]) [0..<Suc h])
      = map f (take (w * h) xs) @ map f (drop (w * h) xs)" by simp
  also have "\<dots> = map f xs" by (simp only: append_take_drop_id flip: map_append)
  finally show ?case .
qed simp

end
