(* ===== verification/Dht_Color.thy ===== *)
theory Dht_Color
  imports Complex_Main Prelude
begin

text \<open>
  The colour codes of Dht: \<open>color_types.hpp\<close>, \<open>rgb_to_code.cpp\<close>, \<open>code_to_rgb.cpp\<close> and
  \<open>code_validator.cpp\<close>. A pixel is approximated by a short string over the letters R, G, B, L, D
  and read back from it.

  \<open>BASE_COLORS\<close> is an unordered map whose iteration order the standard leaves open: the order is an
  argument of \<open>rgbToCode\<close>. Floating point occurs in two places where it is exact or its rounding
  cannot be seen. The distance is the square root of an integer below \<open>2\<^sup>1\<^sup>8\<close>, compared with
  \<open>100.0\<close>: the comparison is the one of the squares (\<open>dist_less_iff\<close>). The factors 1.5, 1.0 and 0.5 scale
  integers, so twice the sum is an integer and the cast truncates its half.
\<close>

section \<open>The code\<close>

record RGB =
  rgb_r :: u8
  rgb_g :: u8
  rgb_b :: u8

definition mkRGB :: "u8 \<Rightarrow> u8 \<Rightarrow> u8 \<Rightarrow> RGB" where
  "mkRGB red green blue = \<lparr>rgb_r = red, rgb_g = green, rgb_b = blue\<rparr>"

definition BASE_COLORS :: "(char \<times> RGB) list" where
  "BASE_COLORS = [(CHR ''R'', mkRGB 255 0 0), (CHR ''G'', mkRGB 0 255 0), (CHR ''B'', mkRGB 0 0 255)]"

definition channel_diff :: "u8 \<Rightarrow> u8 \<Rightarrow> int" where
  "channel_diff x y = uint x - uint y"

definition dist_squared :: "RGB \<Rightarrow> RGB \<Rightarrow> int" where
  "dist_squared color base =
     (channel_diff (rgb_r color) (rgb_r base))\<^sup>2
     + (channel_diff (rgb_g color) (rgb_g base))\<^sup>2
     + (channel_diff (rgb_b color) (rgb_b base))\<^sup>2"

fun rgbToCode_loop :: "(char \<times> RGB) list \<Rightarrow> RGB \<Rightarrow> string \<Rightarrow> string" where
  "rgbToCode_loop [] color code = code"
| "rgbToCode_loop ((letter, base) # rest) color code =
     (if dist_squared color base < 100 * 100 then
        (let channel = (if letter = CHR ''R'' then rgb_r color
                        else if letter = CHR ''G'' then rgb_g color
                        else rgb_b color);
             code = code @ [letter];
             code = (if channel > 200 then code @ ''L''
                     else if channel < 55 then code @ ''D''
                     else code)
         in rgbToCode_loop rest color code)
      else rgbToCode_loop rest color code)"

definition rgbToCode :: "(char \<times> RGB) list \<Rightarrow> RGB \<Rightarrow> string" where
  "rgbToCode order color =
     (let code = rgbToCode_loop order color [] in
      if code = [] then
        (if rgb_r color < 30 \<and> rgb_g color < 30 \<and> rgb_b color < 30 then ''RGBD'' else ''RGB'')
      else code)"

text \<open>\<open>std::min(255, (int)(acc + base * factor))\<close> with \<open>factor = factor2 / 2\<close>.\<close>

definition add_scaled :: "u8 \<Rightarrow> u8 \<Rightarrow> nat \<Rightarrow> u8" where
  "add_scaled acc base factor2 = of_nat (min 255 ((2 * unat acc + unat base * factor2) div 2))"

definition code_factor :: "string \<Rightarrow> nat \<times> string" where
  "code_factor cs =
     (case cs of
        d # cs' \<Rightarrow> if d = CHR ''L'' then (3, cs') else if d = CHR ''D'' then (1, cs') else (2, cs)
      | [] \<Rightarrow> (2, cs))"

function codeToRGB_loop :: "string \<Rightarrow> RGB \<Rightarrow> nat \<Rightarrow> RGB \<times> nat" where
  "codeToRGB_loop [] result cnt = (result, cnt)"
| "codeToRGB_loop (c # cs) result cnt =
     (case map_of BASE_COLORS c of
        None \<Rightarrow> codeToRGB_loop cs result cnt
      | Some base \<Rightarrow>
          codeToRGB_loop (snd (code_factor cs))
            (mkRGB (add_scaled (rgb_r result) (rgb_r base) (fst (code_factor cs)))
                   (add_scaled (rgb_g result) (rgb_g base) (fst (code_factor cs)))
                   (add_scaled (rgb_b result) (rgb_b base) (fst (code_factor cs))))
            (cnt + 1))"
  by pat_completeness auto
termination
  by (relation "measure (\<lambda>(cs, _). length cs)") (auto simp: code_factor_def split: list.splits)

definition codeToRGB :: "string \<Rightarrow> RGB" where
  "codeToRGB code =
     (let (result, cnt) = codeToRGB_loop code (mkRGB 0 0 0) 0 in
      if cnt = 0 then mkRGB 0 0 0
      else mkRGB (of_nat (unat (rgb_r result) div cnt))
                 (of_nat (unat (rgb_g result) div cnt))
                 (of_nat (unat (rgb_b result) div cnt)))"

definition isValidCode :: "string \<Rightarrow> bool" where
  "isValidCode code \<longleftrightarrow>
     code \<noteq> [] \<and>
     list_all (\<lambda>c. \<not> (map_of BASE_COLORS c = None \<and> c \<noteq> CHR ''L'' \<and> c \<noteq> CHR ''D'')) code"

section \<open>The distance\<close>

text \<open>The comparison of the source, over the reals, is the integer comparison of the model.\<close>

lemma dist_less_iff:
  "sqrt (of_int (dist_squared color base)) < 100 \<longleftrightarrow> dist_squared color base < 100 * 100"
proof -
  have "sqrt (of_int (dist_squared color base)) < 100
      \<longleftrightarrow> sqrt (of_int (dist_squared color base)) < sqrt (100 * 100)" by simp
  also have "\<dots> \<longleftrightarrow> real_of_int (dist_squared color base) < 100 * 100" by (rule real_sqrt_less_iff)
  finally show ?thesis by linarith
qed

lemma uint_u8: "0 \<le> uint (x :: u8)" "uint x < 256"
  using unsigned_less [of x, where 'a = int] by simp_all

lemma square_less: "(x :: int)\<^sup>2 < 100 * 100 \<longleftrightarrow> - 100 < x \<and> x < 100"
  using abs_le_square_iff [of 100 x] by auto

text \<open>A colour is within the threshold of at most one base colour, and then its channel is above
  155: the letter D is never appended to a base letter by the distance branch.\<close>

definition near :: "RGB \<Rightarrow> char \<Rightarrow> bool" where
  "near color letter \<longleftrightarrow> dist_squared color (the (map_of BASE_COLORS letter)) < 100 * 100"

lemmas base_simps = near_def BASE_COLORS_def dist_squared_def channel_diff_def mkRGB_def

lemma sum3_less: "(x :: int)\<^sup>2 + y\<^sup>2 + z\<^sup>2 < n \<Longrightarrow> x\<^sup>2 < n \<and> y\<^sup>2 < n \<and> z\<^sup>2 < n"
  using zero_le_power2 [of x] zero_le_power2 [of y] zero_le_power2 [of z] by linarith

lemma near_iff:
  "near c CHR ''R'' \<longleftrightarrow> (uint (rgb_r c) - 255)\<^sup>2 + (uint (rgb_g c))\<^sup>2 + (uint (rgb_b c))\<^sup>2 < 100 * 100"
  "near c CHR ''G'' \<longleftrightarrow> (uint (rgb_r c))\<^sup>2 + (uint (rgb_g c) - 255)\<^sup>2 + (uint (rgb_b c))\<^sup>2 < 100 * 100"
  "near c CHR ''B'' \<longleftrightarrow> (uint (rgb_r c))\<^sup>2 + (uint (rgb_g c))\<^sup>2 + (uint (rgb_b c) - 255)\<^sup>2 < 100 * 100"
  by (simp_all add: base_simps)

lemma near_channels:
  "near c CHR ''R'' \<Longrightarrow> uint (rgb_r c) > 155 \<and> uint (rgb_g c) < 100 \<and> uint (rgb_b c) < 100"
  "near c CHR ''G'' \<Longrightarrow> uint (rgb_g c) > 155 \<and> uint (rgb_r c) < 100 \<and> uint (rgb_b c) < 100"
  "near c CHR ''B'' \<Longrightarrow> uint (rgb_b c) > 155 \<and> uint (rgb_r c) < 100 \<and> uint (rgb_g c) < 100"
  unfolding near_iff by - (drule sum3_less, unfold square_less, fastforce)+

lemma near_unique:
  "near c CHR ''R'' \<Longrightarrow> \<not> near c CHR ''G'' \<and> \<not> near c CHR ''B''"
  "near c CHR ''G'' \<Longrightarrow> \<not> near c CHR ''R'' \<and> \<not> near c CHR ''B''"
  "near c CHR ''B'' \<Longrightarrow> \<not> near c CHR ''R'' \<and> \<not> near c CHR ''G''"
  using near_channels [of c] by fastforce+

section \<open>Codes\<close>

text \<open>What one entry of the map contributes to the code.\<close>

definition code_piece :: "RGB \<Rightarrow> char \<Rightarrow> string" where
  "code_piece c letter =
     (if near c letter
      then letter # (if (if letter = CHR ''R'' then rgb_r c
                         else if letter = CHR ''G'' then rgb_g c else rgb_b c) > 200
                     then ''L'' else [])
      else [])"

lemma rgbToCode_loop_pieces:
  "set order \<subseteq> set BASE_COLORS \<Longrightarrow>
     rgbToCode_loop order c code = code @ concat (map (code_piece c \<circ> fst) order)"
proof (induction order arbitrary: code)
  case (Cons e order)
  obtain letter base where e: "e = (letter, base)" by fastforce
  with Cons.prems have in_base: "(letter, base) \<in> set BASE_COLORS" by simp
  then have near: "near c letter \<longleftrightarrow> dist_squared c base < 100 * 100"
    by (auto simp: near_def BASE_COLORS_def)
  have bright: "near c letter \<Longrightarrow>
      \<not> (if letter = CHR ''R'' then rgb_r c else if letter = CHR ''G'' then rgb_g c else rgb_b c) < 55"
    using in_base near_channels [of c] by (auto simp: BASE_COLORS_def word_less_def)
  have "set order \<subseteq> set BASE_COLORS" using Cons.prems by simp
  note IH = Cons.IH [OF this]
  show ?case
    using near bright by (simp add: e IH code_piece_def Let_def del: mult_numeral_1)
qed simp

lemma concat_single:
  "distinct xs \<Longrightarrow> x \<in> set xs \<Longrightarrow> \<forall>y\<in>set xs. y \<noteq> x \<longrightarrow> f y = [] \<Longrightarrow> concat (map f xs) = f x"
  by (induction xs) (auto simp: concat_eq_Nil_conv)

lemma code_piece_Nil: "\<not> near c letter \<Longrightarrow> code_piece c letter = []"
  by (simp add: code_piece_def)

lemma rgbToCode_loop_near:
  assumes order: "distinct order" "set order = set BASE_COLORS"
    and near: "near c letter" "letter \<in> set ''RGB''"
  shows "rgbToCode_loop order c [] = code_piece c letter"
proof -
  obtain base where e: "(letter, base) \<in> set order"
    using near(2) by (auto simp: order(2) BASE_COLORS_def)
  have others: "code_piece c l = []" if "l \<in> set ''RGB''" "l \<noteq> letter" for l
    using that near near_unique [of c] by (intro code_piece_Nil) auto
  have "concat (map (code_piece c \<circ> fst) order) = (code_piece c \<circ> fst) (letter, base)"
  proof (intro concat_single order(1) e ballI impI)
    fix d assume "d \<in> set order" "d \<noteq> (letter, base)"
    then have "fst d \<in> set ''RGB''" "fst d \<noteq> letter" using e by (auto simp: order(2) BASE_COLORS_def)
    then show "(code_piece c \<circ> fst) d = []" unfolding o_apply by (rule others)
  qed
  then show ?thesis using rgbToCode_loop_pieces [of order c "[]"] order(2) by simp
qed

lemma rgbToCode_loop_far:
  assumes "set order = set BASE_COLORS"
    and "\<not> near c CHR ''R''" "\<not> near c CHR ''G''" "\<not> near c CHR ''B''"
  shows "rgbToCode_loop order c [] = []"
  using rgbToCode_loop_pieces [of order c "[]"] assms
  by (auto simp: BASE_COLORS_def concat_eq_Nil_conv code_piece_Nil)

text \<open>The code of a colour, whatever the iteration order of the map.\<close>

lemma rgbToCode_eq:
  assumes "distinct order" "set order = set BASE_COLORS"
  shows "rgbToCode order c =
    (if near c CHR ''R'' then (if rgb_r c > 200 then ''RL'' else ''R'')
     else if near c CHR ''G'' then (if rgb_g c > 200 then ''GL'' else ''G'')
     else if near c CHR ''B'' then (if rgb_b c > 200 then ''BL'' else ''B'')
     else if rgb_r c < 30 \<and> rgb_g c < 30 \<and> rgb_b c < 30 then ''RGBD'' else ''RGB'')"
proof -
  note near = rgbToCode_loop_near [OF assms, of c]
  consider "near c CHR ''R''" | "near c CHR ''G''" | "near c CHR ''B''"
    | "\<not> near c CHR ''R''" "\<not> near c CHR ''G''" "\<not> near c CHR ''B''" by blast
  then show ?thesis
  proof cases
    case 1 then show ?thesis by (simp add: rgbToCode_def near code_piece_def)
  next
    case 2 then show ?thesis
      using near_unique(2) [of c] by (simp add: rgbToCode_def near code_piece_def)
  next
    case 3 then show ?thesis
      using near_unique(3) [of c] by (simp add: rgbToCode_def near code_piece_def)
  next
    case 4 then show ?thesis
      by (simp add: rgbToCode_def rgbToCode_loop_far [OF assms(2)])
  qed
qed

text \<open>The colours a decoded image can have.\<close>

definition palette :: "RGB \<Rightarrow> RGB" where
  "palette c =
     (if near c CHR ''R'' then mkRGB 255 0 0
      else if near c CHR ''G'' then mkRGB 0 255 0
      else if near c CHR ''B'' then mkRGB 0 0 255
      else if rgb_r c < 30 \<and> rgb_g c < 30 \<and> rgb_b c < 30 then mkRGB 85 85 42
      else mkRGB 85 85 85)"

lemmas code_eval = codeToRGB_def code_factor_def add_scaled_def BASE_COLORS_def mkRGB_def

lemma codeToRGB_codes:
  "codeToRGB ''R'' = mkRGB 255 0 0" "codeToRGB ''RL'' = mkRGB 255 0 0"
  "codeToRGB ''G'' = mkRGB 0 255 0" "codeToRGB ''GL'' = mkRGB 0 255 0"
  "codeToRGB ''B'' = mkRGB 0 0 255" "codeToRGB ''BL'' = mkRGB 0 0 255"
  "codeToRGB ''RGB'' = mkRGB 85 85 85" "codeToRGB ''RGBD'' = mkRGB 85 85 42"
  by (simp_all add: code_eval)

lemma codeToRGB_rgbToCode:
  assumes "distinct order" "set order = set BASE_COLORS"
  shows "codeToRGB (rgbToCode order c) = palette c"
  by (simp add: rgbToCode_eq [OF assms] palette_def codeToRGB_codes)

lemma rgbToCode_chars:
  assumes "distinct order" "set order = set BASE_COLORS"
  shows "rgbToCode order c \<noteq> []" "set (rgbToCode order c) \<subseteq> set ''RGBLD''"
  by (simp_all add: rgbToCode_eq [OF assms])

section \<open>Properties\<close>

text \<open>C26. Colour coding is lossy in a precise way: whatever the iteration order of the unordered map,
  the code of a colour is valid (\<open>isValidCode\<close>) and reads back as one of five colours. A colour
  within distance 100 of pure red, green or blue becomes that pure colour; every other colour becomes
  the grey (85, 85, 85), except near-black (all channels below 30), which becomes (85, 85, 42).\<close>

theorem color_code_palette:
  assumes "distinct order" "set order = set BASE_COLORS"
  shows "isValidCode (rgbToCode order c)
    \<and> codeToRGB (rgbToCode order c) =
       (if dist_squared c (mkRGB 255 0 0) < 100 * 100 then mkRGB 255 0 0
        else if dist_squared c (mkRGB 0 255 0) < 100 * 100 then mkRGB 0 255 0
        else if dist_squared c (mkRGB 0 0 255) < 100 * 100 then mkRGB 0 0 255
        else if rgb_r c < 30 \<and> rgb_g c < 30 \<and> rgb_b c < 30 then mkRGB 85 85 42
        else mkRGB 85 85 85)"
proof
  show "isValidCode (rgbToCode order c)"
    by (simp add: isValidCode_def rgbToCode_eq [OF assms] BASE_COLORS_def)
  have "near c CHR ''R'' \<longleftrightarrow> dist_squared c (mkRGB 255 0 0) < 100 * 100"
    "near c CHR ''G'' \<longleftrightarrow> dist_squared c (mkRGB 0 255 0) < 100 * 100"
    "near c CHR ''B'' \<longleftrightarrow> dist_squared c (mkRGB 0 0 255) < 100 * 100"
    by (simp_all add: near_def BASE_COLORS_def)
  then show "codeToRGB (rgbToCode order c) =
       (if dist_squared c (mkRGB 255 0 0) < 100 * 100 then mkRGB 255 0 0
        else if dist_squared c (mkRGB 0 255 0) < 100 * 100 then mkRGB 0 255 0
        else if dist_squared c (mkRGB 0 0 255) < 100 * 100 then mkRGB 0 0 255
        else if rgb_r c < 30 \<and> rgb_g c < 30 \<and> rgb_b c < 30 then mkRGB 85 85 42
        else mkRGB 85 85 85)"
    by (simp only: codeToRGB_rgbToCode [OF assms] palette_def)
qed

theorem color_code_palette_witness:
  "isValidCode (rgbToCode (rev BASE_COLORS) (mkRGB 200 30 30))
   \<and> codeToRGB (rgbToCode (rev BASE_COLORS) (mkRGB 200 30 30)) = mkRGB 255 0 0
   \<and> codeToRGB (rgbToCode (rev BASE_COLORS) (mkRGB 0 0 0)) = mkRGB 85 85 42
   \<and> codeToRGB (rgbToCode (rev BASE_COLORS) (mkRGB 255 255 255)) = mkRGB 85 85 85"
proof -
  have order: "distinct (rev BASE_COLORS)" "set (rev BASE_COLORS) = set BASE_COLORS"
    by (simp add: BASE_COLORS_def mkRGB_def, rule set_rev)
  show ?thesis
    using color_code_palette [OF order, of "mkRGB 200 30 30"] color_code_palette [OF order, of "mkRGB 0 0 0"]
      color_code_palette [OF order, of "mkRGB 255 255 255"]
    by (simp add: dist_squared_def channel_diff_def mkRGB_def)
qed

end
