(* ===== verification/Dht_Text.thy ===== *)
theory Dht_Text
  imports Dht_Base Dht_Color
begin

text \<open>
  The text format of Dht. Images: \<open>pixel_to_text.cpp\<close>, \<open>text_to_pixel.cpp\<close>, \<open>frame_to_text.cpp\<close>.
  Videos: \<open>video_text_joiner.cpp\<close> and the part of \<open>decrypt_video.cpp\<close> that takes the joined text apart.
  Helpers: \<open>text_formatter.cpp\<close>, \<open>text_parser.cpp\<close>, \<open>string_cleaner.cpp\<close>.

  Dimensions are of type \<open>int\<close> and may be negative in a call; the loops then do not run. Counts
  that grow with the data (pixels, rows) are \<open>nat\<close>: the model is that of the code for images of
  fewer than \<open>2\<^sup>3\<^sup>1\<close> pixels. Indexing \<open>pixels\<close> past its end is undefined behaviour in C++; the theorems
  assume the vector has \<open>width * height\<close> elements, as every caller makes it.
\<close>

section \<open>The code\<close>

definition pixelToText :: "(char \<times> RGB) list \<Rightarrow> RGB list \<Rightarrow> int \<Rightarrow> int \<Rightarrow> string" where
  "pixelToText order pixels width height =
     concat (map (\<lambda>y.
       concat (map (\<lambda>x.
         rgbToCode order (pixels ! (y * nat width + x))
         @ (if int x < width - 1 then '' '' else [])) [0..<nat width])
       @ (if int y < height - 1 then [newline] else [])) [0..<nat height])"

definition frameToText :: "(char \<times> RGB) list \<Rightarrow> RGB list \<Rightarrow> int \<Rightarrow> int \<Rightarrow> string" where
  "frameToText order pixels width height = pixelToText order pixels width height"

fun textToPixel_loop :: "string list \<Rightarrow> RGB list \<Rightarrow> nat \<Rightarrow> nat \<Rightarrow> RGB list \<times> nat \<times> nat" where
  "textToPixel_loop [] pixels width height = (pixels, width, height)"
| "textToPixel_loop (line # rest) pixels width height =
     (if line = [] then textToPixel_loop rest pixels width height
      else
        (let pixels = pixels @ map codeToRGB (stream_words line);
             width = (if width = 0 then length pixels div (height + 1) else width)
         in textToPixel_loop rest pixels width (height + 1)))"

definition textToPixel :: "string \<Rightarrow> RGB list \<times> nat \<times> nat" where
  "textToPixel text = textToPixel_loop (getlines text) [] 0 0"

fun formatText_loop :: "string \<Rightarrow> int \<Rightarrow> string \<Rightarrow> int \<Rightarrow> string" where
  "formatText_loop [] width result cnt = result"
| "formatText_loop (c # cs) width result cnt =
     (if c = CHR '' '' then
        (if cnt + 1 \<ge> width then formatText_loop cs width (result @ [c, newline]) 0
         else formatText_loop cs width (result @ [c]) (cnt + 1))
      else formatText_loop cs width (result @ [c]) cnt)"

definition formatText :: "string \<Rightarrow> int \<Rightarrow> string" where
  "formatText text width = formatText_loop text width [] 0"

definition parseText :: "string \<Rightarrow> string list" where
  "parseText text = filter (\<lambda>line. line \<noteq> []) (getlines text)"

fun removeExtraSpaces_loop :: "string \<Rightarrow> bool \<Rightarrow> string \<Rightarrow> string" where
  "removeExtraSpaces_loop [] spaceFound result = result"
| "removeExtraSpaces_loop (c # cs) spaceFound result =
     (if c = CHR '' '' then
        (if \<not> spaceFound then removeExtraSpaces_loop cs True (result @ [c])
         else removeExtraSpaces_loop cs spaceFound result)
      else removeExtraSpaces_loop cs False (result @ [c]))"

definition removeExtraSpaces :: "string \<Rightarrow> string" where
  "removeExtraSpaces str = removeExtraSpaces_loop str False []"

definition trim_char :: "char \<Rightarrow> bool" where
  "trim_char c \<longleftrightarrow> c \<in> {CHR '' '', CHR 0x09, CHR 0x0A, CHR 0x0D}"

text \<open>\<open>find_first_not_of\<close> and \<open>find_last_not_of\<close> of \<open>" \t\n\r"\<close>.\<close>

definition find_first_not_of :: "string \<Rightarrow> nat option" where
  "find_first_not_of str =
     (let n = length (takeWhile trim_char str) in if n = length str then None else Some n)"

definition find_last_not_of :: "string \<Rightarrow> nat option" where
  "find_last_not_of str =
     map_option (\<lambda>n. length str - 1 - n) (find_first_not_of (rev str))"

definition trim :: "string \<Rightarrow> string res" where
  "trim str =
     (case find_first_not_of str of
        None \<Rightarrow> Inr []
      | Some start \<Rightarrow>
          (case find_last_not_of str of
             None \<Rightarrow> substr_from str start
           | Some stop \<Rightarrow> substr str start (stop - start + 1)))"

definition joinVideoText :: "string list \<Rightarrow> string \<Rightarrow> string" where
  "joinVideoText frames audioText =
     concat (map (\<lambda>i. frames ! i @ (if i < length frames - 1 then [newline, newline] else []))
       [0..<length frames])
     @ (if audioText \<noteq> [] then [newline] @ ''---AUDIO_START---'' @ [newline] @ audioText else [])"

definition splitVideoText :: "string \<Rightarrow> (string \<times> string) res" where
  "splitVideoText textData =
     (case find_sub ''---AUDIO_START---'' textData of
        Some audioPos \<Rightarrow>
          res_bind (substr textData 0 audioPos) (\<lambda>videoText.
          res_bind (substr_from textData (audioPos + 18)) (\<lambda>audioText.
          Inr (videoText, audioText)))
      | None \<Rightarrow> Inr (textData, []))"

fun splitFrames_loop :: "string list \<Rightarrow> string \<Rightarrow> string list \<Rightarrow> string list" where
  "splitFrames_loop [] currentFrame frameTexts =
     (if currentFrame \<noteq> [] then frameTexts @ [currentFrame] else frameTexts)"
| "splitFrames_loop (line # rest) currentFrame frameTexts =
     (if line = [] \<and> currentFrame \<noteq> [] then splitFrames_loop rest [] (frameTexts @ [currentFrame])
      else if line \<noteq> [] then
        splitFrames_loop rest ((if currentFrame \<noteq> [] then currentFrame @ [newline] else currentFrame) @ line)
          frameTexts
      else splitFrames_loop rest currentFrame frameTexts)"

definition splitFrames :: "string \<Rightarrow> string list" where
  "splitFrames videoText = splitFrames_loop (getlines videoText) [] []"

text \<open>The loop over the frame texts; the dimensions are those of the first frame.\<close>

fun collectFrames :: "string list \<Rightarrow> nat \<Rightarrow> RGB list \<Rightarrow> nat \<Rightarrow> nat \<Rightarrow> RGB list \<times> nat \<times> nat" where
  "collectFrames [] i allPixels width height = (allPixels, width, height)"
| "collectFrames (frame # rest) i allPixels width height =
     (let (pixels, w, h) = textToPixel frame in
      collectFrames rest (i + 1) (allPixels @ pixels)
        (if i = 0 then w else width) (if i = 0 then h else height))"

definition decodeVideoText :: "string \<Rightarrow> (RGB list \<times> nat \<times> nat \<times> string) res" where
  "decodeVideoText textData =
     res_bind (splitVideoText textData) (\<lambda>(videoText, audioText).
       (let (allPixels, width, height) = collectFrames (splitFrames videoText) 0 [] 0 0 in
        Inr (allPixels, width, height, audioText)))"

section \<open>The text of an image\<close>

text \<open>The rows of codes of an image, as lists.\<close>

definition code_rows :: "(char \<times> RGB) list \<Rightarrow> RGB list \<Rightarrow> nat \<Rightarrow> nat \<Rightarrow> string list list" where
  "code_rows order pixels w h =
     map (\<lambda>y. map (\<lambda>x. rgbToCode order (pixels ! (y * w + x))) [0..<w]) [0..<h]"

abbreviation row_text :: "string list \<Rightarrow> string" where
  "row_text \<equiv> join_with '' ''"

abbreviation image_text :: "string list list \<Rightarrow> string" where
  "image_text rows \<equiv> join_with [newline] (map row_text rows)"

lemma pixelToText_rows:
  "pixelToText order pixels (int w) (int h) = image_text (code_rows order pixels w h)"
proof -
  have cond: "int i < int n - 1 \<longleftrightarrow> i < n - 1" for i n by linarith
  show ?thesis
    unfolding pixelToText_def nat_int cond separator_loop code_rows_def map_map o_def ..
qed


text \<open>A well-formed code: what \<open>rgbToCode\<close> produces.\<close>

definition code_ok :: "string \<Rightarrow> bool" where
  "code_ok code \<longleftrightarrow> code \<noteq> [] \<and> set code \<subseteq> set ''RGBLD''"

lemma code_ok_word: "code_ok code \<Longrightarrow> code \<noteq> [] \<and> list_all (\<lambda>c. \<not> is_space c) code"
  by (auto simp: code_ok_def list_all_iff is_space_def)

lemma row_text_ok:
  assumes "list_all code_ok row" "row \<noteq> []"
  shows "row_text row \<noteq> []" "set (row_text row) \<subseteq> set ''RGBLD ''" "stream_words (row_text row) = row"
proof -
  show "row_text row \<noteq> []"
    using assms by (subst join_with_eq_Nil) (auto simp: code_ok_def)
  show "set (row_text row) \<subseteq> set ''RGBLD ''"
    using assms(1) set_join_with [of "'' ''" row] by (fastforce simp: list_all_iff code_ok_def)
  show "stream_words (row_text row) = row"
    using assms(1) code_ok_word by (intro stream_words_join) (auto simp: is_space_def list_all_iff)
qed

lemma row_text_no_newline: "list_all code_ok row \<Longrightarrow> row \<noteq> [] \<Longrightarrow> newline \<notin> set (row_text row)"
  using row_text_ok(2) [of row] by (auto simp: newline_def)

text \<open>Rows of a rectangular image of positive width.\<close>

definition rows_ok :: "nat \<Rightarrow> string list list \<Rightarrow> bool" where
  "rows_ok w rows \<longleftrightarrow> 0 < w \<and> list_all (\<lambda>row. length row = w \<and> list_all code_ok row) rows"

lemma rows_ok_row: "rows_ok w rows \<Longrightarrow> row \<in> set rows \<Longrightarrow> list_all code_ok row \<and> row \<noteq> [] \<and> length row = w"
  by (auto simp: rows_ok_def list_all_iff)

lemma rows_lines:
  assumes "rows_ok w rows"
  shows "list_all (\<lambda>l. newline \<notin> set l) (map row_text rows)" "list_all (\<lambda>l. l \<noteq> []) (map row_text rows)"
  using rows_ok_row [OF assms] row_text_no_newline row_text_ok(1) by (auto simp: list_all_iff)

lemma getlines_image:
  assumes "rows_ok w rows"
  shows "getlines (image_text rows) = map row_text rows"
proof (rule getlines_join [OF rows_lines(1) [OF assms]])
  show "map row_text rows = [] \<or> last (map row_text rows) \<noteq> []"
    using rows_lines(2) [OF assms] by (cases rows rule: rev_cases) auto
qed

lemma textToPixel_loop_rows:
  assumes "rows_ok w rows" "length pixels = h * w" "width = (if h = 0 then 0 else w)"
  shows "textToPixel_loop (map row_text rows) pixels width h
    = (pixels @ concat (map (map codeToRGB) rows), (if h + length rows = 0 then 0 else w), h + length rows)"
  using assms
proof (induction rows arbitrary: pixels width h)
  case (Cons row rows)
  have row: "list_all code_ok row" "row \<noteq> []" "length row = w" and w: "0 < w"
    using rows_ok_row [OF Cons.prems(1), of row] Cons.prems(1) by (auto simp: rows_ok_def)
  have rows: "rows_ok w rows" using Cons.prems(1) by (simp add: rows_ok_def)
  have "length (pixels @ map codeToRGB row) div (h + 1) = w"
  proof -
    have "h * w + w = w * (h + 1)" by simp
    then show ?thesis using Cons.prems(2) row(3) by (metis length_append length_map nonzero_mult_div_cancel_right add_gr_0 less_numeral_extra(1) less_nat_zero_code)
  qed
  then show ?case
    using row_text_ok(1,3) [OF row(1,2)] w row(3) Cons.prems(2,3)
      Cons.IH [OF rows, of "pixels @ map codeToRGB row" "h + 1" w]
    by (simp add: Let_def)
qed simp

lemma textToPixel_image:
  assumes "rows_ok w rows" "rows \<noteq> []"
  shows "textToPixel (image_text rows) = (concat (map (map codeToRGB) rows), w, length rows)"
  using assms textToPixel_loop_rows [OF assms(1), of "[]" 0 0]
  by (simp add: textToPixel_def getlines_image)

text \<open>The rows of an encoded image.\<close>

lemma code_rows_ok:
  assumes "distinct order" "set order = set BASE_COLORS" "0 < w"
  shows "rows_ok w (code_rows order pixels w h)"
  using assms(3) rgbToCode_chars [OF assms(1,2)]
  by (auto simp: rows_ok_def code_rows_def list_all_iff code_ok_def)

lemma code_rows_pixels:
  assumes "distinct order" "set order = set BASE_COLORS" "length pixels = w * h"
  shows "concat (map (map codeToRGB) (code_rows order pixels w h)) = map palette pixels"
proof -
  have "concat (map (map codeToRGB) (code_rows order pixels w h))
      = concat (map (\<lambda>y. map (\<lambda>x. palette (pixels ! (y * w + x))) [0..<w]) [0..<h])"
    by (simp add: code_rows_def o_def codeToRGB_rgbToCode [OF assms(1,2)])
  then show ?thesis by (simp add: concat_rows [OF assms(3)])
qed

lemma textToPixel_pixelToText:
  assumes "distinct order" "set order = set BASE_COLORS"
    and "0 < w" "0 < h" "length pixels = w * h"
  shows "textToPixel (pixelToText order pixels (int w) (int h)) = (map palette pixels, w, h)"
proof -
  have "code_rows order pixels w h \<noteq> []" "length (code_rows order pixels w h) = h"
    using assms(4) by (simp_all add: code_rows_def)
  then show ?thesis
    by (simp add: pixelToText_rows textToPixel_image [OF code_rows_ok [OF assms(1-3)]]
        code_rows_pixels [OF assms(1,2,5)])
qed

section \<open>The text of a video\<close>

lemma join_with_append:
  "xs \<noteq> [] \<Longrightarrow> ys \<noteq> [] \<Longrightarrow> join_with sep (xs @ ys) = join_with sep xs @ sep @ join_with sep ys"
  by (induction xs) (auto simp: join_with_Cons)

text \<open>A blank line between groups of lines is two newlines between their texts.\<close>

lemma join_groups:
  "list_all (\<lambda>ls. ls \<noteq> []) lss \<Longrightarrow>
     join_with [nl, nl] (map (join_with [nl]) lss) = join_with [nl] (join_with [[]] lss)"
proof (induction lss)
  case (Cons ls lss)
  show ?case
  proof (cases "lss = []")
    case False
    then have "join_with [[]] lss \<noteq> []" using Cons.prems by (subst join_with_eq_Nil) auto
    then show ?thesis
      using Cons False join_with_append [of ls "[] # join_with [[]] lss" "[nl]"]
      by (simp add: join_with_Cons)
  qed simp
qed simp

lemma getlines_join_newline:
  "list_all (\<lambda>l. newline \<notin> set l) ls \<Longrightarrow> ls \<noteq> [] \<Longrightarrow> getlines (join_with [newline] ls @ [newline]) = ls"
proof (induction ls)
  case (Cons l ls)
  then show ?case
    using getlines_line [of l "[]"] getlines_line [of l "join_with [newline] ls @ [newline]"]
    by (simp add: join_with_Cons)
qed simp

lemma join_with_all:
  "list_all P sep \<Longrightarrow> list_all (list_all P) xs \<Longrightarrow> list_all P (join_with sep xs)"
  by (induction sep xs rule: join_with.induct) auto

lemma splitFrames_loop_lines:
  "list_all (\<lambda>l. l \<noteq> []) ls \<Longrightarrow>
     splitFrames_loop (ls @ rest) cur fr
     = splitFrames_loop rest
         (if ls = [] then cur else if cur = [] then join_with [newline] ls
          else cur @ [newline] @ join_with [newline] ls) fr"
proof (induction ls arbitrary: cur)
  case (Cons l ls)
  then show ?case
    using Cons.IH [of "(if cur \<noteq> [] then cur @ [newline] else cur) @ l"] by (simp add: join_with_Cons)
qed simp

lemma splitFrames_loop_groups:
  "list_all (\<lambda>ls. ls \<noteq> [] \<and> list_all (\<lambda>l. l \<noteq> []) ls) lss \<Longrightarrow>
     splitFrames_loop (join_with [[]] lss) [] fr = fr @ map (join_with [newline]) lss"
proof (induction lss arbitrary: fr)
  case (Cons ls lss)
  then have ls: "ls \<noteq> []" "list_all (\<lambda>l. l \<noteq> []) ls" by simp_all
  then have ne: "join_with [newline] ls \<noteq> []" by (subst join_with_eq_Nil) auto
  show ?case
    using Cons ls ne splitFrames_loop_lines [OF ls(2), of "[]" "[]" fr]
      splitFrames_loop_lines [OF ls(2), of "[] # join_with [[]] lss" "[]" fr]
    by (cases "lss = []") (simp_all add: join_with_Cons)
qed simp

text \<open>The frames of a video, each a non-empty list of rows.\<close>

definition frames_ok :: "nat \<Rightarrow> string list list list \<Rightarrow> bool" where
  "frames_ok w rowss \<longleftrightarrow> list_all (\<lambda>rows. rows \<noteq> [] \<and> rows_ok w rows) rowss"

abbreviation frame_lines :: "string list list list \<Rightarrow> string list list" where
  "frame_lines rowss \<equiv> map (map row_text) rowss"

lemma frame_lines_ok:
  assumes "frames_ok w rowss"
  shows "list_all (\<lambda>ls. ls \<noteq> [] \<and> list_all (\<lambda>l. l \<noteq> []) ls) (frame_lines rowss)"
    and "list_all (\<lambda>l. newline \<notin> set l) (join_with [[]] (frame_lines rowss))"
proof -
  show "list_all (\<lambda>ls. ls \<noteq> [] \<and> list_all (\<lambda>l. l \<noteq> []) ls) (frame_lines rowss)"
    using assms rows_lines(2) by (fastforce simp: frames_ok_def list_all_iff)
  show "list_all (\<lambda>l. newline \<notin> set l) (join_with [[]] (frame_lines rowss))"
    using assms rows_lines(1) by (intro join_with_all) (fastforce simp: frames_ok_def list_all_iff)+
qed

lemma splitFrames_video:
  assumes "frames_ok w rowss"
  shows "splitFrames (join_with [newline, newline] (map image_text rowss)) = map image_text rowss"
    and "splitFrames (join_with [newline, newline] (map image_text rowss) @ [newline]) = map image_text rowss"
proof -
  let ?lines = "join_with [[]] (frame_lines rowss)"
  note ok = frame_lines_ok [OF assms]
  have ne: "list_all (\<lambda>ls. ls \<noteq> []) (frame_lines rowss)" using ok(1) by (simp add: list_all_iff)
  have joined: "join_with [newline, newline] (map image_text rowss) = join_with [newline] ?lines"
    using join_groups [OF ne, of newline] by (simp add: o_def)
  have split: "splitFrames_loop ?lines [] [] = map image_text rowss"
    using splitFrames_loop_groups [OF ok(1), of "[]"] by (simp add: o_def)
  have empty: "?lines = [] \<longleftrightarrow> rowss = []" using ne by (subst join_with_eq_Nil) auto
  have "?lines = [] \<or> last ?lines \<noteq> []"
  proof (cases rowss rule: rev_cases)
    case (snoc front rows)
    then have "rows \<noteq> []" "rows_ok w rows" using assms by (simp_all add: frames_ok_def)
    then have "last (map row_text rows) \<noteq> []"
      using rows_lines(2) by (cases rows rule: rev_cases) (auto simp: list_all_iff)
    then show ?thesis using \<open>rows \<noteq> []\<close> by (simp add: snoc join_with_snoc)
  qed simp
  from getlines_join [OF ok(2) this]
  show "splitFrames (join_with [newline, newline] (map image_text rowss)) = map image_text rowss"
    by (simp add: splitFrames_def joined split)
  show "splitFrames (join_with [newline, newline] (map image_text rowss) @ [newline]) = map image_text rowss"
  proof (cases "rowss = []")
    case True
    then show ?thesis using getlines_line [of "[]" "[]"] by (simp add: splitFrames_def)
  next
    case False
    then show ?thesis using getlines_join_newline [OF ok(2)] by (simp add: splitFrames_def joined split empty)
  qed
qed

lemma collectFrames_images:
  assumes "frames_ok w rowss"
  shows "0 < i \<Longrightarrow> collectFrames (map image_text rowss) i acc width height
      = (acc @ concat (map (\<lambda>rows. concat (map (map codeToRGB) rows)) rowss), width, height)"
    and "collectFrames (map image_text rowss) 0 acc width height
      = (acc @ concat (map (\<lambda>rows. concat (map (map codeToRGB) rows)) rowss),
         if rowss = [] then (width, height) else (w, length (hd rowss)))"
proof -
  have later: "0 < i \<Longrightarrow> collectFrames (map image_text rowss) i acc width height
      = (acc @ concat (map (\<lambda>rows. concat (map (map codeToRGB) rows)) rowss), width, height)"
    if "frames_ok w rowss" for rowss i acc width height using that
    by (induction rowss arbitrary: i acc) (simp_all add: frames_ok_def textToPixel_image [of w])
  then show "0 < i \<Longrightarrow> collectFrames (map image_text rowss) i acc width height
      = (acc @ concat (map (\<lambda>rows. concat (map (map codeToRGB) rows)) rowss), width, height)"
    using assms by blast
  show "collectFrames (map image_text rowss) 0 acc width height
      = (acc @ concat (map (\<lambda>rows. concat (map (map codeToRGB) rows)) rowss),
         if rowss = [] then (width, height) else (w, length (hd rowss)))"
    using assms later [of "tl rowss" 1]
    by (cases rowss) (simp_all add: frames_ok_def textToPixel_image [of w])
qed

text \<open>The separator between video and audio starts with a dash, which no frame contains.\<close>

lemma notin_join_with: "c \<notin> set sep \<Longrightarrow> \<forall>x\<in>set xs. c \<notin> set x \<Longrightarrow> c \<notin> set (join_with sep xs)"
  using set_join_with [of sep xs] by auto

lemma no_dash_image:
  assumes "rows_ok w rows"
  shows "CHR ''-'' \<notin> set (image_text rows)"
proof (rule notin_join_with)
  have "CHR ''-'' \<notin> set (row_text row)" if "row \<in> set rows" for row
    using row_text_ok(2) [of row] rows_ok_row [OF assms that] by auto
  then show "\<forall>l\<in>set (map row_text rows). CHR ''-'' \<notin> set l" by simp
qed (simp add: newline_def)

lemma no_dash_video:
  assumes "frames_ok w rowss"
  shows "CHR ''-'' \<notin> set (join_with [newline, newline] (map image_text rowss))"
proof (rule notin_join_with)
  show "\<forall>t\<in>set (map image_text rowss). CHR ''-'' \<notin> set t"
    using assms no_dash_image by (auto simp: frames_ok_def list_all_iff)
qed (simp add: newline_def)

lemma splitVideoText_marker:
  assumes "CHR ''-'' \<notin> set u"
  shows "splitVideoText (u @ ''---AUDIO_START---'' @ newline # v) = Inr (u, v)"
    and "splitVideoText u = Inr (u, [])"
  using find_sub_skip [OF assms, of "''--AUDIO_START---''" "newline # v"] find_sub_absent [OF assms]
  by (simp_all add: splitVideoText_def substr_def substr_from_def)

lemma joinVideoText_eq:
  "joinVideoText frames audioText = join_with [newline, newline] frames
     @ (if audioText \<noteq> [] then [newline] @ ''---AUDIO_START---'' @ newline # audioText else [])"
proof -
  have "concat (map (\<lambda>i. frames ! i @ (if i < length frames - 1 then [newline, newline] else [])) [0..<length frames])
      = join_with [newline, newline] frames"
    using separator_loop [of "(!) frames" "length frames" "[newline, newline]"] by (simp add: map_nth)
  then show ?thesis by (simp add: joinVideoText_def)
qed

lemma decodeVideoText_frames:
  assumes "frames_ok w rowss"
  shows "decodeVideoText (joinVideoText (map image_text rowss) audioText)
    = Inr (concat (map (\<lambda>rows. concat (map (map codeToRGB) rows)) rowss),
           (if rowss = [] then 0 else w), (if rowss = [] then 0 else length (hd rowss)), audioText)"
proof -
  let ?v = "join_with [newline, newline] (map image_text rowss)"
  have dash: "CHR ''-'' \<notin> set ?v" "CHR ''-'' \<notin> set (?v @ [newline])"
    using no_dash_video [OF assms] by (simp_all add: newline_def)
  note split = splitVideoText_marker(2) [OF dash(1)] splitVideoText_marker(1) [OF dash(2), of audioText]
  show ?thesis
    using split splitFrames_video [OF assms] collectFrames_images(2) [OF assms, of "[]" 0 0]
    by (cases "audioText = []") (simp_all add: decodeVideoText_def joinVideoText_eq)
qed

section \<open>Properties\<close>

text \<open>C12. Image text round trip: reading back the text of a non-empty image recovers its width, its height
  and, pixel by pixel, the colour each pixel is coded as.\<close>

theorem image_text_roundtrip:
  assumes "distinct order" "set order = set BASE_COLORS"
    and "0 < w" "0 < h" "length pixels = w * h"
  shows "textToPixel (pixelToText order pixels (int w) (int h))
    = (map (\<lambda>c. codeToRGB (rgbToCode order c)) pixels, w, h)"
  using textToPixel_pixelToText [OF assms] by (simp add: codeToRGB_rgbToCode [OF assms(1,2)])

lemma base_order: "distinct BASE_COLORS"
  by (simp add: BASE_COLORS_def)

theorem image_text_roundtrip_witness:
  "textToPixel (pixelToText BASE_COLORS [mkRGB 250 0 0, mkRGB 0 0 0] 1 2) = ([mkRGB 255 0 0, mkRGB 85 85 42], 1, 2)"
  using image_text_roundtrip [OF base_order refl, of 1 2 "[mkRGB 250 0 0, mkRGB 0 0 0]"]
  by (simp add: codeToRGB_rgbToCode [OF base_order refl] palette_def near_iff) (simp add: mkRGB_def)

text \<open>C13. Video text round trip: from the joined text of any number of frames of the same size and an audio text
  the decoder recovers the audio text, the dimensions of the first frame and the pixels of all
  frames in order.\<close>

theorem video_text_roundtrip:
  assumes "distinct order" "set order = set BASE_COLORS"
    and "0 < w" "0 < h" "\<forall>f\<in>set frames. length f = w * h"
  shows "decodeVideoText (joinVideoText (map (\<lambda>f. frameToText order f (int w) (int h)) frames) audioText)
    = Inr (map (\<lambda>c. codeToRGB (rgbToCode order c)) (concat frames),
           (if frames = [] then 0 else w), (if frames = [] then 0 else h), audioText)"
proof -
  let ?rowss = "map (\<lambda>f. code_rows order f w h) frames"
  have ok: "frames_ok w ?rowss"
    using code_rows_ok [OF assms(1-3)] assms(4) by (auto simp: frames_ok_def list_all_iff code_rows_def)
  have "map (\<lambda>f. frameToText order f (int w) (int h)) frames = map image_text ?rowss"
    by (simp add: frameToText_def pixelToText_rows)
  moreover have "concat (map (\<lambda>rows. concat (map (map codeToRGB) rows)) ?rowss) = map palette (concat frames)"
  proof -
    have "map (\<lambda>rows. concat (map (map codeToRGB) rows)) ?rowss = map (map palette) frames"
      using assms(5) by (simp add: code_rows_pixels [OF assms(1,2)])
    then show ?thesis by (simp only: map_concat)
  qed
  moreover have "frames \<noteq> [] \<Longrightarrow> length (hd ?rowss) = h" by (simp add: hd_map code_rows_def)
  moreover have "?rowss = [] \<longleftrightarrow> frames = []" by simp
  ultimately show ?thesis
    unfolding codeToRGB_rgbToCode [OF assms(1,2)] using decodeVideoText_frames [OF ok, of audioText] by presburger
qed

theorem video_text_roundtrip_witness:
  "decodeVideoText (joinVideoText
     (map (\<lambda>f. frameToText BASE_COLORS f 1 1) [[mkRGB 250 0 0], [mkRGB 0 0 0]]) ''A(7)'')
   = Inr ([mkRGB 255 0 0, mkRGB 85 85 42], 1, 1, ''A(7)'')"
  using video_text_roundtrip [OF base_order refl, of 1 1 "[[mkRGB 250 0 0], [mkRGB 0 0 0]]" "''A(7)''"]
  by (simp add: codeToRGB_rgbToCode [OF base_order refl] palette_def near_iff) (simp add: mkRGB_def)

end
