(* ===== verification/Vli.thy ===== *)
theory Vli
  imports Prelude
begin

unbundle bit_operations_syntax

text \<open>
  Variable-length integers of the .xz format: \<open>common/vli_size.c\<close>, \<open>common/vli_encoder.c\<close> and
  \<open>common/vli_decoder.c\<close>. The optional pointer \<open>vli_pos\<close> is an option: \<open>None\<close> is the
  single-call mode, \<open>Some p\<close> the resumable one. The reference encoding is \<open>vli_bytes\<close>; both
  directions are proved against it on every branch, for any split of the buffers.
\<close>

section \<open>The code\<close>

type_synonym lzma_vli = u64

definition LZMA_VLI_MAX :: lzma_vli where
  "LZMA_VLI_MAX = 0x7FFFFFFFFFFFFFFF"

definition LZMA_VLI_UNKNOWN :: lzma_vli where
  "LZMA_VLI_UNKNOWN = 0xFFFFFFFFFFFFFFFF"

definition LZMA_VLI_BYTES_MAX :: nat where
  "LZMA_VLI_BYTES_MAX = 9"

definition lzma_vli_is_valid :: "lzma_vli \<Rightarrow> bool" where
  "lzma_vli_is_valid vli \<longleftrightarrow> vli \<le> LZMA_VLI_MAX \<or> vli = LZMA_VLI_UNKNOWN"

lemma unat_shr7_less: "(v :: u64) \<noteq> 0 \<Longrightarrow> unat (drop_bit 7 v) < unat v"
  by (simp add: unat_drop_bit_div unat_gt_0)

function vli_size_loop :: "lzma_vli \<Rightarrow> u32 \<Rightarrow> u32" where
  "vli_size_loop vli i =
     (let vli = drop_bit 7 vli; i = i + 1
      in if vli \<noteq> 0 then vli_size_loop vli i else i)"
  by pat_completeness auto
termination
proof (relation "measure (\<lambda>(vli, i). unat vli)")
  fix vli :: lzma_vli and i :: u32 and x xa
  assume "x = drop_bit 7 vli" "xa = i + 1" "x \<noteq> 0"
  then show "((x, xa), (vli, i)) \<in> measure (\<lambda>(vli, i). unat vli)"
    using unat_shr7_less [of vli] by fastforce
qed simp

declare vli_size_loop.simps [simp del]

definition lzma_vli_size :: "lzma_vli \<Rightarrow> u32" where
  "lzma_vli_size vli = (if vli > LZMA_VLI_MAX then 0 else vli_size_loop vli 0)"

function vli_encode_loop ::
  "bool \<Rightarrow> lzma_vli \<Rightarrow> nat \<Rightarrow> u8 list \<Rightarrow> nat \<Rightarrow> nat \<Rightarrow> lzma_ret \<times> nat \<times> u8 list \<times> nat" where
  "vli_encode_loop single vli vli_pos out out_pos out_size =
     (if vli \<ge> 0x80 then
        (let vli_pos = vli_pos + 1;
             out = out[out_pos := ucast vli OR 0x80];
             vli = drop_bit 7 vli;
             out_pos = out_pos + 1
         in if out_pos = out_size
            then (if single then LZMA_PROG_ERROR else LZMA_OK, vli_pos, out, out_pos)
            else vli_encode_loop single vli vli_pos out out_pos out_size)
      else (if single then LZMA_OK else LZMA_STREAM_END,
            vli_pos + 1, out[out_pos := ucast vli], out_pos + 1))"
  by pat_completeness auto
termination
proof (relation "measure (\<lambda>(s, vli, _). unat vli)", goal_cases)
  case (2 single vli vli_pos out out_pos out_size)
  from 2(1) have "vli \<noteq> 0" by auto
  then show ?case using unat_shr7_less [of vli] 2 by simp
qed simp

declare vli_encode_loop.simps [simp del]

definition lzma_vli_encode ::
  "lzma_vli \<Rightarrow> nat option \<Rightarrow> u8 list \<Rightarrow> nat \<Rightarrow> nat \<Rightarrow> lzma_ret \<times> nat option \<times> u8 list \<times> nat" where
  "lzma_vli_encode vli vli_pos out out_pos out_size =
     (let single = (vli_pos = None);
          pos = (case vli_pos of None \<Rightarrow> 0 | Some p \<Rightarrow> p)
      in if single \<and> out_pos \<ge> out_size then (LZMA_PROG_ERROR, vli_pos, out, out_pos)
         else if \<not> single \<and> out_pos \<ge> out_size then (LZMA_BUF_ERROR, vli_pos, out, out_pos)
         else if pos \<ge> LZMA_VLI_BYTES_MAX \<or> vli > LZMA_VLI_MAX
         then (LZMA_PROG_ERROR, vli_pos, out, out_pos)
         else (case vli_encode_loop single (drop_bit (pos * 7) vli) pos out out_pos out_size of
                 (ret, pos', out', out_pos') \<Rightarrow>
                   (ret, if single then None else Some pos', out', out_pos')))"

function vli_decode_loop ::
  "bool \<Rightarrow> lzma_vli \<Rightarrow> nat \<Rightarrow> u8 list \<Rightarrow> nat \<Rightarrow> nat \<Rightarrow> lzma_ret \<times> lzma_vli \<times> nat \<times> nat" where
  "vli_decode_loop single vli vli_pos in_buf in_pos in_size =
     (let byte = in_buf ! in_pos;
          in_pos = in_pos + 1;
          vli = vli + push_bit (vli_pos * 7) (ucast (byte AND 0x7F));
          vli_pos = vli_pos + 1
      in if byte AND 0x80 = 0
         then (if byte = 0x00 \<and> vli_pos > 1 then (LZMA_DATA_ERROR, vli, vli_pos, in_pos)
               else (if single then LZMA_OK else LZMA_STREAM_END, vli, vli_pos, in_pos))
         else if vli_pos = LZMA_VLI_BYTES_MAX then (LZMA_DATA_ERROR, vli, vli_pos, in_pos)
         else if in_pos < in_size then vli_decode_loop single vli vli_pos in_buf in_pos in_size
         else (if single then LZMA_DATA_ERROR else LZMA_OK, vli, vli_pos, in_pos))"
  by pat_completeness auto
termination
  by (relation "measure (\<lambda>(_, _, _, _, in_pos, in_size). in_size - in_pos)") auto

declare vli_decode_loop.simps [simp del]

definition lzma_vli_decode ::
  "lzma_vli \<Rightarrow> nat option \<Rightarrow> u8 list \<Rightarrow> nat \<Rightarrow> nat \<Rightarrow> lzma_ret \<times> lzma_vli \<times> nat option \<times> nat" where
  "lzma_vli_decode vli vli_pos in_buf in_pos in_size =
     (case vli_pos of
        None \<Rightarrow>
          if in_pos \<ge> in_size then (LZMA_DATA_ERROR, 0, None, in_pos)
          else (case vli_decode_loop True 0 0 in_buf in_pos in_size of
                  (ret, vli', _, in_pos') \<Rightarrow> (ret, vli', None, in_pos'))
      | Some p \<Rightarrow>
          (let vli = (if p = 0 then 0 else vli)
           in if p \<ge> LZMA_VLI_BYTES_MAX \<or> drop_bit (p * 7) vli \<noteq> 0
              then (LZMA_PROG_ERROR, vli, Some p, in_pos)
              else if in_pos \<ge> in_size then (LZMA_BUF_ERROR, vli, Some p, in_pos)
              else (case vli_decode_loop False vli p in_buf in_pos in_size of
                      (ret, vli', p', in_pos') \<Rightarrow> (ret, vli', Some p', in_pos'))))"

section \<open>The reference encoding\<close>

text \<open>Base 128, least significant group first, the top bit set on every byte but the last.\<close>

fun vli_bytes :: "nat \<Rightarrow> u8 list" where
  "vli_bytes n =
     (if n < 128 then [of_nat n] else (of_nat (n mod 128) OR 0x80) # vli_bytes (n div 128))"

declare vli_bytes.simps [simp del]

lemma vli_bytes_small: "n < 128 \<Longrightarrow> vli_bytes n = [of_nat n]"
  by (subst vli_bytes.simps) simp

lemma vli_bytes_large:
  "128 \<le> n \<Longrightarrow> vli_bytes n = (of_nat (n mod 128) OR 0x80) # vli_bytes (n div 128)"
  by (subst vli_bytes.simps) simp

lemma vli_bytes_nonempty [simp]: "vli_bytes n \<noteq> []"
  by (subst vli_bytes.simps) simp

lemma length_vli_bytes_pos [simp]: "0 < length (vli_bytes n)"
  by simp

lemma vli_bytes_length_bound: "n < 128 ^ k \<Longrightarrow> 0 < k \<Longrightarrow> length (vli_bytes n) \<le> k"
proof (induction k arbitrary: n)
  case (Suc k)
  show ?case
  proof (cases "n < 128")
    case True
    then show ?thesis by (simp add: vli_bytes_small)
  next
    case False
    with Suc.prems have "n div 128 < 128 ^ k" by (simp add: less_mult_imp_div_less mult.commute)
    moreover from False Suc.prems have "0 < k" by (cases k) auto
    ultimately have "length (vli_bytes (n div 128)) \<le> k" by (rule Suc.IH)
    with False show ?thesis by (simp add: vli_bytes_large)
  qed
qed simp

lemma vli_bytes_length_iff: "p < length (vli_bytes n) \<longleftrightarrow> p = 0 \<or> 128 ^ p \<le> n"
proof (induction p arbitrary: n)
  case (Suc p)
  show ?case
  proof (cases "n < 128")
    case True
    then have "n < 128 ^ Suc p" using less_le_trans [of n 128 "128 ^ Suc p"] by simp
    with True show ?thesis by (simp add: vli_bytes_small)
  next
    case False
    have "128 ^ p \<le> n div 128 \<longleftrightarrow> 128 ^ Suc p \<le> n"
      by (simp add: less_eq_div_iff_mult_less_eq mult.commute)
    with False Suc.IH [of "n div 128"] show ?thesis
      by (cases p) (auto simp: vli_bytes_large)
  qed
qed simp

lemma drop_vli_bytes: "p < length (vli_bytes n) \<Longrightarrow> drop p (vli_bytes n) = vli_bytes (n div 128 ^ p)"
proof (induction p arbitrary: n)
  case (Suc p)
  then have "128 \<le> n" by (cases "n < 128") (auto simp: vli_bytes_small)
  with Suc show ?case by (simp add: vli_bytes_large div_mult2_eq)
qed simp

lemma vli_bytes_length_max: "n < 2 ^ 63 \<Longrightarrow> length (vli_bytes n) \<le> LZMA_VLI_BYTES_MAX"
  using vli_bytes_length_bound [of n 9] by (simp add: LZMA_VLI_BYTES_MAX_def)

section \<open>Size\<close>

lemma vli_size_loop_eq:
  "vli_size_loop vli i = i + of_nat (length (vli_bytes (unat vli)))"
proof (induction vli i rule: vli_size_loop.induct)
  case (1 vli i)
  have u: "unat (drop_bit 7 vli) = unat vli div 128"
    by (simp add: unat_drop_bit_div)
  show ?case
  proof (cases "drop_bit 7 vli = 0")
    case True
    with u have "unat vli < 128" by simp
    with True show ?thesis
      by (subst vli_size_loop.simps) (simp add: vli_bytes_small)
  next
    case False
    then have "unat (drop_bit 7 vli) \<noteq> 0" by (metis unat_eq_zero)
    with u have "128 \<le> unat vli" by simp
    with False u "1" show ?thesis
      by (subst vli_size_loop.simps) (simp add: vli_bytes_large)
  qed
qed

lemma vli_le_max_iff: "vli \<le> LZMA_VLI_MAX \<longleftrightarrow> unat vli < 2 ^ 63"
  by (simp add: LZMA_VLI_MAX_def word_le_nat_alt) arith

lemma lzma_vli_size_eq:
  "vli \<le> LZMA_VLI_MAX \<Longrightarrow> unat (lzma_vli_size vli) = length (vli_bytes (unat vli))"
proof -
  assume v: "vli \<le> LZMA_VLI_MAX"
  then have "length (vli_bytes (unat vli)) \<le> 9"
    using vli_bytes_length_max [of "unat vli"] by (simp add: vli_le_max_iff LZMA_VLI_BYTES_MAX_def)
  with v show ?thesis
    by (simp add: lzma_vli_size_def vli_size_loop_eq unat_of_nat linorder_not_less)
qed

section \<open>Encoder\<close>

lemma or_80_take_bit: "(x :: u8) OR 0x80 = take_bit 7 x OR 0x80"
  by (rule bit_word_eqI) (auto simp: bit_simps less_Suc_eq numeral_eq_Suc)

lemma of_nat_mod_128: "(of_nat (n mod 128) :: u8) = take_bit 7 (of_nat n)"
  by (simp add: take_bit_of_nat) (simp add: take_bit_eq_mod)

lemma ucast_or_80:
  "ucast (v :: u64) OR (0x80 :: u8) = of_nat (unat v mod 128) OR 0x80"
  by (subst or_80_take_bit) (simp add: of_nat_mod_128 of_nat_unat)

lemma vli_encode_loop_eq:
  assumes "out_pos < out_size" "out_size \<le> length out"
    and "bs = vli_bytes (unat vli)" "k = min (length bs) (out_size - out_pos)"
  shows "vli_encode_loop single vli pos out out_pos out_size =
     (if length bs \<le> out_size - out_pos
      then (if single then LZMA_OK else LZMA_STREAM_END)
      else (if single then LZMA_PROG_ERROR else LZMA_OK),
      pos + k, buf_write out_pos (take k bs) out, out_pos + k)"
  using assms
proof (induction single vli pos out out_pos out_size arbitrary: bs k rule: vli_encode_loop.induct)
  case (1 single vli pos out out_pos out_size)
  have u: "unat (drop_bit 7 vli) = unat vli div 128"
    by (simp add: unat_drop_bit_div)
  show ?case
  proof (cases "vli \<ge> 0x80")
    case False
    then have "unat vli < 128" by (simp add: word_le_nat_alt not_le)
    with False "1.prems" show ?thesis
      by (subst vli_encode_loop.simps)
        (simp add: vli_bytes_small of_nat_unat buf_simps)
  next
    case True
    then have large: "128 \<le> unat vli" by (simp add: word_le_nat_alt)
    define bs' where "bs' = vli_bytes (unat vli div 128)"
    have bs: "bs = (of_nat (unat vli mod 128) OR 0x80) # bs'"
      using "1.prems"(3) large by (simp add: vli_bytes_large bs'_def)
    have bs'0: "0 < length bs'" by (simp add: bs'_def)
    let ?out = "out[out_pos := ucast vli OR 0x80]"
    have out: "?out = buf_write out_pos [of_nat (unat vli mod 128) OR 0x80] out"
      using "1.prems" by (simp add: ucast_or_80 list_update_buf_write)
    show ?thesis
    proof (cases "Suc out_pos = out_size")
      case full: True
      then have "k = 1" using "1.prems"(4) bs bs'0 by (auto simp: min_def)
      with True full bs bs'0 out show ?thesis
        by (subst vli_encode_loop.simps) (auto simp flip: full)
    next
      case more: False
      define k' where "k' = min (length bs') (out_size - Suc out_pos)"
      have k: "k = Suc k'" using more "1.prems"(1,2,4) bs by (auto simp: k'_def min_def)
      have "vli_encode_loop single (drop_bit 7 vli) (pos + 1) ?out (out_pos + 1) out_size =
         (if length bs' \<le> out_size - (out_pos + 1)
          then (if single then LZMA_OK else LZMA_STREAM_END)
          else (if single then LZMA_PROG_ERROR else LZMA_OK),
          pos + 1 + k', buf_write (out_pos + 1) (take k' bs') ?out, out_pos + 1 + k')"
        using True more "1.prems" by (intro "1.IH") (auto simp: bs'_def k'_def u)
      moreover have "buf_write (Suc out_pos) (take k' bs') ?out
          = buf_write out_pos (take k bs) out"
        using more "1.prems"(1,2) by (simp add: out k bs buf_simps k'_def)
      ultimately show ?thesis using True more bs "1.prems"(1)
        by (subst vli_encode_loop.simps) (auto simp: k)
    qed
  qed
qed

lemma lzma_vli_encode_multi:
  assumes "vli \<le> LZMA_VLI_MAX" "bs = vli_bytes (unat vli)" "p < length bs"
    and "out_pos < out_size" "out_size \<le> length out"
    and "k = min (length bs - p) (out_size - out_pos)"
  shows "lzma_vli_encode vli (Some p) out out_pos out_size =
     (if length bs - p \<le> out_size - out_pos then LZMA_STREAM_END else LZMA_OK,
      Some (p + k), buf_write out_pos (take k (drop p bs)) out, out_pos + k)"
proof -
  have len: "length bs \<le> 9"
    using assms(1,2) vli_bytes_length_max [of "unat vli"]
    by (simp add: vli_le_max_iff LZMA_VLI_BYTES_MAX_def)
  have "unat (drop_bit (p * 7) vli) = unat vli div 128 ^ p"
    by (simp add: unat_drop_bit_div power_mult mult.commute [of p])
  then have "vli_bytes (unat (drop_bit (p * 7) vli)) = drop p bs"
    using assms(2,3) by (simp add: drop_vli_bytes)
  then show ?thesis using assms len
    by (simp add: lzma_vli_encode_def LZMA_VLI_BYTES_MAX_def
          vli_encode_loop_eq [where bs = "drop p bs" and k = k])
qed

lemma lzma_vli_encode_single:
  assumes "vli \<le> LZMA_VLI_MAX" "bs = vli_bytes (unat vli)"
    and "out_pos + length bs \<le> out_size" "out_size \<le> length out"
  shows "lzma_vli_encode vli None out out_pos out_size =
     (LZMA_OK, None, buf_write out_pos bs out, out_pos + length bs)"
proof -
  have "0 < length bs" using assms(2) by simp
  with assms(3) have r: "out_pos < out_size" "length bs \<le> out_size - out_pos" by linarith+
  show ?thesis
    using assms r
    by (simp add: lzma_vli_encode_def LZMA_VLI_BYTES_MAX_def linorder_not_less not_le
          vli_encode_loop_eq [where bs = bs and k = "length bs"])
qed

lemma lzma_vli_encode_no_room:
  assumes "out_size < out_pos + length (vli_bytes (unat vli))" "out_size \<le> length out"
  shows "fst (lzma_vli_encode vli None out out_pos out_size) = LZMA_PROG_ERROR"
proof (cases "out_pos < out_size")
  case True
  with assms(1) have "\<not> length (vli_bytes (unat vli)) \<le> out_size - out_pos" by simp
  with True assms(2) show ?thesis
    by (simp add: lzma_vli_encode_def vli_encode_loop_eq [OF _ _ refl refl])
qed (simp add: lzma_vli_encode_def)

section \<open>Decoder\<close>

lemma unat_and_7f: "unat ((b :: u8) AND 0x7F) = unat b mod 128"
  using unat_and_mask [of b 7] by (simp add: mask_eq_exp_minus_1)

lemma and_80_iff: "(b :: u8) AND 0x80 = 0 \<longleftrightarrow> unat b < 128"
proof -
  have "b AND 0x80 = 0 \<longleftrightarrow> \<not> bit b 7"
    using and_exp_eq_0_iff_not_bit [of b 7] by simp
  also have "\<dots> \<longleftrightarrow> \<not> bit (unat b) 7"
    by (simp add: bit_unsigned_iff)
  also have "\<dots> \<longleftrightarrow> unat b < 128"
  proof -
    from unat_u8_less [of b] have "unat b div 128 = (if unat b < 128 then 0 else 1)" by (auto intro: div_nat_eqI)
    then show ?thesis unfolding bit_iff_odd by simp
  qed
  finally show ?thesis .
qed

lemma vli_accum:
  assumes "unat vli < 128 ^ p" "p < 9"
  shows "unat (vli + push_bit (p * 7) (ucast ((b :: u8) AND 0x7F)) :: lzma_vli)
     = unat vli + 128 ^ p * (unat b mod 128)"
proof -
  have p: "(128 :: nat) ^ p * 128 \<le> 9223372036854775808"
  proof -
    have "(128 :: nat) ^ p * 128 = 128 ^ (p + 1)" by simp
    also have "\<dots> \<le> 128 ^ 9" using assms(2) by (intro power_increasing) auto
    finally show ?thesis by simp
  qed
  have m: "128 ^ p * (unat b mod 128) + 128 ^ p \<le> 128 ^ p * 128"
  proof -
    have "unat b mod 128 + 1 \<le> 128" by simp
    then have "128 ^ p * (unat b mod 128 + 1) \<le> 128 ^ p * (128 :: nat)" by (rule mult_le_mono2)
    then show ?thesis by (simp add: algebra_simps)
  qed
  have lt: "128 ^ p * (unat b mod 128) < 18446744073709551616"
    using m p assms(1) by linarith
  have "unat (ucast (b AND 0x7F) :: lzma_vli) = unat b mod 128"
    by (simp add: unsigned_ucast_eq unat_and_7f take_bit_eq_mod)
  then have "unat (push_bit (p * 7) (ucast (b AND 0x7F)) :: lzma_vli) = 128 ^ p * (unat b mod 128)"
    using lt
    by (subst unsigned_push_bit_eq, subst push_bit_eq_mult)
      (simp add: take_bit_eq_mod power_mult mult.commute [of p] mult.commute [of "unat b mod 128"])
  moreover have "unat vli + 128 ^ p * (unat b mod 128) < 18446744073709551616"
    using m p assms(1) by linarith
  ultimately show ?thesis by (simp add: unat_word_ariths)
qed

lemma vli_accum_bound:
  "unat vli < 128 ^ p \<Longrightarrow> unat vli + 128 ^ p * (unat (b :: u8) mod 128) < 128 ^ Suc p"
proof -
  assume "unat vli < 128 ^ p"
  moreover have "128 ^ p * (unat b mod 128) + 128 ^ p \<le> 128 ^ p * (128 :: nat)"
    using mult_le_mono2 [of "unat b mod 128 + 1" 128 "128 ^ p"]
    by (simp only: distrib_left mult_1_right)
  ultimately show ?thesis unfolding power_Suc by linarith
qed

lemma mod_128_Suc: "n mod 128 ^ Suc p = n mod 128 ^ p + 128 ^ p * (n div 128 ^ p mod 128)" for n :: nat
  using mod_mult2_eq [of n "128 ^ p" 128] by (simp add: mult.commute add.commute)

text \<open>The bytes of an encoding, one at a time.\<close>

lemma vli_bytes_nth_mod:
  "p < length (vli_bytes n) \<Longrightarrow> unat (vli_bytes n ! p) mod 128 = n div 128 ^ p mod 128"
proof (induction p arbitrary: n)
  case 0
  show ?case
  proof (cases "n < 128")
    case False
    have "unat ((of_nat (n mod 128) OR 0x80) AND 0x7F :: u8) = unat (of_nat (n mod 128) AND 0x7F :: u8)"
      by (simp add: bit.conj_disj_distrib2)
    then have "unat (of_nat (n mod 128) OR 0x80 :: u8) mod 128 = unat (of_nat (n mod 128) :: u8) mod 128"
      by (simp only: unat_and_7f)
    also have "\<dots> = n mod 128" by (simp add: unat_of_nat mod_mod_cancel)
    finally show ?thesis using False by (simp add: vli_bytes_large)
  qed (simp add: vli_bytes_small unat_of_nat)
next
  case (Suc p)
  then have "128 \<le> n" by (cases "n < 128") (auto simp: vli_bytes_small)
  with Suc show ?case by (simp add: vli_bytes_large div_mult2_eq)
qed

lemma vli_bytes_nth_last:
  "p < length (vli_bytes n) \<Longrightarrow> unat (vli_bytes n ! p) < 128 \<longleftrightarrow> Suc p = length (vli_bytes n)"
proof (induction p arbitrary: n)
  case 0
  show ?case
  proof (cases "n < 128")
    case False
    have "(of_nat (n mod 128) OR 0x80 :: u8) AND 0x80 \<noteq> 0"
      by (simp add: bit.conj_disj_distrib2)
    then have "\<not> unat (of_nat (n mod 128) OR 0x80 :: u8) < 128" by (metis and_80_iff)
    then show ?thesis using False by (simp add: vli_bytes_large)
  qed (simp add: vli_bytes_small unat_of_nat)
next
  case (Suc p)
  then have "128 \<le> n" by (cases "n < 128") (auto simp: vli_bytes_small)
  with Suc show ?case by (simp add: vli_bytes_large)
qed

lemma vli_bytes_last_nonzero:
  assumes "Suc p = length (vli_bytes n)" "0 < p"
  shows "vli_bytes n ! p \<noteq> 0"
proof
  assume "vli_bytes n ! p = 0"
  then have "n div 128 ^ p mod 128 = 0"
    using vli_bytes_nth_mod [of p n] assms(1) by simp
  moreover have "128 ^ p \<le> n" "n < 128 ^ Suc p"
    using assms vli_bytes_length_iff [of p n] vli_bytes_length_iff [of "Suc p" n] by auto
  then have "n div 128 ^ p \<noteq> 0" "n div 128 ^ p < 128"
    by (simp_all add: div_eq_0_iff less_mult_imp_div_less mult.commute)
  ultimately show False by simp
qed

lemma vli_decode_loop_eq:
  assumes "in_pos < in_size" "in_size \<le> length in_buf"
    and "n < 2 ^ 63" "bs = vli_bytes n" "p < length bs" "unat vli = n mod 128 ^ p"
    and "k = min (length bs - p) (in_size - in_pos)"
    and "take k (drop in_pos in_buf) = take k (drop p bs)"
  shows "vli_decode_loop single vli p in_buf in_pos in_size =
     (if length bs - p \<le> in_size - in_pos
      then (if single then LZMA_OK else LZMA_STREAM_END)
      else (if single then LZMA_DATA_ERROR else LZMA_OK),
      of_nat (n mod 128 ^ (p + k)), p + k, in_pos + k)"
  using assms
proof (induction "in_size - in_pos" arbitrary: vli p in_pos k rule: less_induct)
  case less
  let ?b = "in_buf ! in_pos"
  have len: "length bs \<le> 9"
    using less.prems(3,4) vli_bytes_length_max [of n] by (simp add: LZMA_VLI_BYTES_MAX_def)
  have k0: "0 < k" using less.prems(1,5,7) by simp
  have b: "?b = bs ! p"
    using arg_cong [OF less.prems(8), of "\<lambda>xs. xs ! 0"] k0 less.prems(1,2,5) by (simp add: nth_drop)
  define vli' :: lzma_vli where "vli' = vli + push_bit (p * 7) (ucast (?b AND 0x7F))"
  have v': "unat vli' = n mod 128 ^ Suc p"
    using vli_accum [of vli p ?b] less.prems(4,5,6) len vli_bytes_nth_mod [of p n] mod_128_Suc [of n p]
    by (simp add: vli'_def b)
  have v'': "vli' = of_nat (n mod 128 ^ Suc p)"
    unfolding v' [symmetric] by simp
  have last: "?b AND 0x80 = 0 \<longleftrightarrow> Suc p = length bs"
    using less.prems(4,5) vli_bytes_nth_last [of p n] by (simp add: and_80_iff b)
  have canon: "\<not> (?b = 0 \<and> Suc p > 1)" if "Suc p = length bs"
    using that less.prems(4) vli_bytes_last_nonzero [of p n] b by auto
  show ?case
  proof (cases "Suc p = length bs")
    case True
    then have "k = 1" using less.prems(1,7) by simp
    with True last canon v'' less.prems(1) show ?thesis
      by (subst vli_decode_loop.simps) (simp add: Let_def vli'_def)
  next
    case more: False
    have p9: "Suc p \<noteq> LZMA_VLI_BYTES_MAX"
      using more len less.prems(5) by (simp add: LZMA_VLI_BYTES_MAX_def)
    show ?thesis
    proof (cases "Suc in_pos < in_size")
      case False
      then have "k = 1" "\<not> length bs - p \<le> in_size - in_pos"
        using more less.prems(1,5,7) by auto
      with more last False p9 v'' less.prems(1) show ?thesis
        by (subst vli_decode_loop.simps) (simp add: Let_def vli'_def)
    next
      case True
      define k' where "k' = k - 1"
      have k: "k = Suc k'" using k0 by (simp add: k'_def)
      have kk: "k' = min (length bs - (p + 1)) (in_size - (in_pos + 1))"
        using less.prems(7) by (auto simp: k'_def min_def)
      have "take k' (drop (Suc in_pos) in_buf) = take k' (drop (Suc p) bs)"
        using arg_cong [OF less.prems(8), of tl]
        by (simp add: k drop_Suc tl_drop tl_take)
      then have "vli_decode_loop single vli' (p + 1) in_buf (in_pos + 1) in_size =
         (if length bs - (p + 1) \<le> in_size - (in_pos + 1)
          then (if single then LZMA_OK else LZMA_STREAM_END)
          else (if single then LZMA_DATA_ERROR else LZMA_OK),
          of_nat (n mod 128 ^ (p + 1 + k')), p + 1 + k', in_pos + 1 + k')"
        using True more v' kk less.prems(2-5) by (intro less.hyps) simp_all
      moreover have "length bs - (p + 1) \<le> in_size - (in_pos + 1) \<longleftrightarrow> length bs - p \<le> in_size - in_pos"
        using True less.prems(5) by linarith
      ultimately show ?thesis using True more last p9
        by (subst vli_decode_loop.simps) (simp add: Let_def vli'_def k)
    qed
  qed
qed

lemma vli_bytes_snoc:
  assumes "x < 128 ^ p" "b < 128" "0 < p \<Longrightarrow> b \<noteq> 0" "n = x + 128 ^ p * b"
  shows "p < length (vli_bytes n)" "n mod 128 ^ p = x" "drop p (vli_bytes n) = [of_nat b]"
    "n < 128 ^ Suc p"
proof -
  have d: "n div 128 ^ p = b" and m: "n mod 128 ^ p = x" using assms(1,4) by auto
  show len: "p < length (vli_bytes n)"
  proof (cases "p = 0")
    case False
    with assms(3) have "128 ^ p \<le> 128 ^ p * b" by simp
    then show ?thesis unfolding assms(4) vli_bytes_length_iff by linarith
  qed simp
  show "n mod 128 ^ p = x" by (fact m)
  show "drop p (vli_bytes n) = [of_nat b]"
    using len assms(2) by (simp add: drop_vli_bytes d vli_bytes_small)
  have "128 ^ p * b + 128 ^ p \<le> 128 ^ p * 128"
    using mult_le_mono2 [of "b + 1" 128 "128 ^ p"] assms(2) by (simp only: distrib_left) simp
  then show "n < 128 ^ Suc p" using assms(1,4) unfolding power_Suc by linarith
qed

lemma mod_128_inj:
  "a mod 128 = b mod 128 \<Longrightarrow> \<not> a < 128 \<Longrightarrow> \<not> b < 128 \<Longrightarrow> a < 256 \<Longrightarrow> b < 256 \<Longrightarrow> a = b" for a b :: nat
  by (simp add: le_mod_geq not_less)

lemma vli_bytes_nth_eqI:
  assumes "Suc p < length (vli_bytes n)" "\<not> unat b < 128"
    and "n mod 128 ^ Suc p = x + 128 ^ p * (unat b mod 128)" "x < 128 ^ p"
  shows "vli_bytes n ! p = b" "n mod 128 ^ p = x"
proof -
  have e: "n mod 128 ^ p + 128 ^ p * (n div 128 ^ p mod 128) = x + 128 ^ p * (unat b mod 128)"
    using assms(3) by (simp only: mod_128_Suc)
  show x: "n mod 128 ^ p = x"
    using arg_cong [OF e, of "\<lambda>y. y mod 128 ^ p"] assms(4) by simp
  with e have "n div 128 ^ p mod 128 = unat b mod 128" by simp
  then have m: "unat (vli_bytes n ! p) mod 128 = unat b mod 128"
    using vli_bytes_nth_mod [of p n] assms(1) by simp
  have big: "\<not> unat (vli_bytes n ! p) < 128"
    using vli_bytes_nth_last [of p n] assms(1) by simp
  have "unat (vli_bytes n ! p) = unat b"
    by (rule mod_128_inj [OF m big assms(2) unat_u8_less unat_u8_less])
  then show "vli_bytes n ! p = b" by (rule unat_eqI)
qed

lemma vli_decode_loop_canonical:
  assumes "vli_decode_loop single vli p in_buf in_pos in_size = (ret, v, p', in_pos')"
    and "ret = (if single then LZMA_OK else LZMA_STREAM_END)"
    and "p < 9" "unat vli < 128 ^ p" "in_pos < in_size" "in_size \<le> length in_buf"
  shows "unat v < 128 ^ 9 \<and> in_pos < in_pos' \<and> in_pos' \<le> in_size \<and> p < length (vli_bytes (unat v)) \<and>
     unat v mod 128 ^ p = unat vli \<and>
     drop p (vli_bytes (unat v)) = take (in_pos' - in_pos) (drop in_pos in_buf)"
  using assms
proof (induction "in_size - in_pos" arbitrary: vli p in_pos rule: less_induct)
  case less
  let ?b = "in_buf ! in_pos"
  define w :: lzma_vli where "w = vli + push_bit (p * 7) (ucast (?b AND 0x7F))"
  have w: "unat w = unat vli + 128 ^ p * (unat ?b mod 128)"
    using vli_accum less.prems(3,4) by (simp add: w_def)
  have b: "take (Suc k) (drop in_pos in_buf) = ?b # take k (drop (Suc in_pos) in_buf)" for k
    using less.prems(5,6) by (simp add: Cons_nth_drop_Suc [symmetric])
  show ?case
  proof (cases "unat ?b < 128")
    case True
    with less.prems(1,2) have v: "v = w" "in_pos' = Suc in_pos" and nz: "0 < p \<longrightarrow> ?b \<noteq> 0"
      by (subst (asm) vli_decode_loop.simps;
          auto simp: Let_def and_80_iff w_def split: if_splits)+
    have "unat w < 128 ^ Suc p" using vli_accum_bound less.prems(4) w by simp
    also have "\<dots> \<le> 128 ^ 9" using less.prems(3) by (intro power_increasing) auto
    finally have "unat w < 128 ^ 9" .
    moreover note vli_bytes_snoc [of "unat vli" p "unat ?b" "unat w"]
    ultimately show ?thesis
      using True v nz w less.prems(3-6) b [of 0] by (simp add: unat_eq_zero)
  next
    case False
    with less.prems(1,2) have more: "Suc p \<noteq> LZMA_VLI_BYTES_MAX" "Suc in_pos < in_size"
      and rec: "vli_decode_loop single w (p + 1) in_buf (in_pos + 1) in_size = (ret, v, p', in_pos')"
      by (subst (asm) vli_decode_loop.simps;
          auto simp: Let_def and_80_iff w_def split: if_splits)+
    have "unat w < 128 ^ (p + 1)" using vli_accum_bound less.prems(4) w by simp
    with rec more False less.prems(2,3,6)
    have IH: "unat v < 128 ^ 9 \<and> in_pos + 1 < in_pos' \<and> in_pos' \<le> in_size \<and>
        p + 1 < length (vli_bytes (unat v)) \<and> unat v mod 128 ^ (p + 1) = unat w \<and>
        drop (p + 1) (vli_bytes (unat v)) = take (in_pos' - (in_pos + 1)) (drop (in_pos + 1) in_buf)"
      by (intro less.hyps) (auto simp: LZMA_VLI_BYTES_MAX_def)
    note eq = vli_bytes_nth_eqI [of p "unat v" ?b "unat vli"]
    have "drop p (vli_bytes (unat v)) = vli_bytes (unat v) ! p # drop (Suc p) (vli_bytes (unat v))"
      using IH by (intro Cons_nth_drop_Suc [symmetric]) simp
    then show ?thesis
      using IH eq False w less.prems(4) b [of "in_pos' - Suc in_pos"] by (auto simp: Suc_diff_Suc)
  qed
qed

lemma lzma_vli_decode_multi:
  assumes "v \<le> LZMA_VLI_MAX" "bs = vli_bytes (unat v)" "p < length bs"
    and "0 < p \<Longrightarrow> x = of_nat (unat v mod 128 ^ p)"
    and "in_pos < in_size" "in_size \<le> length in_buf"
    and "k = min (length bs - p) (in_size - in_pos)"
    and "take k (drop in_pos in_buf) = take k (drop p bs)"
  shows "lzma_vli_decode x (Some p) in_buf in_pos in_size =
     (if length bs - p \<le> in_size - in_pos then LZMA_STREAM_END else LZMA_OK,
      of_nat (unat v mod 128 ^ (p + k)), Some (p + k), in_pos + k)"
proof -
  let ?x = "if p = 0 then 0 else x"
  have n: "unat v < 2 ^ 63" using assms(1) by (simp add: vli_le_max_iff)
  have p9: "p < 9"
    using vli_bytes_length_max [OF n] assms(2,3) by (simp add: LZMA_VLI_BYTES_MAX_def)
  have "unat v mod 128 ^ p < 2 ^ 64"
    by (rule le_less_trans [OF mod_less_eq_dividend]) (use n in simp)
  then have x: "unat ?x = unat v mod 128 ^ p"
    using assms(4) by (simp add: unat_of_nat)
  then have "unat (drop_bit (p * 7) ?x) = 0"
    by (simp add: unat_drop_bit_div power_mult mult.commute [of p])
  then have "drop_bit (p * 7) ?x = 0" by (metis unat_eq_zero)
  then show ?thesis
    using p9 assms vli_decode_loop_eq [OF assms(5,6) n assms(2,3) x assms(7,8), of False]
    by (simp add: lzma_vli_decode_def LZMA_VLI_BYTES_MAX_def)
qed

lemma lzma_vli_decode_single:
  assumes "v \<le> LZMA_VLI_MAX" "bs = vli_bytes (unat v)"
    and "in_pos + length bs \<le> in_size" "in_size \<le> length in_buf"
    and "take (length bs) (drop in_pos in_buf) = bs"
  shows "lzma_vli_decode x None in_buf in_pos in_size = (LZMA_OK, v, None, in_pos + length bs)"
proof -
  have n: "unat v < 2 ^ 63" using assms(1) by (simp add: vli_le_max_iff)
  have "0 < length bs" using assms(2) by simp
  with assms(3) have pos: "in_pos < in_size" and k: "length bs = min (length bs - 0) (in_size - in_pos)"
    by linarith+
  have "unat v < 128 ^ length bs"
    using vli_bytes_length_iff [of "length bs" "unat v"] assms(2) by simp
  then have "of_nat (unat v mod 128 ^ (0 + length bs)) = v" by simp
  then show ?thesis
    using vli_decode_loop_eq [OF pos assms(4) n assms(2) _ _ k, of 0 True] assms pos
    by (simp add: lzma_vli_decode_def)
qed

lemma lzma_vli_decode_OK:
  assumes "lzma_vli_decode x None in_buf in_pos in_size = (LZMA_OK, v, vp, in_pos')"
    and "in_size \<le> length in_buf"
  shows "v \<le> LZMA_VLI_MAX" "in_pos < in_pos'" "in_pos' \<le> in_size"
    "take (in_pos' - in_pos) (drop in_pos in_buf) = vli_bytes (unat v)"
    "in_pos' = in_pos + length (vli_bytes (unat v))"
proof -
  from assms(1) obtain p' where pos: "in_pos < in_size"
    and loop: "vli_decode_loop True 0 0 in_buf in_pos in_size = (LZMA_OK, v, p', in_pos')"
    by (auto simp: lzma_vli_decode_def split: if_splits prod.splits)
  note c = vli_decode_loop_canonical [OF loop _ _ _ pos assms(2)]
  show "v \<le> LZMA_VLI_MAX" "in_pos < in_pos'" "in_pos' \<le> in_size"
    and t: "take (in_pos' - in_pos) (drop in_pos in_buf) = vli_bytes (unat v)"
    using c by (simp_all add: vli_le_max_iff)
  show "in_pos' = in_pos + length (vli_bytes (unat v))"
    using c assms(2) by (auto simp: min_def simp flip: t)
qed

text \<open>The decoder only moves forward, and never past the end of the input.\<close>

lemma vli_decode_loop_progress:
  "vli_decode_loop single vli p in_buf in_pos in_size = (ret, v, p', in_pos') \<Longrightarrow> in_pos < in_size \<Longrightarrow>
     in_pos < in_pos' \<and> in_pos' \<le> in_size"
proof (induction "in_size - in_pos" arbitrary: vli p in_pos rule: less_induct)
  case less
  show ?case
    using less.prems less.hyps [of "in_pos + 1"]
    by (subst (asm) vli_decode_loop.simps) (fastforce simp: Let_def split: if_splits)
qed

lemma lzma_vli_decode_progress:
  assumes "lzma_vli_decode vli vli_pos in_buf in_pos in_size = (ret, v, p', in_pos')" "in_pos \<le> in_size"
  shows "in_pos \<le> in_pos'" "in_pos' \<le> in_size" "ret = LZMA_STREAM_END \<Longrightarrow> in_pos < in_pos'"
    "in_pos' = in_pos \<Longrightarrow> ret \<noteq> LZMA_OK"
  using assms vli_decode_loop_progress
  by (auto simp: lzma_vli_decode_def Let_def split: option.splits if_splits prod.splits;
      fastforce dest: vli_decode_loop_progress)+

section \<open>Properties\<close>

text \<open>C14. Round trip: what \<open>lzma_vli_encode\<close> writes in single-call mode, \<open>lzma_vli_decode\<close>
  reads back as the same integer, consuming exactly the bytes written, and that number is the
  one \<open>lzma_vli_size\<close> announces.\<close>

theorem vli_roundtrip:
  assumes "vli \<le> LZMA_VLI_MAX" "out_pos + unat (lzma_vli_size vli) \<le> out_size" "out_size \<le> length out"
  shows "\<exists>out'. lzma_vli_encode vli None out out_pos out_size
        = (LZMA_OK, None, out', out_pos + unat (lzma_vli_size vli))
      \<and> length out' = length out
      \<and> lzma_vli_decode x None out' out_pos out_size
        = (LZMA_OK, vli, None, out_pos + unat (lzma_vli_size vli))"
proof -
  let ?bs = "vli_bytes (unat vli)"
  have len: "unat (lzma_vli_size vli) = length ?bs" using assms(1) by (rule lzma_vli_size_eq)
  have "take (length ?bs) (drop out_pos (buf_write out_pos ?bs out)) = ?bs"
    using assms len by (simp add: buf_simps)
  then show ?thesis
    using assms lzma_vli_encode_single [OF assms(1) refl] lzma_vli_decode_single [OF assms(1) refl]
    by (simp add: len)
qed

theorem vli_roundtrip_witness:
  "\<exists>out'. lzma_vli_encode 300 None [0, 0, 0] 0 3 = (LZMA_OK, None, out', 0 + unat (lzma_vli_size 300))
      \<and> length out' = 3
      \<and> lzma_vli_decode 7 None out' 0 3 = (LZMA_OK, 300, None, 0 + unat (lzma_vli_size 300))"
proof -
  have "unat (lzma_vli_size 300) \<le> 3"
    by (simp add: lzma_vli_size_def LZMA_VLI_MAX_def vli_size_loop.simps)
  then show ?thesis
    using vli_roundtrip [of 300 0 3 "[0, 0, 0]" 7] by (simp add: LZMA_VLI_MAX_def numeral_3_eq_3)
qed

text \<open>C15. The encoding is unique: whenever \<open>lzma_vli_decode\<close> accepts an integer, the bytes it
  consumed are exactly the ones \<open>lzma_vli_encode\<close> writes for that integer, so no padded or
  overlong form is ever accepted, and the value fits in 63 bits.\<close>

theorem vli_decode_unique:
  assumes "lzma_vli_decode x None in_buf in_pos in_size = (LZMA_OK, v, vp, in_pos')"
    and "in_size \<le> length in_buf"
  shows "v \<le> LZMA_VLI_MAX \<and> in_pos < in_pos' \<and> in_pos' \<le> in_size \<and>
     lzma_vli_encode v None in_buf in_pos in_size = (LZMA_OK, None, in_buf, in_pos')"
proof -
  note d = lzma_vli_decode_OK [OF assms]
  have "buf_write in_pos (vli_bytes (unat v)) in_buf
      = take in_pos in_buf @ take (in_pos' - in_pos) (drop in_pos in_buf) @ drop in_pos' in_buf"
    using d assms(2) by (simp add: buf_write_in)
  also have "\<dots> = in_buf"
    using d(2) by (metis append_assoc append_take_drop_id le_add_diff_inverse less_imp_le take_add)
  finally show ?thesis
    using d lzma_vli_encode_single [OF d(1) refl, of in_pos in_size in_buf] assms(2) by simp
qed

theorem vli_decode_unique_witness:
  "lzma_vli_encode 300 None [0xAC, 2, 9] 0 3 = (LZMA_OK, None, [0xAC, 2, 9], 2)"
proof -
  have "lzma_vli_decode 0 None [0xAC, 2, 9] 0 3 = (LZMA_OK, 300, None, 2)"
    by (simp add: lzma_vli_decode_def vli_decode_loop.simps LZMA_VLI_BYTES_MAX_def)
  from vli_decode_unique [OF this] show ?thesis by simp
qed

text \<open>C16. Resumable coding: with \<open>vli_pos\<close> given, one call of the encoder writes exactly the next
  \<open>k\<close> bytes of the encoding, where \<open>k\<close> is what is left of it or what fits, and one call of the
  decoder over those bytes advances its partial value in step; \<open>LZMA_STREAM_END\<close> comes exactly on
  the call that finishes the integer.\<close>

theorem vli_resume:
  assumes "v \<le> LZMA_VLI_MAX" "p < unat (lzma_vli_size v)"
    and "pos < sz" "sz \<le> length out"
    and "k = min (unat (lzma_vli_size v) - p) (sz - pos)"
    and "0 < p \<Longrightarrow> x = of_nat (unat v mod 128 ^ p)"
  shows "\<exists>out' ret. lzma_vli_encode v (Some p) out pos sz = (ret, Some (p + k), out', pos + k)
     \<and> lzma_vli_decode x (Some p) out' pos sz
         = (ret, of_nat (unat v mod 128 ^ (p + k)), Some (p + k), pos + k)
     \<and> ret = (if p + k = unat (lzma_vli_size v) then LZMA_STREAM_END else LZMA_OK)"
proof -
  define bs where "bs = vli_bytes (unat v)"
  have len: "unat (lzma_vli_size v) = length bs"
    using assms(1) by (simp add: lzma_vli_size_eq bs_def)
  let ?out = "buf_write pos (take k (drop p bs)) out"
  have k: "k = min (length bs - p) (sz - pos)" using assms(5) len by simp
  have "length (take k (drop p bs)) = k" using k by simp
  moreover have "pos + k \<le> length out" using k assms(3,4) by auto
  ultimately have "take k (drop pos ?out) = take k (drop p bs)"
    using drop_buf_write [of pos "take k (drop p bs)" out] by simp
  then show ?thesis
    using lzma_vli_encode_multi [OF assms(1) bs_def _ assms(3,4) k]
      lzma_vli_decode_multi [OF assms(1) bs_def _ assms(6,3) _ k, of ?out] assms(2,4) k
    by (auto simp: len min_def)
qed

theorem vli_resume_witness:
  "\<exists>out' ret. lzma_vli_encode 300 (Some 1) [9] 0 1 = (ret, Some (1 + 1), out', 0 + 1)
     \<and> lzma_vli_decode 44 (Some 1) out' 0 1
         = (ret, of_nat (unat (300 :: lzma_vli) mod 128 ^ (1 + 1)), Some (1 + 1), 0 + 1)
     \<and> ret = (if 1 + 1 = unat (lzma_vli_size 300) then LZMA_STREAM_END else LZMA_OK)"
proof -
  have "unat (lzma_vli_size 300) = 2"
    by (simp add: lzma_vli_size_def LZMA_VLI_MAX_def vli_size_loop.simps)
  then show ?thesis
    by (intro vli_resume) (simp_all add: LZMA_VLI_MAX_def)
qed

end
