(* ===== verification/Crc.thy ===== *)
theory Crc
  imports Prelude
begin

unbundle bit_operations_syntax

text \<open>
  CRC32 and CRC64 of liblzma, in the three forms the source has: the table generators
  (\<open>check/crc32_tablegen.c\<close>, \<open>check/crc64_tablegen.c\<close>), the byte-at-a-time versions
  (\<open>check/crc32_small.c\<close>, \<open>check/crc64_small.c\<close>) and the slicing versions
  (\<open>check/crc32_fast.c\<close>, \<open>check/crc64_fast.c\<close>, little endian). The buffer is a list; the address
  it starts at, which decides how many bytes the alignment loop eats, is a parameter.

  The algebra is shared by both widths: the locale \<open>crc_poly\<close> proves, for any reflected polynomial
  whose top bit is set, that one shift step is linear and injective, that a table lookup replaces
  eight steps, and that the running value separates messages which differ in one byte.
\<close>

section \<open>The code: CRC32\<close>

text \<open>The body of the inner loop of every table generator.\<close>

definition crc_shift :: "'a::len word \<Rightarrow> 'a word \<Rightarrow> 'a word" where
  "crc_shift poly r = (if r AND 1 \<noteq> 0 then drop_bit 1 r XOR poly else drop_bit 1 r)"

definition poly32 :: u32 where
  "poly32 = 0xEDB88320"

text \<open>\<open>crc32_init\<close> of \<open>crc32_small.c\<close> fills row 0.\<close>

definition crc32_init :: "u32 list" where
  "crc32_init = map (\<lambda>b. (crc_shift poly32 ^^ 8) (of_nat b)) [0..<256]"

text \<open>\<open>init_crc32_table\<close> of \<open>crc32_tablegen.c\<close>: row \<open>s\<close> is eight steps from row \<open>s - 1\<close>.\<close>

primrec crc32_row :: "nat \<Rightarrow> u32 list" where
  "crc32_row 0 = map (\<lambda>b. (crc_shift poly32 ^^ 8) (of_nat b)) [0..<256]"
| "crc32_row (Suc s) = map (\<lambda>b. (crc_shift poly32 ^^ 8) (crc32_row s ! b)) [0..<256]"

definition init_crc32_table :: "u32 list list" where
  "init_crc32_table = map crc32_row [0..<8]"

definition lzma_crc32_table :: "u32 list list" where
  "lzma_crc32_table = init_crc32_table"

fun crc32_small_loop :: "u8 list \<Rightarrow> u32 \<Rightarrow> u32" where
  "crc32_small_loop [] crc = crc"
| "crc32_small_loop (b # buf) crc =
     crc32_small_loop buf (crc32_init ! unat (ucast b XOR (crc AND 0xFF)) XOR drop_bit 8 crc)"

definition lzma_crc32_small :: "u8 list \<Rightarrow> u32 \<Rightarrow> u32" where
  "lzma_crc32_small buf crc = NOT (crc32_small_loop buf (NOT crc))"

text \<open>The accessors of \<open>crc_macros.h\<close>, little endian.\<close>

definition crc_A :: "'a::len word \<Rightarrow> nat" where "crc_A x = unat (x AND 0xFF)"
definition crc_B :: "'a::len word \<Rightarrow> nat" where "crc_B x = unat (drop_bit 8 x AND 0xFF)"
definition crc_C :: "'a::len word \<Rightarrow> nat" where "crc_C x = unat (drop_bit 16 x AND 0xFF)"
definition crc_D :: "'a::len word \<Rightarrow> nat" where "crc_D x = unat (drop_bit 24 x)"

text \<open>The byte step on row 0, shared by the alignment loop and the tail loop.\<close>

definition crc32_byte :: "u32 \<Rightarrow> u8 \<Rightarrow> u32" where
  "crc32_byte crc b = lzma_crc32_table ! 0 ! unat (ucast b XOR (crc AND 0xFF)) XOR drop_bit 8 crc"

fun crc32_align :: "nat \<Rightarrow> u8 list \<Rightarrow> u32 \<Rightarrow> u8 list \<times> u32" where
  "crc32_align addr [] crc = ([], crc)"
| "crc32_align addr (b # buf) crc =
     (if addr mod 8 \<noteq> 0 then crc32_align (addr + 1) buf (crc32_byte crc b) else (b # buf, crc))"

fun crc32_slice :: "u8 list \<Rightarrow> u32 \<Rightarrow> u8 list \<times> u32" where
  "crc32_slice (b0 # b1 # b2 # b3 # b4 # b5 # b6 # b7 # buf) crc =
     (let crc = crc XOR load32 b0 b1 b2 b3;
          crc = lzma_crc32_table ! 7 ! crc_A crc XOR lzma_crc32_table ! 6 ! crc_B crc
            XOR lzma_crc32_table ! 5 ! crc_C crc XOR lzma_crc32_table ! 4 ! crc_D crc;
          tmp = load32 b4 b5 b6 b7;
          crc = lzma_crc32_table ! 3 ! crc_A tmp XOR lzma_crc32_table ! 2 ! crc_B tmp XOR crc
            XOR lzma_crc32_table ! 1 ! crc_C tmp XOR lzma_crc32_table ! 0 ! crc_D tmp
      in crc32_slice buf crc)"
| "crc32_slice buf crc = (buf, crc)"

fun crc32_tail :: "u8 list \<Rightarrow> u32 \<Rightarrow> u32" where
  "crc32_tail [] crc = crc"
| "crc32_tail (b # buf) crc = crc32_tail buf (crc32_byte crc b)"

definition lzma_crc32_at :: "nat \<Rightarrow> u8 list \<Rightarrow> u32 \<Rightarrow> u32" where
  "lzma_crc32_at addr buf crc =
     (let crc = NOT crc;
          (buf, crc) =
            (if length buf > 8
             then (case crc32_align addr buf crc of (buf, crc) \<Rightarrow> crc32_slice buf crc)
             else (buf, crc))
      in NOT (crc32_tail buf crc))"

text \<open>The result does not depend on the address (see \<open>crc32_fast_eq_small\<close>), so the rest of the
  development names the function without it.\<close>

definition lzma_crc32 :: "u8 list \<Rightarrow> u32 \<Rightarrow> u32" where
  "lzma_crc32 buf crc = lzma_crc32_at 0 buf crc"

section \<open>The code: CRC64\<close>

definition poly64 :: u64 where
  "poly64 = 0xC96C5795D7870F42"

definition crc64_init :: "u64 list" where
  "crc64_init = map (\<lambda>b. (crc_shift poly64 ^^ 8) (of_nat b)) [0..<256]"

primrec crc64_row :: "nat \<Rightarrow> u64 list" where
  "crc64_row 0 = map (\<lambda>b. (crc_shift poly64 ^^ 8) (of_nat b)) [0..<256]"
| "crc64_row (Suc s) = map (\<lambda>b. (crc_shift poly64 ^^ 8) (crc64_row s ! b)) [0..<256]"

definition init_crc64_table :: "u64 list list" where
  "init_crc64_table = map crc64_row [0..<4]"

definition lzma_crc64_table :: "u64 list list" where
  "lzma_crc64_table = init_crc64_table"

fun crc64_small_loop :: "u8 list \<Rightarrow> u64 \<Rightarrow> u64" where
  "crc64_small_loop [] crc = crc"
| "crc64_small_loop (b # buf) crc =
     crc64_small_loop buf (crc64_init ! unat (ucast b XOR (crc AND 0xFF)) XOR drop_bit 8 crc)"

definition lzma_crc64_small :: "u8 list \<Rightarrow> u64 \<Rightarrow> u64" where
  "lzma_crc64_small buf crc = NOT (crc64_small_loop buf (NOT crc))"

definition crc64_byte :: "u64 \<Rightarrow> u8 \<Rightarrow> u64" where
  "crc64_byte crc b = lzma_crc64_table ! 0 ! unat (ucast b XOR (crc AND 0xFF)) XOR drop_bit 8 crc"

fun crc64_align :: "nat \<Rightarrow> u8 list \<Rightarrow> u64 \<Rightarrow> u8 list \<times> u64" where
  "crc64_align addr [] crc = ([], crc)"
| "crc64_align addr (b # buf) crc =
     (if addr mod 4 \<noteq> 0 then crc64_align (addr + 1) buf (crc64_byte crc b) else (b # buf, crc))"

fun crc64_slice :: "u8 list \<Rightarrow> u64 \<Rightarrow> u8 list \<times> u64" where
  "crc64_slice (b0 # b1 # b2 # b3 # buf) crc =
     (let tmp = ucast crc XOR load32 b0 b1 b2 b3;
          crc = lzma_crc64_table ! 3 ! crc_A tmp XOR lzma_crc64_table ! 2 ! crc_B tmp
            XOR drop_bit 32 crc
            XOR lzma_crc64_table ! 1 ! crc_C tmp XOR lzma_crc64_table ! 0 ! crc_D tmp
      in crc64_slice buf crc)"
| "crc64_slice buf crc = (buf, crc)"

fun crc64_tail :: "u8 list \<Rightarrow> u64 \<Rightarrow> u64" where
  "crc64_tail [] crc = crc"
| "crc64_tail (b # buf) crc = crc64_tail buf (crc64_byte crc b)"

definition lzma_crc64_at :: "nat \<Rightarrow> u8 list \<Rightarrow> u64 \<Rightarrow> u64" where
  "lzma_crc64_at addr buf crc =
     (let crc = NOT crc;
          (buf, crc) =
            (if length buf > 4
             then (case crc64_align addr buf crc of (buf, crc) \<Rightarrow> crc64_slice buf crc)
             else (buf, crc))
      in NOT (crc64_tail buf crc))"

definition lzma_crc64 :: "u8 list \<Rightarrow> u64 \<Rightarrow> u64" where
  "lzma_crc64 buf crc = lzma_crc64_at 0 buf crc"

section \<open>The algebra of reflected CRCs\<close>

text \<open>The running value after a message: eight steps per byte.\<close>

definition crc_run :: "'a::len word \<Rightarrow> u8 list \<Rightarrow> 'a word \<Rightarrow> 'a word" where
  "crc_run poly bs crc = fold (\<lambda>b c. (crc_shift poly ^^ 8) (c XOR ucast b)) bs crc"

lemma crc_run_simps [simp]:
  "crc_run poly [] crc = crc"
  "crc_run poly (b # bs) crc = crc_run poly bs ((crc_shift poly ^^ 8) (crc XOR ucast b))"
  by (simp_all add: crc_run_def)

lemma crc_run_append: "crc_run poly (xs @ ys) crc = crc_run poly ys (crc_run poly xs crc)"
  by (simp add: crc_run_def)

locale crc_poly =
  fixes poly :: "'a::len word"
  assumes width: "8 \<le> LENGTH('a)"
    and top: "bit poly (LENGTH('a) - 1)"
begin

lemma shift_xor: "crc_shift poly (x XOR y) = crc_shift poly x XOR crc_shift poly y"
proof (rule bit_word_eqI)
  have a: "z AND 1 \<noteq> 0 \<longleftrightarrow> bit z 0" for z :: "'a word"
    using and_exp_eq_0_iff_not_bit [of z 0] by simp
  fix n assume "n < LENGTH('a)"
  then show "bit (crc_shift poly (x XOR y)) n = bit (crc_shift poly x XOR crc_shift poly y) n"
    by (auto simp: crc_shift_def a bit_simps)
qed

lemma shift_funpow_xor: "(crc_shift poly ^^ k) (x XOR y) = (crc_shift poly ^^ k) x XOR (crc_shift poly ^^ k) y"
  by (induction k) (simp_all add: shift_xor)

lemma shift_zero: "crc_shift poly 0 = 0"
  by (simp add: crc_shift_def)

lemma shift_eq_zero: "crc_shift poly x = 0 \<longleftrightarrow> x = 0"
proof
  assume z: "crc_shift poly x = 0"
  have a: "x AND 1 \<noteq> 0 \<longleftrightarrow> bit x 0"
    using and_exp_eq_0_iff_not_bit [of x 0] by simp
  have "\<not> bit x 0"
  proof
    assume "bit x 0"
    with z a have "bit (drop_bit 1 x XOR poly) (LENGTH('a) - 1) = bit 0 (LENGTH('a) - 1)"
      by (simp add: crc_shift_def)
    then show False using top width by (simp add: bit_simps)
  qed
  with z a have d: "drop_bit 1 x = 0" by (simp add: crc_shift_def)
  show "x = 0"
  proof (rule bit_word_eqI)
    fix n assume "n < LENGTH('a)"
    show "bit x n = bit 0 n"
    proof (cases n)
      case (Suc m)
      have "bit (drop_bit 1 x) m = bit x (Suc m)" by (simp add: bit_simps)
      with d Suc show ?thesis by simp
    qed (use \<open>\<not> bit x 0\<close> in simp)
  qed
qed (simp add: shift_zero)

lemma shift_inj: "crc_shift poly x = crc_shift poly y \<longleftrightarrow> x = y"
proof
  assume "crc_shift poly x = crc_shift poly y"
  then have "crc_shift poly (x XOR y) = 0" by (simp add: shift_xor)
  then have "x XOR y = y XOR y" by (simp add: shift_eq_zero)
  then show "x = y" by (simp only: xor_cancel_right)
qed simp

lemma shift_funpow_inj: "(crc_shift poly ^^ k) x = (crc_shift poly ^^ k) y \<longleftrightarrow> x = y"
  by (induction k) (simp_all add: shift_inj)

text \<open>Steps that only see zero bits are plain shifts.\<close>

lemma shift_funpow_low_zero: "take_bit k x = 0 \<Longrightarrow> (crc_shift poly ^^ k) x = drop_bit k x"
proof (induction k arbitrary: x)
  case (Suc k)
  have "\<not> bit x 0"
    using arg_cong [OF Suc.prems, of "\<lambda>w. bit w 0"] by (simp add: bit_simps)
  then have "crc_shift poly x = drop_bit 1 x"
    using and_exp_eq_0_iff_not_bit [of x 0] by (simp add: crc_shift_def)
  moreover have "take_bit k (drop_bit 1 x) = 0"
    using Suc.prems by (metis drop_bit_of_0 drop_bit_take_bit diff_Suc_1)
  ultimately show ?case
    using Suc.IH [of "drop_bit 1 x"] by (simp add: funpow_swap1 drop_bit_drop_bit)
qed simp

text \<open>A byte step through a table: eight steps on the low byte and a shift of the rest.\<close>

lemma byte_step:
  assumes "\<And>i. i < 256 \<Longrightarrow> tbl ! i = (crc_shift poly ^^ 8) (of_nat i)"
  shows "tbl ! unat (ucast (b :: u8) XOR (crc AND 0xFF)) XOR drop_bit 8 crc
    = (crc_shift poly ^^ 8) (crc XOR ucast b)"
proof -
  let ?i = "ucast b XOR (crc AND 0xFF)"
  have m: "(0xFF :: 'a word) = mask 8" by (simp add: mask_eq_exp_minus_1)
  have i: "?i = take_bit 8 (crc XOR ucast b)"
    by (rule bit_word_eqI) (auto simp: m bit_simps dest: bit_imp_le_length)
  have hi: "take_bit 8 (crc XOR ucast b XOR ?i) = 0"
    by (rule bit_word_eqI) (auto simp: i bit_simps)
  have d: "drop_bit 8 (crc XOR ucast b XOR ?i) = drop_bit 8 crc"
  proof (rule bit_word_eqI)
    fix n
    have "\<not> bit b (8 + n)" using bit_imp_le_length [of b "8 + n"] by auto
    then show "bit (drop_bit 8 (crc XOR ucast b XOR ?i)) n = bit (drop_bit 8 crc) n"
      by (auto simp: i bit_simps)
  qed
  have "unat ?i < 256"
    unfolding i unsigned_take_bit_eq by (simp add: take_bit_eq_mod)
  then have "tbl ! unat ?i = (crc_shift poly ^^ 8) ?i"
    using assms by simp
  moreover have "(crc_shift poly ^^ 8) (crc XOR ucast b XOR ?i) = drop_bit 8 crc"
    using shift_funpow_low_zero [OF hi] d by simp
  ultimately have "tbl ! unat ?i XOR drop_bit 8 crc
      = (crc_shift poly ^^ 8) (?i XOR (crc XOR ucast b XOR ?i))"
    by (simp only: shift_funpow_xor)
  also have "?i XOR (crc XOR ucast b XOR ?i) = crc XOR ucast b"
    by (simp add: xor.assoc xor.left_commute)
  finally show ?thesis .
qed

lemma run_inj: "crc_run poly bs x = crc_run poly bs y \<longleftrightarrow> x = y"
  by (induction bs arbitrary: x y) (auto simp: shift_funpow_inj)

lemma run_detects_byte:
  assumes "crc_run poly (xs @ a # ys) c = crc_run poly (xs @ b # ys) c"
  shows "a = b"
proof -
  have "(ucast a :: 'a word) = ucast b"
    using assms by (simp add: crc_run_append run_inj shift_funpow_inj)
  then show ?thesis using width by (simp add: ucast_eq_iff)
qed

lemma shift_funpow_push:
  assumes "x < 2 ^ 8" "j + 8 \<le> LENGTH('a)" "j \<le> k"
  shows "(crc_shift poly ^^ k) (push_bit j (of_nat x)) = (crc_shift poly ^^ (k - j)) (of_nat x)"
proof -
  have x: "n < 8" if "bit x n" for n
    using assms(1) that by (metis bit_take_bit_iff take_bit_nat_eq_self)
  have t: "take_bit j (push_bit j (of_nat x) :: 'a word) = 0"
    by (rule bit_word_eqI) (auto simp: bit_simps)
  have d: "drop_bit j (push_bit j (of_nat x) :: 'a word) = of_nat x"
    by (rule bit_word_eqI) (use assms(2) in \<open>auto simp: bit_simps dest: x\<close>)
  have "(crc_shift poly ^^ (k - j + j)) (push_bit j (of_nat x))
      = (crc_shift poly ^^ (k - j)) ((crc_shift poly ^^ j) (push_bit j (of_nat x)))"
    by (simp only: funpow_add comp_apply)
  then show ?thesis
    using assms(3) shift_funpow_low_zero [OF t] d by simp
qed

end

lemma crc_parts_less: "crc_A (x :: u32) < 2 ^ 8" "crc_B x < 2 ^ 8" "crc_C x < 2 ^ 8" "crc_D x < 2 ^ 8"
proof -
  have "unat (y AND 0xFF) < 2 ^ 8" for y :: u32
    using unat_and_mask [of y 8] by (simp add: mask_eq_exp_minus_1)
  then show "crc_A x < 2 ^ 8" "crc_B x < 2 ^ 8" "crc_C x < 2 ^ 8"
    by (simp_all add: crc_A_def crc_B_def crc_C_def)
  show "crc_D x < 2 ^ 8"
    using unat_u32_less [of x] by (simp add: crc_D_def unat_drop_bit_div less_mult_imp_div_less)
qed

lemma bit_crc_parts:
  "bit (crc_A (x :: u32)) n \<longleftrightarrow> n < 8 \<and> bit x n"
  "bit (crc_B x) n \<longleftrightarrow> n < 8 \<and> bit x (8 + n)"
  "bit (crc_C x) n \<longleftrightarrow> n < 8 \<and> bit x (16 + n)"
  "bit (crc_D x) n \<longleftrightarrow> n < 8 \<and> bit x (24 + n)"
proof -
  have m: "(0xFF :: u32) = mask 8" by (simp add: mask_eq_exp_minus_1)
  show "bit (crc_A x) n \<longleftrightarrow> n < 8 \<and> bit x n" "bit (crc_B x) n \<longleftrightarrow> n < 8 \<and> bit x (8 + n)"
    "bit (crc_C x) n \<longleftrightarrow> n < 8 \<and> bit x (16 + n)"
    by (auto simp: crc_A_def crc_B_def crc_C_def m bit_simps)
  show "bit (crc_D x) n \<longleftrightarrow> n < 8 \<and> bit x (24 + n)"
    using bit_imp_le_length [of x "24 + n"] by (auto simp: crc_D_def bit_simps)
qed

lemma ucast_parts:
  "32 \<le> LENGTH('a) \<Longrightarrow> (ucast (x :: u32) :: 'a::len word)
     = of_nat (crc_A x) XOR push_bit 8 (of_nat (crc_B x)) XOR push_bit 16 (of_nat (crc_C x))
       XOR push_bit 24 (of_nat (crc_D x))"
proof (rule bit_word_eqI)
  fix n assume n: "n < LENGTH('a)"
  consider "n < 8" | "8 \<le> n" "n < 16" | "16 \<le> n" "n < 24" | "24 \<le> n" "n < 32" | "32 \<le> n" by linarith
  then show "bit (ucast x :: 'a word) n = bit (of_nat (crc_A x) XOR push_bit 8 (of_nat (crc_B x))
       XOR push_bit 16 (of_nat (crc_C x)) XOR push_bit 24 (of_nat (crc_D x)) :: 'a word) n"
    by cases (use n bit_imp_le_length [of x n] in \<open>auto simp: bit_simps bit_crc_parts\<close>)
qed

lemma crc_parts_load32:
  "crc_A (load32 b0 b1 b2 b3) = unat b0" "crc_B (load32 b0 b1 b2 b3) = unat b1"
  "crc_C (load32 b0 b1 b2 b3) = unat b2" "crc_D (load32 b0 b1 b2 b3) = unat b3"
proof -
  have b: "n < 8" if "bit (b :: u8) n" for b n
    using that bit_imp_le_length [of b n] by auto
  show "crc_A (load32 b0 b1 b2 b3) = unat b0"
    by (rule bit_eqI) (auto simp: bit_crc_parts load32_def bit_simps dest: b)
  show "crc_B (load32 b0 b1 b2 b3) = unat b1"
    by (rule bit_eqI) (auto simp: bit_crc_parts load32_def bit_simps dest: b)
  show "crc_C (load32 b0 b1 b2 b3) = unat b2"
    by (rule bit_eqI) (auto simp: bit_crc_parts load32_def bit_simps dest: b)
  show "crc_D (load32 b0 b1 b2 b3) = unat b3"
    by (rule bit_eqI) (auto simp: bit_crc_parts load32_def bit_simps dest: b)
qed

context crc_poly
begin

text \<open>Four table rows together take 32 steps on a 32-bit value, \<open>m\<close> rows further down take
  \<open>8 * m\<close> steps more.\<close>

lemma four_rows:
  assumes "32 \<le> LENGTH('a)"
    and "\<And>j i. j < 4 \<Longrightarrow> i < 256 \<Longrightarrow> tbl (m + j) ! i = (crc_shift poly ^^ (8 * (m + j + 1))) (of_nat i)"
  shows "tbl (m + 3) ! crc_A x XOR tbl (m + 2) ! crc_B x XOR tbl (m + 1) ! crc_C x XOR tbl m ! crc_D x
    = (crc_shift poly ^^ (32 + 8 * m)) (ucast (x :: u32))"
proof -
  have t: "tbl (m + 3) ! crc_A x = (crc_shift poly ^^ (32 + 8 * m)) (of_nat (crc_A x))"
    "tbl (m + 2) ! crc_B x = (crc_shift poly ^^ (32 + 8 * m)) (push_bit 8 (of_nat (crc_B x)))"
    "tbl (m + 1) ! crc_C x = (crc_shift poly ^^ (32 + 8 * m)) (push_bit 16 (of_nat (crc_C x)))"
    "tbl m ! crc_D x = (crc_shift poly ^^ (32 + 8 * m)) (push_bit 24 (of_nat (crc_D x)))"
    using assms(1) assms(2) [of 3 "crc_A x"] assms(2) [of 2 "crc_B x"] assms(2) [of 1 "crc_C x"]
      assms(2) [of 0 "crc_D x"] crc_parts_less [of x]
    by (simp_all add: shift_funpow_push algebra_simps)
  show ?thesis
    by (simp only: t ucast_parts [OF assms(1), of x] shift_funpow_xor)
qed

text \<open>Four bytes one at a time are 32 steps on their little-endian word.\<close>

lemma run_four:
  assumes "32 \<le> LENGTH('a)"
  shows "crc_run poly [b0, b1, b2, b3] crc = (crc_shift poly ^^ 32) (crc XOR ucast (load32 b0 b1 b2 b3))"
proof -
  let ?S = "\<lambda>k. crc_shift poly ^^ k"
  have "?S 32 (crc XOR ucast (load32 b0 b1 b2 b3))
      = ?S 32 crc XOR ?S 32 (ucast b0) XOR ?S 24 (ucast b1) XOR ?S 16 (ucast b2) XOR ?S 8 (ucast b3)"
    using assms unat_u8_less [of b1] unat_u8_less [of b2] unat_u8_less [of b3]
      shift_funpow_push [of "unat b1" 8 32] shift_funpow_push [of "unat b2" 16 32]
      shift_funpow_push [of "unat b3" 24 32]
    by (simp add: ucast_parts crc_parts_load32 shift_funpow_xor xor.assoc)
  also have "\<dots> = crc_run poly [b0, b1, b2, b3] crc"
    by (simp add: funpow_funpow shift_funpow_xor xor.assoc)
  finally show ?thesis ..
qed

end

interpretation crc32: crc_poly poly32
  by unfold_locales (simp_all add: poly32_def)

interpretation crc64: crc_poly poly64
  by unfold_locales (simp_all add: poly64_def)

section \<open>The table versions compute the reference\<close>

lemma crc32_row_nth:
  "i < 256 \<Longrightarrow> crc32_row s ! i = (crc_shift poly32 ^^ (8 * (s + 1))) (of_nat i)"
  by (induction s) (simp_all add: funpow_funpow add.commute)

declare crc32_row.simps [simp del]

lemma crc64_row_nth:
  "i < 256 \<Longrightarrow> crc64_row s ! i = (crc_shift poly64 ^^ (8 * (s + 1))) (of_nat i)"
  by (induction s) (simp_all add: funpow_funpow add.commute)

declare crc64_row.simps [simp del]

lemma lzma_crc32_table_nth: "s < 8 \<Longrightarrow> lzma_crc32_table ! s = crc32_row s"
  by (simp add: lzma_crc32_table_def init_crc32_table_def)

lemma lzma_crc64_table_nth: "s < 4 \<Longrightarrow> lzma_crc64_table ! s = crc64_row s"
  by (simp add: lzma_crc64_table_def init_crc64_table_def)

lemma crc32_byte_eq: "crc32_byte crc b = (crc_shift poly32 ^^ 8) (crc XOR ucast b)"
  unfolding crc32_byte_def
  by (rule crc32.byte_step) (simp add: lzma_crc32_table_nth crc32_row_nth)

lemma crc64_byte_eq: "crc64_byte crc b = (crc_shift poly64 ^^ 8) (crc XOR ucast b)"
  unfolding crc64_byte_def
  by (rule crc64.byte_step) (simp add: lzma_crc64_table_nth crc64_row_nth)

lemma crc32_small_loop_eq: "crc32_small_loop bs crc = crc_run poly32 bs crc"
proof (induction bs crc rule: crc32_small_loop.induct)
  case (2 b buf crc)
  have "crc32_init ! unat (ucast b XOR (crc AND 0xFF)) XOR drop_bit 8 crc
      = (crc_shift poly32 ^^ 8) (crc XOR ucast b)"
    by (rule crc32.byte_step) (simp add: crc32_init_def)
  with 2 show ?case by simp
qed simp

lemma crc64_small_loop_eq: "crc64_small_loop bs crc = crc_run poly64 bs crc"
proof (induction bs crc rule: crc64_small_loop.induct)
  case (2 b buf crc)
  have "crc64_init ! unat (ucast b XOR (crc AND 0xFF)) XOR drop_bit 8 crc
      = (crc_shift poly64 ^^ 8) (crc XOR ucast b)"
    by (rule crc64.byte_step) (simp add: crc64_init_def)
  with 2 show ?case by simp
qed simp

lemma crc32_tail_eq: "crc32_tail bs crc = crc_run poly32 bs crc"
  by (induction bs crc rule: crc32_tail.induct) (simp_all add: crc32_byte_eq)

lemma crc64_tail_eq: "crc64_tail bs crc = crc_run poly64 bs crc"
  by (induction bs crc rule: crc64_tail.induct) (simp_all add: crc64_byte_eq)

lemma crc32_align_eq: "crc32_align addr bs crc = (bs', crc') \<Longrightarrow> crc_run poly32 bs' crc' = crc_run poly32 bs crc"
  by (induction addr bs crc rule: crc32_align.induct) (auto simp: crc32_byte_eq split: if_splits)

lemma crc64_align_eq: "crc64_align addr bs crc = (bs', crc') \<Longrightarrow> crc_run poly64 bs' crc' = crc_run poly64 bs crc"
  by (induction addr bs crc rule: crc64_align.induct) (auto simp: crc64_byte_eq split: if_splits)

lemma crc32_slice_step:
  assumes "x = crc XOR load32 b0 b1 b2 b3"
    and "y = lzma_crc32_table ! 7 ! crc_A x XOR lzma_crc32_table ! 6 ! crc_B x
            XOR lzma_crc32_table ! 5 ! crc_C x XOR lzma_crc32_table ! 4 ! crc_D x"
    and "tmp = load32 b4 b5 b6 b7"
  shows "lzma_crc32_table ! 3 ! crc_A tmp XOR lzma_crc32_table ! 2 ! crc_B tmp XOR y
            XOR lzma_crc32_table ! 1 ! crc_C tmp XOR lzma_crc32_table ! 0 ! crc_D tmp
    = crc_run poly32 [b0, b1, b2, b3, b4, b5, b6, b7] crc"
proof -
  have y: "y = (crc_shift poly32 ^^ (32 + 32)) x"
    using crc32.four_rows [of "\<lambda>s. lzma_crc32_table ! s" 4 x]
    by (simp add: assms(2) lzma_crc32_table_nth crc32_row_nth)
  have t: "lzma_crc32_table ! 3 ! crc_A tmp XOR lzma_crc32_table ! 2 ! crc_B tmp
            XOR lzma_crc32_table ! 1 ! crc_C tmp XOR lzma_crc32_table ! 0 ! crc_D tmp
      = (crc_shift poly32 ^^ 32) tmp"
    using crc32.four_rows [of "\<lambda>s. lzma_crc32_table ! s" 0 tmp]
    by (simp add: lzma_crc32_table_nth crc32_row_nth numeral_2_eq_2)
  have "crc_run poly32 ([b0, b1, b2, b3] @ [b4, b5, b6, b7]) crc
      = (crc_shift poly32 ^^ 32) ((crc_shift poly32 ^^ 32) x XOR tmp)"
    unfolding crc_run_append using assms(1,3) by (simp add: crc32.run_four del: crc_run_simps)
  also have "\<dots> = y XOR (crc_shift poly32 ^^ 32) tmp"
    unfolding y funpow_add by (simp add: crc32.shift_funpow_xor)
  finally show ?thesis by (simp add: xor.assoc xor.left_commute flip: t)
qed

lemma crc32_slice_eq: "crc32_slice bs crc = (bs', crc') \<Longrightarrow> crc_run poly32 bs' crc' = crc_run poly32 bs crc"
proof (induction bs crc rule: crc32_slice.induct)
  case (1 b0 b1 b2 b3 b4 b5 b6 b7 buf crc)
  note step = crc32_slice_step [OF refl refl refl]
  have "crc32_slice buf (crc_run poly32 [b0, b1, b2, b3, b4, b5, b6, b7] crc) = (bs', crc')"
    using "1.prems" by (simp only: crc32_slice.simps Let_def step)
  then have "crc_run poly32 bs' crc' = crc_run poly32 buf (crc_run poly32 [b0, b1, b2, b3, b4, b5, b6, b7] crc)"
    using "1.IH" [OF refl refl refl refl] by (simp only: step)
  then show ?case by simp
qed (simp_all del: crc_run_simps)

lemma crc64_slice_step:
  assumes "tmp = ucast crc XOR load32 b0 b1 b2 b3"
  shows "lzma_crc64_table ! 3 ! crc_A tmp XOR lzma_crc64_table ! 2 ! crc_B tmp
            XOR drop_bit 32 crc
            XOR lzma_crc64_table ! 1 ! crc_C tmp XOR lzma_crc64_table ! 0 ! crc_D tmp
    = crc_run poly64 [b0, b1, b2, b3] crc"
proof -
  let ?hi = "push_bit 32 (drop_bit 32 crc)"
  have t: "lzma_crc64_table ! 3 ! crc_A tmp XOR lzma_crc64_table ! 2 ! crc_B tmp
            XOR lzma_crc64_table ! 1 ! crc_C tmp XOR lzma_crc64_table ! 0 ! crc_D tmp
      = (crc_shift poly64 ^^ 32) (ucast tmp)"
    using crc64.four_rows [of "\<lambda>s. lzma_crc64_table ! s" 0 tmp]
    by (simp add: lzma_crc64_table_nth crc64_row_nth numeral_2_eq_2)
  have hi: "(crc_shift poly64 ^^ 32) ?hi = drop_bit 32 crc"
  proof -
    have "take_bit 32 ?hi = 0" "drop_bit 32 ?hi = drop_bit 32 crc"
      by (rule bit_word_eqI; auto simp: bit_simps dest: bit_imp_le_length)+
    then show ?thesis by (simp only: crc64.shift_funpow_low_zero)
  qed
  have eq: "ucast tmp XOR ?hi = crc XOR ucast (load32 b0 b1 b2 b3)"
    unfolding assms by (rule bit_word_eqI) (auto simp: bit_simps dest: bit_imp_le_length)
  have ac: "a XOR b XOR h XOR c XOR d = (a XOR b XOR c XOR d) XOR h" for a b c d h :: u64
    by (simp only: xor.assoc xor.commute xor.left_commute)
  have "crc_run poly64 [b0, b1, b2, b3] crc = (crc_shift poly64 ^^ 32) (ucast tmp XOR ?hi)"
    unfolding eq by (rule crc64.run_four) simp
  then show ?thesis unfolding ac t by (simp only: crc64.shift_funpow_xor hi)
qed

lemma crc64_slice_eq: "crc64_slice bs crc = (bs', crc') \<Longrightarrow> crc_run poly64 bs' crc' = crc_run poly64 bs crc"
proof (induction bs crc rule: crc64_slice.induct)
  case (1 b0 b1 b2 b3 buf crc)
  note step = crc64_slice_step [OF refl]
  have "crc64_slice buf (crc_run poly64 [b0, b1, b2, b3] crc) = (bs', crc')"
    using "1.prems" by (simp only: crc64_slice.simps Let_def step)
  then have "crc_run poly64 bs' crc' = crc_run poly64 buf (crc_run poly64 [b0, b1, b2, b3] crc)"
    using "1.IH" [OF refl refl] by (simp only: step)
  then show ?case by simp
qed (simp_all del: crc_run_simps)

lemma lzma_crc32_at_run: "lzma_crc32_at addr bs crc = NOT (crc_run poly32 bs (NOT crc))"
  by (auto simp: lzma_crc32_at_def Let_def crc32_tail_eq crc32_slice_eq crc32_align_eq
        split: prod.splits)

lemma lzma_crc64_at_run: "lzma_crc64_at addr bs crc = NOT (crc_run poly64 bs (NOT crc))"
  by (auto simp: lzma_crc64_at_def Let_def crc64_tail_eq crc64_slice_eq crc64_align_eq
        split: prod.splits)

lemma lzma_crc32_run: "lzma_crc32 bs crc = NOT (crc_run poly32 bs (NOT crc))"
  by (simp add: lzma_crc32_def lzma_crc32_at_run)

lemma lzma_crc64_run: "lzma_crc64 bs crc = NOT (crc_run poly64 bs (NOT crc))"
  by (simp add: lzma_crc64_def lzma_crc64_at_run)

lemma lzma_crc32_append: "lzma_crc32 (xs @ ys) crc = lzma_crc32 ys (lzma_crc32 xs crc)"
  by (simp add: lzma_crc32_run crc_run_append)

lemma lzma_crc64_append: "lzma_crc64 (xs @ ys) crc = lzma_crc64 ys (lzma_crc64 xs crc)"
  by (simp add: lzma_crc64_run crc_run_append)

lemma not_word_eq_iff: "NOT x = NOT y \<longleftrightarrow> x = y" for x y :: "'a::len word"
  by (metis bit.double_compl)

lemma lzma_crc32_detects_byte:
  "lzma_crc32 (xs @ a # ys) crc = lzma_crc32 (xs @ b # ys) crc \<Longrightarrow> a = b"
  by (auto simp: lzma_crc32_run not_word_eq_iff dest: crc32.run_detects_byte)

lemma lzma_crc64_detects_byte:
  "lzma_crc64 (xs @ a # ys) crc = lzma_crc64 (xs @ b # ys) crc \<Longrightarrow> a = b"
  by (auto simp: lzma_crc64_run not_word_eq_iff dest: crc64.run_detects_byte)

section \<open>Fields guarded by a CRC32\<close>

lemma crc32_update_neq:
  assumes "i < length xs" "b \<noteq> xs ! i"
  shows "lzma_crc32 (xs[i := b]) c \<noteq> lzma_crc32 xs c"
proof
  assume "lzma_crc32 (xs[i := b]) c = lzma_crc32 xs c"
  moreover have "xs = take i xs @ xs ! i # drop (Suc i) xs" using assms(1) by (rule id_take_nth_drop)
  ultimately have "lzma_crc32 (take i xs @ b # drop (Suc i) xs) c
      = lzma_crc32 (take i xs @ xs ! i # drop (Suc i) xs) c"
    using assms(1) by (simp add: upd_conv_take_nth_drop)
  then show False using assms(2) by (auto dest: lzma_crc32_detects_byte)
qed

text \<open>A buffer whose two fields hold a message and its CRC32 no longer does after a one-byte change
  in either field.\<close>

lemma crc_field_mismatch:
  assumes "pos + n \<le> length xs" "cpos + 4 \<le> length xs" "pos + n \<le> cpos \<or> cpos + 4 \<le> pos"
    and "i < length xs" "b \<noteq> xs ! i" "pos \<le> i \<and> i < pos + n \<or> cpos \<le> i \<and> i < cpos + 4"
    and "take 4 (drop cpos xs) = bytes32le (lzma_crc32 (take n (drop pos xs)) 0)"
  shows "lzma_crc32 (take n (drop pos (xs[i := b]))) 0 \<noteq> unaligned_read32le (xs[i := b]) cpos"
proof -
  let ?ys = "xs[i := b]" and ?m = "take n (drop pos xs)" and ?c = "take 4 (drop cpos xs)"
  have "take 4 (drop cpos ?ys) \<noteq> bytes32le (lzma_crc32 (take n (drop pos ?ys)) 0)"
  proof (cases "pos \<le> i \<and> i < pos + n")
    case True
    then have "\<not> (cpos \<le> i \<and> i < cpos + 4)" using assms(3) by linarith
    then have "take 4 (drop cpos ?ys) = ?c" "take n (drop pos ?ys) = ?m[i - pos := b]"
      using True by (auto simp: field_update [OF assms(1,4)] field_update [OF assms(2,4)])
    moreover have "lzma_crc32 (?m[i - pos := b]) 0 \<noteq> lzma_crc32 ?m 0"
      using True assms(1,5) by (intro crc32_update_neq) auto
    ultimately show ?thesis using assms(7) by (simp add: bytes32le_inj)
  next
    case False
    with assms(6) have c: "cpos \<le> i \<and> i < cpos + 4" by blast
    with False have "take 4 (drop cpos ?ys) = ?c[i - cpos := b]" "take n (drop pos ?ys) = ?m"
      by (auto simp: field_update [OF assms(1,4)] field_update [OF assms(2,4)])
    moreover have "?c[i - cpos := b] \<noteq> ?c"
      using c assms(2,5) by (intro list_update_neq) auto
    ultimately show ?thesis using assms(7) by simp
  qed
  moreover have "cpos + 4 \<le> length ?ys" using assms(2) by simp
  ultimately show ?thesis by (metis unaligned_read32le_eq_iff)
qed

section \<open>Properties\<close>

text \<open>C17. Optimised against simple: the slice-by-eight CRC32 with its eight generated tables and its
  alignment loop computes, for every buffer, starting address and initial value, the same result
  as the one-table byte loop, and so does the slice-by-four CRC64.\<close>

theorem crc_fast_eq_small:
  "lzma_crc32_at addr buf crc = lzma_crc32_small buf crc \<and> lzma_crc64_at addr buf crc' = lzma_crc64_small buf crc'"
  by (simp add: lzma_crc32_at_run lzma_crc64_at_run lzma_crc32_small_def lzma_crc64_small_def
        crc32_small_loop_eq crc64_small_loop_eq)

text \<open>C18. Incremental use and error detection: the CRC of a concatenation is the CRC of the second
  part started from the CRC of the first, and two messages of the same length that differ in
  exactly one byte never have the same CRC32 or CRC64.\<close>

theorem crc_append_and_detects_byte:
  "lzma_crc32 (xs @ ys) c = lzma_crc32 ys (lzma_crc32 xs c) \<and>
   lzma_crc64 (xs @ ys) d = lzma_crc64 ys (lzma_crc64 xs d) \<and>
   (lzma_crc32 (xs @ a # ys) c = lzma_crc32 (xs @ b # ys) c) = (a = b) \<and>
   (lzma_crc64 (xs @ a # ys) d = lzma_crc64 (xs @ b # ys) d) = (a = b)"
  by (intro conjI iffI lzma_crc32_append lzma_crc64_append)
    (auto dest: lzma_crc32_detects_byte lzma_crc64_detects_byte)

end
