(* ===== verification/Stream_Flags.thy ===== *)
theory Stream_Flags
  imports Vli Crc
begin

unbundle bit_operations_syntax

text \<open>
  Stream Header and Stream Footer of the .xz container: \<open>common/stream_flags_common.c\<close>,
  \<open>common/stream_flags_common.h\<close>, \<open>common/stream_flags_encoder.c\<close> and
  \<open>common/stream_flags_decoder.c\<close>. An output buffer is passed and returned whole, so what an error
  path has already written is part of the model. The field \<open>check\<close>, an enumeration the code casts to
  \<open>unsigned int\<close>, is a 32-bit word.
\<close>

section \<open>The code\<close>

record lzma_stream_flags =
  sf_version :: u32
  sf_backward_size :: lzma_vli
  sf_check :: u32

definition LZMA_STREAM_HEADER_SIZE :: nat where "LZMA_STREAM_HEADER_SIZE = 12"
definition LZMA_STREAM_FLAGS_SIZE :: nat where "LZMA_STREAM_FLAGS_SIZE = 2"
definition LZMA_CHECK_ID_MAX :: u32 where "LZMA_CHECK_ID_MAX = 15"
definition LZMA_BACKWARD_SIZE_MIN :: lzma_vli where "LZMA_BACKWARD_SIZE_MIN = 4"
definition LZMA_BACKWARD_SIZE_MAX :: lzma_vli where "LZMA_BACKWARD_SIZE_MAX = push_bit 34 1"

definition lzma_header_magic :: "u8 list" where
  "lzma_header_magic = [0xFD, 0x37, 0x7A, 0x58, 0x5A, 0x00]"

definition lzma_footer_magic :: "u8 list" where
  "lzma_footer_magic = [0x59, 0x5A]"

definition is_backward_size_valid :: "lzma_stream_flags \<Rightarrow> bool" where
  "is_backward_size_valid options \<longleftrightarrow>
     sf_backward_size options \<ge> LZMA_BACKWARD_SIZE_MIN
     \<and> sf_backward_size options \<le> LZMA_BACKWARD_SIZE_MAX
     \<and> sf_backward_size options AND 3 = 0"

definition lzma_stream_flags_compare :: "lzma_stream_flags \<Rightarrow> lzma_stream_flags \<Rightarrow> lzma_ret" where
  "lzma_stream_flags_compare a b =
     (if sf_version a \<noteq> 0 \<or> sf_version b \<noteq> 0 then LZMA_OPTIONS_ERROR
      else if sf_check a > LZMA_CHECK_ID_MAX \<or> sf_check b > LZMA_CHECK_ID_MAX then LZMA_PROG_ERROR
      else if sf_check a \<noteq> sf_check b then LZMA_DATA_ERROR
      else if sf_backward_size a \<noteq> LZMA_VLI_UNKNOWN \<and> sf_backward_size b \<noteq> LZMA_VLI_UNKNOWN
      then (if \<not> is_backward_size_valid a \<or> \<not> is_backward_size_valid b then LZMA_PROG_ERROR
            else if sf_backward_size a \<noteq> sf_backward_size b then LZMA_DATA_ERROR
            else LZMA_OK)
      else LZMA_OK)"

text \<open>The helper returns \<open>True\<close> on failure, as the C function does.\<close>

definition stream_flags_encode :: "lzma_stream_flags \<Rightarrow> u8 list \<Rightarrow> nat \<Rightarrow> bool \<times> u8 list" where
  "stream_flags_encode options out pos =
     (if sf_check options > LZMA_CHECK_ID_MAX then (True, out)
      else (False, out[pos := 0x00, pos + 1 := ucast (sf_check options)]))"

definition lzma_stream_header_encode :: "lzma_stream_flags \<Rightarrow> u8 list \<Rightarrow> lzma_ret \<times> u8 list" where
  "lzma_stream_header_encode options out =
     (if sf_version options \<noteq> 0 then (LZMA_OPTIONS_ERROR, out)
      else
        (let out = buf_write 0 lzma_header_magic out;
             (failed, out) = stream_flags_encode options out (length lzma_header_magic)
         in if failed then (LZMA_PROG_ERROR, out)
            else
              (let crc = lzma_crc32 (take LZMA_STREAM_FLAGS_SIZE (drop (length lzma_header_magic) out)) 0
               in (LZMA_OK,
                   unaligned_write32le out (length lzma_header_magic + LZMA_STREAM_FLAGS_SIZE) crc))))"

definition lzma_stream_footer_encode :: "lzma_stream_flags \<Rightarrow> u8 list \<Rightarrow> lzma_ret \<times> u8 list" where
  "lzma_stream_footer_encode options out =
     (if sf_version options \<noteq> 0 then (LZMA_OPTIONS_ERROR, out)
      else if \<not> is_backward_size_valid options then (LZMA_PROG_ERROR, out)
      else
        (let out = unaligned_write32le out 4 (ucast (sf_backward_size options div 4 - 1));
             (failed, out) = stream_flags_encode options out (2 * 4)
         in if failed then (LZMA_PROG_ERROR, out)
            else
              (let crc = lzma_crc32 (take (4 + LZMA_STREAM_FLAGS_SIZE) (drop 4 out)) 0;
                   out = unaligned_write32le out 0 crc
               in (LZMA_OK, buf_write (2 * 4 + LZMA_STREAM_FLAGS_SIZE) lzma_footer_magic out))))"

definition stream_flags_decode :: "lzma_stream_flags \<Rightarrow> u8 list \<Rightarrow> nat \<Rightarrow> bool \<times> lzma_stream_flags" where
  "stream_flags_decode options in_buf pos =
     (if in_buf ! pos \<noteq> 0x00 \<or> in_buf ! (pos + 1) AND 0xF0 \<noteq> 0 then (True, options)
      else (False, options\<lparr>sf_version := 0, sf_check := ucast (in_buf ! (pos + 1) AND 0x0F)\<rparr>))"

definition lzma_stream_header_decode ::
  "lzma_stream_flags \<Rightarrow> u8 list \<Rightarrow> lzma_ret \<times> lzma_stream_flags" where
  "lzma_stream_header_decode options in_buf =
     (if take (length lzma_header_magic) in_buf \<noteq> lzma_header_magic then (LZMA_FORMAT_ERROR, options)
      else
        (let crc = lzma_crc32 (take LZMA_STREAM_FLAGS_SIZE (drop (length lzma_header_magic) in_buf)) 0
         in if crc \<noteq> unaligned_read32le in_buf (length lzma_header_magic + LZMA_STREAM_FLAGS_SIZE)
            then (LZMA_DATA_ERROR, options)
            else
              (case stream_flags_decode options in_buf (length lzma_header_magic) of
                 (failed, options) \<Rightarrow>
                   if failed then (LZMA_OPTIONS_ERROR, options)
                   else (LZMA_OK, options\<lparr>sf_backward_size := LZMA_VLI_UNKNOWN\<rparr>))))"

definition lzma_stream_footer_decode ::
  "lzma_stream_flags \<Rightarrow> u8 list \<Rightarrow> lzma_ret \<times> lzma_stream_flags" where
  "lzma_stream_footer_decode options in_buf =
     (if take (length lzma_footer_magic) (drop (4 * 2 + LZMA_STREAM_FLAGS_SIZE) in_buf) \<noteq> lzma_footer_magic
      then (LZMA_FORMAT_ERROR, options)
      else
        (let crc = lzma_crc32 (take (4 + LZMA_STREAM_FLAGS_SIZE) (drop 4 in_buf)) 0
         in if crc \<noteq> unaligned_read32le in_buf 0 then (LZMA_DATA_ERROR, options)
            else
              (case stream_flags_decode options in_buf (4 * 2) of
                 (failed, options) \<Rightarrow>
                   if failed then (LZMA_OPTIONS_ERROR, options)
                   else
                     (let backward_size = ucast (unaligned_read32le in_buf 4)
                      in (LZMA_OK, options\<lparr>sf_backward_size := (backward_size + 1) * 4\<rparr>)))))"

section \<open>What the encoders write\<close>

lemmas stream_consts = LZMA_STREAM_HEADER_SIZE_def LZMA_STREAM_FLAGS_SIZE_def LZMA_CHECK_ID_MAX_def
  LZMA_BACKWARD_SIZE_MIN_def LZMA_BACKWARD_SIZE_MAX_def lzma_header_magic_def lzma_footer_magic_def

definition stream_header_bytes :: "u32 \<Rightarrow> u8 list" where
  "stream_header_bytes chk =
     lzma_header_magic @ [0, ucast chk] @ bytes32le (lzma_crc32 [0, ucast chk] 0)"

definition stream_footer_bytes :: "u32 \<Rightarrow> u32 \<Rightarrow> u8 list" where
  "stream_footer_bytes bw chk =
     bytes32le (lzma_crc32 (bytes32le bw @ [0, ucast chk]) 0) @ bytes32le bw @ [0, ucast chk]
     @ lzma_footer_magic"

lemma length_stream_header_bytes [simp]: "length (stream_header_bytes chk) = 12"
  by (simp add: stream_header_bytes_def lzma_header_magic_def)

lemma length_stream_footer_bytes [simp]: "length (stream_footer_bytes bw chk) = 12"
  by (simp add: stream_footer_bytes_def lzma_footer_magic_def)

lemma length_magic [simp]: "length lzma_header_magic = 6" "length lzma_footer_magic = 2"
  by (simp_all add: lzma_header_magic_def lzma_footer_magic_def)

lemma length_12E:
  assumes "length xs = 12"
  obtains x0 x1 x2 x3 x4 x5 x6 x7 x8 x9 x10 x11
  where "xs = [x0, x1, x2, x3, x4, x5, x6, x7, x8, x9, x10, x11]"
  using assms by (auto simp: numeral_eq_Suc length_Suc_conv)

lemma lzma_stream_header_encode_OK:
  assumes "length out = 12" "sf_version options = 0" "sf_check options \<le> LZMA_CHECK_ID_MAX"
  shows "lzma_stream_header_encode options out = (LZMA_OK, stream_header_bytes (sf_check options))"
proof -
  obtain x0 x1 x2 x3 x4 x5 x6 x7 x8 x9 x10 x11
    where out: "out = [x0, x1, x2, x3, x4, x5, x6, x7, x8, x9, x10, x11]"
    using assms(1) by (rule length_12E)
  show ?thesis
    using assms(2,3)
    by (simp add: out lzma_stream_header_encode_def stream_flags_encode_def stream_header_bytes_def
          stream_consts buf_write_def unaligned_write32le_def Let_def not_less)
qed

lemma lzma_stream_footer_encode_OK:
  assumes "length out = 12" "sf_version options = 0" "sf_check options \<le> LZMA_CHECK_ID_MAX"
    and "is_backward_size_valid options"
  shows "lzma_stream_footer_encode options out
    = (LZMA_OK, stream_footer_bytes (ucast (sf_backward_size options div 4 - 1)) (sf_check options))"
proof -
  obtain x0 x1 x2 x3 x4 x5 x6 x7 x8 x9 x10 x11
    where out: "out = [x0, x1, x2, x3, x4, x5, x6, x7, x8, x9, x10, x11]"
    using assms(1) by (rule length_12E)
  show ?thesis
    using assms(2,3,4)
    by (simp add: out lzma_stream_footer_encode_def stream_flags_encode_def stream_footer_bytes_def
          stream_consts buf_write_def unaligned_write32le_def Let_def not_less bytes32le_def)
qed

section \<open>What the decoders accept\<close>

lemma nibble_split: "(b :: u8) AND 0xF0 = 0 \<Longrightarrow> b AND 0x0F = b"
proof -
  assume z: "b AND 0xF0 = 0"
  have "b = b AND (0x0F OR 0xF0)" by simp
  also have "\<dots> = (b AND 0x0F) OR (b AND 0xF0)" by (rule bit.conj_disj_distrib)
  finally show ?thesis by (simp add: z)
qed

lemma nibble_range: "(b :: u8) AND 0xF0 = 0 \<longleftrightarrow> b \<le> 15"
proof
  assume "b AND 0xF0 = 0"
  then show "b \<le> 15" using word_and_le1 [of b "0x0F"] by (simp add: nibble_split)
next
  assume "b \<le> 15"
  then have "unat b < 2 ^ 4" by (simp add: word_le_nat_alt)
  then have "take_bit 4 b = b" by (intro unat_eqI) (simp only: unat_take_bit_mod mod_less)
  then have "b = b AND 0x0F" by (simp add: take_bit_eq_mask mask_eq_exp_minus_1)
  then have "b AND 0xF0 = (b AND 0x0F) AND 0xF0" by (rule arg_cong [where f = "\<lambda>x. x AND 0xF0"])
  then show "b AND 0xF0 = 0" by (simp add: and.assoc)
qed

lemma check_byte: "(c :: u32) \<le> LZMA_CHECK_ID_MAX \<Longrightarrow> (ucast c :: u8) \<le> 15 \<and> (ucast (ucast c :: u8) :: u32) = c"
proof -
  assume "c \<le> LZMA_CHECK_ID_MAX"
  then have "unat c < 16" by (simp add: LZMA_CHECK_ID_MAX_def word_le_nat_alt)
  then have u: "unat (ucast c :: u8) = unat c"
    by (simp only: unat_ucast_mod) simp
  then have "unat (ucast (ucast c :: u8) :: u32) = unat c"
    using \<open>unat c < 16\<close> by (simp only: unat_ucast_mod) simp
  with u \<open>unat c < 16\<close> show ?thesis
    by (auto simp: word_le_nat_alt intro: unat_eqI)
qed

lemma stream_flags_decode_OK:
  assumes "sf_check options' \<le> LZMA_CHECK_ID_MAX" "in_buf ! pos = 0" "in_buf ! (pos + 1) = ucast (sf_check options')"
  shows "stream_flags_decode options in_buf pos
    = (False, options\<lparr>sf_version := 0, sf_check := sf_check options'\<rparr>)"
  using assms check_byte [OF assms(1)] nibble_range nibble_split
  by (simp add: stream_flags_decode_def)

lemma stream_header_decode_bytes:
  assumes "sf_check options \<le> LZMA_CHECK_ID_MAX"
  shows "lzma_stream_header_decode options' (stream_header_bytes (sf_check options))
    = (LZMA_OK, options'\<lparr>sf_version := 0, sf_check := sf_check options, sf_backward_size := LZMA_VLI_UNKNOWN\<rparr>)"
proof -
  let ?in = "stream_header_bytes (sf_check options)"
  have "stream_flags_decode options' ?in 6 = (False, options'\<lparr>sf_version := 0, sf_check := sf_check options\<rparr>)"
    by (rule stream_flags_decode_OK [OF assms])
      (simp_all add: stream_header_bytes_def lzma_header_magic_def)
  moreover have "unaligned_read32le ?in 8 = lzma_crc32 [0, ucast (sf_check options)] 0"
    by (simp add: unaligned_read32le_eq_iff) (simp add: stream_header_bytes_def lzma_header_magic_def)
  moreover have "take 6 ?in = lzma_header_magic" "take 2 (drop 6 ?in) = [0, ucast (sf_check options)]"
    by (simp_all add: stream_header_bytes_def lzma_header_magic_def)
  ultimately show ?thesis
    by (simp add: lzma_stream_header_decode_def LZMA_STREAM_FLAGS_SIZE_def Let_def)
qed

lemma stream_footer_decode_bytes:
  assumes "sf_check options \<le> LZMA_CHECK_ID_MAX"
  shows "lzma_stream_footer_decode options' (stream_footer_bytes bw (sf_check options))
    = (LZMA_OK, options'\<lparr>sf_version := 0, sf_check := sf_check options, sf_backward_size := (ucast bw + 1) * 4\<rparr>)"
proof -
  let ?in = "stream_footer_bytes bw (sf_check options)"
  have "stream_flags_decode options' ?in 8 = (False, options'\<lparr>sf_version := 0, sf_check := sf_check options\<rparr>)"
    by (rule stream_flags_decode_OK [OF assms])
      (simp_all add: stream_footer_bytes_def bytes32le_def)
  moreover have "unaligned_read32le ?in 4 = bw"
    by (simp add: unaligned_read32le_eq_iff) (simp add: stream_footer_bytes_def)
  moreover have "unaligned_read32le ?in 0 = lzma_crc32 (bytes32le bw @ [0, ucast (sf_check options)]) 0"
    by (simp add: unaligned_read32le_eq_iff) (simp add: stream_footer_bytes_def)
  moreover have "take 2 (drop 10 ?in) = lzma_footer_magic"
    "take 6 (drop 4 ?in) = bytes32le bw @ [0, ucast (sf_check options)]"
    by (simp_all add: stream_footer_bytes_def lzma_footer_magic_def)
  ultimately show ?thesis
    by (simp add: lzma_stream_footer_decode_def LZMA_STREAM_FLAGS_SIZE_def Let_def)
qed

lemma backward_size_field:
  assumes "is_backward_size_valid options"
  shows "(ucast (ucast (sf_backward_size options div 4 - 1) :: u32) + 1) * 4 = sf_backward_size options"
proof -
  let ?b = "sf_backward_size options"
  have lo: "4 \<le> unat ?b" and hi: "unat ?b \<le> 2 ^ 34"
    using assms by (auto simp: is_backward_size_valid_def stream_consts word_le_nat_alt)
  have "?b AND mask 2 = 0" using assms by (simp add: is_backward_size_valid_def mask_eq_exp_minus_1)
  then have m: "unat ?b mod 4 = 0" using unat_and_mask [of ?b 2] by simp
  define k where "k = unat ?b div 4"
  have b: "unat ?b = 4 * k" using m by (auto simp: k_def)
  have k: "1 \<le> k" "k \<le> 2 ^ 32" using lo hi b by auto
  have d: "unat (?b div 4) = k" by (simp add: unat_div k_def)
  then have "1 \<le> ?b div 4" using k by (simp add: word_le_nat_alt)
  then have "unat (?b div 4 - 1) = k - 1" using d by (simp add: unat_sub)
  then have "unat (ucast (ucast (?b div 4 - 1) :: u32) :: u64) = k - 1"
    using k by (simp only: unat_ucast_mod) simp
  then have "unat ((ucast (ucast (?b div 4 - 1) :: u32) + 1) * 4 :: u64) = 4 * k"
    using k by (simp add: unat_word_ariths)
  then show ?thesis using b by (intro unat_eqI) simp
qed

lemma stream_header_corrupt:
  assumes "i < 12" "b \<noteq> stream_header_bytes chk ! i"
  shows "fst (lzma_stream_header_decode g ((stream_header_bytes chk)[i := b]))
    = (if i < 6 then LZMA_FORMAT_ERROR else LZMA_DATA_ERROR)"
proof -
  let ?h = "stream_header_bytes chk"
  have f: "take 6 (?h[i := b]) = (if i < 6 then (take 6 ?h)[i := b] else take 6 ?h)"
    using field_update [of 0 6 ?h i b] assms(1) by simp
  have m: "take 6 ?h = lzma_header_magic" by (simp add: stream_header_bytes_def)
  have "(take 6 ?h)[i := b] \<noteq> take 6 ?h" if "i < 6" using that assms by (intro list_update_neq) auto
  moreover have "lzma_crc32 (take 2 (drop 6 (?h[i := b]))) 0 \<noteq> unaligned_read32le (?h[i := b]) 8" if "\<not> i < 6"
    using that assms
    by (intro crc_field_mismatch) (auto simp: stream_header_bytes_def lzma_header_magic_def)
  ultimately show ?thesis
    using f m by (simp add: lzma_stream_header_decode_def LZMA_STREAM_FLAGS_SIZE_def Let_def)
qed

lemma stream_footer_corrupt:
  assumes "i < 12" "b \<noteq> stream_footer_bytes bw chk ! i"
  shows "fst (lzma_stream_footer_decode g ((stream_footer_bytes bw chk)[i := b]))
    = (if i < 10 then LZMA_DATA_ERROR else LZMA_FORMAT_ERROR)"
proof -
  let ?h = "stream_footer_bytes bw chk"
  have f: "take 2 (drop 10 (?h[i := b])) = (if 10 \<le> i then (take 2 (drop 10 ?h))[i - 10 := b] else take 2 (drop 10 ?h))"
    using field_update [of 10 2 ?h i b] assms(1) by simp
  have m: "take 2 (drop 10 ?h) = lzma_footer_magic" by (simp add: stream_footer_bytes_def)
  have "(take 2 (drop 10 ?h))[i - 10 := b] \<noteq> take 2 (drop 10 ?h)" if "10 \<le> i"
    using that assms by (intro list_update_neq) auto
  moreover have "lzma_crc32 (take 6 (drop 4 (?h[i := b]))) 0 \<noteq> unaligned_read32le (?h[i := b]) 0" if "\<not> 10 \<le> i"
    using that assms
    by (intro crc_field_mismatch) (auto simp: stream_footer_bytes_def)
  ultimately show ?thesis
    using f m by (simp add: lzma_stream_footer_decode_def LZMA_STREAM_FLAGS_SIZE_def Let_def)
qed

section \<open>Properties\<close>

text \<open>C22. Round trip of both ends of a Stream: the twelve bytes written for valid flags decode to
  the same check type, and the footer also to the same Backward Size; the header leaves Backward
  Size unknown, so comparing the two decoded structures succeeds.\<close>

theorem stream_flags_roundtrip:
  assumes "length out = LZMA_STREAM_HEADER_SIZE" "sf_version f = 0"
    and "sf_check f \<le> LZMA_CHECK_ID_MAX" "is_backward_size_valid f"
  shows "\<exists>hdr ftr. lzma_stream_header_encode f out = (LZMA_OK, hdr)
     \<and> lzma_stream_footer_encode f out = (LZMA_OK, ftr)
     \<and> lzma_stream_header_decode g hdr = (LZMA_OK, f\<lparr>sf_backward_size := LZMA_VLI_UNKNOWN\<rparr>)
     \<and> lzma_stream_footer_decode g ftr = (LZMA_OK, f)
     \<and> lzma_stream_flags_compare (f\<lparr>sf_backward_size := LZMA_VLI_UNKNOWN\<rparr>) f = LZMA_OK"
proof -
  have len: "length out = 12" using assms(1) by (simp add: LZMA_STREAM_HEADER_SIZE_def)
  have "sf_check f \<le> LZMA_CHECK_ID_MAX \<Longrightarrow> \<not> LZMA_CHECK_ID_MAX < sf_check f" by simp
  then show ?thesis
    using assms(2,3) lzma_stream_header_encode_OK [OF len assms(2,3)]
      lzma_stream_footer_encode_OK [OF len assms(2-4)] stream_header_decode_bytes [OF assms(3)]
      stream_footer_decode_bytes [OF assms(3)] backward_size_field [OF assms(4)]
    by (simp add: lzma_stream_flags_compare_def)
qed

theorem stream_flags_roundtrip_witness:
  "\<exists>hdr ftr. lzma_stream_header_encode \<lparr>sf_version = 0, sf_backward_size = 8, sf_check = 4\<rparr> (replicate 12 0) = (LZMA_OK, hdr)
     \<and> lzma_stream_footer_encode \<lparr>sf_version = 0, sf_backward_size = 8, sf_check = 4\<rparr> (replicate 12 0) = (LZMA_OK, ftr)
     \<and> lzma_stream_header_decode \<lparr>sf_version = 9, sf_backward_size = 9, sf_check = 9\<rparr> hdr
       = (LZMA_OK, \<lparr>sf_version = 0, sf_backward_size = LZMA_VLI_UNKNOWN, sf_check = 4\<rparr>)
     \<and> lzma_stream_footer_decode \<lparr>sf_version = 9, sf_backward_size = 9, sf_check = 9\<rparr> ftr
       = (LZMA_OK, \<lparr>sf_version = 0, sf_backward_size = 8, sf_check = 4\<rparr>)
     \<and> lzma_stream_flags_compare \<lparr>sf_version = 0, sf_backward_size = LZMA_VLI_UNKNOWN, sf_check = 4\<rparr>
         \<lparr>sf_version = 0, sf_backward_size = 8, sf_check = 4\<rparr> = LZMA_OK"
  using stream_flags_roundtrip [of "replicate 12 0" "\<lparr>sf_version = 0, sf_backward_size = 8, sf_check = 4\<rparr>"
      "\<lparr>sf_version = 9, sf_backward_size = 9, sf_check = 9\<rparr>"]
  by (simp add: is_backward_size_valid_def LZMA_STREAM_HEADER_SIZE_def LZMA_CHECK_ID_MAX_def
        LZMA_BACKWARD_SIZE_MIN_def LZMA_BACKWARD_SIZE_MAX_def)

text \<open>C23. Corruption of one byte is always noticed: changing any one of the twelve bytes of an
  encoded Stream Header or Stream Footer makes the decoder fail, with \<open>LZMA_FORMAT_ERROR\<close> in the
  magic bytes and \<open>LZMA_DATA_ERROR\<close> everywhere else.\<close>

theorem stream_flags_corruption:
  assumes "length out = LZMA_STREAM_HEADER_SIZE" "sf_version f = 0"
    and "sf_check f \<le> LZMA_CHECK_ID_MAX" "is_backward_size_valid f" "i < LZMA_STREAM_HEADER_SIZE"
    and "lzma_stream_header_encode f out = (LZMA_OK, hdr)" "lzma_stream_footer_encode f out = (LZMA_OK, ftr)"
  shows "(b \<noteq> hdr ! i \<longrightarrow> fst (lzma_stream_header_decode g (hdr[i := b]))
       = (if i < 6 then LZMA_FORMAT_ERROR else LZMA_DATA_ERROR))
    \<and> (b \<noteq> ftr ! i \<longrightarrow> fst (lzma_stream_footer_decode g (ftr[i := b]))
       = (if i < 10 then LZMA_DATA_ERROR else LZMA_FORMAT_ERROR))"
proof (intro conjI impI)
  have i: "i < 12" using assms(5) by (simp add: LZMA_STREAM_HEADER_SIZE_def)
  have len: "length out = 12" using assms(1) by (simp add: LZMA_STREAM_HEADER_SIZE_def)
  show "fst (lzma_stream_header_decode g (hdr[i := b])) = (if i < 6 then LZMA_FORMAT_ERROR else LZMA_DATA_ERROR)"
    if "b \<noteq> hdr ! i"
  proof -
    have hdr: "hdr = stream_header_bytes (sf_check f)"
      using assms(6) lzma_stream_header_encode_OK [OF len assms(2,3)] by simp
    show ?thesis using stream_header_corrupt [OF i] that by (simp add: hdr)
  qed
  show "fst (lzma_stream_footer_decode g (ftr[i := b])) = (if i < 10 then LZMA_DATA_ERROR else LZMA_FORMAT_ERROR)"
    if "b \<noteq> ftr ! i"
  proof -
    have ftr: "ftr = stream_footer_bytes (ucast (sf_backward_size f div 4 - 1)) (sf_check f)"
      using assms(7) lzma_stream_footer_encode_OK [OF len assms(2-4)] by simp
    show ?thesis using stream_footer_corrupt [OF i] that by (simp add: ftr)
  qed
qed

theorem stream_flags_corruption_witness:
  "fst (lzma_stream_header_decode \<lparr>sf_version = 0, sf_backward_size = 8, sf_check = 4\<rparr>
      ((snd (lzma_stream_header_encode \<lparr>sf_version = 0, sf_backward_size = 8, sf_check = 4\<rparr> (replicate 12 0)))[7 := 1]))
    = LZMA_DATA_ERROR"
proof -
  let ?f = "\<lparr>sf_version = 0, sf_backward_size = 8, sf_check = 4\<rparr>"
  have v: "sf_version ?f = 0" "sf_check ?f \<le> LZMA_CHECK_ID_MAX" "is_backward_size_valid ?f"
    "length (replicate 12 (0 :: u8)) = 12"
    by (simp_all add: is_backward_size_valid_def stream_consts)
  note h = lzma_stream_header_encode_OK [OF v(4,1,2)]
  note t = lzma_stream_footer_encode_OK [OF v(4,1,2,3)]
  have "(1 :: u8) \<noteq> stream_header_bytes 4 ! 7" by (simp add: stream_header_bytes_def lzma_header_magic_def)
  then show ?thesis
    using stream_flags_corruption [OF _ v(1-3) _ h t, of 7 1 ?f] v(4) h
    by (simp add: LZMA_STREAM_HEADER_SIZE_def)
qed

end
