(* ===== verification/Sha256.thy ===== *)
theory Sha256
  imports Prelude
begin

unbundle bit_operations_syntax

text \<open>
  SHA-256, the strongest integrity check of the container and the hash the Index is verified with:
  \<open>check/sha256.c\<close>. The code keeps the message schedule in a ring of sixteen words, addresses
  the working variables through a rotating index instead of moving them, and computes the logical
  functions in factored forms. The theory proves that this is the function FIPS 180-4 defines, for
  any way of cutting the message into calls of \<open>lzma_sha256_update\<close>.

  The union \<open>buffer\<close> is its byte view; \<open>u32\<close> and \<open>u64\<close> accesses are little-endian loads and stores, the
  byte order of the supported build.
\<close>

section \<open>The code\<close>

definition rotr_32 :: "u32 \<Rightarrow> nat \<Rightarrow> u32" where
  "rotr_32 num amount = drop_bit amount num OR push_bit (32 - amount) num"

definition conv32be :: "u32 \<Rightarrow> u32" where
  "conv32be num = load32 (ucast (drop_bit 24 num)) (ucast (drop_bit 16 num)) (ucast (drop_bit 8 num)) (ucast num)"

definition sha_Ch :: "u32 \<Rightarrow> u32 \<Rightarrow> u32 \<Rightarrow> u32" where
  "sha_Ch x y z = z XOR (x AND (y XOR z))"

definition sha_Maj :: "u32 \<Rightarrow> u32 \<Rightarrow> u32 \<Rightarrow> u32" where
  "sha_Maj x y z = (x AND (y XOR z)) + (y AND z)"

definition sha_S0 :: "u32 \<Rightarrow> u32" where
  "sha_S0 x = rotr_32 (x XOR rotr_32 (x XOR rotr_32 x 9) 11) 2"

definition sha_S1 :: "u32 \<Rightarrow> u32" where
  "sha_S1 x = rotr_32 (x XOR rotr_32 (x XOR rotr_32 x 14) 5) 6"

definition sha_s0 :: "u32 \<Rightarrow> u32" where
  "sha_s0 x = rotr_32 (x XOR rotr_32 x 11) 7 XOR drop_bit 3 x"

definition sha_s1 :: "u32 \<Rightarrow> u32" where
  "sha_s1 x = rotr_32 (x XOR rotr_32 x 2) 17 XOR drop_bit 10 x"

definition SHA256_K :: "u32 list" where
  "SHA256_K =
    [0x428A2F98, 0x71374491, 0xB5C0FBCF, 0xE9B5DBA5, 0x3956C25B, 0x59F111F1, 0x923F82A4, 0xAB1C5ED5,
     0xD807AA98, 0x12835B01, 0x243185BE, 0x550C7DC3, 0x72BE5D74, 0x80DEB1FE, 0x9BDC06A7, 0xC19BF174,
     0xE49B69C1, 0xEFBE4786, 0x0FC19DC6, 0x240CA1CC, 0x2DE92C6F, 0x4A7484AA, 0x5CB0A9DC, 0x76F988DA,
     0x983E5152, 0xA831C66D, 0xB00327C8, 0xBF597FC7, 0xC6E00BF3, 0xD5A79147, 0x06CA6351, 0x14292967,
     0x27B70A85, 0x2E1B2138, 0x4D2C6DFC, 0x53380D13, 0x650A7354, 0x766A0ABB, 0x81C2C92E, 0x92722C85,
     0xA2BFE8A1, 0xA81A664B, 0xC24B8B70, 0xC76C51A3, 0xD192E819, 0xD6990624, 0xF40E3585, 0x106AA070,
     0x19A4C116, 0x1E376C08, 0x2748774C, 0x34B0BCB5, 0x391C0CB3, 0x4ED8AA4A, 0x5B9CCA4F, 0x682E6FF3,
     0x748F82EE, 0x78A5636F, 0x84C87814, 0x8CC70208, 0x90BEFFFA, 0xA4506CEB, 0xBEF9A3F7, 0xC67178F2]"

text \<open>The macros \<open>blk0\<close> and \<open>blk2\<close>: the new content of the ring \<open>W\<close>.\<close>

definition sha_blk0 :: "nat \<Rightarrow> u32 list \<Rightarrow> u32 list \<Rightarrow> u32 list" where
  "sha_blk0 i data W = W[i := conv32be (data ! i)]"

definition sha_blk2 :: "nat \<Rightarrow> u32 list \<Rightarrow> u32 list" where
  "sha_blk2 i W =
     W[i mod 16 := W ! (i mod 16) + (sha_s1 (W ! ((i + 16 - 2) mod 16)) + W ! ((i + 16 - 7) mod 16)
                    + sha_s0 (W ! ((i + 16 - 15) mod 16)))]"

text \<open>The index \<open>(k - i) & 7\<close> of the \<open>k\<close>-th working variable in round \<open>i\<close>, at most 15.\<close>

definition sha_ix :: "nat \<Rightarrow> nat \<Rightarrow> nat" where
  "sha_ix k i = (k + 16 - i) mod 8"

text \<open>The macro \<open>R\<close>, with the round's word already in \<open>W[i]\<close>.\<close>

definition sha_R :: "nat \<Rightarrow> nat \<Rightarrow> u32 \<Rightarrow> u32 list \<Rightarrow> u32 list" where
  "sha_R i j blk T =
     (let T = T[sha_ix 7 i := T ! sha_ix 7 i + (sha_S1 (T ! sha_ix 4 i)
                + sha_Ch (T ! sha_ix 4 i) (T ! sha_ix 5 i) (T ! sha_ix 6 i) + SHA256_K ! (i + j) + blk)];
          T = T[sha_ix 3 i := T ! sha_ix 3 i + T ! sha_ix 7 i]
      in T[sha_ix 7 i := T ! sha_ix 7 i + (sha_S0 (T ! sha_ix 0 i)
             + sha_Maj (T ! sha_ix 0 i) (T ! sha_ix 1 i) (T ! sha_ix 2 i))])"

definition sha_round :: "u32 list \<Rightarrow> nat \<times> nat \<Rightarrow> u32 list \<times> u32 list \<Rightarrow> u32 list \<times> u32 list" where
  "sha_round data ij WT =
     (let (i, j) = ij; (W, T) = WT;
          W = (if j = 0 then sha_blk0 i data W else sha_blk2 i W)
      in (W, sha_R i j (W ! (i mod 16)) T))"

definition sha_rounds :: "(nat \<times> nat) list" where
  "sha_rounds = concat (map (\<lambda>j. map (\<lambda>i. (i, j)) [0..<16]) [0, 16, 32, 48])"

text \<open>The array \<open>W\<close> is uninitialised in C; every word is written before it is read.\<close>

definition sha_transform :: "u32 list \<Rightarrow> u32 list \<Rightarrow> u32 list" where
  "sha_transform st data =
     (let (W, T) = fold (sha_round data) sha_rounds (replicate 16 0, st)
      in map (\<lambda>k. st ! k + T ! sha_ix k 0) [0..<8])"

text \<open>The SHA-256 part of \<open>lzma_check_state\<close>.\<close>

record sha256_check =
  sha_buffer :: "u8 list"
  sha_state :: "u32 list"
  sha_size :: u64

definition buffer_u32 :: "u8 list \<Rightarrow> u32 list" where
  "buffer_u32 buf = map (\<lambda>i. unaligned_read32le buf (4 * i)) [0..<16]"

definition sha_process :: "sha256_check \<Rightarrow> sha256_check" where
  "sha_process chk = chk\<lparr>sha_state := sha_transform (sha_state chk) (buffer_u32 (sha_buffer chk))\<rparr>"

definition sha_initial :: "u32 list" where
  "sha_initial = [0x6A09E667, 0xBB67AE85, 0x3C6EF372, 0xA54FF53A, 0x510E527F, 0x9B05688C, 0x1F83D9AB, 0x5BE0CD19]"

definition lzma_sha256_init :: "sha256_check \<Rightarrow> sha256_check" where
  "lzma_sha256_init chk = chk\<lparr>sha_state := sha_initial, sha_size := 0\<rparr>"

function lzma_sha256_update :: "u8 list \<Rightarrow> sha256_check \<Rightarrow> sha256_check" where
  "lzma_sha256_update buf chk =
     (if length buf > 0 then
        (let copy_start = unat (sha_size chk AND 0x3F);
             copy_size = min (64 - copy_start) (length buf);
             chk = chk\<lparr>sha_buffer := buf_write copy_start (take copy_size buf) (sha_buffer chk),
                       sha_size := sha_size chk + of_nat copy_size\<rparr>;
             chk = (if sha_size chk AND 0x3F = 0 then sha_process chk else chk)
         in lzma_sha256_update (drop copy_size buf) chk)
      else chk)"
  by pat_completeness auto
termination
proof (relation "measure (\<lambda>(buf, _). length buf)")
  fix buf :: "u8 list" and chk :: sha256_check and x xa xb xc
  assume "0 < length buf" and x: "x = unat (sha_size chk AND 0x3F)" and xa: "xa = min (64 - x) (length buf)"
  have "x < 64"
    using unat_and_mask [of "sha_size chk" 6] by (simp add: x mask_eq_exp_minus_1)
  then have "0 < xa" using \<open>0 < length buf\<close> by (simp add: xa)
  then show "((drop xa buf, xc), (buf, chk)) \<in> measure (\<lambda>(buf, _). length buf)"
    using \<open>0 < length buf\<close> by simp
qed simp

declare lzma_sha256_update.simps [simp del]

text \<open>The padding loop of \<open>lzma_sha256_finish\<close>, with the position in the buffer. It starts at 1 to 64
  and stops at 56; positions above 64 do not occur and end the recursion.\<close>

function sha_pad_loop :: "nat \<Rightarrow> sha256_check \<Rightarrow> sha256_check" where
  "sha_pad_loop pos chk =
     (if pos = 56 \<or> pos > 64 then chk
      else if pos = 64 then
        (let chk = sha_process chk in sha_pad_loop 1 (chk\<lparr>sha_buffer := (sha_buffer chk)[0 := 0x00]\<rparr>))
      else sha_pad_loop (pos + 1) (chk\<lparr>sha_buffer := (sha_buffer chk)[pos := 0x00]\<rparr>))"
  by pat_completeness auto
termination
  by (relation "measure (\<lambda>(pos, _). if pos \<le> 56 then 56 - pos else 128 - pos)") auto

declare sha_pad_loop.simps [simp del]

definition bytes32be :: "u32 \<Rightarrow> u8 list" where
  "bytes32be num = rev (bytes32le num)"

definition bytes64be :: "u64 \<Rightarrow> u8 list" where
  "bytes64be num = bytes32be (ucast (drop_bit 32 num)) @ bytes32be (ucast num)"

definition lzma_sha256_finish :: "sha256_check \<Rightarrow> sha256_check" where
  "lzma_sha256_finish chk =
     (let pos = unat (sha_size chk AND 0x3F);
          chk = chk\<lparr>sha_buffer := (sha_buffer chk)[pos := 0x80]\<rparr>;
          chk = sha_pad_loop (pos + 1) chk;
          chk = chk\<lparr>sha_size := sha_size chk * 8\<rparr>;
          chk = chk\<lparr>sha_buffer := buf_write 56 (bytes64be (sha_size chk)) (sha_buffer chk)\<rparr>;
          chk = sha_process chk
      in chk\<lparr>sha_buffer := buf_write 0 (concat (map (\<lambda>i. bytes32be (sha_state chk ! i)) [0..<8])) (sha_buffer chk)\<rparr>)"

section \<open>The standard\<close>

text \<open>FIPS 180-4, section 4.1.2 (functions), 6.2.2 (computation) and 5.1.1 (padding).\<close>

definition fips_Ch :: "u32 \<Rightarrow> u32 \<Rightarrow> u32 \<Rightarrow> u32" where
  "fips_Ch x y z = (x AND y) XOR (NOT x AND z)"

definition fips_Maj :: "u32 \<Rightarrow> u32 \<Rightarrow> u32 \<Rightarrow> u32" where
  "fips_Maj x y z = (x AND y) XOR (x AND z) XOR (y AND z)"

definition fips_Sigma0 :: "u32 \<Rightarrow> u32" where
  "fips_Sigma0 x = rotr_32 x 2 XOR rotr_32 x 13 XOR rotr_32 x 22"

definition fips_Sigma1 :: "u32 \<Rightarrow> u32" where
  "fips_Sigma1 x = rotr_32 x 6 XOR rotr_32 x 11 XOR rotr_32 x 25"

definition fips_sigma0 :: "u32 \<Rightarrow> u32" where
  "fips_sigma0 x = rotr_32 x 7 XOR rotr_32 x 18 XOR drop_bit 3 x"

definition fips_sigma1 :: "u32 \<Rightarrow> u32" where
  "fips_sigma1 x = rotr_32 x 17 XOR rotr_32 x 19 XOR drop_bit 10 x"

text \<open>The message schedule of a block of sixteen words.\<close>

fun fips_W :: "u32 list \<Rightarrow> nat \<Rightarrow> u32" where
  "fips_W M t =
     (if t < 16 then M ! t
      else fips_sigma1 (fips_W M (t - 2)) + fips_W M (t - 7) + fips_sigma0 (fips_W M (t - 15)) + fips_W M (t - 16))"

declare fips_W.simps [simp del]

text \<open>One round on the eight working variables, listed from \<open>a\<close> to \<open>h\<close>.\<close>

definition fips_round :: "u32 list \<Rightarrow> nat \<Rightarrow> u32 list \<Rightarrow> u32 list" where
  "fips_round M t vars =
     (case vars of
        [a, b, c, d, e, f, g, h] \<Rightarrow>
          (let T1 = h + fips_Sigma1 e + fips_Ch e f g + SHA256_K ! t + fips_W M t;
               T2 = fips_Sigma0 a + fips_Maj a b c
           in [T1 + T2, a, b, c, d + T1, e, f, g])
      | _ \<Rightarrow> vars)"

definition fips_compress :: "u32 list \<Rightarrow> u32 list \<Rightarrow> u32 list" where
  "fips_compress H M = map2 (+) H (fold (fips_round M) [0..<64] H)"

text \<open>The words of a block, big-endian, and the blocks of a message whose length is a multiple of 64.\<close>

definition fips_words :: "u8 list \<Rightarrow> u32 list" where
  "fips_words bs = map (\<lambda>i. load32 (bs ! (4 * i + 3)) (bs ! (4 * i + 2)) (bs ! (4 * i + 1)) (bs ! (4 * i))) [0..<16]"

fun fips_blocks :: "u32 list \<Rightarrow> nat \<Rightarrow> u8 list \<Rightarrow> u32 list" where
  "fips_blocks H 0 bs = H"
| "fips_blocks H (Suc n) bs = fips_blocks (fips_compress H (fips_words (take 64 bs))) n (drop 64 bs)"

text \<open>Padding: a one bit, zeros up to 56 modulo 64, the length in bits as a 64-bit integer.\<close>

definition fips_pad :: "u8 list \<Rightarrow> u8 list" where
  "fips_pad msg = msg @ [0x80] @ replicate ((119 - length msg mod 64) mod 64) 0 @ bytes64be (of_nat (8 * length msg))"

definition fips_sha256 :: "u8 list \<Rightarrow> u8 list" where
  "fips_sha256 msg =
     concat (map bytes32be (fips_blocks sha_initial (length (fips_pad msg) div 64) (fips_pad msg)))"

section \<open>The functions\<close>

lemma bit_rotr_32:
  assumes "0 < n" "n < 32" "i < 32"
  shows "bit (rotr_32 x n) i \<longleftrightarrow> bit x ((i + n) mod 32)"
proof (cases "i + n < 32")
  case True
  then show ?thesis using assms by (auto simp: rotr_32_def bit_simps add.commute)
next
  case False
  then have "(i + n) mod 32 = i - (32 - n)" using assms by (simp add: mod_if)
  moreover have "\<not> bit x (i + n)" using False bit_imp_le_length [of x "i + n"] by auto
  ultimately show ?thesis using assms False by (auto simp: rotr_32_def bit_simps add.commute)
qed

lemma rotr_32_xor: "0 < n \<Longrightarrow> n < 32 \<Longrightarrow> rotr_32 (x XOR y) n = rotr_32 x n XOR rotr_32 y n"
  by (rule bit_word_eqI) (simp add: bit_rotr_32 bit_simps)

lemma rotr_32_rotr_32:
  "0 < m \<Longrightarrow> 0 < n \<Longrightarrow> m + n < 32 \<Longrightarrow> rotr_32 (rotr_32 x m) n = rotr_32 x (m + n)"
  by (rule bit_word_eqI) (simp add: bit_rotr_32 mod_simps add_ac)

lemma sha_sigmas:
  "sha_S0 x = fips_Sigma0 x" "sha_S1 x = fips_Sigma1 x" "sha_s0 x = fips_sigma0 x" "sha_s1 x = fips_sigma1 x"
  by (simp_all add: sha_S0_def fips_Sigma0_def sha_S1_def fips_Sigma1_def sha_s0_def fips_sigma0_def
      sha_s1_def fips_sigma1_def rotr_32_xor rotr_32_rotr_32 xor.assoc)

lemma sha_Ch: "sha_Ch x y z = fips_Ch x y z"
  by (rule bit_word_eqI) (auto simp: sha_Ch_def fips_Ch_def bit_simps)

lemma sha_Maj: "sha_Maj x y z = fips_Maj x y z"
proof -
  have "(x AND (y XOR z)) AND (y AND z) = 0"
    by (rule bit_word_eqI) (auto simp: bit_simps)
  then have "sha_Maj x y z = (x AND (y XOR z)) OR (y AND z)"
    by (simp add: sha_Maj_def disjunctive_add_eq_or)
  also have "\<dots> = fips_Maj x y z"
    by (rule bit_word_eqI) (auto simp: fips_Maj_def bit_simps)
  finally show ?thesis .
qed

section \<open>The compression function\<close>

text \<open>The state of the loop after \<open>t\<close> rounds: the ring holds the last sixteen words of the schedule and the
  rotating index reads the working variables of the standard.\<close>

definition sha_inv :: "u32 list \<Rightarrow> u32 list \<Rightarrow> nat \<Rightarrow> u32 list \<times> u32 list \<Rightarrow> bool" where
  "sha_inv M H t WT \<longleftrightarrow>
     length (fst WT) = 16 \<and> length (snd WT) = 8
     \<and> (\<forall>k<t. t \<le> k + 16 \<longrightarrow> fst WT ! (k mod 16) = fips_W M k)
     \<and> fold (fips_round M) [0..<t] H = map (\<lambda>k. snd WT ! ((k + 64 - t) mod 8)) [0..<8]"

lemma list8: "length xs = 8 \<Longrightarrow> \<exists>a b c d e f g h. xs = [a, b, c, d, e, f, g, h]"
  by (auto simp: length_Suc_conv eval_nat_numeral)

lemma upt8: "[0..<8] = [0, 1, 2, 3, 4, 5, 6, 7 :: nat]"
  by (simp add: upt_rec)

text \<open>One round through the rotating index is one round of the standard.\<close>

lemma sha_index:
  assumes "i < 16" "q < 4" and t: "t = i + 16 * q" and m: "m = (64 - t) mod 8"
  shows "sha_ix k i = (k + m) mod 8" "(k + 64 - t) mod 8 = (k + m) mod 8"
    "(k + 64 - Suc t) mod 8 = (k + m + 7) mod 8"
proof -
  have "t < 64" using assms(1,2) by (simp add: t)
  have km: "(k + c + m) mod 8 = (k + c + (64 - t)) mod 8" for c
    unfolding m by (rule mod_add_right_eq)
  show 2: "(k + 64 - t) mod 8 = (k + m) mod 8" using km [of 0] \<open>t < 64\<close> by simp
  have "k + 16 - i + 8 * (6 - 2 * q) = k + 64 - t" using assms(1,2) by (simp add: t)
  then show "sha_ix k i = (k + m) mod 8" unfolding sha_ix_def 2 [symmetric] by (metis mod_mult_self2)
  have "k + 64 - Suc t + 8 * 1 = k + 7 + (64 - t)" using \<open>t < 64\<close> by simp
  then have "(k + 64 - Suc t) mod 8 = (k + 7 + m) mod 8" unfolding km by (metis mod_mult_self2)
  then show "(k + 64 - Suc t) mod 8 = (k + m + 7) mod 8" by (simp add: add_ac)
qed

lemma sha_R_round:
  assumes T8: "length T = 8" and t: "i < 16" "q < 4" "t = i + 16 * q" and blk: "blk = fips_W M t"
  shows "map (\<lambda>k. sha_R i (16 * q) blk T ! ((k + 64 - Suc t) mod 8)) [0..<8]
       = fips_round M t (map (\<lambda>k. T ! ((k + 64 - t) mod 8)) [0..<8])"
proof -
  obtain a b c d e f g h where T: "T = [a, b, c, d, e, f, g, h]" using list8 [OF T8] by blast
  define m where "m = (64 - t) mod 8"
  note ix = sha_index [OF t m_def]
  have "m \<in> set [0..<8]" by (simp add: m_def)
  then consider "m = 0" | "m = 1" | "m = 2" | "m = 3" | "m = 4" | "m = 5" | "m = 6" | "m = 7"
    unfolding upt8 by auto
  then show ?thesis
    unfolding ix sha_R_def upt8 Let_def T
    by cases (simp_all add: fips_round_def sha_sigmas sha_Ch sha_Maj blk t(3) add_ac)
qed

lemma length_sha_R [simp]: "length (sha_R i j blk T) = length T"
  by (simp add: sha_R_def Let_def)

text \<open>The ring after a round holds the schedule's next word in place of the oldest one.\<close>

definition sha_next_W :: "u32 list \<Rightarrow> nat \<Rightarrow> nat \<Rightarrow> u32 list \<Rightarrow> u32 list" where
  "sha_next_W data i q W = (if q = 0 then sha_blk0 i data W else sha_blk2 i W)"

lemma sha_next_word:
  assumes "length W = 16" "length data = 16" "i < 16" "t = i + 16 * q"
    and ring: "\<forall>k<t. t \<le> k + 16 \<longrightarrow> W ! (k mod 16) = fips_W (map conv32be data) k"
  shows "sha_next_W data i q W = W[i := fips_W (map conv32be data) t]"
proof (cases "q = 0")
  case True
  then show ?thesis using assms by (simp add: sha_next_W_def sha_blk0_def fips_W.simps)
next
  case False
  let ?w = "fips_W (map conv32be data)"
  have W: "W ! ((i + 16 - d) mod 16) = ?w (t - d)" if "d \<le> 16" "0 < d" for d
  proof -
    have "(t - d) mod 16 = (i + 16 - d) mod 16"
    proof -
      obtain p where "q = Suc p" using False by (cases q) auto
      then have "t - d = i + 16 - d + 16 * p" using that(1) by (simp add: assms(4))
      then show ?thesis by simp
    qed
    then show ?thesis using ring False that assms(4) by (metis diff_add_cancel diff_less
      le_diff_conv add_leD2 le_refl diff_le_mono2 add.commute nat_le_linear le_add2 less_le_trans
      zero_less_iff_neq_zero mult_is_0 add_is_0 numeral_eq_iff num.distinct(1))
  qed
  have "fips_W (map conv32be data) t
      = ?w (t - 16) + (fips_sigma1 (?w (t - 2)) + ?w (t - 7) + fips_sigma0 (?w (t - 15)))"
  proof -
    have "\<not> t < 16" using False assms(4) by simp
    then show ?thesis by (subst fips_W.simps) (simp add: add_ac)
  qed
  moreover have "W ! i = ?w (t - 16)" using W [of 16] assms(3) by simp
  ultimately show ?thesis
    using False assms(3) W [of 2] W [of 7] W [of 15]
    by (simp add: sha_next_W_def sha_blk2_def sha_sigmas)
qed

lemma sha_ring:
  assumes "length W = 16" "i < 16" "t = i + 16 * q"
    and ring: "\<forall>k<t. t \<le> k + 16 \<longrightarrow> W ! (k mod 16) = w k"
  shows "\<forall>k<Suc t. Suc t \<le> k + 16 \<longrightarrow> W[i := w t] ! (k mod 16) = w k"
proof (intro allI impI)
  fix k assume k: "k < Suc t" "Suc t \<le> k + 16"
  have ti: "t mod 16 = i" using assms(2,3) by simp
  show "W[i := w t] ! (k mod 16) = w k"
  proof (cases "k = t")
    case True then show ?thesis using ti assms(1,2) by simp
  next
    case False
    have "k mod 16 \<noteq> i"
    proof
      assume "k mod 16 = i"
      then have "(t - k) mod 16 = 0" using ti k(1) by (metis less_Suc_eq_le mod_eq_dvd_iff_nat mod_0_imp_dvd dvd_imp_mod_0)
      moreover have "0 < t - k" "t - k < 16" using k False by auto
      ultimately show False by simp
    qed
    then show ?thesis using ring k False by simp
  qed
qed

lemma sha_round_inv:
  assumes inv: "sha_inv (map conv32be data) H t WT" and t: "i < 16" "q < 4" "t = i + 16 * q" "length data = 16"
  shows "sha_inv (map conv32be data) H (Suc t) (sha_round data (i, 16 * q) WT)"
proof -
  obtain W T where WT: "WT = (W, T)" by fastforce
  let ?w = "fips_W (map conv32be data)"
  have W: "length W = 16" "\<forall>k<t. t \<le> k + 16 \<longrightarrow> W ! (k mod 16) = ?w k"
    and T: "length T = 8" "fold (fips_round (map conv32be data)) [0..<t] H = map (\<lambda>k. T ! ((k + 64 - t) mod 8)) [0..<8]"
    using inv by (simp_all add: sha_inv_def WT)
  have r: "sha_round data (i, 16 * q) WT = (W[i := ?w t], sha_R i (16 * q) (?w t) T)"
    using sha_next_word [OF W(1) t(4) t(1,3) W(2)] W(1) t(1)
    by (simp add: sha_round_def WT Let_def sha_next_W_def)
  show ?thesis
    using sha_ring [OF W(1) t(1,3) W(2)] W(1) T sha_R_round [OF T(1) t(1-3) refl]
    by (simp add: sha_inv_def r del: fips_W.simps)
qed

lemma sha_rounds_inv:
  assumes "length data = 16" "length H = 8"
  shows "sha_inv (map conv32be data) H 64 (fold (sha_round data) sha_rounds (replicate 16 0, H))"
proof -
  let ?M = "map conv32be data"
  have group: "sha_inv ?M H (16 * q + n) (fold (sha_round data) (map (\<lambda>i. (i, 16 * q)) [0..<n]) WT)"
    if "sha_inv ?M H (16 * q) WT" "q < 4" "n \<le> 16" for q n WT using that(3)
  proof (induction n)
    case (Suc n)
    then show ?case using sha_round_inv [OF Suc.IH, of n q] that(2) assms(1) by simp
  qed (use that(1) in simp)
  have step: "sha_inv ?M H (16 * Suc q) (fold (sha_round data) (map (\<lambda>i. (i, 16 * q)) [0..<16]) WT)"
    if "sha_inv ?M H (16 * q) WT" "q < 4" for q WT
    using group [OF that, of 16] by (simp add: add.commute)
  have "sha_inv ?M H (16 * 0) (replicate 16 0, H)"
    using list8 [OF assms(2)] by (auto simp: sha_inv_def upt8)
  from step [OF step [OF step [OF step [OF this]]]]
  have "sha_inv ?M H 64 (fold (sha_round data)
      (concat (map (\<lambda>q. map (\<lambda>i. (i, 16 * q)) [0..<16]) [0, 1, 2, 3])) (replicate 16 0, H))"
    by (simp del: upt_Suc)
  then show ?thesis by (simp add: sha_rounds_def)
qed

lemma sha_transform_fips:
  assumes "length data = 16" "length H = 8"
  shows "sha_transform H data = fips_compress H (map conv32be data)"
proof -
  obtain W T where WT: "fold (sha_round data) sha_rounds (replicate 16 0, H) = (W, T)" by fastforce
  have T: "length T = 8" "fold (fips_round (map conv32be data)) [0..<64] H = map (\<lambda>k. T ! (k mod 8)) [0..<8]"
    using sha_rounds_inv [OF assms] by (simp_all add: sha_inv_def WT)
  then have "fold (fips_round (map conv32be data)) [0..<64] H = T"
    using list8 [OF T(1)] by (auto simp: upt8)
  moreover have "sha_transform H data = map2 (+) H T"
    using list8 [OF T(1)] list8 [OF assms(2)] by (auto simp: sha_transform_def WT upt8 sha_ix_def)
  ultimately show ?thesis by (simp add: fips_compress_def)
qed

lemma length_sha_transform [simp]: "length (sha_transform H data) = 8"
  by (simp add: sha_transform_def split_beta)

section \<open>Messages in pieces\<close>

lemma conv32be_load32 [simp]: "conv32be (load32 a b c d) = load32 d c b a"
  by (simp add: conv32be_def load32_parts)

lemma words_of_buffer: "map conv32be (buffer_u32 buf) = fips_words buf"
  by (simp add: buffer_u32_def fips_words_def unaligned_read32le_def o_def add.commute)

lemma length_buffer_u32 [simp]: "length (buffer_u32 buf) = 16"
  by (simp add: buffer_u32_def)

lemma length_bytes32be [simp]: "length (bytes32be n) = 4"
  by (simp add: bytes32be_def)

lemma length_bytes64be [simp]: "length (bytes64be n) = 8"
  by (simp add: bytes64be_def)

lemma fips_blocks_append: "64 * n \<le> length a \<Longrightarrow> fips_blocks H n (a @ b) = fips_blocks H n a"
proof (induction n arbitrary: H a)
  case (Suc n)
  then show ?case by simp
qed simp

lemma fips_blocks_Suc:
  "fips_blocks H (Suc n) bs = fips_compress (fips_blocks H n bs) (fips_words (take 64 (drop (64 * n) bs)))"
proof (induction n arbitrary: H bs)
  case (Suc n)
  have "fips_blocks H (Suc (Suc n)) bs = fips_blocks (fips_compress H (fips_words (take 64 bs))) (Suc n) (drop 64 bs)"
    by simp
  also have "\<dots> = fips_compress (fips_blocks H (Suc n) bs) (fips_words (take 64 (drop (64 * Suc n) bs)))"
    by (subst Suc.IH) (simp add: add.commute)
  finally show ?case .
qed simp

lemma length_fips_blocks: "length H = 8 \<Longrightarrow> length (fips_blocks H n bs) = 8"
proof (induction n arbitrary: H bs)
  case (Suc n)
  have "length (fips_compress H M) = 8" for M
  proof -
    have "length (fold (fips_round M) ts H) = 8" for ts using Suc.prems
      by (induction ts arbitrary: H) (auto simp: fips_round_def Let_def split: list.splits)
    then show ?thesis by (simp add: fips_compress_def Suc.prems)
  qed
  then show ?case by (simp add: Suc.IH)
qed simp

text \<open>The state after the message \<open>m\<close> with \<open>n\<close> blocks processed and \<open>pos\<close> bytes waiting in the buffer.\<close>

definition sha_pend :: "sha256_check \<Rightarrow> u8 list \<Rightarrow> nat \<Rightarrow> nat \<Rightarrow> bool" where
  "sha_pend chk m n pos \<longleftrightarrow>
     length m = 64 * n + pos \<and> pos \<le> 64 \<and> length (sha_buffer chk) = 64
     \<and> sha_state chk = fips_blocks sha_initial n m
     \<and> take pos (sha_buffer chk) = drop (64 * n) m"

lemma sha_pend_write:
  assumes "sha_pend chk m n pos" "pos + length bs \<le> 64"
  shows "sha_pend (chk\<lparr>sha_buffer := buf_write pos bs (sha_buffer chk)\<rparr>) (m @ bs) n (pos + length bs)"
  using assms by (simp add: sha_pend_def fips_blocks_append take_buf_write_all)

lemma sha_pend_process:
  assumes "sha_pend chk m n 64"
  shows "sha_pend (sha_process chk) m (Suc n) 0"
proof -
  have buf: "length (sha_buffer chk) = 64" "sha_buffer chk = take 64 (drop (64 * n) m)"
    "length m = 64 * n + 64" "sha_state chk = fips_blocks sha_initial n m"
    using assms by (auto simp: sha_pend_def)
  have "sha_transform (sha_state chk) (buffer_u32 (sha_buffer chk))
      = fips_compress (sha_state chk) (fips_words (sha_buffer chk))"
    using length_fips_blocks [of sha_initial n m]
    by (subst sha_transform_fips) (simp_all add: buf(4) words_of_buffer sha_initial_def)
  also have "\<dots> = fips_blocks sha_initial (Suc n) m"
    by (simp only: buf(4) fips_blocks_Suc flip: buf(2))
  finally show ?thesis using buf by (simp add: sha_pend_def sha_process_def)
qed

lemma sha_size_pos:
  "unat ((of_nat L :: u64) AND 0x3F) = L mod 64"
proof -
  have "unat ((of_nat L :: u64) AND mask 6) = unat (of_nat L :: u64) mod 2 ^ 6" by (rule unat_and_mask)
  also have "\<dots> = L mod 2 ^ 6" by (simp add: unat_of_nat take_bit_eq_mod mod_mod_cancel)
  finally show ?thesis by (simp add: mask_eq_exp_minus_1)
qed

text \<open>The state between calls.\<close>

definition sha_track :: "sha256_check \<Rightarrow> u8 list \<Rightarrow> bool" where
  "sha_track chk m \<longleftrightarrow> sha_size chk = of_nat (length m) \<and> sha_pend chk m (length m div 64) (length m mod 64)"

lemma sha_track_init: "length (sha_buffer chk) = 64 \<Longrightarrow> sha_track (lzma_sha256_init chk) []"
  by (simp add: sha_track_def sha_pend_def lzma_sha256_init_def)

lemma sha_track_step:
  assumes track: "sha_track chk m" and c: "c = min (64 - length m mod 64) (length buf)" "0 < c"
    and chk': "chk' = chk\<lparr>sha_buffer := buf_write (length m mod 64) (take c buf) (sha_buffer chk),
                 sha_size := sha_size chk + of_nat c\<rparr>"
  shows "sha_track (if sha_size chk' AND 0x3F = 0 then sha_process chk' else chk') (m @ take c buf)"
proof -
  let ?r = "length m mod 64"
  have len: "length (m @ take c buf) = length m + c" using c(1) by simp
  have size: "sha_size chk' = of_nat (length m + c)"
    using track by (simp add: sha_track_def chk')
  have "sha_pend (chk\<lparr>sha_buffer := buf_write ?r (take c buf) (sha_buffer chk)\<rparr>)
      (m @ take c buf) (length m div 64) (?r + length (take c buf))"
    using track c by (intro sha_pend_write) (auto simp: sha_track_def)
  then have pend: "sha_pend chk' (m @ take c buf) (length m div 64) (?r + c)"
    using c(1) by (simp add: sha_pend_def chk')
  have zero: "sha_size chk' AND 0x3F = 0 \<longleftrightarrow> (length m + c) mod 64 = 0"
    using sha_size_pos [of "length m + c"] by (metis size unsigned_eq_0_iff)
  have split: "length m + c = 64 * (length m div 64) + (?r + c)" by simp
  show ?thesis
  proof (cases "?r + c = 64")
    case True
    then have "length m + c = 64 * Suc (length m div 64)" unfolding split by simp
    then have d: "(length m + c) mod 64 = 0" "(length m + c) div 64 = Suc (length m div 64)" by simp_all
    have "sha_track (sha_process chk') (m @ take c buf)"
      unfolding sha_track_def len d
      using sha_pend_process [of chk'] pend True size by (simp add: sha_process_def)
    then show ?thesis using d zero by simp
  next
    case False
    then have lt: "?r + c < 64" using c(1) by (simp add: min_def split: if_splits)
    have d: "(64 * q + x) mod 64 = x" "(64 * q + x) div 64 = q" if "x < 64" for q x :: nat
      using that by simp_all
    have "(length m + c) mod 64 = ?r + c" "(length m + c) div 64 = length m div 64"
      by (subst split, rule d(1) [OF lt], subst split, rule d(2) [OF lt])
    then show ?thesis unfolding sha_track_def len using pend size zero c(2) by simp
  qed
qed

lemma sha_track_update:
  "sha_track chk m \<Longrightarrow> sha_track (lzma_sha256_update buf chk) (m @ buf)"
proof (induction "length buf" arbitrary: buf chk m rule: less_induct)
  case less
  show ?case
  proof (cases "buf = []")
    case True then show ?thesis using less.prems by (simp add: lzma_sha256_update.simps)
  next
    case False
    define c where "c = min (64 - length m mod 64) (length buf)"
    have c0: "0 < c" using False by (simp add: c_def)
    define chk' where "chk' = chk\<lparr>sha_buffer := buf_write (length m mod 64) (take c buf) (sha_buffer chk),
                 sha_size := sha_size chk + of_nat c\<rparr>"
    have pos: "unat (sha_size chk AND 0x3F) = length m mod 64"
      using less.prems sha_size_pos by (simp only: sha_track_def)
    have "lzma_sha256_update buf chk
        = lzma_sha256_update (drop c buf) (if sha_size chk' AND 0x3F = 0 then sha_process chk' else chk')"
      using False by (subst lzma_sha256_update.simps) (simp only: pos Let_def c_def chk'_def length_greater_0_conv simp_thms if_True)
    moreover have "length (drop c buf) < length buf" using c0 False by simp
    note less.hyps [OF this sha_track_step [OF less.prems c_def c0 chk'_def]]
    ultimately show ?thesis by simp
  qed
qed

section \<open>Padding and the digest\<close>

lemma sha_pad_loop_pend:
  "sha_pend chk m n pos \<Longrightarrow> 0 < pos \<Longrightarrow>
     sha_pend (sha_pad_loop pos chk) (m @ replicate ((120 - pos) mod 64) 0)
       (if pos \<le> 56 then n else Suc n) 56
     \<and> sha_size (sha_pad_loop pos chk) = sha_size chk"
proof (induction pos chk arbitrary: m n rule: sha_pad_loop.induct)
  case (1 pos chk)
  have le: "pos \<le> 64" and buf: "length (sha_buffer chk) = 64" using "1.prems" by (simp_all add: sha_pend_def)
  consider "pos = 56" | "pos = 64" | "pos < 56" | "56 < pos" "pos < 64" using le by linarith
  then show ?case
  proof cases
    case 1 then show ?thesis using "1.prems" by (simp add: sha_pad_loop.simps)
  next
    case 2
    let ?p = "sha_process chk"
    have "sha_pend ?p m (Suc n) 0" using "1.prems" 2 by (simp add: sha_pend_process)
    from sha_pend_write [OF this, of "[0]"]
    have "sha_pend (?p\<lparr>sha_buffer := buf_write 0 [0] (sha_buffer ?p)\<rparr>) (m @ [0]) (Suc n) 1" by simp
    moreover have "(sha_buffer ?p)[0 := 0] = buf_write 0 [0] (sha_buffer ?p)"
      using buf by (simp add: list_update_buf_write sha_process_def)
    moreover have "(120 - 1) mod 64 = (55 :: nat)" "Suc 55 = 56" by simp_all
    ultimately show ?thesis
      using 2 "1.IH"(1) [of ?p "m @ [0]" "Suc n"]
      by (simp add: sha_pad_loop.simps [of 64] sha_process_def flip: replicate_Suc)
  next
    case 3
    have "sha_pend (chk\<lparr>sha_buffer := buf_write pos [0] (sha_buffer chk)\<rparr>) (m @ [0]) n (pos + 1)"
      using sha_pend_write [OF "1.prems"(1), of "[0]"] 3 by simp
    moreover have "(sha_buffer chk)[pos := 0] = buf_write pos [0] (sha_buffer chk)"
      using buf 3 by (simp add: list_update_buf_write)
    moreover have "(120 - pos) mod 64 = Suc ((120 - (pos + 1)) mod 64)"
    proof -
      have "(120 - pos) mod 64 = 56 - pos" using 3 by (subst le_mod_geq) simp_all
      moreover have "(120 - (pos + 1)) mod 64 = 55 - pos" using 3 by (subst le_mod_geq) simp_all
      ultimately show ?thesis using 3 by simp
    qed
    ultimately show ?thesis
      using 3 "1.IH"(2) [of "m @ [0]" n] by (simp add: sha_pad_loop.simps [of pos])
  next
    case 4
    have "sha_pend (chk\<lparr>sha_buffer := buf_write pos [0] (sha_buffer chk)\<rparr>) (m @ [0]) n (pos + 1)"
      using sha_pend_write [OF "1.prems"(1), of "[0]"] 4 by simp
    moreover have "(sha_buffer chk)[pos := 0] = buf_write pos [0] (sha_buffer chk)"
      using buf 4 by (simp add: list_update_buf_write)
    moreover have "(120 - pos) mod 64 = Suc ((120 - (pos + 1)) mod 64)"
      using 4 by (simp only: mod_less [of "120 - pos" 64] mod_less [of "120 - (pos + 1)" 64])
    ultimately show ?thesis
      using 4 "1.IH"(2) [of "m @ [0]" n] by (simp add: sha_pad_loop.simps [of pos])
  qed
qed

lemma sha_pend_padded:
  assumes track: "sha_track chk m"
  defines "r \<equiv> length m mod 64"
  defines "chk1 \<equiv> sha_pad_loop (r + 1) (chk\<lparr>sha_buffer := (sha_buffer chk)[r := 0x80]\<rparr>)"
  shows "\<exists>n. sha_pend (chk1\<lparr>sha_size := x, sha_buffer := buf_write 56 (bytes64be (of_nat (8 * length m))) (sha_buffer chk1)\<rparr>)
           (fips_pad m) n 64"
    and "sha_size chk1 = of_nat (length m)"
proof -
  let ?c = "chk\<lparr>sha_buffer := (sha_buffer chk)[r := 0x80]\<rparr>"
  have pend: "sha_pend chk m (length m div 64) r" and size: "sha_size chk = of_nat (length m)"
    using track by (simp_all add: sha_track_def r_def)
  have r: "r < 64" by (simp add: r_def)
  have "sha_pend (chk\<lparr>sha_buffer := buf_write r [0x80] (sha_buffer chk)\<rparr>) (m @ [0x80]) (length m div 64) (r + length [0x80 :: u8])"
    using r by (intro sha_pend_write pend) simp
  then have "sha_pend ?c (m @ [0x80]) (length m div 64) (r + 1)"
    using pend r by (simp add: list_update_buf_write sha_pend_def)
  from sha_pad_loop_pend [OF this]
  obtain n where n: "sha_pend chk1 ((m @ [0x80]) @ replicate ((120 - (r + 1)) mod 64) 0) n 56"
    and s1: "sha_size chk1 = sha_size ?c" unfolding chk1_def by auto
  show "sha_size chk1 = of_nat (length m)" using s1 size by simp
  from sha_pend_write [OF n, of "bytes64be (of_nat (8 * length m))"]
  show "\<exists>n. sha_pend (chk1\<lparr>sha_size := x, sha_buffer := buf_write 56 (bytes64be (of_nat (8 * length m))) (sha_buffer chk1)\<rparr>)
           (fips_pad m) n 64"
    by (intro exI [of _ n]) (simp add: sha_pend_def fips_pad_def r_def)
qed

lemma sha256_finish_digest:
  assumes "sha_track chk m"
  shows "take 32 (sha_buffer (lzma_sha256_finish chk)) = fips_sha256 m"
proof -
  define r where "r = length m mod 64"
  define chk1 where "chk1 = sha_pad_loop (r + 1) (chk\<lparr>sha_buffer := (sha_buffer chk)[r := 0x80]\<rparr>)"
  define chk2 where "chk2 = chk1\<lparr>sha_size := of_nat (8 * length m),
      sha_buffer := buf_write 56 (bytes64be (of_nat (8 * length m))) (sha_buffer chk1)\<rparr>"
  note padded = sha_pend_padded [OF assms, folded r_def chk1_def]
  obtain n where n: "sha_pend chk2 (fips_pad m) n 64" using padded(1) unfolding chk2_def chk1_def by blast
  from sha_pend_process [OF n] have p: "sha_pend (sha_process chk2) (fips_pad m) (Suc n) 0" .
  have pos: "unat (sha_size chk AND 0x3F) = r"
    using assms sha_size_pos by (simp only: sha_track_def r_def)
  have fin: "lzma_sha256_finish chk = (sha_process chk2)\<lparr>sha_buffer :=
      buf_write 0 (concat (map (\<lambda>i. bytes32be (sha_state (sha_process chk2) ! i)) [0..<8])) (sha_buffer (sha_process chk2))\<rparr>"
    using padded(2) unfolding lzma_sha256_finish_def pos Let_def chk2_def chk1_def by (simp add: mult.commute)
  have st: "sha_state (sha_process chk2) = fips_blocks sha_initial (length (fips_pad m) div 64) (fips_pad m)"
    using p by (simp add: sha_pend_def)
  moreover have len: "length (sha_state (sha_process chk2)) = 8"
    unfolding st by (rule length_fips_blocks) (simp add: sha_initial_def)
  moreover have "map (\<lambda>i. bytes32be (sha_state (sha_process chk2) ! i)) [0..<8] = map bytes32be (sha_state (sha_process chk2))"
    using len by (intro nth_equalityI) simp_all
  moreover have "length (concat (map bytes32be (sha_state (sha_process chk2)))) = 32"
    using len by (simp add: length_concat o_def sum_list_triv)
  moreover have "length (sha_buffer (sha_process chk2)) = 64" using p by (simp add: sha_pend_def)
  ultimately show ?thesis
    using take_buf_write_all [of 0 "concat (map bytes32be (sha_state (sha_process chk2)))" "sha_buffer (sha_process chk2)"]
    by (simp add: fin fips_sha256_def)
qed

text \<open>C19. SHA-256: initialising the state, feeding a message in any number of pieces of any size and
  finishing leaves in the first 32 bytes of the buffer the digest FIPS 180-4 defines of the whole
  message.\<close>

theorem sha256_is_fips:
  assumes "length (sha_buffer chk) = 64"
  shows "take 32 (sha_buffer (lzma_sha256_finish (fold lzma_sha256_update pieces (lzma_sha256_init chk))))
    = fips_sha256 (concat pieces)"
proof (rule sha256_finish_digest)
  have "sha_track c m \<Longrightarrow> sha_track (fold lzma_sha256_update ps c) (m @ concat ps)" for c m ps
    by (induction ps arbitrary: c m) (simp_all add: sha_track_update flip: append_assoc)
  from this [OF sha_track_init [OF assms]]
  show "sha_track (fold lzma_sha256_update pieces (lzma_sha256_init chk)) (concat pieces)" by simp
qed

theorem sha256_is_fips_witness:
  "take 32 (sha_buffer (lzma_sha256_finish (fold lzma_sha256_update [[0x61], [], [0x62, 0x63]]
     (lzma_sha256_init \<lparr>sha_buffer = replicate 64 0, sha_state = [], sha_size = 7\<rparr>))))
   = fips_sha256 [0x61, 0x62, 0x63]"
  using sha256_is_fips [of "\<lparr>sha_buffer = replicate 64 0, sha_state = [], sha_size = 7\<rparr>" "[[0x61], [], [0x62, 0x63]]"]
  by simp

end
