(* ===== verification/Check.thy ===== *)
theory Check
  imports Stream_Flags Sha256
begin

unbundle bit_operations_syntax

text \<open>
  The integrity checks behind one interface: \<open>check/check.c\<close> and \<open>check/check.h\<close>, in the build with CRC32,
  CRC64 and SHA-256. The union \<open>state\<close> is modelled by one field per variant; only the variant of the
  check in use is ever read. The \<open>buffer\<close> union is the byte buffer of the SHA-256 state.
\<close>

section \<open>The code\<close>

definition LZMA_CHECK_NONE :: u32 where "LZMA_CHECK_NONE = 0"
definition LZMA_CHECK_CRC32 :: u32 where "LZMA_CHECK_CRC32 = 1"
definition LZMA_CHECK_CRC64 :: u32 where "LZMA_CHECK_CRC64 = 4"
definition LZMA_CHECK_SHA256 :: u32 where "LZMA_CHECK_SHA256 = 10"
definition LZMA_CHECK_BEST :: u32 where "LZMA_CHECK_BEST = LZMA_CHECK_SHA256"

lemmas check_ids = LZMA_CHECK_NONE_def LZMA_CHECK_CRC32_def LZMA_CHECK_CRC64_def LZMA_CHECK_SHA256_def
  LZMA_CHECK_BEST_def

record lzma_check_state =
  cs_crc32 :: u32
  cs_crc64 :: u64
  cs_sha256 :: sha256_check

abbreviation cs_buffer :: "lzma_check_state \<Rightarrow> u8 list" where
  "cs_buffer chk \<equiv> sha_buffer (cs_sha256 chk)"

definition available_checks :: "bool list" where
  "available_checks =
     [True, True, False, False, True, False, False, False, False, False, True, False, False, False, False, False]"

definition lzma_check_is_supported :: "u32 \<Rightarrow> bool" where
  "lzma_check_is_supported t =
     (if t > LZMA_CHECK_ID_MAX then False else available_checks ! unat t)"

definition check_sizes :: "u8 list" where
  "check_sizes = [0, 4, 4, 4, 8, 8, 8, 16, 16, 16, 32, 32, 32, 64, 64, 64]"

definition lzma_check_size :: "u32 \<Rightarrow> u32" where
  "lzma_check_size t = (if t > LZMA_CHECK_ID_MAX then 0xFFFFFFFF else ucast (check_sizes ! unat t))"

definition lzma_check_init :: "lzma_check_state \<Rightarrow> u32 \<Rightarrow> lzma_check_state" where
  "lzma_check_init chk t =
     (if t = LZMA_CHECK_NONE then chk
      else if t = LZMA_CHECK_CRC32 then chk\<lparr>cs_crc32 := 0\<rparr>
      else if t = LZMA_CHECK_CRC64 then chk\<lparr>cs_crc64 := 0\<rparr>
      else if t = LZMA_CHECK_SHA256 then chk\<lparr>cs_sha256 := lzma_sha256_init (cs_sha256 chk)\<rparr>
      else chk)"

definition lzma_check_update :: "lzma_check_state \<Rightarrow> u32 \<Rightarrow> u8 list \<Rightarrow> lzma_check_state" where
  "lzma_check_update chk t buf =
     (if t = LZMA_CHECK_CRC32 then chk\<lparr>cs_crc32 := lzma_crc32 buf (cs_crc32 chk)\<rparr>
      else if t = LZMA_CHECK_CRC64 then chk\<lparr>cs_crc64 := lzma_crc64 buf (cs_crc64 chk)\<rparr>
      else if t = LZMA_CHECK_SHA256 then chk\<lparr>cs_sha256 := lzma_sha256_update buf (cs_sha256 chk)\<rparr>
      else chk)"

definition bytes64le :: "u64 \<Rightarrow> u8 list" where
  "bytes64le num = bytes32le (ucast num) @ bytes32le (ucast (drop_bit 32 num))"

definition set_buffer :: "lzma_check_state \<Rightarrow> u8 list \<Rightarrow> lzma_check_state" where
  "set_buffer chk bs =
     chk\<lparr>cs_sha256 := (cs_sha256 chk)\<lparr>sha_buffer := buf_write 0 bs (cs_buffer chk)\<rparr>\<rparr>"

definition lzma_check_finish :: "lzma_check_state \<Rightarrow> u32 \<Rightarrow> lzma_check_state" where
  "lzma_check_finish chk t =
     (if t = LZMA_CHECK_CRC32 then set_buffer chk (bytes32le (cs_crc32 chk))
      else if t = LZMA_CHECK_CRC64 then set_buffer chk (bytes64le (cs_crc64 chk))
      else if t = LZMA_CHECK_SHA256 then chk\<lparr>cs_sha256 := lzma_sha256_finish (cs_sha256 chk)\<rparr>
      else chk)"

section \<open>Incremental checks\<close>

text \<open>
  What the Block and Index code relies on: a check is started, fed any number of pieces and finished,
  and its value depends only on the concatenation of the pieces. \<open>track s m\<close> says that the state \<open>s\<close>
  has absorbed the message \<open>m\<close>.
\<close>

locale incremental_check =
  fixes start :: "'s \<Rightarrow> 's" and upd :: "'s \<Rightarrow> u8 list \<Rightarrow> 's" and fin :: "'s \<Rightarrow> 's"
    and val :: "'s \<Rightarrow> u8 list" and spec :: "u8 list \<Rightarrow> u8 list" and ok :: "'s \<Rightarrow> bool"
    and track :: "'s \<Rightarrow> u8 list \<Rightarrow> bool"
  assumes track_start: "ok s \<Longrightarrow> track (start s) []"
    and track_upd: "track s m \<Longrightarrow> track (upd s bs) (m @ bs)"
    and track_fin: "track s m \<Longrightarrow> val (fin s) = spec m"
begin

lemma track_fold: "track s m \<Longrightarrow> track (fold (\<lambda>bs s. upd s bs) pieces s) (m @ concat pieces)"
  by (induction pieces arbitrary: s m) (simp_all add: track_upd flip: append_assoc)

lemma value_of_pieces: "ok s \<Longrightarrow> val (fin (fold (\<lambda>bs s. upd s bs) pieces (start s))) = spec (concat pieces)"
  using track_fold [OF track_start] track_fin by fastforce

text \<open>Two runs over the same bytes, cut differently, give the same value.\<close>

lemma cut_irrelevant:
  "ok s \<Longrightarrow> ok s' \<Longrightarrow> concat pieces = concat pieces' \<Longrightarrow>
     val (fin (fold (\<lambda>bs s. upd s bs) pieces (start s))) = val (fin (fold (\<lambda>bs s. upd s bs) pieces' (start s')))"
  by (simp add: value_of_pieces)

end

abbreviation (input) buffer_ok :: "lzma_check_state \<Rightarrow> bool" where
  "buffer_ok chk \<equiv> length (cs_buffer chk) = 64"

lemma length_bytes64le [simp]: "length (bytes64le n) = 8"
  by (simp add: bytes64le_def)

lemma take_set_buffer:
  "buffer_ok chk \<Longrightarrow> length bs \<le> 64 \<Longrightarrow> take (length bs) (cs_buffer (set_buffer chk bs)) = bs"
  using take_buf_write_all [of 0 bs "cs_buffer chk"] by (simp add: set_buffer_def)

interpretation crc32_check: incremental_check
  "\<lambda>s. lzma_check_init s LZMA_CHECK_CRC32" "\<lambda>s. lzma_check_update s LZMA_CHECK_CRC32"
  "\<lambda>s. lzma_check_finish s LZMA_CHECK_CRC32" "\<lambda>s. take 4 (cs_buffer s)" "\<lambda>m. bytes32le (lzma_crc32 m 0)"
  "\<lambda>s. length (cs_buffer s) = 64" "\<lambda>s m. length (cs_buffer s) = 64 \<and> cs_crc32 s = lzma_crc32 m 0"
proof
  show "take 4 (cs_buffer (lzma_check_finish s LZMA_CHECK_CRC32)) = bytes32le (lzma_crc32 m 0)"
    if "buffer_ok s \<and> cs_crc32 s = lzma_crc32 m 0" for s m
    using that take_set_buffer [of s "bytes32le (lzma_crc32 m 0)"] by (simp add: lzma_check_finish_def)
qed (simp_all add: lzma_check_init_def lzma_check_update_def check_ids lzma_crc32_run crc_run_append)

interpretation crc64_check: incremental_check
  "\<lambda>s. lzma_check_init s LZMA_CHECK_CRC64" "\<lambda>s. lzma_check_update s LZMA_CHECK_CRC64"
  "\<lambda>s. lzma_check_finish s LZMA_CHECK_CRC64" "\<lambda>s. take 8 (cs_buffer s)" "\<lambda>m. bytes64le (lzma_crc64 m 0)"
  "\<lambda>s. length (cs_buffer s) = 64" "\<lambda>s m. length (cs_buffer s) = 64 \<and> cs_crc64 s = lzma_crc64 m 0"
proof
  show "take 8 (cs_buffer (lzma_check_finish s LZMA_CHECK_CRC64)) = bytes64le (lzma_crc64 m 0)"
    if "buffer_ok s \<and> cs_crc64 s = lzma_crc64 m 0" for s m
    using that take_set_buffer [of s "bytes64le (lzma_crc64 m 0)"] by (simp add: lzma_check_finish_def check_ids)
qed (simp_all add: lzma_check_init_def lzma_check_update_def check_ids lzma_crc64_run crc_run_append)

interpretation sha256_chk: incremental_check
  "\<lambda>s. lzma_check_init s LZMA_CHECK_SHA256" "\<lambda>s. lzma_check_update s LZMA_CHECK_SHA256"
  "\<lambda>s. lzma_check_finish s LZMA_CHECK_SHA256" "\<lambda>s. take 32 (cs_buffer s)" fips_sha256
  "\<lambda>s. length (cs_buffer s) = 64" "\<lambda>s. sha_track (cs_sha256 s)"
  by unfold_locales
    (simp_all add: lzma_check_init_def lzma_check_update_def lzma_check_finish_def check_ids
      sha_track_init sha_track_update sha256_finish_digest)

section \<open>Properties\<close>

text \<open>The value of a check, as the format document defines it.\<close>

definition check_value :: "u32 \<Rightarrow> u8 list \<Rightarrow> u8 list" where
  "check_value t m =
     (if t = LZMA_CHECK_CRC32 then bytes32le (lzma_crc32 m 0)
      else if t = LZMA_CHECK_CRC64 then bytes64le (lzma_crc64 m 0)
      else if t = LZMA_CHECK_SHA256 then fips_sha256 m
      else [])"

lemma supported_checks:
  "lzma_check_is_supported t \<longleftrightarrow>
     t = LZMA_CHECK_NONE \<or> t = LZMA_CHECK_CRC32 \<or> t = LZMA_CHECK_CRC64 \<or> t = LZMA_CHECK_SHA256"
proof (cases "t > LZMA_CHECK_ID_MAX")
  case True
  then show ?thesis
    by (auto simp: lzma_check_is_supported_def check_ids LZMA_CHECK_ID_MAX_def)
next
  case False
  have "t = of_nat (unat t)" by simp
  moreover have "unat t < 16" using False by (simp add: LZMA_CHECK_ID_MAX_def word_less_nat_alt)
  ultimately have "t \<in> of_nat ` set [0..<16]" by (metis imageI atLeastLessThan_iff set_upt le0)
  then show ?thesis
    by (auto simp: upt_rec lzma_check_is_supported_def available_checks_def check_ids LZMA_CHECK_ID_MAX_def)
qed

text \<open>The absorbed message, for a check of any type, and the three operations on it.\<close>

definition check_track :: "u32 \<Rightarrow> lzma_check_state \<Rightarrow> u8 list \<Rightarrow> bool" where
  "check_track t s m \<longleftrightarrow> length (cs_buffer s) = 64
     \<and> (t = LZMA_CHECK_CRC32 \<longrightarrow> cs_crc32 s = lzma_crc32 m 0)
     \<and> (t = LZMA_CHECK_CRC64 \<longrightarrow> cs_crc64 s = lzma_crc64 m 0)
     \<and> (t = LZMA_CHECK_SHA256 \<longrightarrow> sha_track (cs_sha256 s) m)"

lemma check_track_init: "length (cs_buffer s) = 64 \<Longrightarrow> check_track t (lzma_check_init s t) []"
  using crc32_check.track_start [of s] crc64_check.track_start [of s] sha256_chk.track_start [of s]
  by (auto simp: check_track_def) (simp_all add: lzma_check_init_def lzma_sha256_init_def)

lemma sha_track_buffer: "sha_track chk m \<Longrightarrow> length (sha_buffer chk) = 64"
  by (simp add: sha_track_def sha_pend_def)

lemma check_track_update: "check_track t s m \<Longrightarrow> check_track t (lzma_check_update s t bs) (m @ bs)"
proof -
  assume a: "check_track t s m"
  consider "t = LZMA_CHECK_CRC32" | "t = LZMA_CHECK_CRC64" | "t = LZMA_CHECK_SHA256"
    | "t \<notin> {LZMA_CHECK_CRC32, LZMA_CHECK_CRC64, LZMA_CHECK_SHA256}" by blast
  then show ?thesis
  proof cases
    case 1
    then show ?thesis using a crc32_check.track_upd [of s m bs] by (simp add: check_track_def check_ids)
  next
    case 2
    then show ?thesis using a crc64_check.track_upd [of s m bs] by (simp add: check_track_def check_ids)
  next
    case 3
    then show ?thesis
      using a sha256_chk.track_upd [of s m bs] sha_track_buffer by (simp add: check_track_def check_ids)
  next
    case 4
    then show ?thesis using a by (simp add: check_track_def lzma_check_update_def)
  qed
qed

lemma check_track_finish:
  assumes "check_track t s m" "lzma_check_is_supported t"
  shows "take (unat (lzma_check_size t)) (cs_buffer (lzma_check_finish s t)) = check_value t m"
proof -
  consider "t = LZMA_CHECK_NONE" | "t = LZMA_CHECK_CRC32" | "t = LZMA_CHECK_CRC64" | "t = LZMA_CHECK_SHA256"
    using assms(2) supported_checks by blast
  then show ?thesis
    using crc32_check.track_fin [of s m] crc64_check.track_fin [of s m] sha256_chk.track_fin [of s m] assms(1)
    by cases (simp_all add: check_track_def check_value_def lzma_check_size_def check_sizes_def check_ids LZMA_CHECK_ID_MAX_def)
qed

text \<open>C20. Integrity checks are computed incrementally: for every supported check type, starting, updating with the
  pieces of a message in order and finishing leaves in the buffer, over exactly \<open>lzma_check_size\<close> bytes, the
  value of that check on the whole message. For SHA-256 that value is the FIPS 180-4 digest.\<close>

theorem check_streaming:
  assumes "lzma_check_is_supported t" "length (cs_buffer chk) = 64"
  shows "take (unat (lzma_check_size t))
      (cs_buffer (lzma_check_finish (fold (\<lambda>bs s. lzma_check_update s t bs) pieces (lzma_check_init chk t)) t))
    = check_value t (concat pieces)"
proof -
  consider "t = LZMA_CHECK_NONE" | "t = LZMA_CHECK_CRC32" | "t = LZMA_CHECK_CRC64" | "t = LZMA_CHECK_SHA256"
    using assms(1) supported_checks by blast
  then show ?thesis
  proof cases
    case 1 then show ?thesis by (simp add: check_value_def lzma_check_size_def check_sizes_def check_ids)
  next
    case 2 then show ?thesis
      using crc32_check.value_of_pieces [OF assms(2), of pieces]
      by (simp add: check_value_def lzma_check_size_def check_sizes_def check_ids LZMA_CHECK_ID_MAX_def)
  next
    case 3 then show ?thesis
      using crc64_check.value_of_pieces [OF assms(2), of pieces]
      by (simp add: check_value_def lzma_check_size_def check_sizes_def check_ids LZMA_CHECK_ID_MAX_def)
  next
    case 4 then show ?thesis
      using sha256_chk.value_of_pieces [OF assms(2), of pieces]
      by (simp add: check_value_def lzma_check_size_def check_sizes_def check_ids LZMA_CHECK_ID_MAX_def)
  qed
qed

theorem check_streaming_witness:
  "take 8 (cs_buffer (lzma_check_finish (fold (\<lambda>bs s. lzma_check_update s LZMA_CHECK_CRC64 bs) [[1], [2, 3]]
      (lzma_check_init \<lparr>cs_crc32 = 5, cs_crc64 = 6, cs_sha256 = \<lparr>sha_buffer = replicate 64 0, sha_state = [], sha_size = 0\<rparr>\<rparr>
        LZMA_CHECK_CRC64)) LZMA_CHECK_CRC64))
   = bytes64le (lzma_crc64 [1, 2, 3] 0)"
proof -
  have "lzma_check_is_supported LZMA_CHECK_CRC64" by (simp add: supported_checks)
  moreover have "lzma_check_size LZMA_CHECK_CRC64 = 8"
    by (simp add: lzma_check_size_def check_sizes_def check_ids LZMA_CHECK_ID_MAX_def)
  ultimately show ?thesis
    using check_streaming [of LZMA_CHECK_CRC64
      "\<lparr>cs_crc32 = 5, cs_crc64 = 6, cs_sha256 = \<lparr>sha_buffer = replicate 64 0, sha_state = [], sha_size = 0\<rparr>\<rparr>" "[[1], [2, 3]]"]
    by (simp add: check_value_def check_ids)
qed

end
