(* ===== verification/Index_Hash.thy ===== *)
theory Index_Hash
  imports Check
begin

unbundle bit_operations_syntax

text \<open>
  The Index hash, which lets the Stream decoder verify the Index field against the Blocks it has
  decoded in constant memory: \<open>common/index_hash.c\<close> and the size helpers of \<open>common/index.h\<close>.

  The structure is passed and returned as a value. \<open>lzma_index_hash_decode\<close> is a loop over a
  \<open>switch\<close>; one iteration is \<open>index_hash_step\<close>, which ends by \<open>return\<close>, by \<open>goto out\<close> or by \<open>break\<close>.
\<close>

section \<open>Sizes\<close>

definition UNPADDED_SIZE_MIN :: lzma_vli where "UNPADDED_SIZE_MIN = 5"
definition UNPADDED_SIZE_MAX :: lzma_vli where "UNPADDED_SIZE_MAX = LZMA_VLI_MAX AND NOT 3"

definition vli_ceil4 :: "lzma_vli \<Rightarrow> lzma_vli" where
  "vli_ceil4 vli = (vli + 3) AND NOT 3"

definition index_size_unpadded :: "lzma_vli \<Rightarrow> lzma_vli \<Rightarrow> lzma_vli" where
  "index_size_unpadded cnt index_list_size = 1 + ucast (lzma_vli_size cnt) + index_list_size + 4"

definition index_size :: "lzma_vli \<Rightarrow> lzma_vli \<Rightarrow> lzma_vli" where
  "index_size cnt index_list_size = vli_ceil4 (index_size_unpadded cnt index_list_size)"

definition index_stream_size :: "lzma_vli \<Rightarrow> lzma_vli \<Rightarrow> lzma_vli \<Rightarrow> lzma_vli" where
  "index_stream_size blocks_size cnt index_list_size =
     of_nat LZMA_STREAM_HEADER_SIZE + blocks_size + index_size cnt index_list_size + of_nat LZMA_STREAM_HEADER_SIZE"

section \<open>The structure\<close>

record lzma_index_hash_info =
  hi_blocks_size :: lzma_vli
  hi_uncompressed_size :: lzma_vli
  hi_count :: lzma_vli
  hi_index_list_size :: lzma_vli
  hi_check :: lzma_check_state

datatype index_hash_seq =
  IH_BLOCK | IH_COUNT | IH_UNPADDED | IH_UNCOMPRESSED | IH_PADDING_INIT | IH_PADDING | IH_CRC32

record lzma_index_hash =
  ih_sequence :: index_hash_seq
  ih_blocks :: lzma_index_hash_info
  ih_records :: lzma_index_hash_info
  ih_remaining :: lzma_vli
  ih_unpadded_size :: lzma_vli
  ih_uncompressed_size :: lzma_vli
  ih_pos :: nat
  ih_crc32 :: u32

section \<open>Operations\<close>

definition info_clear :: "lzma_index_hash_info \<Rightarrow> lzma_index_hash_info" where
  "info_clear info = info\<lparr>hi_blocks_size := 0, hi_uncompressed_size := 0, hi_count := 0, hi_index_list_size := 0,
     hi_check := lzma_check_init (hi_check info) LZMA_CHECK_BEST\<rparr>"

text \<open>The memory to (re)initialise: the given structure, or what the allocator returns, \<open>None\<close> when it fails. Its
  content is arbitrary.\<close>

definition lzma_index_hash_init :: "lzma_index_hash option \<Rightarrow> lzma_index_hash option \<Rightarrow> lzma_index_hash option" where
  "lzma_index_hash_init index_hash fresh =
     (case (case index_hash of None \<Rightarrow> fresh | Some ih \<Rightarrow> Some ih) of
        None \<Rightarrow> None
      | Some ih \<Rightarrow> Some (ih\<lparr>ih_sequence := IH_BLOCK, ih_blocks := info_clear (ih_blocks ih),
          ih_records := info_clear (ih_records ih), ih_unpadded_size := 0, ih_uncompressed_size := 0,
          ih_pos := 0, ih_crc32 := 0\<rparr>))"

definition lzma_index_hash_size :: "lzma_index_hash \<Rightarrow> lzma_vli" where
  "lzma_index_hash_size ih = index_size (hi_count (ih_blocks ih)) (hi_index_list_size (ih_blocks ih))"

definition size_pair_bytes :: "lzma_vli \<Rightarrow> lzma_vli \<Rightarrow> u8 list" where
  "size_pair_bytes unpadded_size uncompressed_size = bytes64le unpadded_size @ bytes64le uncompressed_size"

definition hash_append :: "lzma_index_hash_info \<Rightarrow> lzma_vli \<Rightarrow> lzma_vli \<Rightarrow> lzma_index_hash_info" where
  "hash_append info unpadded_size uncompressed_size =
     info\<lparr>hi_blocks_size := hi_blocks_size info + vli_ceil4 unpadded_size,
          hi_uncompressed_size := hi_uncompressed_size info + uncompressed_size,
          hi_index_list_size := hi_index_list_size info
            + ucast (lzma_vli_size unpadded_size + lzma_vli_size uncompressed_size),
          hi_count := hi_count info + 1,
          hi_check := lzma_check_update (hi_check info) LZMA_CHECK_BEST
            (size_pair_bytes unpadded_size uncompressed_size)\<rparr>"

definition lzma_index_hash_append :: "lzma_index_hash \<Rightarrow> lzma_vli \<Rightarrow> lzma_vli \<Rightarrow> lzma_ret \<times> lzma_index_hash" where
  "lzma_index_hash_append ih unpadded_size uncompressed_size =
     (if ih_sequence ih \<noteq> IH_BLOCK \<or> unpadded_size < UNPADDED_SIZE_MIN \<or> unpadded_size > UNPADDED_SIZE_MAX
         \<or> uncompressed_size > LZMA_VLI_MAX
      then (LZMA_PROG_ERROR, ih)
      else
        (let blocks = hash_append (ih_blocks ih) unpadded_size uncompressed_size;
             ih = ih\<lparr>ih_blocks := blocks\<rparr>
         in if hi_blocks_size blocks > LZMA_VLI_MAX
               \<or> hi_uncompressed_size blocks > LZMA_VLI_MAX
               \<or> index_size (hi_count blocks) (hi_index_list_size blocks) > LZMA_BACKWARD_SIZE_MAX
               \<or> index_stream_size (hi_blocks_size blocks) (hi_count blocks) (hi_index_list_size blocks) > LZMA_VLI_MAX
            then (LZMA_DATA_ERROR, ih)
            else (LZMA_OK, ih)))"

text \<open>How one iteration of the decoder's loop ends.\<close>

datatype 's loop_end = Return lzma_ret 's | Goto_out lzma_ret 's | Break 's

text \<open>The \<open>do ... while\<close> loop that compares the stored CRC32; \<open>in_pos\<close> never exceeds \<open>in_size\<close>.\<close>

function index_hash_crc_loop :: "u8 list \<Rightarrow> nat \<Rightarrow> lzma_index_hash \<Rightarrow> nat \<Rightarrow> lzma_ret \<times> lzma_index_hash \<times> nat" where
  "index_hash_crc_loop in_buf in_size ih in_pos =
     (if in_pos \<ge> in_size then (LZMA_OK, ih, in_pos)
      else if drop_bit (ih_pos ih * 8) (ih_crc32 ih) AND 0xFF \<noteq> ucast (in_buf ! in_pos)
      then (LZMA_DATA_ERROR, ih, in_pos + 1)
      else
        (let ih = ih\<lparr>ih_pos := ih_pos ih + 1\<rparr>
         in if ih_pos ih < 4 then index_hash_crc_loop in_buf in_size ih (in_pos + 1)
            else (LZMA_STREAM_END, ih, in_pos + 1)))"
  by pat_completeness auto
termination
  by (relation "measure (\<lambda>(_, in_size, _, in_pos). in_size - in_pos)") auto

declare index_hash_crc_loop.simps [simp del]

definition info_sizes_neq :: "lzma_index_hash_info \<Rightarrow> lzma_index_hash_info \<Rightarrow> bool" where
  "info_sizes_neq blocks records \<longleftrightarrow>
     hi_blocks_size blocks \<noteq> hi_blocks_size records
     \<or> hi_uncompressed_size blocks \<noteq> hi_uncompressed_size records
     \<or> hi_index_list_size blocks \<noteq> hi_index_list_size records"

definition info_exceeds :: "lzma_index_hash_info \<Rightarrow> lzma_index_hash_info \<Rightarrow> bool" where
  "info_exceeds blocks records \<longleftrightarrow>
     hi_blocks_size blocks < hi_blocks_size records
     \<or> hi_uncompressed_size blocks < hi_uncompressed_size records
     \<or> hi_index_list_size blocks < hi_index_list_size records"

text \<open>The cases \<open>SEQ_PADDING\<close> and \<open>SEQ_CRC32\<close>, which \<open>SEQ_PADDING_INIT\<close> falls into.\<close>

definition index_hash_padding ::
  "u8 list \<Rightarrow> nat \<Rightarrow> nat \<Rightarrow> lzma_index_hash \<Rightarrow> nat \<Rightarrow> (lzma_index_hash \<times> nat) loop_end" where
  "index_hash_padding in_buf in_start in_size ih in_pos =
     (if ih_pos ih > 0 then
        (let ih = ih\<lparr>ih_pos := ih_pos ih - 1\<rparr>
         in if in_buf ! in_pos \<noteq> 0x00 then Return LZMA_DATA_ERROR (ih, in_pos + 1) else Break (ih, in_pos + 1))
      else if info_sizes_neq (ih_blocks ih) (ih_records ih) then Return LZMA_DATA_ERROR (ih, in_pos)
      else
        (let ih = ih\<lparr>ih_blocks := (ih_blocks ih)\<lparr>hi_check := lzma_check_finish (hi_check (ih_blocks ih)) LZMA_CHECK_BEST\<rparr>,
                     ih_records := (ih_records ih)\<lparr>hi_check := lzma_check_finish (hi_check (ih_records ih)) LZMA_CHECK_BEST\<rparr>\<rparr>
         in if take (unat (lzma_check_size LZMA_CHECK_BEST)) (cs_buffer (hi_check (ih_blocks ih)))
               \<noteq> take (unat (lzma_check_size LZMA_CHECK_BEST)) (cs_buffer (hi_check (ih_records ih)))
            then Return LZMA_DATA_ERROR (ih, in_pos)
            else
              (let ih = ih\<lparr>ih_crc32 := lzma_crc32 (take (in_pos - in_start) (drop in_start in_buf)) (ih_crc32 ih),
                           ih_sequence := IH_CRC32\<rparr>;
                   (ret, s) = index_hash_crc_loop in_buf in_size ih in_pos
               in Return ret s)))"

definition index_hash_step ::
  "u8 list \<Rightarrow> nat \<Rightarrow> nat \<Rightarrow> lzma_index_hash \<Rightarrow> nat \<Rightarrow> (lzma_index_hash \<times> nat) loop_end" where
  "index_hash_step in_buf in_start in_size ih in_pos =
     (case ih_sequence ih of
        IH_BLOCK \<Rightarrow>
          if in_buf ! in_pos \<noteq> 0x00 then Return LZMA_DATA_ERROR (ih, in_pos + 1)
          else Break (ih\<lparr>ih_sequence := IH_COUNT\<rparr>, in_pos + 1)
      | IH_COUNT \<Rightarrow>
          (case lzma_vli_decode (ih_remaining ih) (Some (ih_pos ih)) in_buf in_pos in_size of
             (ret, v, p, in_pos) \<Rightarrow>
               (let ih = ih\<lparr>ih_remaining := v, ih_pos := the p\<rparr>
                in if ret \<noteq> LZMA_STREAM_END then Goto_out ret (ih, in_pos)
                   else if ih_remaining ih \<noteq> hi_count (ih_blocks ih) then Return LZMA_DATA_ERROR (ih, in_pos)
                   else Break (ih\<lparr>ih_pos := 0,
                     ih_sequence := (if ih_remaining ih = 0 then IH_PADDING_INIT else IH_UNPADDED)\<rparr>, in_pos)))
      | IH_UNPADDED \<Rightarrow>
          (case lzma_vli_decode (ih_unpadded_size ih) (Some (ih_pos ih)) in_buf in_pos in_size of
             (ret, v, p, in_pos) \<Rightarrow>
               (let ih = ih\<lparr>ih_unpadded_size := v, ih_pos := the p\<rparr>
                in if ret \<noteq> LZMA_STREAM_END then Goto_out ret (ih, in_pos)
                   else
                     (let ih = ih\<lparr>ih_pos := 0\<rparr>
                      in if ih_unpadded_size ih < UNPADDED_SIZE_MIN \<or> ih_unpadded_size ih > UNPADDED_SIZE_MAX
                         then Return LZMA_DATA_ERROR (ih, in_pos)
                         else Break (ih\<lparr>ih_sequence := IH_UNCOMPRESSED\<rparr>, in_pos))))
      | IH_UNCOMPRESSED \<Rightarrow>
          (case lzma_vli_decode (ih_uncompressed_size ih) (Some (ih_pos ih)) in_buf in_pos in_size of
             (ret, v, p, in_pos) \<Rightarrow>
               (let ih = ih\<lparr>ih_uncompressed_size := v, ih_pos := the p\<rparr>
                in if ret \<noteq> LZMA_STREAM_END then Goto_out ret (ih, in_pos)
                   else
                     (let ih = ih\<lparr>ih_pos := 0,
                            ih_records := hash_append (ih_records ih) (ih_unpadded_size ih) (ih_uncompressed_size ih)\<rparr>
                      in if info_exceeds (ih_blocks ih) (ih_records ih) then Return LZMA_DATA_ERROR (ih, in_pos)
                         else Break (ih\<lparr>ih_remaining := ih_remaining ih - 1,
                           ih_sequence := (if ih_remaining ih - 1 = 0 then IH_PADDING_INIT else IH_UNPADDED)\<rparr>, in_pos))))
      | IH_PADDING_INIT \<Rightarrow>
          index_hash_padding in_buf in_start in_size
            (ih\<lparr>ih_pos := unat ((4 - index_size_unpadded (hi_count (ih_records ih)) (hi_index_list_size (ih_records ih))) AND 3),
                ih_sequence := IH_PADDING\<rparr>) in_pos
      | IH_PADDING \<Rightarrow> index_hash_padding in_buf in_start in_size ih in_pos
      | IH_CRC32 \<Rightarrow>
          (case index_hash_crc_loop in_buf in_size ih in_pos of (ret, s) \<Rightarrow> Return ret s))"

text \<open>An iteration that ends by \<open>break\<close> has consumed input: the loop ends.\<close>

lemma index_hash_step_Break:
  "index_hash_step in_buf in_start in_size ih in_pos = Break (ih', in_pos') \<Longrightarrow> in_pos < in_size \<Longrightarrow> in_pos < in_pos' \<and> in_pos' \<le> in_size"
  by (auto simp: index_hash_step_def index_hash_padding_def Let_def
      split: index_hash_seq.splits if_splits prod.splits dest: lzma_vli_decode_progress)

definition index_hash_out :: "u8 list \<Rightarrow> nat \<Rightarrow> lzma_ret \<Rightarrow> lzma_index_hash \<Rightarrow> nat \<Rightarrow> lzma_ret \<times> lzma_index_hash \<times> nat" where
  "index_hash_out in_buf in_start ret ih in_pos =
     (ret, ih\<lparr>ih_crc32 := lzma_crc32 (take (in_pos - in_start) (drop in_start in_buf)) (ih_crc32 ih)\<rparr>, in_pos)"

text \<open>The variable \<open>ret\<close> is \<open>LZMA_OK\<close> whenever the loop condition is tested.\<close>

function index_hash_loop ::
  "u8 list \<Rightarrow> nat \<Rightarrow> nat \<Rightarrow> lzma_index_hash \<Rightarrow> nat \<Rightarrow> lzma_ret \<times> lzma_index_hash \<times> nat" where
  "index_hash_loop in_buf in_start in_size ih in_pos =
     (if in_pos < in_size then
        (case index_hash_step in_buf in_start in_size ih in_pos of
           Return ret (ih', in_pos') \<Rightarrow> (ret, ih', in_pos')
         | Goto_out ret (ih', in_pos') \<Rightarrow> index_hash_out in_buf in_start ret ih' in_pos'
         | Break (ih', in_pos') \<Rightarrow> index_hash_loop in_buf in_start in_size ih' in_pos')
      else index_hash_out in_buf in_start LZMA_OK ih in_pos)"
  by pat_completeness auto
termination
  by (relation "measure (\<lambda>(_, _, in_size, _, in_pos). in_size - in_pos)")
    (auto dest!: index_hash_step_Break)

declare index_hash_loop.simps [simp del]

definition lzma_index_hash_decode ::
  "lzma_index_hash \<Rightarrow> u8 list \<Rightarrow> nat \<Rightarrow> nat \<Rightarrow> lzma_ret \<times> lzma_index_hash \<times> nat" where
  "lzma_index_hash_decode ih in_buf in_pos in_size =
     (if in_pos \<ge> in_size then (LZMA_BUF_ERROR, ih, in_pos)
      else index_hash_loop in_buf in_pos in_size ih in_pos)"

section \<open>Progress\<close>

lemma index_hash_crc_loop_progress:
  "index_hash_crc_loop in_buf in_size ih in_pos = (ret, ih', in_pos') \<Longrightarrow> in_pos \<le> in_size \<Longrightarrow>
     in_pos \<le> in_pos' \<and> in_pos' \<le> in_size \<and> (ret = LZMA_STREAM_END \<longrightarrow> in_pos < in_pos')
     \<and> (ret = LZMA_OK \<and> in_pos < in_size \<longrightarrow> in_pos < in_pos')
     \<and> ret \<noteq> LZMA_BUF_ERROR"
proof (induction "in_size - in_pos" arbitrary: ih in_pos rule: less_induct)
  case less
  show ?case
    using less.prems less.hyps [of "in_pos + 1"]
    by (subst (asm) index_hash_crc_loop.simps) (fastforce simp: Let_def split: if_splits)
qed

lemma index_hash_padding_progress:
  "index_hash_padding in_buf in_start in_size ih in_pos = Return ret (ih', in_pos') \<Longrightarrow> in_pos < in_size \<Longrightarrow>
     in_pos \<le> in_pos' \<and> in_pos' \<le> in_size
     \<and> (ret = LZMA_STREAM_END \<or> ret = LZMA_OK \<longrightarrow> in_pos < in_pos') \<and> ret \<noteq> LZMA_BUF_ERROR"
  by (auto simp: index_hash_padding_def Let_def split: if_splits prod.splits dest!: index_hash_crc_loop_progress)

lemma index_hash_step_Return:
  "index_hash_step in_buf in_start in_size ih in_pos = Return ret (ih', in_pos') \<Longrightarrow> in_pos < in_size \<Longrightarrow>
     in_pos \<le> in_pos' \<and> in_pos' \<le> in_size
     \<and> (ret = LZMA_STREAM_END \<or> ret = LZMA_OK \<longrightarrow> in_pos < in_pos') \<and> ret \<noteq> LZMA_BUF_ERROR"
  by (auto simp: index_hash_step_def Let_def split: index_hash_seq.splits if_splits prod.splits
      dest!: index_hash_padding_progress index_hash_crc_loop_progress dest: lzma_vli_decode_progress)

lemma index_hash_step_Goto:
  "index_hash_step in_buf in_start in_size ih in_pos = Goto_out ret (ih', in_pos') \<Longrightarrow> in_pos < in_size \<Longrightarrow>
     in_pos \<le> in_pos' \<and> in_pos' \<le> in_size \<and> ret \<noteq> LZMA_STREAM_END"
  by (auto simp: index_hash_step_def index_hash_padding_def Let_def
      split: index_hash_seq.splits if_splits prod.splits dest: lzma_vli_decode_progress)

lemma index_hash_loop_progress:
  "index_hash_loop in_buf in_start in_size ih in_pos = (ret, ih', in_pos') \<Longrightarrow> in_pos \<le> in_size \<Longrightarrow>
     in_pos \<le> in_pos' \<and> in_pos' \<le> in_size \<and> (ret = LZMA_STREAM_END \<longrightarrow> in_pos < in_pos')"
proof (induction "in_size - in_pos" arbitrary: ih in_pos rule: less_induct)
  case less
  show ?case
  proof (cases "in_pos < in_size")
    case True
    then show ?thesis
    proof (cases "index_hash_step in_buf in_start in_size ih in_pos")
      case (Return r st)
      then show ?thesis
        using True less.prems(1) index_hash_step_Return
        by (subst (asm) index_hash_loop.simps) (cases st; fastforce)
    next
      case (Goto_out r st)
      then show ?thesis
        using True less.prems(1) index_hash_step_Goto
        by (subst (asm) index_hash_loop.simps) (cases st; fastforce simp: index_hash_out_def)
    next
      case (Break st)
      obtain ih1 pos1 where st: "st = (ih1, pos1)" by fastforce
      have "in_pos < pos1" "pos1 \<le> in_size" using index_hash_step_Break Break True st by blast+
      moreover have "index_hash_loop in_buf in_start in_size ih1 pos1 = (ret, ih', in_pos')"
        using less.prems(1) True Break st by (subst (asm) index_hash_loop.simps) simp
      ultimately show ?thesis using less.hyps [of pos1 ih1] True by fastforce
    qed
  next
    case False
    then show ?thesis using less.prems by (subst (asm) index_hash_loop.simps) (simp add: index_hash_out_def)
  qed
qed

lemma index_hash_decode_progress:
  assumes "lzma_index_hash_decode ih in_buf in_pos in_size = (ret, ih', in_pos')" "in_pos \<le> in_size"
  shows "in_pos \<le> in_pos'" "in_pos' \<le> in_size" "ret = LZMA_STREAM_END \<Longrightarrow> in_pos < in_pos'"
  using assms index_hash_loop_progress [of in_buf in_pos in_size ih in_pos]
  by (auto simp: lzma_index_hash_decode_def split: if_splits)

section \<open>Sums of sizes\<close>

type_synonym index_record = "lzma_vli \<times> lzma_vli"

definition blocks_sum :: "index_record list \<Rightarrow> nat" where
  "blocks_sum rs = sum_list (map (\<lambda>(u, c). unat (vli_ceil4 u)) rs)"

definition uncompressed_sum :: "index_record list \<Rightarrow> nat" where
  "uncompressed_sum rs = sum_list (map (\<lambda>(u, c). unat c) rs)"

definition list_sum :: "index_record list \<Rightarrow> nat" where
  "list_sum rs = sum_list (map (\<lambda>(u, c). length (vli_bytes (unat u)) + length (vli_bytes (unat c))) rs)"

definition pairs_bytes :: "index_record list \<Rightarrow> u8 list" where
  "pairs_bytes rs = concat (map (\<lambda>(u, c). size_pair_bytes u c) rs)"

lemmas index_sums = blocks_sum_def uncompressed_sum_def list_sum_def pairs_bytes_def

lemma index_sums_Nil [simp]:
  "blocks_sum [] = 0" "uncompressed_sum [] = 0" "list_sum [] = 0" "pairs_bytes [] = []"
  by (simp_all add: index_sums)

lemma index_sums_append [simp]:
  "blocks_sum (rs @ qs) = blocks_sum rs + blocks_sum qs"
  "uncompressed_sum (rs @ qs) = uncompressed_sum rs + uncompressed_sum qs"
  "list_sum (rs @ qs) = list_sum rs + list_sum qs"
  "pairs_bytes (rs @ qs) = pairs_bytes rs @ pairs_bytes qs"
  by (simp_all add: index_sums)

definition record_ok :: "index_record \<Rightarrow> bool" where
  "record_ok r \<longleftrightarrow> UNPADDED_SIZE_MIN \<le> fst r \<and> fst r \<le> UNPADDED_SIZE_MAX \<and> snd r \<le> LZMA_VLI_MAX"

text \<open>What a hash structure that has absorbed the records \<open>rs\<close> holds.\<close>

definition info_holds :: "lzma_index_hash_info \<Rightarrow> index_record list \<Rightarrow> bool" where
  "info_holds info rs \<longleftrightarrow>
     hi_blocks_size info = of_nat (blocks_sum rs)
     \<and> hi_uncompressed_size info = of_nat (uncompressed_sum rs)
     \<and> hi_count info = of_nat (length rs)
     \<and> hi_index_list_size info = of_nat (list_sum rs)
     \<and> sha_track (cs_sha256 (hi_check info)) (pairs_bytes rs)"

lemma unpadded_max: "u \<le> UNPADDED_SIZE_MAX \<Longrightarrow> u \<le> LZMA_VLI_MAX" "unat UNPADDED_SIZE_MAX = 9223372036854775804"
  by (simp_all add: UNPADDED_SIZE_MAX_def LZMA_VLI_MAX_def word_le_nat_alt)

lemma info_holds_clear: "length (cs_buffer (hi_check info)) = 64 \<Longrightarrow> info_holds (info_clear info) []"
  using sha256_chk.track_start [of "hi_check info"]
  by (simp add: info_holds_def info_clear_def LZMA_CHECK_BEST_def)

lemma vli_size_sum:
  assumes "u \<le> LZMA_VLI_MAX" "c \<le> LZMA_VLI_MAX"
  shows "(ucast (lzma_vli_size u + lzma_vli_size c) :: u64)
    = of_nat (length (vli_bytes (unat u)) + length (vli_bytes (unat c)))"
proof -
  have l: "unat (lzma_vli_size u) = length (vli_bytes (unat u))" "unat (lzma_vli_size c) = length (vli_bytes (unat c))"
    using assms lzma_vli_size_eq by blast+
  have "length (vli_bytes (unat u)) \<le> 9" "length (vli_bytes (unat c)) \<le> 9"
    using assms vli_bytes_length_max by (auto simp: vli_le_max_iff LZMA_VLI_BYTES_MAX_def)
  then have "unat (lzma_vli_size u + lzma_vli_size c) = length (vli_bytes (unat u)) + length (vli_bytes (unat c))"
    using l by (simp add: unat_word_ariths)
  then show ?thesis by (metis of_nat_unat)
qed

lemma info_holds_append:
  assumes "info_holds info rs" "record_ok (u, c)"
  shows "info_holds (hash_append info u c) (rs @ [(u, c)])"
proof -
  have "u \<le> LZMA_VLI_MAX" "c \<le> LZMA_VLI_MAX" using assms(2) unpadded_max by (simp_all add: record_ok_def)
  note sizes = vli_size_sum [OF this]
  have "sha_track (cs_sha256 (lzma_check_update (hi_check info) LZMA_CHECK_BEST (size_pair_bytes u c)))
      (pairs_bytes rs @ size_pair_bytes u c)"
    using assms(1) sha256_chk.track_upd [of "hi_check info" "pairs_bytes rs" "size_pair_bytes u c"]
    by (simp add: info_holds_def LZMA_CHECK_BEST_def)
  then show ?thesis
    using assms(1) sizes by (simp add: info_holds_def hash_append_def index_sums add.commute)
qed

text \<open>The limits \<open>lzma_index_hash_append\<close> enforces, under which no sum wraps around.\<close>

definition sums_ok :: "index_record list \<Rightarrow> bool" where
  "sums_ok rs \<longleftrightarrow> blocks_sum rs < 2 ^ 63 \<and> uncompressed_sum rs < 2 ^ 63 \<and> list_sum rs \<le> 2 ^ 34"

fun index_hash_append_all :: "lzma_index_hash \<Rightarrow> index_record list \<Rightarrow> lzma_index_hash option" where
  "index_hash_append_all ih [] = Some ih"
| "index_hash_append_all ih ((u, c) # rs) =
     (case lzma_index_hash_append ih u c of
        (ret, ih') \<Rightarrow> if ret = LZMA_OK then index_hash_append_all ih' rs else None)"

lemma unat_u64_less: "unat (w :: u64) < 18446744073709551616"
  using unsigned_less [of w] by simp

lemma unat_of_nat_u64: "n < 18446744073709551616 \<Longrightarrow> unat (of_nat n :: u64) = n"
  by (simp add: unat_of_nat take_bit_eq_mod)

lemma unat_and_not3: "unat (w AND NOT 3 :: 'a::len word) = unat w div 4 * 4"
proof -
  have "w AND NOT (mask 2) = push_bit 2 (drop_bit 2 w)"
    by (rule bit_word_eqI) (auto simp: bit_simps not_less simp del: add_2_eq_Suc)
  then have "w AND NOT 3 = push_bit 2 (drop_bit 2 w)" by (simp add: mask_eq_exp_minus_1)
  moreover have "unat (push_bit 2 (drop_bit 2 w)) = take_bit LENGTH('a) (push_bit 2 (unat (drop_bit 2 w)))"
    by (rule unsigned_push_bit_eq)
  ultimately have "unat (w AND NOT 3) = take_bit LENGTH('a) (push_bit 2 (unat w div 4))" by (simp add: unat_drop_bit_div)
  also have "\<dots> = (unat w div 4 * 4) mod 2 ^ LENGTH('a)" by (simp add: take_bit_eq_mod push_bit_eq_mult)
  also have "\<dots> = unat w div 4 * 4"
    by (rule mod_less) (rule le_less_trans [OF div_times_less_eq_dividend unsigned_less])
  finally show ?thesis .
qed

lemma unat_vli_ceil4:
  assumes "unat v < 18446744073709551613"
  shows "unat (vli_ceil4 v) = (unat v + 3) div 4 * 4"
proof -
  have "unat (v + 3) = unat v + 3" using assms by (simp add: unat_word_ariths)
  then show ?thesis by (simp only: vli_ceil4_def unat_and_not3)
qed

lemma list_sum_length: "2 * length rs \<le> list_sum rs"
proof (induction rs)
  case (Cons r rs)
  have "1 \<le> length (vli_bytes (unat (fst r)))" "1 \<le> length (vli_bytes (unat (snd r)))"
    by (simp_all only: Suc_le_eq One_nat_def length_vli_bytes_pos)
  moreover have "list_sum (r # rs) = length (vli_bytes (unat (fst r))) + length (vli_bytes (unat (snd r))) + list_sum rs"
    by (simp add: list_sum_def split_beta)
  ultimately show ?case using Cons.IH by simp
qed simp

text \<open>The size of the Index field without and with its padding.\<close>

definition index_unpadded :: "index_record list \<Rightarrow> nat" where
  "index_unpadded rs = 1 + length (vli_bytes (length rs)) + list_sum rs + 4"

lemma unat_index_size:
  assumes "list_sum rs \<le> 2 ^ 34 + 18"
  shows "unat (index_size_unpadded (of_nat (length rs)) (of_nat (list_sum rs))) = index_unpadded rs"
    and "unat (index_size (of_nat (length rs)) (of_nat (list_sum rs))) = (index_unpadded rs + 3) div 4 * 4"
    and "length (vli_bytes (length rs)) \<le> 9"
proof -
  have n: "length rs < 2 ^ 63" using list_sum_length [of rs] assms by simp
  then have "(of_nat (length rs) :: lzma_vli) \<le> LZMA_VLI_MAX" and u: "unat (of_nat (length rs) :: lzma_vli) = length rs"
    by (simp_all add: vli_le_max_iff unat_of_nat_u64)
  from lzma_vli_size_eq [OF this(1)] u
  have size: "unat (lzma_vli_size (of_nat (length rs))) = length (vli_bytes (length rs))" by simp
  show l9: "length (vli_bytes (length rs)) \<le> 9"
    using vli_bytes_length_max [OF n] by (simp add: LZMA_VLI_BYTES_MAX_def)
  have "unat (ucast (lzma_vli_size (of_nat (length rs))) :: u64) = length (vli_bytes (length rs))"
    using l9 by (simp only: unat_ucast_mod size) simp
  moreover have "unat (of_nat (list_sum rs) :: u64) = list_sum rs" using assms by (simp add: unat_of_nat_u64)
  ultimately show idx: "unat (index_size_unpadded (of_nat (length rs)) (of_nat (list_sum rs))) = index_unpadded rs"
    using assms l9 by (simp add: index_size_unpadded_def unat_word_ariths index_unpadded_def)
  have "index_unpadded rs < 18446744073709551613" using assms l9 by (simp add: index_unpadded_def)
  then show "unat (index_size (of_nat (length rs)) (of_nat (list_sum rs))) = (index_unpadded rs + 3) div 4 * 4"
    by (simp add: index_size_def unat_vli_ceil4 idx)
qed

lemma le_backward_max_iff: "v \<le> LZMA_BACKWARD_SIZE_MAX \<longleftrightarrow> unat v \<le> 2 ^ 34"
  by (simp add: word_le_nat_alt LZMA_BACKWARD_SIZE_MAX_def push_bit_eq_mult)

lemma index_hash_append_OK:
  assumes app: "lzma_index_hash_append ih u c = (LZMA_OK, ih')"
    and holds: "info_holds (ih_blocks ih) rs" and ok: "sums_ok rs"
  shows "record_ok (u, c)" "sums_ok (rs @ [(u, c)])" "ih_sequence ih = IH_BLOCK"
    "ih' = ih\<lparr>ih_blocks := hash_append (ih_blocks ih) u c\<rparr>" "info_holds (ih_blocks ih') (rs @ [(u, c)])"
proof -
  let ?b = "hash_append (ih_blocks ih) u c" and ?rs = "rs @ [(u, c)]"
  from app show r: "record_ok (u, c)" and "ih_sequence ih = IH_BLOCK" and ih': "ih' = ih\<lparr>ih_blocks := ?b\<rparr>"
    by (auto simp: lzma_index_hash_append_def record_ok_def Let_def not_less split: if_splits)
  show h: "info_holds (ih_blocks ih') ?rs" using info_holds_append [OF holds r] ih' by simp
  have uv: "unat u \<le> 9223372036854775804" "u \<le> LZMA_VLI_MAX" "c \<le> LZMA_VLI_MAX"
    using r unpadded_max by (auto simp: record_ok_def word_le_nat_alt)
  have limits: "unat (hi_blocks_size ?b) < 2 ^ 63" "unat (hi_uncompressed_size ?b) < 2 ^ 63"
      "unat (index_size (hi_count ?b) (hi_index_list_size ?b)) \<le> 2 ^ 34"
    using app by (auto simp: lzma_index_hash_append_def Let_def not_less vli_le_max_iff
        le_backward_max_iff split: if_splits)
  have c63: "unat c < 2 ^ 63" using uv(3) by (simp add: vli_le_max_iff)
  have "unat (vli_ceil4 u) \<le> 9223372036854775807" using uv(1) by (subst unat_vli_ceil4) auto
  then have b: "blocks_sum ?rs < 2 ^ 64" using ok by (simp add: sums_ok_def index_sums)
  have cs: "uncompressed_sum ?rs < 2 ^ 64" using ok c63 by (simp add: sums_ok_def index_sums)
  have "length (vli_bytes (unat u)) \<le> 9" "length (vli_bytes (unat c)) \<le> 9"
    using uv vli_bytes_length_max by (auto simp: vli_le_max_iff LZMA_VLI_BYTES_MAX_def)
  then have l: "list_sum ?rs \<le> 2 ^ 34 + 18" using ok by (simp add: sums_ok_def index_sums)
  have "hi_blocks_size ?b = of_nat (blocks_sum ?rs)" "hi_uncompressed_size ?b = of_nat (uncompressed_sum ?rs)"
    "index_size (hi_count ?b) (hi_index_list_size ?b) = index_size (of_nat (length ?rs)) (of_nat (list_sum ?rs))"
    using h unfolding info_holds_def ih' by simp_all
  then have "blocks_sum ?rs < 2 ^ 63" "uncompressed_sum ?rs < 2 ^ 63" "(index_unpadded ?rs + 3) div 4 * 4 \<le> 2 ^ 34"
    using limits b cs unat_index_size(2) [OF l] by (simp_all add: unat_of_nat_u64 del: index_sums_append)
  moreover have "list_sum ?rs \<le> (index_unpadded ?rs + 3) div 4 * 4"
    by (simp add: index_unpadded_def del: index_sums_append)
  ultimately show "sums_ok ?rs" by (simp add: sums_ok_def del: index_sums_append)
qed

lemma index_hash_append_all_OK:
  assumes "index_hash_append_all ih rs = Some ih'" "info_holds (ih_blocks ih) qs" "sums_ok qs"
  shows "list_all record_ok rs \<and> sums_ok (qs @ rs) \<and> info_holds (ih_blocks ih') (qs @ rs)
    \<and> ih' = ih\<lparr>ih_blocks := ih_blocks ih'\<rparr>"
  using assms
proof (induction rs arbitrary: ih qs)
  case (Cons r rs)
  obtain u c where r: "r = (u, c)" by fastforce
  from Cons.prems(1) obtain ih1 where a: "lzma_index_hash_append ih u c = (LZMA_OK, ih1)"
      "index_hash_append_all ih1 rs = Some ih'"
    by (auto simp: r split: prod.splits if_splits)
  note s = index_hash_append_OK [OF a(1) Cons.prems(2,3)]
  show ?case using Cons.IH [OF a(2) s(5,2)] s(1,4) by (simp add: r del: index_sums_append)
qed simp

section \<open>The Index field\<close>

text \<open>The Index field of a Stream, as the format document defines it (section 4): Index Indicator, Number of
  Records, the Records, Index Padding, CRC32.\<close>

definition index_pad :: "nat \<Rightarrow> nat" where
  "index_pad n = (4 - n mod 4) mod 4"

definition records_bytes :: "index_record list \<Rightarrow> u8 list" where
  "records_bytes rs = concat (map (\<lambda>(u, c). vli_bytes (unat u) @ vli_bytes (unat c)) rs)"

definition index_body :: "index_record list \<Rightarrow> u8 list" where
  "index_body rs = [0] @ vli_bytes (length rs) @ records_bytes rs @ replicate (index_pad (index_unpadded rs)) 0"

definition index_field :: "index_record list \<Rightarrow> u8 list" where
  "index_field rs = index_body rs @ bytes32le (lzma_crc32 (index_body rs) 0)"

text \<open>A field at a position of the input.\<close>

definition field_at :: "u8 list \<Rightarrow> nat \<Rightarrow> nat \<Rightarrow> u8 list \<Rightarrow> bool" where
  "field_at buf n pos bs \<longleftrightarrow> pos + length bs \<le> n \<and> n \<le> length buf \<and> take (length bs) (drop pos buf) = bs"

lemma field_at_append: "field_at buf n pos (xs @ ys) \<longleftrightarrow> field_at buf n pos xs \<and> field_at buf n (pos + length xs) ys"
proof -
  have t: "take (length (xs @ ys)) (drop pos buf)
      = take (length xs) (drop pos buf) @ take (length ys) (drop (pos + length xs) buf)"
    by (simp add: take_add add.commute)
  show ?thesis
  proof (cases "pos + length xs \<le> length buf")
    case True
    then have "length (take (length xs) (drop pos buf)) = length xs" by simp
    then show ?thesis unfolding field_at_def t by (auto simp: add.assoc)
  next
    case False
    then show ?thesis by (auto simp: field_at_def)
  qed
qed

lemma field_at_Cons: "field_at buf n pos (x # xs) \<longleftrightarrow> pos < n \<and> n \<le> length buf \<and> buf ! pos = x \<and> field_at buf n (Suc pos) xs"
proof (cases "pos < length buf")
  case True
  then have "drop pos buf = buf ! pos # drop (Suc pos) buf" by (rule Cons_nth_drop_Suc [symmetric])
  then show ?thesis by (auto simp: field_at_def)
qed (auto simp: field_at_def)

lemma field_at_Nil: "field_at buf n pos [] \<longleftrightarrow> pos \<le> n \<and> n \<le> length buf"
  by (simp add: field_at_def)

lemma vli_decode_field:
  assumes "field_at buf n pos (vli_bytes (unat v))" "v \<le> LZMA_VLI_MAX"
  shows "lzma_vli_decode x (Some 0) buf pos n
    = (LZMA_STREAM_END, v, Some (length (vli_bytes (unat v))), pos + length (vli_bytes (unat v)))"
proof -
  let ?bs = "vli_bytes (unat v)"
  have "0 < length ?bs" by simp
  with assms(1) have "pos < n" unfolding field_at_def by linarith
  then have pos: "pos < n" "n \<le> length buf" "length ?bs = min (length ?bs - 0) (n - pos)"
    "take (length ?bs) (drop pos buf) = take (length ?bs) (drop 0 ?bs)"
    using assms(1) by (auto simp: field_at_def simp del: length_greater_0_conv)
  have "unat v < 128 ^ length ?bs"
    using vli_bytes_length_iff [of "length ?bs" "unat v"] by simp
  then have "of_nat (unat v mod 128 ^ (0 + length ?bs)) = v" by simp
  moreover have "length ?bs - 0 \<le> n - pos" using assms(1) unfolding field_at_def by linarith
  ultimately show ?thesis
    using lzma_vli_decode_multi [OF assms(2) refl _ _ pos, of x] by simp
qed

text \<open>The decoder's loop over the fields of an Index that matches the hash.\<close>

lemma index_hash_loop_Break:
  assumes "in_pos < in_size" "index_hash_step in_buf in_start in_size ih in_pos = Break (ih', in_pos')"
  shows "index_hash_loop in_buf in_start in_size ih in_pos = index_hash_loop in_buf in_start in_size ih' in_pos'"
  using assms by (subst index_hash_loop.simps) simp

lemma record_ok_le: "record_ok (u, c) \<Longrightarrow> u \<le> LZMA_VLI_MAX \<and> c \<le> LZMA_VLI_MAX"
  using unpadded_max by (simp add: record_ok_def)

lemma of_nat_u64_0: "n < 18446744073709551616 \<Longrightarrow> (of_nat n :: u64) = 0 \<longleftrightarrow> n = 0"
proof -
  assume "n < 18446744073709551616"
  then have "unat (of_nat n :: u64) = 0 \<longleftrightarrow> n = 0" by (simp only: unat_of_nat_u64)
  then show ?thesis by (simp only: unsigned_eq_0_iff)
qed

lemma of_nat_u64_le: "m \<le> n \<Longrightarrow> n < 18446744073709551616 \<Longrightarrow> (of_nat m :: u64) \<le> of_nat n"
  by (simp add: word_le_nat_alt unat_of_nat_u64)

lemma info_not_exceeds:
  assumes "info_holds blocks (rs @ qs)" "info_holds records rs" "sums_ok (rs @ qs)"
  shows "\<not> info_exceeds blocks records"
proof -
  have "blocks_sum (rs @ qs) < 18446744073709551616" "uncompressed_sum (rs @ qs) < 18446744073709551616"
    "list_sum (rs @ qs) < 18446744073709551616"
    using assms(3) by (simp_all add: sums_ok_def)
  then show ?thesis
    using assms(1,2) of_nat_u64_le [of "blocks_sum rs" "blocks_sum (rs @ qs)"]
      of_nat_u64_le [of "uncompressed_sum rs" "uncompressed_sum (rs @ qs)"]
      of_nat_u64_le [of "list_sum rs" "list_sum (rs @ qs)"]
    by (simp add: info_exceeds_def info_holds_def not_less)
qed

text \<open>One Record: two integers are read and the hash of the Index is updated.\<close>

lemma index_hash_record:
  assumes st: "ih_sequence ih = IH_UNPADDED" "ih_pos ih = 0"
    and rec: "record_ok (u, c)" "field_at in_buf in_size in_pos (vli_bytes (unat u) @ vli_bytes (unat c))"
    and ex: "\<not> info_exceeds (ih_blocks ih) (hash_append (ih_records ih) u c)"
  shows "index_hash_loop in_buf in_start in_size ih in_pos
    = index_hash_loop in_buf in_start in_size
        (ih\<lparr>ih_unpadded_size := u, ih_uncompressed_size := c, ih_records := hash_append (ih_records ih) u c,
            ih_remaining := ih_remaining ih - 1,
            ih_sequence := (if ih_remaining ih - 1 = 0 then IH_PADDING_INIT else IH_UNPADDED)\<rparr>)
        (in_pos + length (vli_bytes (unat u) @ vli_bytes (unat c)))"
proof -
  let ?ub = "vli_bytes (unat u)" and ?cb = "vli_bytes (unat c)"
  have le: "u \<le> LZMA_VLI_MAX" "c \<le> LZMA_VLI_MAX" using record_ok_le [OF rec(1)] by simp_all
  have f: "field_at in_buf in_size in_pos ?ub" "field_at in_buf in_size (in_pos + length ?ub) ?cb"
    using rec(2) by (simp_all add: field_at_append)
  have lt: "in_pos < in_size" "in_pos + length ?ub < in_size"
    using f length_vli_bytes_pos [of "unat u"] length_vli_bytes_pos [of "unat c"]
    unfolding field_at_def by linarith+
  let ?ih1 = "ih\<lparr>ih_unpadded_size := u, ih_sequence := IH_UNCOMPRESSED\<rparr>"
  have ih0: "ih\<lparr>ih_pos := 0\<rparr> = ih" using st(2) by simp
  have "index_hash_step in_buf in_start in_size ih in_pos = Break (?ih1, in_pos + length ?ub)"
    using st rec(1) vli_decode_field [OF f(1) le(1), of "ih_unpadded_size ih"]
    by (simp add: index_hash_step_def Let_def record_ok_def not_less)
  note s1 = index_hash_loop_Break [OF lt(1) this]
  have "index_hash_step in_buf in_start in_size ?ih1 (in_pos + length ?ub)
      = Break (ih\<lparr>ih_unpadded_size := u, ih_uncompressed_size := c, ih_records := hash_append (ih_records ih) u c,
            ih_remaining := ih_remaining ih - 1,
            ih_sequence := (if ih_remaining ih - 1 = 0 then IH_PADDING_INIT else IH_UNPADDED)\<rparr>,
          in_pos + length ?ub + length ?cb)"
    using st(2) ex vli_decode_field [OF f(2) le(2), of "ih_uncompressed_size ih"]
    by (simp add: index_hash_step_def Let_def)
  note s2 = index_hash_loop_Break [OF lt(2) this]
  show ?thesis unfolding s1 s2 by (simp add: add.assoc)
qed

lemma records_bytes_simps [simp]:
  "records_bytes [] = []" "records_bytes ((u, c) # rs) = (vli_bytes (unat u) @ vli_bytes (unat c)) @ records_bytes rs"
  by (simp_all add: records_bytes_def)

lemma length_records_bytes: "length (records_bytes rs) = list_sum rs"
  by (induction rs) (auto simp: list_sum_def)

lemma index_hash_records:
  assumes "rs \<noteq> []" "ih_sequence ih = IH_UNPADDED" "ih_pos ih = 0" "ih_remaining ih = of_nat (length rs)"
    and "list_all record_ok rs" "field_at in_buf in_size in_pos (records_bytes rs)"
    and "info_holds (ih_blocks ih) (qs @ rs)" "info_holds (ih_records ih) qs" "sums_ok (qs @ rs)"
  shows "\<exists>ih'. index_hash_loop in_buf in_start in_size ih in_pos
      = index_hash_loop in_buf in_start in_size ih' (in_pos + length (records_bytes rs))
    \<and> ih_sequence ih' = IH_PADDING_INIT \<and> ih_blocks ih' = ih_blocks ih \<and> ih_crc32 ih' = ih_crc32 ih
    \<and> ih_pos ih' = 0 \<and> info_holds (ih_records ih') (qs @ rs)"
  using assms
proof (induction rs arbitrary: ih qs in_pos)
  case (Cons r rs)
  obtain u c where r: "r = (u, c)" by fastforce
  have rec: "record_ok (u, c)" and recs: "list_all record_ok rs" using Cons.prems(5) by (simp_all add: r)
  have f: "field_at in_buf in_size in_pos (vli_bytes (unat u) @ vli_bytes (unat c))"
      "field_at in_buf in_size (in_pos + length (vli_bytes (unat u) @ vli_bytes (unat c))) (records_bytes rs)"
    using Cons.prems(6) unfolding r records_bytes_simps field_at_append by simp_all
  have split: "qs @ r # rs = (qs @ [(u, c)]) @ rs" by (simp add: r)
  have h: "info_holds (hash_append (ih_records ih) u c) (qs @ [(u, c)])"
    by (rule info_holds_append [OF Cons.prems(8) rec])
  have ex: "\<not> info_exceeds (ih_blocks ih) (hash_append (ih_records ih) u c)"
    using info_not_exceeds [OF _ h, of "ih_blocks ih" rs] Cons.prems(7,9) unfolding split by blast
  let ?ih = "ih\<lparr>ih_unpadded_size := u, ih_uncompressed_size := c, ih_records := hash_append (ih_records ih) u c,
            ih_remaining := ih_remaining ih - 1,
            ih_sequence := (if ih_remaining ih - 1 = 0 then IH_PADDING_INIT else IH_UNPADDED)\<rparr>"
  note step = index_hash_record [OF Cons.prems(2,3) rec f(1) ex, of in_start]
  have rem: "ih_remaining ih - 1 = of_nat (length rs)" using Cons.prems(4) by simp
  show ?case
  proof (cases "rs = []")
    case True
    then show ?thesis
      using step h rem Cons.prems(3) by (intro exI [of _ ?ih]) (simp add: r)
  next
    case False
    have "2 * length rs \<le> 2 ^ 34"
      using list_sum_length [of rs] Cons.prems(9) by (simp add: sums_ok_def list_sum_def r)
    then have "(of_nat (length rs) :: u64) \<noteq> 0"
      using False of_nat_u64_0 [of "length rs"] by simp
    then have "\<exists>ih'. index_hash_loop in_buf in_start in_size ?ih (in_pos + length (vli_bytes (unat u) @ vli_bytes (unat c)))
        = index_hash_loop in_buf in_start in_size ih'
            (in_pos + length (vli_bytes (unat u) @ vli_bytes (unat c)) + length (records_bytes rs))
      \<and> ih_sequence ih' = IH_PADDING_INIT \<and> ih_blocks ih' = ih_blocks ?ih \<and> ih_crc32 ih' = ih_crc32 ?ih
      \<and> ih_pos ih' = 0 \<and> info_holds (ih_records ih') ((qs @ [(u, c)]) @ rs)"
      using Cons.prems(3,7,9) h rem
      by (intro Cons.IH [OF False _ _ _ recs f(2)]) (simp_all add: r del: index_sums_append)
    then show ?thesis unfolding step split by (simp add: r add.assoc)
  qed
qed simp

text \<open>Index Padding.\<close>

lemma int_index_pad: "int (index_pad n) = (4 - int n) mod 4"
proof -
  have "int (index_pad n) = (4 - int n mod 4) mod 4"
    by (simp add: index_pad_def of_nat_mod of_nat_diff)
  then show ?thesis by (simp only: mod_diff_right_eq)
qed

lemma unat_padding: "unat ((4 - w) AND 3 :: u64) = index_pad (unat w)"
proof -
  have "uint (4 - w) = (4 - uint w) mod 2 ^ 64" by (simp add: uint_word_ariths)
  then have "int (unat (4 - w) mod 4) = (4 - uint w) mod 2 ^ 64 mod 4" by (simp add: of_nat_mod)
  also have "\<dots> = (4 - uint w) mod 4" by (rule mod_mod_cancel) simp
  also have "\<dots> = int (index_pad (unat w))" by (simp add: int_index_pad)
  finally have "unat (4 - w) mod 4 = index_pad (unat w)" by simp
  moreover have "unat ((4 - w) AND mask 2) = unat (4 - w) mod 4" by (simp only: unat_and_mask) simp
  ultimately show ?thesis by (simp add: mask_eq_exp_minus_1)
qed

text \<open>The stored CRC32.\<close>

lemma ucast_byte_eq: "(w :: u32) AND 0xFF = ucast b \<longleftrightarrow> ucast w = (b :: u8)"
proof -
  have "w AND mask 8 = ucast (ucast w :: u8)"
    by (rule bit_word_eqI) (auto simp: bit_simps)
  then have "w AND 0xFF = ucast (ucast w :: u8)" by (simp add: mask_eq_exp_minus_1)
  then show ?thesis by (simp add: ucast_eq_iff)
qed

lemma index_hash_crc_loop_ok:
  assumes "ih_pos ih = 0" "field_at in_buf in_size in_pos (bytes32le (ih_crc32 ih))"
  shows "index_hash_crc_loop in_buf in_size ih in_pos = (LZMA_STREAM_END, ih\<lparr>ih_pos := 4\<rparr>, in_pos + 4)"
proof -
  have b: "in_pos + 4 \<le> in_size" "in_buf ! in_pos = ucast (ih_crc32 ih)" "in_buf ! (in_pos + 1) = ucast (drop_bit 8 (ih_crc32 ih))"
    "in_buf ! (in_pos + 2) = ucast (drop_bit 16 (ih_crc32 ih))" "in_buf ! (in_pos + 3) = ucast (drop_bit 24 (ih_crc32 ih))"
    using assms(2) by (auto simp: bytes32le_def field_at_Cons field_at_Nil eval_nat_numeral)
  have loop: "index_hash_crc_loop in_buf in_size ih' p
      = (let ih' = ih'\<lparr>ih_pos := ih_pos ih' + 1\<rparr>
         in if ih_pos ih' < 4 then index_hash_crc_loop in_buf in_size ih' (p + 1) else (LZMA_STREAM_END, ih', p + 1))"
    if "p < in_size" "in_buf ! p = ucast (drop_bit (ih_pos ih' * 8) (ih_crc32 ih'))" for ih' p
    using that by (subst index_hash_crc_loop.simps) (simp add: ucast_byte_eq)
  show ?thesis
    using b assms(1) by (simp add: loop Let_def eval_nat_numeral)
qed

lemma index_hash_padding_loop:
  assumes "ih_sequence ih = IH_PADDING" "ih_pos ih = k"
    and "info_holds (ih_blocks ih) rs" "info_holds (ih_records ih) rs"
    and "crc = lzma_crc32 (take (in_pos + k - in_start) (drop in_start in_buf)) (ih_crc32 ih)"
    and "field_at in_buf in_size in_pos (replicate k 0 @ bytes32le crc)"
  shows "\<exists>ih'. index_hash_loop in_buf in_start in_size ih in_pos = (LZMA_STREAM_END, ih', in_pos + k + 4)"
  using assms
proof (induction k arbitrary: ih in_pos)
  case 0
  have lt: "in_pos < in_size" using 0(6) by (simp add: field_at_def)
  have d: "take 32 (cs_buffer (lzma_check_finish (hi_check info) LZMA_CHECK_SHA256)) = fips_sha256 (pairs_bytes rs)"
    if "info_holds info rs" for info
    using that sha256_chk.track_fin [of "hi_check info" "pairs_bytes rs"] by (simp add: info_holds_def)
  have sz: "\<not> info_sizes_neq (ih_blocks ih) (ih_records ih)"
    using 0(3,4) by (simp add: info_sizes_neq_def info_holds_def)
  have n: "unat (lzma_check_size LZMA_CHECK_SHA256) = 32"
    by (simp add: lzma_check_size_def check_sizes_def check_ids LZMA_CHECK_ID_MAX_def)
  show ?case
    using 0 lt sz n d [OF 0(3)] d [OF 0(4)]
    by (subst index_hash_loop.simps)
      (simp add: index_hash_step_def index_hash_padding_def Let_def LZMA_CHECK_BEST_def index_hash_crc_loop_ok)
next
  case (Suc k)
  have f: "in_pos < in_size" "in_buf ! in_pos = 0" "field_at in_buf in_size (Suc in_pos) (replicate k 0 @ bytes32le crc)"
    using Suc.prems(6) by (simp_all add: field_at_Cons)
  have "index_hash_step in_buf in_start in_size ih in_pos = Break (ih\<lparr>ih_pos := k\<rparr>, Suc in_pos)"
    using Suc.prems(1,2) f(2) by (simp add: index_hash_step_def index_hash_padding_def)
  note s = index_hash_loop_Break [OF f(1) this]
  show ?case
    unfolding s using Suc.IH [of "ih\<lparr>ih_pos := k\<rparr>" "Suc in_pos"] Suc.prems f(3) by simp
qed

lemma index_hash_loop_padding:
  assumes st: "ih_sequence ih = IH_PADDING_INIT" "sums_ok rs"
    and holds: "info_holds (ih_blocks ih) rs" "info_holds (ih_records ih) rs"
    and crc: "crc = lzma_crc32 (take (in_pos + index_pad (index_unpadded rs) - in_start) (drop in_start in_buf)) (ih_crc32 ih)"
    and f: "field_at in_buf in_size in_pos (replicate (index_pad (index_unpadded rs)) 0 @ bytes32le crc)"
  shows "\<exists>ih'. index_hash_loop in_buf in_start in_size ih in_pos
    = (LZMA_STREAM_END, ih', in_pos + index_pad (index_unpadded rs) + 4)"
proof -
  let ?k = "index_pad (index_unpadded rs)"
  let ?ih = "ih\<lparr>ih_pos := ?k, ih_sequence := IH_PADDING\<rparr>"
  have "unat (index_size_unpadded (hi_count (ih_records ih)) (hi_index_list_size (ih_records ih))) = index_unpadded rs"
    using holds(2) st(2) unat_index_size(1) [of rs] by (simp add: info_holds_def sums_ok_def)
  then have "index_hash_step in_buf in_start in_size ih in_pos = index_hash_step in_buf in_start in_size ?ih in_pos"
    using st(1) by (simp add: index_hash_step_def unat_padding)
  then have "index_hash_loop in_buf in_start in_size ih in_pos = index_hash_loop in_buf in_start in_size ?ih in_pos"
    using f by (subst (1 2) index_hash_loop.simps) (simp add: field_at_def)
  then show ?thesis
    using index_hash_padding_loop [of ?ih ?k rs crc in_pos in_start in_buf in_size] holds crc f by simp
qed

section \<open>Properties\<close>

text \<open>The memory a hash is made in: the digest buffers have the size the C type gives them.\<close>

definition index_hash_mem_ok :: "lzma_index_hash \<Rightarrow> bool" where
  "index_hash_mem_ok m \<longleftrightarrow> length (cs_buffer (hi_check (ih_blocks m))) = 64 \<and> length (cs_buffer (hi_check (ih_records m))) = 64"

lemma index_hash_init_fresh:
  assumes "lzma_index_hash_init old fresh = Some ih" "\<forall>m. old = Some m \<or> fresh = Some m \<longrightarrow> index_hash_mem_ok m"
  shows "ih_sequence ih = IH_BLOCK" "info_holds (ih_blocks ih) []" "info_holds (ih_records ih) []"
    "ih_pos ih = 0" "ih_crc32 ih = 0"
  using assms info_holds_clear
  by (auto simp: lzma_index_hash_init_def index_hash_mem_ok_def split: option.splits)

lemma index_pad_ceil: "(n + 3) div 4 * 4 = n + index_pad n"
proof -
  define q r where "q = n div 4" and "r = n mod 4"
  have n: "n = 4 * q + r" and "r < 4" by (simp_all add: q_def r_def)
  have p: "index_pad n = (4 - r) mod 4" by (simp add: index_pad_def r_def)
  from \<open>r < 4\<close> consider "r = 0" | "r = 1" | "r = 2" | "r = 3" by linarith
  then show ?thesis unfolding p by cases (simp_all add: n)
qed

lemma length_index_field: "length (index_field rs) = index_unpadded rs + index_pad (index_unpadded rs)"
  by (simp add: index_field_def index_body_def length_records_bytes index_unpadded_def)

lemma index_hash_decode_accepts:
  assumes ih: "ih_sequence ih = IH_BLOCK" "ih_pos ih = 0" "ih_crc32 ih = 0"
    and holds: "info_holds (ih_blocks ih) rs" "info_holds (ih_records ih) []" "sums_ok rs" "list_all record_ok rs"
    and f: "field_at in_buf in_size in_pos (index_field rs)"
  shows "\<exists>ih'. lzma_index_hash_decode ih in_buf in_pos in_size = (LZMA_STREAM_END, ih', in_pos + length (index_field rs))"
proof -
  define n :: lzma_vli where "n = of_nat (length rs)"
  have len: "length rs < 18446744073709551616" "length rs < 2 ^ 63"
    using list_sum_length [of rs] holds(3) by (simp_all add: sums_ok_def)
  then have n: "unat n = length rs" "n \<le> LZMA_VLI_MAX" "n = 0 \<longleftrightarrow> rs = []"
    by (simp_all add: n_def unat_of_nat_u64 vli_le_max_iff of_nat_u64_0)
  define p1 where "p1 = in_pos + 1"
  define p2 where "p2 = p1 + length (vli_bytes (length rs))"
  define p3 where "p3 = p2 + length (records_bytes rs)"
  have parts: "field_at in_buf in_size in_pos [0]" "field_at in_buf in_size p1 (vli_bytes (length rs))"
      "field_at in_buf in_size p2 (records_bytes rs)"
      "field_at in_buf in_size p3 (replicate (index_pad (index_unpadded rs)) 0
         @ bytes32le (lzma_crc32 (index_body rs) 0))"
    using f unfolding index_field_def index_body_def append_assoc field_at_append p1_def p2_def p3_def
    by (simp_all add: add.assoc)
  have body: "take (p3 + index_pad (index_unpadded rs) - in_pos) (drop in_pos in_buf) = index_body rs"
    using f unfolding index_field_def field_at_append
    by (simp add: field_at_def p1_def p2_def p3_def index_body_def add.assoc)
  have lt: "in_pos < in_size" "p1 < in_size"
    using parts(1,2) length_vli_bytes_pos [of "length rs"] unfolding field_at_def by (simp, linarith)
  let ?ih1 = "ih\<lparr>ih_sequence := IH_COUNT\<rparr>"
  have "index_hash_step in_buf in_pos in_size ih in_pos = Break (?ih1, p1)"
    using ih(1) parts(1) by (simp add: index_hash_step_def field_at_Cons p1_def)
  note s1 = index_hash_loop_Break [OF lt(1) this]
  let ?ih2 = "ih\<lparr>ih_remaining := n, ih_sequence := (if n = 0 then IH_PADDING_INIT else IH_UNPADDED)\<rparr>"
  have "index_hash_step in_buf in_pos in_size ?ih1 p1 = Break (?ih2, p2)"
    using ih(2) holds(1) parts(2) n vli_decode_field [of in_buf in_size p1 n "ih_remaining ih"]
    by (simp add: index_hash_step_def Let_def info_holds_def n_def p2_def)
  note s2 = index_hash_loop_Break [OF lt(2) this]
  have "\<exists>ih'. index_hash_loop in_buf in_pos in_size ?ih2 p2 = index_hash_loop in_buf in_pos in_size ih' p3
      \<and> ih_sequence ih' = IH_PADDING_INIT \<and> ih_blocks ih' = ih_blocks ih \<and> ih_crc32 ih' = 0
      \<and> info_holds (ih_records ih') rs"
  proof (cases "rs = []")
    case True
    then show ?thesis using n holds(2) ih(3) by (intro exI [of _ ?ih2]) (simp add: p3_def)
  next
    case False
    then show ?thesis
      using index_hash_records [of rs ?ih2 in_buf in_size p2 "[]" in_pos] n ih(2,3) holds parts(3)
      by (auto simp: n_def p3_def)
  qed
  then obtain ih3 where s3: "index_hash_loop in_buf in_pos in_size ?ih2 p2 = index_hash_loop in_buf in_pos in_size ih3 p3"
    and ih3: "ih_sequence ih3 = IH_PADDING_INIT" "ih_blocks ih3 = ih_blocks ih" "ih_crc32 ih3 = 0"
      "info_holds (ih_records ih3) rs" by blast
  have "\<exists>ih'. index_hash_loop in_buf in_pos in_size ih3 p3
      = (LZMA_STREAM_END, ih', p3 + index_pad (index_unpadded rs) + 4)"
    using holds ih3 body parts(4) by (intro index_hash_loop_padding [OF ih3(1) holds(3)]) simp_all
  moreover have "p3 + index_pad (index_unpadded rs) + 4 = in_pos + length (index_field rs)"
    by (simp add: p1_def p2_def p3_def length_index_field index_unpadded_def length_records_bytes)
  ultimately show ?thesis
    using lt(1) s1 s2 s3 by (simp add: lzma_index_hash_decode_def)
qed

text \<open>C21. The Index hash accepts the right Index: after the sizes of any Blocks have been appended without error, decoding
  the Index field that lists exactly these sizes consumes the whole field and returns
  \<open>LZMA_STREAM_END\<close>, and \<open>lzma_index_hash_size\<close> is the length of that field.\<close>

theorem index_hash_accepts:
  assumes "lzma_index_hash_init old fresh = Some ih0" "\<forall>m. old = Some m \<or> fresh = Some m \<longrightarrow> index_hash_mem_ok m"
    and "index_hash_append_all ih0 rs = Some ih"
    and "field_at in_buf in_size in_pos (index_field rs)"
  shows "fst (lzma_index_hash_decode ih in_buf in_pos in_size) = LZMA_STREAM_END
    \<and> snd (snd (lzma_index_hash_decode ih in_buf in_pos in_size)) = in_pos + length (index_field rs)
    \<and> unat (lzma_index_hash_size ih) = length (index_field rs)"
proof -
  note init = index_hash_init_fresh [OF assms(1,2)]
  have a: "list_all record_ok rs" "sums_ok rs" "info_holds (ih_blocks ih) rs" "ih = ih0\<lparr>ih_blocks := ih_blocks ih\<rparr>"
    using index_hash_append_all_OK [OF assms(3) init(2)] by (simp_all add: sums_ok_def)
  then have ih: "ih_sequence ih = IH_BLOCK" "ih_pos ih = 0" "ih_crc32 ih = 0" "ih_records ih = ih_records ih0"
    using init by (metis lzma_index_hash.select_convs lzma_index_hash.simps lzma_index_hash.surjective)+
  have "\<exists>ih'. lzma_index_hash_decode ih in_buf in_pos in_size = (LZMA_STREAM_END, ih', in_pos + length (index_field rs))"
    using init(3) ih(4) by (intro index_hash_decode_accepts [OF ih(1-3) a(3) _ a(2,1) assms(4)]) simp
  moreover have "unat (lzma_index_hash_size ih) = length (index_field rs)"
    using a(2,3) unat_index_size(2) [of rs]
    by (simp add: lzma_index_hash_size_def info_holds_def sums_ok_def length_index_field index_pad_ceil)
  ultimately show ?thesis by auto
qed

definition zero_check_state :: lzma_check_state where
  "zero_check_state = \<lparr>cs_crc32 = 0, cs_crc64 = 0, cs_sha256 = \<lparr>sha_buffer = replicate 64 0, sha_state = [], sha_size = 0\<rparr>\<rparr>"

definition zero_info :: lzma_index_hash_info where
  "zero_info = \<lparr>hi_blocks_size = 0, hi_uncompressed_size = 0, hi_count = 0, hi_index_list_size = 0, hi_check = zero_check_state\<rparr>"

definition zero_index_hash :: lzma_index_hash where
  "zero_index_hash = \<lparr>ih_sequence = IH_BLOCK, ih_blocks = zero_info, ih_records = zero_info, ih_remaining = 0,
     ih_unpadded_size = 0, ih_uncompressed_size = 0, ih_pos = 0, ih_crc32 = 0\<rparr>"

lemma zero_index_hash_ok: "index_hash_mem_ok zero_index_hash"
  by (simp add: index_hash_mem_ok_def zero_index_hash_def zero_info_def zero_check_state_def)

theorem index_hash_accepts_witness:
  "\<exists>ih0 ih. lzma_index_hash_init None (Some zero_index_hash) = Some ih0
     \<and> index_hash_append_all ih0 [(20, 3)] = Some ih
     \<and> fst (lzma_index_hash_decode ih (index_field [(20, 3)]) 0 (length (index_field [(20, 3)]))) = LZMA_STREAM_END"
proof -
  obtain ih0 where i: "lzma_index_hash_init None (Some zero_index_hash) = Some ih0"
    and z: "ih_sequence ih0 = IH_BLOCK" "hi_blocks_size (ih_blocks ih0) = 0" "hi_uncompressed_size (ih_blocks ih0) = 0"
      "hi_count (ih_blocks ih0) = 0" "hi_index_list_size (ih_blocks ih0) = 0"
    by (simp add: lzma_index_hash_init_def info_clear_def)
  have sz: "lzma_vli_size 20 = 1" "lzma_vli_size 3 = 1" "lzma_vli_size 1 = 1"
    by (simp_all add: lzma_vli_size_def vli_size_loop.simps LZMA_VLI_MAX_def)
  have "\<exists>ih. index_hash_append_all ih0 [(20, 3)] = Some ih"
    by (simp add: lzma_index_hash_append_def hash_append_def z sz UNPADDED_SIZE_MIN_def UNPADDED_SIZE_MAX_def
        LZMA_VLI_MAX_def vli_ceil4_def index_size_def index_size_unpadded_def index_stream_size_def
        LZMA_BACKWARD_SIZE_MAX_def LZMA_STREAM_HEADER_SIZE_def)
  then obtain ih where a: "index_hash_append_all ih0 [(20, 3)] = Some ih" ..
  have "field_at (index_field [(20, 3)]) (length (index_field [(20, 3)])) 0 (index_field [(20, 3)])"
    by (simp add: field_at_def)
  from index_hash_accepts [OF i _ a this] i a show ?thesis using zero_index_hash_ok by auto
qed

end
