(* ===== verification/Filters.thy ===== *)
theory Filters
  imports Index_Hash
begin

unbundle bit_operations_syntax

text \<open>
  Filters and their properties: the chain rules of \<open>common/filter_common.c\<close>, the tables and
  property functions of \<open>common/filter_encoder.c\<close> and \<open>common/filter_decoder.c\<close>, the Filter Flags field of
  \<open>common/filter_flags_encoder.c\<close> and \<open>common/filter_flags_decoder.c\<close>, the option codecs of the LZMA1, LZMA2,
  branch and Delta filters, and the presets of \<open>lzma/lzma_encoder_presets.c\<close> and \<open>common/easy_preset.c\<close>.

  The build has every filter. The \<open>void *options\<close> pointer is \<open>None\<close> or one of the option structures;
  following it as the wrong type, or when it is NULL, is undefined behaviour, which the model leaves
  \<open>undefined\<close>. A filter array is a list that ends with the entry whose identifier is
  \<open>LZMA_VLI_UNKNOWN\<close>. What an allocation yields is an argument: whether it succeeds, and the content of the
  fresh memory.
\<close>

section \<open>Data\<close>

definition LZMA_FILTER_LZMA1 :: lzma_vli where "LZMA_FILTER_LZMA1 = 0x4000000000000001"
definition LZMA_FILTER_LZMA2 :: lzma_vli where "LZMA_FILTER_LZMA2 = 0x21"
definition LZMA_FILTER_DELTA :: lzma_vli where "LZMA_FILTER_DELTA = 0x03"
definition LZMA_FILTER_X86 :: lzma_vli where "LZMA_FILTER_X86 = 0x04"
definition LZMA_FILTER_POWERPC :: lzma_vli where "LZMA_FILTER_POWERPC = 0x05"
definition LZMA_FILTER_IA64 :: lzma_vli where "LZMA_FILTER_IA64 = 0x06"
definition LZMA_FILTER_ARM :: lzma_vli where "LZMA_FILTER_ARM = 0x07"
definition LZMA_FILTER_ARMTHUMB :: lzma_vli where "LZMA_FILTER_ARMTHUMB = 0x08"
definition LZMA_FILTER_SPARC :: lzma_vli where "LZMA_FILTER_SPARC = 0x09"
definition LZMA_FILTER_RESERVED_START :: lzma_vli where "LZMA_FILTER_RESERVED_START = 0x4000000000000000"
definition LZMA_FILTERS_MAX :: nat where "LZMA_FILTERS_MAX = 4"

lemmas filter_ids = LZMA_FILTER_LZMA1_def LZMA_FILTER_LZMA2_def LZMA_FILTER_DELTA_def LZMA_FILTER_X86_def
  LZMA_FILTER_POWERPC_def LZMA_FILTER_IA64_def LZMA_FILTER_ARM_def LZMA_FILTER_ARMTHUMB_def
  LZMA_FILTER_SPARC_def LZMA_FILTER_RESERVED_START_def LZMA_VLI_UNKNOWN_def

record lzma_options_lzma =
  ol_dict_size :: u32
  ol_preset_dict :: "u8 list option"
  ol_preset_dict_size :: u32
  ol_lc :: u32
  ol_lp :: u32
  ol_pb :: u32
  ol_mode :: u32
  ol_nice_len :: u32
  ol_mf :: u32
  ol_depth :: u32

record lzma_options_delta =
  od_type :: u32
  od_dist :: u32

datatype filter_options =
    Opt_lzma lzma_options_lzma
  | Opt_bcj u32
  | Opt_delta lzma_options_delta

record lzma_filter =
  f_id :: lzma_vli
  f_options :: "filter_options option"

definition unknown_filter :: lzma_filter where
  "unknown_filter = \<lparr>f_id = LZMA_VLI_UNKNOWN, f_options = None\<rparr>"

text \<open>The pointer conversions of the option functions.\<close>

fun opt_lzma :: "filter_options option \<Rightarrow> lzma_options_lzma" where
  "opt_lzma (Some (Opt_lzma opt)) = opt"
| "opt_lzma _ = undefined"

fun opt_bcj :: "filter_options option \<Rightarrow> u32 option" where
  "opt_bcj None = None"
| "opt_bcj (Some (Opt_bcj start_offset)) = Some start_offset"
| "opt_bcj (Some _) = undefined"

fun opt_delta :: "filter_options option \<Rightarrow> lzma_options_delta option" where
  "opt_delta None = None"
| "opt_delta (Some (Opt_delta opt)) = Some opt"
| "opt_delta (Some _) = undefined"

record opts_alloc =
  al_ok :: bool
  al_lzma :: lzma_options_lzma

section \<open>Filter chains\<close>

record filter_features =
  ff_id :: lzma_vli
  ff_non_last_ok :: bool
  ff_last_ok :: bool
  ff_changes_size :: bool

definition bcj_features :: "lzma_vli \<Rightarrow> filter_features" where
  "bcj_features i = \<lparr>ff_id = i, ff_non_last_ok = True, ff_last_ok = False, ff_changes_size = False\<rparr>"

text \<open>The table \<open>features\<close>; the member \<open>options_size\<close> only serves \<open>memcpy\<close>.\<close>

definition features :: "filter_features list" where
  "features =
     [\<lparr>ff_id = LZMA_FILTER_LZMA1, ff_non_last_ok = False, ff_last_ok = True, ff_changes_size = True\<rparr>,
      \<lparr>ff_id = LZMA_FILTER_LZMA2, ff_non_last_ok = False, ff_last_ok = True, ff_changes_size = True\<rparr>,
      bcj_features LZMA_FILTER_X86, bcj_features LZMA_FILTER_POWERPC, bcj_features LZMA_FILTER_IA64,
      bcj_features LZMA_FILTER_ARM, bcj_features LZMA_FILTER_ARMTHUMB, bcj_features LZMA_FILTER_SPARC,
      bcj_features LZMA_FILTER_DELTA]"

definition features_find :: "lzma_vli \<Rightarrow> filter_features option" where
  "features_find i = find (\<lambda>f. ff_id f = i) features"

text \<open>The filters before the terminator.\<close>

definition chain_of :: "lzma_filter list \<Rightarrow> lzma_filter list" where
  "chain_of filters = takeWhile (\<lambda>f. f_id f \<noteq> LZMA_VLI_UNKNOWN) filters"

text \<open>The loop of \<open>lzma_filters_copy\<close> from index \<open>i\<close> with the copied prefix; \<open>allocs\<close> says which allocations
  succeed. On an error everything allocated so far is freed and cleared: the entries before \<open>i\<close>, which are the
  ones returned, keep their identifiers and lose their options.\<close>

fun filters_copy_loop :: "lzma_filter list \<Rightarrow> nat \<Rightarrow> (nat \<Rightarrow> bool) \<Rightarrow> lzma_filter list \<Rightarrow> lzma_ret \<times> lzma_filter list" where
  "filters_copy_loop [] i allocs dest = (LZMA_OK, dest @ [unknown_filter])"
| "filters_copy_loop (f # rest) i allocs dest =
     (if i = LZMA_FILTERS_MAX then (LZMA_OPTIONS_ERROR, map (\<lambda>f. f\<lparr>f_options := None\<rparr>) dest)
      else if f_options f = None then filters_copy_loop rest (i + 1) allocs (dest @ [f])
      else if features_find (f_id f) = None then (LZMA_OPTIONS_ERROR, map (\<lambda>f. f\<lparr>f_options := None\<rparr>) dest)
      else if \<not> allocs i then (LZMA_MEM_ERROR, map (\<lambda>f. f\<lparr>f_options := None\<rparr>) dest)
      else filters_copy_loop rest (i + 1) allocs (dest @ [f]))"

definition lzma_filters_copy :: "lzma_filter list option \<Rightarrow> (nat \<Rightarrow> bool) \<Rightarrow> lzma_ret \<times> lzma_filter list" where
  "lzma_filters_copy src allocs =
     (case src of
        None \<Rightarrow> (LZMA_PROG_ERROR, [])
      | Some filters \<Rightarrow> filters_copy_loop (chain_of filters) 0 allocs [])"

fun validate_chain_loop :: "lzma_filter list \<Rightarrow> nat \<Rightarrow> bool \<Rightarrow> bool \<Rightarrow> nat \<Rightarrow> lzma_ret \<times> nat" where
  "validate_chain_loop [] changes_size_count non_last_ok last_ok i =
     (if i > LZMA_FILTERS_MAX \<or> \<not> last_ok \<or> changes_size_count > 3 then (LZMA_OPTIONS_ERROR, i) else (LZMA_OK, i))"
| "validate_chain_loop (f # rest) changes_size_count non_last_ok last_ok i =
     (case features_find (f_id f) of
        None \<Rightarrow> (LZMA_OPTIONS_ERROR, i)
      | Some ff \<Rightarrow>
          if \<not> non_last_ok then (LZMA_OPTIONS_ERROR, i)
          else validate_chain_loop rest (changes_size_count + (if ff_changes_size ff then 1 else 0))
                 (ff_non_last_ok ff) (ff_last_ok ff) (i + 1))"

text \<open>The second component is the count, meaningful when the first is \<open>LZMA_OK\<close>.\<close>

definition validate_chain :: "lzma_filter list option \<Rightarrow> lzma_ret \<times> nat" where
  "validate_chain filters =
     (case filters of
        None \<Rightarrow> (LZMA_PROG_ERROR, 0)
      | Some fs \<Rightarrow> if chain_of fs = [] then (LZMA_PROG_ERROR, 0) else validate_chain_loop (chain_of fs) 0 True False 0)"

section \<open>Options of the individual filters\<close>

definition LZMA_LCLP_MAX :: u32 where "LZMA_LCLP_MAX = 4"
definition LZMA_PB_MAX :: u32 where "LZMA_PB_MAX = 4"
definition LZMA_DICT_SIZE_MIN :: u32 where "LZMA_DICT_SIZE_MIN = 4096"
definition LZMA_DELTA_TYPE_BYTE :: u32 where "LZMA_DELTA_TYPE_BYTE = 0"
definition LZMA_DELTA_DIST_MIN :: u32 where "LZMA_DELTA_DIST_MIN = 1"
definition LZMA_DELTA_DIST_MAX :: u32 where "LZMA_DELTA_DIST_MAX = 256"

definition UINT64_MAX :: u64 where "UINT64_MAX = 0xFFFFFFFFFFFFFFFF"

definition is_lclppb_valid :: "lzma_options_lzma \<Rightarrow> bool" where
  "is_lclppb_valid options \<longleftrightarrow>
     ol_lc options \<le> LZMA_LCLP_MAX \<and> ol_lp options \<le> LZMA_LCLP_MAX
     \<and> ol_lc options + ol_lp options \<le> LZMA_LCLP_MAX \<and> ol_pb options \<le> LZMA_PB_MAX"

text \<open>\<open>True\<close> is failure; the byte is written only on success.\<close>

definition lzma_lzma_lclppb_encode :: "lzma_options_lzma \<Rightarrow> u8 list \<Rightarrow> nat \<Rightarrow> bool \<times> u8 list" where
  "lzma_lzma_lclppb_encode options out pos =
     (if \<not> is_lclppb_valid options then (True, out)
      else (False, out[pos := ucast ((ol_pb options * 5 + ol_lp options) * 9 + ol_lc options)]))"

definition lzma_lzma_lclppb_decode :: "lzma_options_lzma \<Rightarrow> u8 \<Rightarrow> bool \<times> lzma_options_lzma" where
  "lzma_lzma_lclppb_decode options byte =
     (if byte > (4 * 5 + 4) * 9 + 8 then (True, options)
      else
        (let pb = ucast byte div (9 * 5) :: u32;
             byte = byte - ucast (pb * 9 * 5);
             lp = ucast byte div 9 :: u32;
             lc = ucast byte - lp * 9;
             options = options\<lparr>ol_pb := pb, ol_lp := lp, ol_lc := lc\<rparr>
         in (lc + lp > LZMA_LCLP_MAX, options)))"

definition lzma_lzma_props_encode :: "filter_options option \<Rightarrow> u8 list \<Rightarrow> nat \<Rightarrow> lzma_ret \<times> u8 list" where
  "lzma_lzma_props_encode options out pos =
     (let opt = opt_lzma options; (err, out) = lzma_lzma_lclppb_encode opt out pos
      in if err then (LZMA_PROG_ERROR, out)
         else (LZMA_OK, unaligned_write32le out (pos + 1) (ol_dict_size opt)))"

definition lzma_lzma_props_decode :: "opts_alloc \<Rightarrow> u8 list \<Rightarrow> lzma_ret \<times> filter_options option" where
  "lzma_lzma_props_decode al props =
     (if length props \<noteq> 5 then (LZMA_OPTIONS_ERROR, None)
      else if \<not> al_ok al then (LZMA_MEM_ERROR, None)
      else
        (let (err, opt) = lzma_lzma_lclppb_decode (al_lzma al) (props ! 0)
         in if err then (LZMA_OPTIONS_ERROR, None)
            else (LZMA_OK, Some (Opt_lzma (opt\<lparr>ol_dict_size := unaligned_read32le props 1,
                   ol_preset_dict := None, ol_preset_dict_size := 0\<rparr>)))))"

text \<open>The table of \<open>fastpos_table.c\<close>, which \<open>fastpos_tablegen.c\<close> prints, and \<open>get_dist_slot\<close> of \<open>fastpos.h\<close>.\<close>

definition lzma_fastpos :: "nat list" where
  "lzma_fastpos = [0, 1] @ concat (map (\<lambda>slot_fast. replicate (2 ^ (slot_fast div 2 - 1)) slot_fast) [2..<26])"

definition get_dist_slot :: "nat \<Rightarrow> nat" where
  "get_dist_slot dist =
     (if dist < 2 ^ 13 then lzma_fastpos ! dist
      else if dist < 2 ^ (13 + 12) then lzma_fastpos ! (dist div 2 ^ 12) + 2 * 12
      else lzma_fastpos ! (dist div 2 ^ 24) + 2 * 24)"

definition dict_round_up :: "u32 \<Rightarrow> u32" where
  "dict_round_up dict_size =
     (let d = max dict_size LZMA_DICT_SIZE_MIN;
          d = d - 1;
          d = d OR drop_bit 2 d;
          d = d OR drop_bit 3 d;
          d = d OR drop_bit 4 d;
          d = d OR drop_bit 8 d;
          d = d OR drop_bit 16 d
      in d)"

definition lzma_lzma2_props_encode :: "filter_options option \<Rightarrow> u8 list \<Rightarrow> nat \<Rightarrow> lzma_ret \<times> u8 list" where
  "lzma_lzma2_props_encode options out pos =
     (let d = dict_round_up (ol_dict_size (opt_lzma options))
      in (LZMA_OK, out[pos := (if d = 0xFFFFFFFF then 40 else of_nat (get_dist_slot (unat (d + 1))) - 24)]))"

definition lzma_lzma2_props_decode :: "opts_alloc \<Rightarrow> u8 list \<Rightarrow> lzma_ret \<times> filter_options option" where
  "lzma_lzma2_props_decode al props =
     (if length props \<noteq> 1 then (LZMA_OPTIONS_ERROR, None)
      else if props ! 0 AND 0xC0 \<noteq> 0 then (LZMA_OPTIONS_ERROR, None)
      else if props ! 0 > 40 then (LZMA_OPTIONS_ERROR, None)
      else if \<not> al_ok al then (LZMA_MEM_ERROR, None)
      else
        (let dict_size = (if props ! 0 = 40 then 0xFFFFFFFF
                          else push_bit (unat (props ! 0) div 2 + 11) (2 OR (ucast (props ! 0) AND 1)))
         in (LZMA_OK, Some (Opt_lzma ((al_lzma al)\<lparr>ol_dict_size := dict_size, ol_preset_dict := None,
               ol_preset_dict_size := 0\<rparr>)))))"

definition lzma_simple_props_size :: "filter_options option \<Rightarrow> lzma_ret \<times> u32" where
  "lzma_simple_props_size options =
     (LZMA_OK, if opt_bcj options = None \<or> opt_bcj options = Some 0 then 0 else 4)"

definition lzma_simple_props_encode :: "filter_options option \<Rightarrow> u8 list \<Rightarrow> nat \<Rightarrow> lzma_ret \<times> u8 list" where
  "lzma_simple_props_encode options out pos =
     (case opt_bcj options of
        None \<Rightarrow> (LZMA_OK, out)
      | Some start_offset \<Rightarrow>
          if start_offset = 0 then (LZMA_OK, out) else (LZMA_OK, unaligned_write32le out pos start_offset))"

definition lzma_simple_props_decode :: "opts_alloc \<Rightarrow> u8 list \<Rightarrow> lzma_ret \<times> filter_options option" where
  "lzma_simple_props_decode al props =
     (if length props = 0 then (LZMA_OK, None)
      else if length props \<noteq> 4 then (LZMA_OPTIONS_ERROR, None)
      else if \<not> al_ok al then (LZMA_MEM_ERROR, None)
      else
        (let start_offset = unaligned_read32le props 0
         in if start_offset = 0 then (LZMA_OK, None) else (LZMA_OK, Some (Opt_bcj start_offset))))"

text \<open>Sizes of the coder structures, which depend on the platform.\<close>

record coder_sizes =
  sz_delta :: u64
  sz_lzma_decoder :: u64
  sz_lz_decoder :: u64
  sz_lzma2_decoder :: u64

definition lzma_delta_coder_memusage :: "coder_sizes \<Rightarrow> filter_options option \<Rightarrow> u64" where
  "lzma_delta_coder_memusage sz options =
     (case opt_delta options of
        None \<Rightarrow> UINT64_MAX
      | Some opt \<Rightarrow>
          if od_type opt \<noteq> LZMA_DELTA_TYPE_BYTE \<or> od_dist opt < LZMA_DELTA_DIST_MIN \<or> od_dist opt > LZMA_DELTA_DIST_MAX
          then UINT64_MAX else sz_delta sz)"

definition lzma_delta_props_encode :: "coder_sizes \<Rightarrow> filter_options option \<Rightarrow> u8 list \<Rightarrow> nat \<Rightarrow> lzma_ret \<times> u8 list" where
  "lzma_delta_props_encode sz options out pos =
     (if lzma_delta_coder_memusage sz options = UINT64_MAX then (LZMA_PROG_ERROR, out)
      else (LZMA_OK, out[pos := ucast (od_dist (the (opt_delta options)) - LZMA_DELTA_DIST_MIN)]))"

definition lzma_delta_props_decode :: "opts_alloc \<Rightarrow> u8 list \<Rightarrow> lzma_ret \<times> filter_options option" where
  "lzma_delta_props_decode al props =
     (if length props \<noteq> 1 then (LZMA_OPTIONS_ERROR, None)
      else if \<not> al_ok al then (LZMA_MEM_ERROR, None)
      else (LZMA_OK, Some (Opt_delta \<lparr>od_type = LZMA_DELTA_TYPE_BYTE, od_dist = ucast (props ! 0) + 1\<rparr>)))"

definition lzma_lz_decoder_memusage :: "coder_sizes \<Rightarrow> u32 \<Rightarrow> u64" where
  "lzma_lz_decoder_memusage sz dictionary_size = sz_lz_decoder sz + ucast dictionary_size"

definition lzma_lzma_decoder_memusage_nocheck :: "coder_sizes \<Rightarrow> filter_options option \<Rightarrow> u64" where
  "lzma_lzma_decoder_memusage_nocheck sz options =
     sz_lzma_decoder sz + lzma_lz_decoder_memusage sz (ol_dict_size (opt_lzma options))"

definition lzma_lzma_decoder_memusage :: "coder_sizes \<Rightarrow> filter_options option \<Rightarrow> u64" where
  "lzma_lzma_decoder_memusage sz options =
     (if \<not> is_lclppb_valid (opt_lzma options) then UINT64_MAX else lzma_lzma_decoder_memusage_nocheck sz options)"

definition lzma_lzma2_decoder_memusage :: "coder_sizes \<Rightarrow> filter_options option \<Rightarrow> u64" where
  "lzma_lzma2_decoder_memusage sz options = sz_lzma2_decoder sz + lzma_lzma_decoder_memusage_nocheck sz options"

section \<open>The filter tables\<close>

text \<open>The members of \<open>decoders[]\<close> and \<open>encoders[]\<close> that the functions below use. A \<open>NULL\<close> member is \<open>None\<close>.\<close>

record filter_decoder =
  fd_id :: lzma_vli
  fd_memusage :: "(coder_sizes \<Rightarrow> filter_options option \<Rightarrow> u64) option"
  fd_props_decode :: "opts_alloc \<Rightarrow> u8 list \<Rightarrow> lzma_ret \<times> filter_options option"

definition bcj_decoder :: "lzma_vli \<Rightarrow> filter_decoder" where
  "bcj_decoder i = \<lparr>fd_id = i, fd_memusage = None, fd_props_decode = lzma_simple_props_decode\<rparr>"

definition decoders :: "filter_decoder list" where
  "decoders =
     [\<lparr>fd_id = LZMA_FILTER_LZMA1, fd_memusage = Some lzma_lzma_decoder_memusage, fd_props_decode = lzma_lzma_props_decode\<rparr>,
      \<lparr>fd_id = LZMA_FILTER_LZMA2, fd_memusage = Some lzma_lzma2_decoder_memusage, fd_props_decode = lzma_lzma2_props_decode\<rparr>,
      bcj_decoder LZMA_FILTER_X86, bcj_decoder LZMA_FILTER_POWERPC, bcj_decoder LZMA_FILTER_IA64,
      bcj_decoder LZMA_FILTER_ARM, bcj_decoder LZMA_FILTER_ARMTHUMB, bcj_decoder LZMA_FILTER_SPARC,
      \<lparr>fd_id = LZMA_FILTER_DELTA, fd_memusage = Some lzma_delta_coder_memusage, fd_props_decode = lzma_delta_props_decode\<rparr>]"

definition decoder_find :: "lzma_vli \<Rightarrow> filter_decoder option" where
  "decoder_find i = find (\<lambda>fd. fd_id fd = i) decoders"

definition lzma_filter_decoder_is_supported :: "lzma_vli \<Rightarrow> bool" where
  "lzma_filter_decoder_is_supported i \<longleftrightarrow> decoder_find i \<noteq> None"

definition lzma_properties_decode :: "opts_alloc \<Rightarrow> lzma_filter \<Rightarrow> u8 list \<Rightarrow> lzma_ret \<times> lzma_filter" where
  "lzma_properties_decode al flt props =
     (case decoder_find (f_id flt) of
        None \<Rightarrow> (LZMA_OPTIONS_ERROR, flt\<lparr>f_options := None\<rparr>)
      | Some fd \<Rightarrow>
          (case fd_props_decode fd al props of (ret, options) \<Rightarrow> (ret, flt\<lparr>f_options := options\<rparr>)))"

text \<open>The loop of \<open>lzma_raw_coder_memusage\<close> over the chain, with the table of the decoders.\<close>

fun raw_memusage_loop :: "coder_sizes \<Rightarrow> lzma_filter list \<Rightarrow> u64 \<Rightarrow> u64" where
  "raw_memusage_loop sz [] tot = tot + push_bit 15 1"
| "raw_memusage_loop sz (f # rest) tot =
     (case decoder_find (f_id f) of
        None \<Rightarrow> UINT64_MAX
      | Some fc \<Rightarrow>
          (case fd_memusage fc of
             None \<Rightarrow> raw_memusage_loop sz rest (tot + 1024)
           | Some memusage \<Rightarrow>
               (let usage = memusage sz (f_options f)
                in if usage = UINT64_MAX then UINT64_MAX else raw_memusage_loop sz rest (tot + usage))))"

definition lzma_raw_decoder_memusage :: "coder_sizes \<Rightarrow> lzma_filter list option \<Rightarrow> u64" where
  "lzma_raw_decoder_memusage sz filters =
     (if fst (validate_chain filters) \<noteq> LZMA_OK then UINT64_MAX
      else raw_memusage_loop sz (chain_of (the filters)) 0)"

record filter_encoder =
  fe_id :: lzma_vli
  fe_props_size_get :: "(filter_options option \<Rightarrow> lzma_ret \<times> u32) option"
  fe_props_size_fixed :: u32
  fe_props_encode :: "coder_sizes \<Rightarrow> filter_options option \<Rightarrow> u8 list \<Rightarrow> nat \<Rightarrow> lzma_ret \<times> u8 list"

definition bcj_encoder :: "lzma_vli \<Rightarrow> filter_encoder" where
  "bcj_encoder i = \<lparr>fe_id = i, fe_props_size_get = Some lzma_simple_props_size, fe_props_size_fixed = 0,
     fe_props_encode = (\<lambda>sz. lzma_simple_props_encode)\<rparr>"

definition encoders :: "filter_encoder list" where
  "encoders =
     [\<lparr>fe_id = LZMA_FILTER_LZMA1, fe_props_size_get = None, fe_props_size_fixed = 5, fe_props_encode = (\<lambda>sz. lzma_lzma_props_encode)\<rparr>,
      \<lparr>fe_id = LZMA_FILTER_LZMA2, fe_props_size_get = None, fe_props_size_fixed = 1, fe_props_encode = (\<lambda>sz. lzma_lzma2_props_encode)\<rparr>,
      bcj_encoder LZMA_FILTER_X86, bcj_encoder LZMA_FILTER_POWERPC, bcj_encoder LZMA_FILTER_IA64,
      bcj_encoder LZMA_FILTER_ARM, bcj_encoder LZMA_FILTER_ARMTHUMB, bcj_encoder LZMA_FILTER_SPARC,
      \<lparr>fe_id = LZMA_FILTER_DELTA, fe_props_size_get = None, fe_props_size_fixed = 1, fe_props_encode = lzma_delta_props_encode\<rparr>]"

definition encoder_find :: "lzma_vli \<Rightarrow> filter_encoder option" where
  "encoder_find i = find (\<lambda>fe. fe_id fe = i) encoders"

definition lzma_filter_encoder_is_supported :: "lzma_vli \<Rightarrow> bool" where
  "lzma_filter_encoder_is_supported i \<longleftrightarrow> encoder_find i \<noteq> None"

definition lzma_properties_size :: "u32 \<Rightarrow> lzma_filter \<Rightarrow> lzma_ret \<times> u32" where
  "lzma_properties_size sz flt =
     (case encoder_find (f_id flt) of
        None \<Rightarrow> (if f_id flt \<le> LZMA_VLI_MAX then LZMA_OPTIONS_ERROR else LZMA_PROG_ERROR, sz)
      | Some fe \<Rightarrow>
          (case fe_props_size_get fe of
             None \<Rightarrow> (LZMA_OK, fe_props_size_fixed fe)
           | Some get \<Rightarrow> get (f_options flt)))"

definition lzma_properties_encode :: "coder_sizes \<Rightarrow> lzma_filter \<Rightarrow> u8 list \<Rightarrow> nat \<Rightarrow> lzma_ret \<times> u8 list" where
  "lzma_properties_encode sz flt out pos =
     (case encoder_find (f_id flt) of
        None \<Rightarrow> (LZMA_PROG_ERROR, out)
      | Some fe \<Rightarrow> fe_props_encode fe sz (f_options flt) out pos)"

section \<open>Filter Flags\<close>

definition lzma_filter_flags_size :: "u32 \<Rightarrow> lzma_filter \<Rightarrow> lzma_ret \<times> u32" where
  "lzma_filter_flags_size sz flt =
     (if f_id flt \<ge> LZMA_FILTER_RESERVED_START then (LZMA_PROG_ERROR, sz)
      else
        (case lzma_properties_size sz flt of
           (ret, sz) \<Rightarrow>
             if ret \<noteq> LZMA_OK then (ret, sz)
             else (LZMA_OK, sz + (lzma_vli_size (f_id flt) + lzma_vli_size (ucast sz)))))"

definition lzma_filter_flags_encode :: "coder_sizes \<Rightarrow> lzma_filter \<Rightarrow> u8 list \<Rightarrow> nat \<Rightarrow> nat \<Rightarrow> lzma_ret \<times> u8 list \<times> nat" where
  "lzma_filter_flags_encode sz flt out out_pos out_size =
     (if f_id flt \<ge> LZMA_FILTER_RESERVED_START then (LZMA_PROG_ERROR, out, out_pos)
      else
        (case lzma_vli_encode (f_id flt) None out out_pos out_size of (ret, _, out, out_pos) \<Rightarrow>
         if ret \<noteq> LZMA_OK then (ret, out, out_pos) else
        (case lzma_properties_size 0 flt of (ret, props_size) \<Rightarrow>
         if ret \<noteq> LZMA_OK then (ret, out, out_pos) else
        (case lzma_vli_encode (ucast props_size) None out out_pos out_size of (ret, _, out, out_pos) \<Rightarrow>
         if ret \<noteq> LZMA_OK then (ret, out, out_pos) else
         if out_size - out_pos < unat props_size then (LZMA_PROG_ERROR, out, out_pos) else
        (case lzma_properties_encode sz flt out out_pos of (ret, out) \<Rightarrow>
         if ret \<noteq> LZMA_OK then (ret, out, out_pos) else
         (LZMA_OK, out, out_pos + unat props_size))))))"

definition lzma_filter_flags_decode :: "opts_alloc \<Rightarrow> lzma_filter \<Rightarrow> u8 list \<Rightarrow> nat \<Rightarrow> nat \<Rightarrow> lzma_ret \<times> lzma_filter \<times> nat" where
  "lzma_filter_flags_decode al flt in_buf in_pos in_size =
     (let flt = flt\<lparr>f_options := None\<rparr> in
      case lzma_vli_decode (f_id flt) None in_buf in_pos in_size of (ret, i, _, in_pos) \<Rightarrow>
      (let flt = flt\<lparr>f_id := i\<rparr> in
       if ret \<noteq> LZMA_OK then (ret, flt, in_pos)
       else if f_id flt \<ge> LZMA_FILTER_RESERVED_START then (LZMA_DATA_ERROR, flt, in_pos)
       else
         (case lzma_vli_decode 0 None in_buf in_pos in_size of (ret, props_size, _, in_pos) \<Rightarrow>
          if ret \<noteq> LZMA_OK then (ret, flt, in_pos)
          else if in_size - in_pos < unat props_size then (LZMA_DATA_ERROR, flt, in_pos)
          else
            (case lzma_properties_decode al flt (take (unat props_size) (drop in_pos in_buf)) of
               (ret, flt) \<Rightarrow> (ret, flt, in_pos + unat props_size)))))"

section \<open>Presets\<close>

definition LZMA_PRESET_LEVEL_MASK :: u32 where "LZMA_PRESET_LEVEL_MASK = 0x1F"
definition LZMA_PRESET_EXTREME :: u32 where "LZMA_PRESET_EXTREME = push_bit 31 1"

definition dict_pow2 :: "nat list" where "dict_pow2 = [18, 20, 21, 22, 22, 23, 23, 24, 25, 26]"
definition preset_depths :: "u32 list" where "preset_depths = [4, 8, 24, 48]"

definition lzma_lzma_preset :: "lzma_options_lzma \<Rightarrow> u32 \<Rightarrow> bool \<times> lzma_options_lzma" where
  "lzma_lzma_preset options preset =
     (let level = preset AND LZMA_PRESET_LEVEL_MASK;
          flags = preset AND NOT LZMA_PRESET_LEVEL_MASK
      in if level > 9 \<or> flags AND NOT LZMA_PRESET_EXTREME \<noteq> 0 then (True, options)
         else
           (let options = options\<lparr>ol_preset_dict := None, ol_preset_dict_size := 0, ol_lc := 3, ol_lp := 0, ol_pb := 2,
                  ol_dict_size := push_bit (dict_pow2 ! unat level) 1\<rparr>;
                options =
                  (if level \<le> 3
                   then options\<lparr>ol_mode := 1, ol_mf := (if level = 0 then 0x03 else 0x04),
                          ol_nice_len := (if level \<le> 1 then 128 else 273), ol_depth := preset_depths ! unat level\<rparr>
                   else options\<lparr>ol_mode := 2, ol_mf := 0x14,
                          ol_nice_len := (if level = 4 then 16 else if level = 5 then 32 else 64), ol_depth := 0\<rparr>);
                options =
                  (if flags AND LZMA_PRESET_EXTREME \<noteq> 0
                   then (let options = options\<lparr>ol_mode := 2, ol_mf := 0x14\<rparr>
                         in if level = 3 \<or> level = 5 then options\<lparr>ol_nice_len := 192, ol_depth := 0\<rparr>
                            else options\<lparr>ol_nice_len := 273, ol_depth := 512\<rparr>)
                   else options)
            in (False, options)))"

definition lzma_easy_preset :: "lzma_options_lzma \<Rightarrow> u32 \<Rightarrow> bool \<times> lzma_filter list" where
  "lzma_easy_preset mem preset =
     (let (err, opt) = lzma_lzma_preset mem preset
      in if err then (True, [])
         else (False, [\<lparr>f_id = LZMA_FILTER_LZMA2, f_options = Some (Opt_lzma opt)\<rparr>, unknown_filter]))"

section \<open>Distance slots\<close>

lemma nth_concat_replicate:
  assumes "a \<le> t" "t < b" "r < n t"
  shows "concat (map (\<lambda>s. replicate (n s) s) [a..<b]) ! (sum_list (map n [a..<t]) + r) = t"
proof -
  have split: "[a..<b] = [a..<t] @ t # [Suc t..<b]" using assms(1,2)
    by (metis upt_conv_Cons upt_add_eq_append le_add_diff_inverse less_imp_le)
  have "length (concat (map (\<lambda>s. replicate (n s) s) [a..<t])) = sum_list (map n [a..<t])"
    by (simp add: length_concat o_def)
  then show ?thesis using assms(3) by (simp add: split nth_append)
qed

lemma slot_offset: "sum_list (map (\<lambda>s. 2 ^ (s div 2 - 1)) [2..<2 * Suc k]) = 2 ^ Suc k - (2 :: nat)"
proof (induction k)
  case (Suc k)
  have "2 * Suc (Suc k) = Suc (Suc (2 * Suc k))" by simp
  then have "[2..<2 * Suc (Suc k)] = [2..<2 * Suc k] @ [2 * Suc k, Suc (2 * Suc k)]" by (simp only:) simp
  moreover have "(2 :: nat) ^ Suc k \<ge> 2" by simp
  ultimately show ?case using Suc.IH by simp
qed simp

text \<open>The slot of a distance: twice its magnitude plus its second highest bit.\<close>

lemma fastpos_nth:
  assumes "k < 12" "r < 2 ^ k"
  shows "lzma_fastpos ! (2 * 2 ^ k + r) = 2 * Suc k" "lzma_fastpos ! (3 * 2 ^ k + r) = 2 * Suc k + 1"
proof -
  let ?n = "\<lambda>s. 2 ^ (s div 2 - 1) :: nat"
  let ?c = "concat (map (\<lambda>s. replicate (?n s) s) [2..<26])"
  have sum: "sum_list (map ?n [2..<2 * Suc k]) = 2 * 2 ^ k - 2" using slot_offset [of k] by simp
  have up: "[2..<Suc (2 * Suc k)] = [2..<2 * Suc k] @ [2 * Suc k]" by simp
  have sum1: "sum_list (map ?n [2..<Suc (2 * Suc k)]) = 3 * 2 ^ k - 2"
    unfolding up using sum one_le_power [of "2 :: nat" k] by simp
  have ge: "2 \<le> 2 * (2 :: nat) ^ k" "2 \<le> 3 * (2 :: nat) ^ k"
    using one_le_power [of "2 :: nat" k] by linarith+
  have "?c ! (2 * 2 ^ k - 2 + r) = 2 * Suc k"
    using nth_concat_replicate [of 2 "2 * Suc k" 26 r ?n] assms sum by simp
  moreover have "?c ! (3 * 2 ^ k - 2 + r) = Suc (2 * Suc k)"
    using nth_concat_replicate [of 2 "Suc (2 * Suc k)" 26 r ?n] assms sum1 by simp
  moreover have "lzma_fastpos ! (2 + m) = ?c ! m" for m by (simp add: lzma_fastpos_def)
  ultimately show "lzma_fastpos ! (2 * 2 ^ k + r) = 2 * Suc k" "lzma_fastpos ! (3 * 2 ^ k + r) = 2 * Suc k + 1"
    using ge by (metis add.assoc le_add_diff_inverse, metis add.assoc le_add_diff_inverse Suc_eq_plus1)
qed

lemma get_dist_slot_eq:
  assumes "k < 31" "r < 2 ^ k" "m = 2 \<or> m = 3"
  shows "get_dist_slot (m * 2 ^ k + r) = 2 * Suc k + (m - 2)"
proof -
  have slot: "lzma_fastpos ! (m * 2 ^ j + q) = 2 * Suc j + (m - 2)" if "j < 12" "q < 2 ^ j" for j q
    using fastpos_nth [OF that] assms(3) by auto
  have size: "2 ^ Suc k \<le> m * 2 ^ k + r" "m * 2 ^ k + r < 2 ^ (k + 2)"
    using assms(2,3) by auto
  have high: "(m * 2 ^ k + r) div 2 ^ c = m * 2 ^ (k - c) + r div 2 ^ c" "r div 2 ^ c < 2 ^ (k - c)" if "c \<le> k" for c
  proof -
    have k: "(2 :: nat) ^ k = 2 ^ (k - c) * 2 ^ c" using that by (simp flip: power_add)
    show "(m * 2 ^ k + r) div 2 ^ c = m * 2 ^ (k - c) + r div 2 ^ c"
      unfolding k by (simp add: mult.assoc [symmetric])
    show "r div 2 ^ c < 2 ^ (k - c)" using assms(2) unfolding k by (simp add: less_mult_imp_div_less)
  qed
  consider "k < 12" | "12 \<le> k" "k < 24" | "24 \<le> k" by linarith
  then show ?thesis
  proof cases
    case 1
    then have "m * 2 ^ k + r < 2 ^ 13"
      using size(2) power_increasing [of "k + 2" 13 "2 :: nat"] by linarith
    then show ?thesis using slot [OF 1 assms(2)] by (simp add: get_dist_slot_def)
  next
    case 2
    have "(2 :: nat) ^ 13 \<le> 2 ^ Suc k" using 2 by (intro power_increasing) simp_all
    moreover have "(2 :: nat) ^ (k + 2) \<le> 2 ^ (13 + 12)" using 2 by (intro power_increasing) simp_all
    ultimately have "\<not> m * 2 ^ k + r < 2 ^ 13" "m * 2 ^ k + r < 2 ^ (13 + 12)" using size by linarith+
    then show ?thesis
      using high [of 12] slot [of "k - 12" "r div 2 ^ 12"] 2 by (simp add: get_dist_slot_def)
  next
    case 3
    have "(2 :: nat) ^ 25 \<le> 2 ^ Suc k" using 3 by (intro power_increasing) simp_all
    then have "\<not> m * 2 ^ k + r < 2 ^ 25" using size by linarith
    then show ?thesis
      using high [of 24] slot [of "k - 24" "r div 2 ^ 24"] 3 assms(1) by (simp add: get_dist_slot_def)
  qed
qed

section \<open>Dictionary sizes of LZMA2\<close>

text \<open>The size a properties byte stands for.\<close>

definition lzma2_dict_size :: "u8 \<Rightarrow> u32" where
  "lzma2_dict_size b =
     (if b = 40 then 0xFFFFFFFF else push_bit (unat b div 2 + 11) (2 OR (ucast b AND 1)))"

definition lzma2_props_byte :: "u32 \<Rightarrow> u8" where
  "lzma2_props_byte dict_size =
     (if dict_round_up dict_size = 0xFFFFFFFF then 40
      else of_nat (get_dist_slot (unat (dict_round_up dict_size + 1))) - 24)"

lemma bit_dict_round_up:
  fixes ds :: u32
  defines "d \<equiv> max ds LZMA_DICT_SIZE_MIN - 1"
  assumes "i < 32"
  shows "bit (dict_round_up ds) i \<longleftrightarrow> bit d i \<or> (\<exists>c\<in>{2..31}. bit d (i + c))"
proof -
  have none: "\<not> bit d n" if "32 \<le> n" for n using that bit_imp_le_length [of d n] by auto
  have set: "{2..31 :: nat} = {2,3,4,5,6,7,8,9,10,11,12,13,14,15,16,17,18,19,20,21,22,23,24,25,26,27,28,29,30,31}"
    by (simp add: atLeastAtMost_insertL [symmetric] numeral_eq_Suc)
  show ?thesis
    unfolding set dict_round_up_def Let_def d_def [symmetric]
    using assms(2) none [of "i + 33"] none [of "i + 32"]
    by (simp add: bit_simps add_ac) blast
qed

lemma magnitude:
  "2 \<le> (n :: nat) \<Longrightarrow> \<exists>k m r. n = m * 2 ^ k + r \<and> (m = 2 \<or> m = 3) \<and> r < 2 ^ k"
proof (induction n rule: less_induct)
  case (less n)
  show ?case
  proof (cases "n < 4")
    case True
    then have "n = n * 2 ^ 0 + 0" "n = 2 \<or> n = 3" using less.prems by auto
    then show ?thesis by (metis less_numeral_extra(1) power_0)
  next
    case False
    then have "2 \<le> n div 2" "n div 2 < n" by (simp_all add: less_eq_div_iff_mult_less_eq)
    from less.IH [OF this(2,1)]
    obtain k m r where h: "n div 2 = m * 2 ^ k + r" "m = 2 \<or> m = 3" "r < 2 ^ k" by blast
    have "n = 2 * (n div 2) + n mod 2" by simp
    then have "n = m * 2 ^ Suc k + (2 * r + n mod 2)" unfolding h(1) by (simp add: algebra_simps)
    moreover have "2 * r + n mod 2 < 2 ^ Suc k"
    proof -
      have "n mod 2 \<le> 1" by simp
      then show ?thesis using h(3) unfolding power_Suc by linarith
    qed
    ultimately show ?thesis using h(2) by blast
  qed
qed

lemma bit_pow_block:
  assumes "m = 2 \<or> m = 3" "r < 2 ^ k"
  shows "bit (m * 2 ^ k + r :: nat) i \<longleftrightarrow> (if i < k then bit r i else if i = k then m = 3 else i = Suc k)"
proof -
  have "bit (m * 2 ^ k + r) i \<longleftrightarrow> odd ((m * 2 ^ k + r) div 2 ^ i)" by (simp add: bit_iff_odd)
  also have "\<dots> \<longleftrightarrow> (if i < k then bit r i else if i = k then m = 3 else i = Suc k)"
  proof (cases "i < k")
    case True
    then obtain c where k: "k = i + Suc c" by (metis less_imp_Suc_add add_Suc_right)
    have "m * 2 ^ k + r = 2 ^ i * (m * 2 ^ Suc c) + r" by (simp only: k power_add mult_ac)
    then have "(m * 2 ^ k + r) div 2 ^ i = m * 2 ^ Suc c + r div 2 ^ i"
      by (simp only: div_mult_self4 [of "2 ^ i" "m * 2 ^ Suc c" r]) simp
    then show ?thesis using True by (simp add: bit_iff_odd)
  next
    case False
    then obtain c where i: "i = k + c" by (metis le_add_diff_inverse not_less)
    have "(m * 2 ^ k + r) div 2 ^ i = m div 2 ^ c"
      using assms(2) by (simp add: i power_add div_mult2_eq)
    moreover have "odd (m div 2 ^ c) \<longleftrightarrow> (if c = 0 then m = 3 else c = 1)"
    proof -
      consider "c = 0" | "c = 1" | "2 \<le> c" by linarith
      then show ?thesis
      proof cases
        case 3
        then have "m < 2 ^ c" using assms(1) power_increasing [of 2 c "2 :: nat"] by auto
        then show ?thesis using 3 by simp
      qed (use assms(1) in auto)
    qed
    ultimately show ?thesis using i by auto
  qed
  finally show ?thesis .
qed

lemma dict_round_up_eq:
  fixes ds :: u32
  assumes "unat (max ds LZMA_DICT_SIZE_MIN) - 1 = m * 2 ^ k + r" and m: "m = 2 \<or> m = 3" and r: "r < 2 ^ k"
  shows "k < 31" "unat (dict_round_up ds) = m * 2 ^ k + (2 ^ k - 1)"
proof -
  define d where "d = max ds LZMA_DICT_SIZE_MIN - 1"
  have "4096 \<le> unat (max ds LZMA_DICT_SIZE_MIN)"
    by (simp add: max_def LZMA_DICT_SIZE_MIN_def word_le_nat_alt)
  then have "unat d = unat (max ds LZMA_DICT_SIZE_MIN) - 1"
    unfolding d_def by (subst unat_sub) (simp_all add: word_le_nat_alt)
  then have ud: "unat d = m * 2 ^ k + r" using assms(1) by simp
  have "2 ^ Suc k \<le> m * 2 ^ k + r" using m by auto
  then have "2 ^ Suc k < (2 :: nat) ^ 32" using unat_u32_less [of d] unfolding ud by simp
  then have "Suc k < 32" by (rule power_less_imp_less_exp [rotated]) simp
  then show k: "k < 31" by simp
  have bd: "bit d i \<longleftrightarrow> (if i < k then bit r i else if i = k then m = 3 else i = Suc k)" for i
    using bit_pow_block [OF m r, of i] unfolding ud [symmetric] bit_unsigned_iff
    by (simp add: bit_imp_le_length)
  define w :: u32 where "w = of_nat (m * 2 ^ k + (2 ^ k - 1))"
  have small: "m * 2 ^ k + (2 ^ k - 1) < 2 ^ 32"
  proof -
    have "m * x + (x - 1) < x * 4" if "0 < x" for x :: nat using m that by (elim disjE) simp_all
    from this [of "2 ^ k"] have "m * 2 ^ k + (2 ^ k - 1) < 2 ^ (k + 2)" by (simp add: power_add)
    also have "\<dots> \<le> 2 ^ 32" using k by (intro power_increasing) auto
    finally show ?thesis .
  qed
  then have uw: "unat w = m * 2 ^ k + (2 ^ k - 1)" by (simp add: w_def unat_of_nat take_bit_eq_mod)
  have bw: "bit w i \<longleftrightarrow> (if i < k then True else if i = k then m = 3 else i = Suc k)" for i
  proof -
    have "bit (2 ^ k - 1 :: nat) i \<longleftrightarrow> i < k"
      unfolding mask_eq_exp_minus_1 [symmetric] by (simp add: bit_mask_iff)
    then have "bit (unat w) i \<longleftrightarrow> (if i < k then True else if i = k then m = 3 else i = Suc k)"
      using bit_pow_block [OF m, of "2 ^ k - 1" k i] unfolding uw by simp
    then show ?thesis unfolding bit_unsigned_iff by (simp add: bit_imp_le_length)
  qed
  have "dict_round_up ds = w"
  proof (rule bit_word_eqI)
    fix i assume "i < LENGTH(32)"
    then have i: "i < 32" by simp
    show "bit (dict_round_up ds) i \<longleftrightarrow> bit w i"
    proof (cases "i < k")
      case True
      then have "bit d (i + (Suc k - i))" "Suc k - i \<in> {2..31}" using k by (auto simp: bd)
      then have "\<exists>c\<in>{2..31}. bit d (i + c)" by blast
      then show ?thesis unfolding bit_dict_round_up [of i ds, folded d_def, OF i] bw using True by simp
    next
      case False
      have "\<not> bit d (i + c)" if "c \<in> {2..31}" for c using that False by (simp add: bd)
      then show ?thesis unfolding bit_dict_round_up [of i ds, folded d_def, OF i] bw using False by (auto simp: bd)
    qed
  qed
  then show "unat (dict_round_up ds) = m * 2 ^ k + (2 ^ k - 1)" using uw by simp
qed

text \<open>Encoding a dictionary size and decoding the byte rounds it up to the next encodable size.\<close>

lemma unat_of_nat_u32: "n < 2 ^ 32 \<Longrightarrow> unat (of_nat n :: u32) = n"
  by (simp add: unat_of_nat take_bit_eq_mod)

lemma lzma2_dict_size_nat:
  assumes "unat b < 40"
  shows "unat (lzma2_dict_size b) = (2 + unat b mod 2) * 2 ^ (unat b div 2 + 11)"
proof -
  have b40: "b \<noteq> 40" using assms by auto
  have "unat (ucast b AND 1 :: u32) = unat b mod 2"
    using unat_and_mask [of "ucast b :: u32" 1] unat_u8_less [of b] by (simp add: unat_ucast_mod mask_eq_exp_minus_1)
  then have one: "ucast b AND 1 = (of_nat (unat b mod 2) :: u32)" by (intro unat_eqI) (simp add: unat_of_nat take_bit_eq_mod)
  have two: "(2 OR (ucast b AND 1) :: u32) = of_nat (2 + unat b mod 2)"
    unfolding one by (cases "unat b mod 2 = 0") (auto simp: not_mod_2_eq_0_eq_1)
  have small: "(2 + unat b mod 2) * 2 ^ (unat b div 2 + 11) < (2 :: nat) ^ 32"
  proof -
    have "2 + unat b mod 2 < 4" by simp
    then have "(2 + unat b mod 2) * 2 ^ (unat b div 2 + 11) < 4 * 2 ^ (unat b div 2 + 11)" by simp
    also have "\<dots> = (2 :: nat) ^ (unat b div 2 + 13)" by (simp add: power_add)
    also have "\<dots> \<le> 2 ^ 32" using assms by (intro power_increasing) auto
    finally show ?thesis .
  qed
  have "lzma2_dict_size b = of_nat ((2 + unat b mod 2) * 2 ^ (unat b div 2 + 11))"
    using b40 by (simp add: lzma2_dict_size_def two push_bit_eq_mult distrib_right)
  then show ?thesis by (simp only: unat_of_nat_u32 [OF small])
qed

lemma lzma2_round:
  assumes "unat (max ds LZMA_DICT_SIZE_MIN) - 1 = m * 2 ^ k + r" "m = 2 \<or> m = 3" "r < 2 ^ k"
  shows "lzma2_props_byte ds \<le> 40"
    and "unat (lzma2_dict_size (lzma2_props_byte ds)) = (if m = 3 \<and> k = 30 then 4294967295 else (m + 1) * 2 ^ k)"
    and "10 \<le> k"
proof -
  note k = dict_round_up_eq(1) [OF assms] and up = dict_round_up_eq(2) [OF assms]
  have ge: "4095 \<le> unat (max ds LZMA_DICT_SIZE_MIN) - 1"
  proof -
    have "4096 \<le> unat (max ds LZMA_DICT_SIZE_MIN)"
      by (simp add: max_def LZMA_DICT_SIZE_MIN_def word_le_nat_alt)
    then show ?thesis by simp
  qed
  have "m * 2 ^ k + r < 2 ^ (k + 2)" using assms(2,3) by (auto simp: power_add)
  then have "(2 :: nat) ^ 11 < 2 ^ (k + 2)" using ge unfolding assms(1) by simp
  then have "11 < k + 2" by (rule power_less_imp_less_exp [rotated]) simp
  then show k10: "10 \<le> k" by simp
  have "lzma2_props_byte ds \<le> 40 \<and>
      unat (lzma2_dict_size (lzma2_props_byte ds)) = (if m = 3 \<and> k = 30 then 4294967295 else (m + 1) * 2 ^ k)"
  proof (cases "m = 3 \<and> k = 30")
    case True
    then have "dict_round_up ds = 0xFFFFFFFF" using up by (intro unat_eqI) simp
    then show ?thesis using True by (simp add: lzma2_props_byte_def lzma2_dict_size_def)
  next
    case False
    define n where "n = (m + 1) * 2 ^ k"
    have "2 ^ k \<ge> (1 :: nat)" by simp
    then have up': "unat (dict_round_up ds) = n - 1" "0 < n" unfolding up n_def by simp_all
    have n32: "n < 2 ^ 32"
    proof -
      have "n \<le> 4 * 2 ^ k" using assms(2) by (auto simp: n_def)
      moreover have "n \<le> 3 * 2 ^ 30 \<or> 4 * 2 ^ k \<le> (2 :: nat) ^ 31"
        using False k assms(2) power_increasing [of "k + 2" 31 "2 :: nat"] power_increasing [of k 30 "2 :: nat"]
        by (auto simp: n_def power_add)
      ultimately show ?thesis by auto
    qed
    then have ne: "dict_round_up ds \<noteq> 0xFFFFFFFF" using up' by auto
    have suc: "unat (dict_round_up ds + 1) = n" using up' n32 by (simp add: unat_word_ariths)
    define b where "b = (if m = 2 then 2 * (k - 11) + 1 else 2 * (k - 10))"
    have m2: "11 \<le> k" if "m = 2"
    proof (rule ccontr)
      assume "\<not> 11 \<le> k"
      with k10 have "k = 10" by simp
      with that assms(3) have "m * 2 ^ k + r < 4095" by simp
      with ge show False unfolding assms(1) by simp
    qed
    have slot: "get_dist_slot n = b + 24"
    proof (cases "m = 2")
      case True
      then show ?thesis using get_dist_slot_eq [of k 0 3] k m2 by (simp add: n_def b_def)
    next
      case m3: False
      then have "m = 3" using assms(2) by simp
      then have "n = 2 * 2 ^ Suc k + 0" "Suc k < 31" using False k by (auto simp: n_def)
      then show ?thesis using get_dist_slot_eq [of "Suc k" 0 2] m3 k10 by (simp add: b_def)
    qed
    have b40: "b < 40" using False k assms(2) by (auto simp: b_def)
    have "(of_nat (b + 24) :: u8) - 24 = of_nat b" by simp
    then have byte: "lzma2_props_byte ds = of_nat b"
      unfolding lzma2_props_byte_def suc slot using ne by simp
    have ub: "unat (of_nat b :: u8) = b" using b40 by (simp add: unat_of_nat take_bit_eq_mod)
    have "(2 + b mod 2) * 2 ^ (b div 2 + 11) = n"
    proof (cases "m = 2")
      case True
      then have "b mod 2 = 1" "b div 2 + 11 = k" using m2 by (simp_all add: b_def)
      then show ?thesis using True by (simp add: n_def)
    next
      case m3: False
      then have "b mod 2 = 0" "b div 2 + 11 = Suc k" "m = 3" using k10 assms(2) by (simp_all add: b_def)
      then show ?thesis by (simp only: n_def power_Suc) simp
    qed
    then have "unat (lzma2_dict_size (of_nat b)) = n"
      using lzma2_dict_size_nat [of "of_nat b"] b40 ub by simp
    moreover have "(of_nat b :: u8) \<le> 40" using b40 ub by (simp add: word_le_nat_alt)
    ultimately show ?thesis using False by (auto simp: byte n_def)
  qed
  then show "lzma2_props_byte ds \<le> 40"
    and "unat (lzma2_dict_size (lzma2_props_byte ds)) = (if m = 3 \<and> k = 30 then 4294967295 else (m + 1) * 2 ^ k)"
    by simp_all
qed

lemma unat_40: "unat (40 :: u8) = 40"
  by simp

lemma lzma2_dict_size_forms:
  assumes "b \<le> 40"
  shows "lzma2_dict_size b = 0xFFFFFFFF \<or> (\<exists>m k. (m = 2 \<or> m = 3) \<and> unat (lzma2_dict_size b) = m * 2 ^ k)"
proof (cases "b = 40")
  case True then show ?thesis by (simp add: lzma2_dict_size_def)
next
  case False
  then have "unat b < 40" using assms by (metis order_neq_le_trans word_less_nat_alt unat_40)
  from lzma2_dict_size_nat [OF this] show ?thesis
    by (metis add_0_right mod2_eq_if numeral_plus_one semiring_norm(5))
qed

lemma next_form:
  assumes "m * 2 ^ k + r < m' * 2 ^ k'" "m = 2 \<or> m = 3" "m' = 2 \<or> m' = (3 :: nat)"
  shows "(m + 1) * 2 ^ k \<le> m' * 2 ^ k'"
proof (cases "k \<le> k'")
  case True
  then have p: "m' * 2 ^ k' = (m' * 2 ^ (k' - k)) * 2 ^ k" by (simp flip: power_add)
  have "m * 2 ^ k < (m' * 2 ^ (k' - k)) * 2 ^ k" using assms(1) unfolding p by linarith
  then have "m + 1 \<le> m' * 2 ^ (k' - k)" by (simp add: mult_less_cancel2)
  then show ?thesis unfolding p by (rule mult_le_mono1)
next
  case False
  then have "Suc k' \<le> k" by simp
  then have "2 * 2 ^ Suc k' \<le> 2 * (2 :: nat) ^ k" by (intro mult_le_mono2 power_increasing) simp_all
  moreover have "m' * 2 ^ k' < 2 * 2 ^ Suc k'" using assms(3) by auto
  moreover have "2 * 2 ^ k \<le> m * (2 :: nat) ^ k" using assms(2) by auto
  ultimately show ?thesis using assms(1) by linarith
qed

lemma lzma2_least:
  "max ds LZMA_DICT_SIZE_MIN \<le> lzma2_dict_size (lzma2_props_byte ds)"
  "b \<le> 40 \<Longrightarrow> max ds LZMA_DICT_SIZE_MIN \<le> lzma2_dict_size b \<Longrightarrow>
     lzma2_dict_size (lzma2_props_byte ds) \<le> lzma2_dict_size b"
proof -
  define n where "n = unat (max ds LZMA_DICT_SIZE_MIN)"
  have n: "4096 \<le> n" by (simp add: n_def max_def LZMA_DICT_SIZE_MIN_def word_le_nat_alt)
  then have "2 \<le> n - 1" by linarith
  from magnitude [OF this] obtain k m r where d: "n - 1 = m * 2 ^ k + r" "m = 2 \<or> m = 3" "r < 2 ^ k" by blast
  note round = lzma2_round(2) [OF d [unfolded n_def]]
  have lt: "n < 4294967296" using unat_u32_less by (simp add: n_def)
  show "max ds LZMA_DICT_SIZE_MIN \<le> lzma2_dict_size (lzma2_props_byte ds)"
    unfolding word_le_nat_alt round using d n lt by (auto simp: n_def [symmetric] algebra_simps)
  assume b: "b \<le> 40" "max ds LZMA_DICT_SIZE_MIN \<le> lzma2_dict_size b"
  show "lzma2_dict_size (lzma2_props_byte ds) \<le> lzma2_dict_size b"
  proof (cases "lzma2_dict_size b = 0xFFFFFFFF")
    case True
    then show ?thesis
      using unat_u32_less [of "lzma2_dict_size (lzma2_props_byte ds)"] by (simp add: word_le_nat_alt)
  next
    case False
    then obtain m' k' where f: "m' = 2 \<or> m' = 3" "unat (lzma2_dict_size b) = m' * 2 ^ k'"
      using lzma2_dict_size_forms [OF b(1)] by blast
    have "m * 2 ^ k + r < m' * 2 ^ k'"
      using b(2) n d(1) f(2) by (simp add: word_le_nat_alt n_def [symmetric])
    from next_form [OF this d(2) f(1)] have le: "(m + 1) * 2 ^ k \<le> unat (lzma2_dict_size b)" by (simp add: f(2))
    moreover have "\<not> (m = 3 \<and> k = 30)" using le unat_u32_less [of "lzma2_dict_size b"] by auto
    ultimately show ?thesis using round by (auto simp: word_le_nat_alt)
  qed
qed

section \<open>Property codecs\<close>

text \<open>
  What the Block Header code relies on for each filter: the encoder writes exactly the announced number
  of bytes, the decoder reads the same options back, and it fails in documented ways only.
  \<open>canon al opts\<close> says that the options are among those the format can express and that \<open>al\<close> provides the
  memory for them.
\<close>

locale props_codec =
  fixes psize :: "filter_options option \<Rightarrow> lzma_ret \<times> u32"
    and enc :: "coder_sizes \<Rightarrow> filter_options option \<Rightarrow> u8 list \<Rightarrow> nat \<Rightarrow> lzma_ret \<times> u8 list"
    and dec :: "opts_alloc \<Rightarrow> u8 list \<Rightarrow> lzma_ret \<times> filter_options option"
    and canon :: "coder_sizes \<Rightarrow> opts_alloc \<Rightarrow> filter_options option \<Rightarrow> bool"
    and props :: "filter_options option \<Rightarrow> u8 list"
  assumes psize_ok: "canon sz al opts \<Longrightarrow> psize opts = (LZMA_OK, of_nat (length (props opts)))"
    and props_short: "canon sz al opts \<Longrightarrow> length (props opts) \<le> 5"
    and enc_ok: "canon sz al opts \<Longrightarrow> pos + length (props opts) \<le> length out \<Longrightarrow>
        enc sz opts out pos = (LZMA_OK, buf_write pos (props opts) out)"
    and dec_ok: "canon sz al opts \<Longrightarrow> dec al (props opts) = (LZMA_OK, opts)"
    and dec_ret: "fst (dec al bs) \<in> {LZMA_OK, LZMA_OPTIONS_ERROR, LZMA_MEM_ERROR}"
begin

lemma roundtrip:
  assumes "canon sz al opts" "pos + length (props opts) \<le> length out"
  shows "\<exists>out'. enc sz opts out pos = (LZMA_OK, out')
    \<and> dec al (take (length (props opts)) (drop pos out')) = (LZMA_OK, opts)"
  using enc_ok [OF assms] assms dec_ok by (auto simp: drop_buf_write)

end

definition lzma1_canon :: "coder_sizes \<Rightarrow> opts_alloc \<Rightarrow> filter_options option \<Rightarrow> bool" where
  "lzma1_canon sz al opts \<longleftrightarrow> al_ok al \<and>
     (case opts of
        Some (Opt_lzma opt) \<Rightarrow> is_lclppb_valid opt
          \<and> opt = (al_lzma al)\<lparr>ol_dict_size := ol_dict_size opt, ol_preset_dict := None, ol_preset_dict_size := 0,
                     ol_lc := ol_lc opt, ol_lp := ol_lp opt, ol_pb := ol_pb opt\<rparr>
      | _ \<Rightarrow> False)"

definition lzma1_props :: "filter_options option \<Rightarrow> u8 list" where
  "lzma1_props opts = ucast ((ol_pb (opt_lzma opts) * 5 + ol_lp (opt_lzma opts)) * 9 + ol_lc (opt_lzma opts))
     # bytes32le (ol_dict_size (opt_lzma opts))"

definition lzma2_canon :: "coder_sizes \<Rightarrow> opts_alloc \<Rightarrow> filter_options option \<Rightarrow> bool" where
  "lzma2_canon sz al opts \<longleftrightarrow> al_ok al \<and>
     (case opts of
        Some (Opt_lzma opt) \<Rightarrow> lzma2_dict_size (lzma2_props_byte (ol_dict_size opt)) = ol_dict_size opt
          \<and> opt = (al_lzma al)\<lparr>ol_dict_size := ol_dict_size opt, ol_preset_dict := None, ol_preset_dict_size := 0\<rparr>
      | _ \<Rightarrow> False)"

definition lzma2_props :: "filter_options option \<Rightarrow> u8 list" where
  "lzma2_props opts = [lzma2_props_byte (ol_dict_size (opt_lzma opts))]"

definition bcj_canon :: "coder_sizes \<Rightarrow> opts_alloc \<Rightarrow> filter_options option \<Rightarrow> bool" where
  "bcj_canon sz al opts \<longleftrightarrow> al_ok al \<and>
     (case opts of None \<Rightarrow> True | Some (Opt_bcj start_offset) \<Rightarrow> start_offset \<noteq> 0 | _ \<Rightarrow> False)"

definition bcj_props :: "filter_options option \<Rightarrow> u8 list" where
  "bcj_props opts = (case opts of Some (Opt_bcj start_offset) \<Rightarrow> bytes32le start_offset | _ \<Rightarrow> [])"

definition delta_canon :: "coder_sizes \<Rightarrow> opts_alloc \<Rightarrow> filter_options option \<Rightarrow> bool" where
  "delta_canon sz al opts \<longleftrightarrow> al_ok al \<and> sz_delta sz \<noteq> UINT64_MAX \<and>
     (case opts of
        Some (Opt_delta opt) \<Rightarrow> od_type opt = LZMA_DELTA_TYPE_BYTE \<and> LZMA_DELTA_DIST_MIN \<le> od_dist opt
          \<and> od_dist opt \<le> LZMA_DELTA_DIST_MAX
      | _ \<Rightarrow> False)"

definition delta_props :: "filter_options option \<Rightarrow> u8 list" where
  "delta_props opts = [ucast (od_dist (the (opt_delta opts)) - LZMA_DELTA_DIST_MIN)]"

lemma lclppb_roundtrip:
  assumes "is_lclppb_valid opt"
  shows "lzma_lzma_lclppb_decode mem (ucast ((ol_pb opt * 5 + ol_lp opt) * 9 + ol_lc opt))
    = (False, mem\<lparr>ol_pb := ol_pb opt, ol_lp := ol_lp opt, ol_lc := ol_lc opt\<rparr>)"
proof -
  define pb lp lc where "pb = unat (ol_pb opt)" and "lp = unat (ol_lp opt)" and "lc = unat (ol_lc opt)"
  have le4: "pb \<le> 4" "lp \<le> 4" "lc \<le> 4"
    using assms by (simp_all add: is_lclppb_valid_def LZMA_LCLP_MAX_def LZMA_PB_MAX_def word_le_nat_alt
        pb_def lp_def lc_def)
  have words: "ol_pb opt = of_nat pb" "ol_lp opt = of_nat lp" "ol_lc opt = of_nat lc"
    by (simp_all add: pb_def lp_def lc_def)
  define b :: u8 where "b = ucast ((ol_pb opt * 5 + ol_lp opt) * 9 + ol_lc opt)"
  define N where "N = (pb * 5 + lp) * 9 + lc"
  have N: "N < 256" using le4 by (simp add: N_def)
  have "(ol_pb opt * 5 + ol_lp opt) * 9 + ol_lc opt = of_nat N" by (simp add: words N_def)
  then have "b = ucast (of_nat N :: u32)" by (simp only: b_def)
  moreover have "unat (of_nat N :: u32) = N" using N by (intro unat_of_nat_u32) simp
  ultimately have "unat b = N" using N by (simp only: unat_ucast_mod) simp
  then have ub: "unat b = (pb * 5 + lp) * 9 + lc" by (simp only: N_def)
  have le: "\<not> b > (4 * 5 + 4) * 9 + 8" using le4 by (simp add: word_less_nat_alt ub)
  have uc: "unat (ucast x :: u32) = unat x" for x :: u8
    using unat_u8_less [of x] by (simp only: unat_ucast_mod) simp
  have d1: "unat (ucast b div (9 * 5) :: u32) = pb"
  proof -
    have "unat (ucast b div (9 * 5) :: u32) = unat b div 45" by (simp add: unat_div uc)
    also have "\<dots> = pb" using le4 unfolding ub by (simp add: div_nat_eqI)
    finally show ?thesis .
  qed
  then have pb: "(ucast b div (9 * 5) :: u32) = ol_pb opt" by (intro unat_eqI) (simp add: pb_def)
  define b' :: u8 where "b' = b - ucast (ol_pb opt * 9 * 5)"
  have sub: "unat (ucast (ol_pb opt * 9 * 5) :: u8) = pb * 45"
  proof -
    have "unat (ol_pb opt * 9 * 5) = pb * 45" using le4 by (simp add: pb_def unat_word_ariths)
    then show ?thesis using le4 by (simp only: unat_ucast_mod) simp
  qed
  have "unat b' = unat b - pb * 45"
    unfolding b'_def sub [symmetric] by (rule unat_sub) (simp only: word_le_nat_alt sub ub, simp)
  then have ub': "unat b' = lp * 9 + lc" by (simp add: ub)
  have "unat (ucast b' div 9 :: u32) = lp" using le4 by (simp add: unat_div uc ub' div_nat_eqI)
  then have lp: "(ucast b' div 9 :: u32) = ol_lp opt" by (intro unat_eqI) (simp add: lp_def)
  have "(ucast b' :: u32) = of_nat (lp * 9 + lc)" using ub' by (metis of_nat_unat)
  then have lc: "ucast b' - ol_lp opt * 9 = ol_lc opt" by (simp add: words)
  show ?thesis
    unfolding lzma_lzma_lclppb_decode_def b_def [symmetric] Let_def pb b'_def [symmetric] lp lc
    using le assms by (simp add: is_lclppb_valid_def not_less)
qed

lemma unaligned_read_Cons: "unaligned_read32le (b # bytes32le n) 1 = n" "unaligned_read32le (bytes32le n) 0 = n"
  by (simp_all add: unaligned_read32le_def bytes32le_def numeral_2_eq_2 numeral_3_eq_3)

interpretation lzma1_codec: props_codec "\<lambda>opts. (LZMA_OK, 5)" "\<lambda>sz. lzma_lzma_props_encode" lzma_lzma_props_decode
  lzma1_canon lzma1_props
proof
  fix sz :: coder_sizes and al opts and out :: "u8 list" and pos
  assume "lzma1_canon sz al opts"
  then obtain opt where o: "opts = Some (Opt_lzma opt)" "al_ok al" "is_lclppb_valid opt"
      "(al_lzma al)\<lparr>ol_dict_size := ol_dict_size opt, ol_preset_dict := None, ol_preset_dict_size := 0,
          ol_lc := ol_lc opt, ol_lp := ol_lp opt, ol_pb := ol_pb opt\<rparr> = opt"
    by (auto simp: lzma1_canon_def split: option.splits filter_options.splits)
  show "length (lzma1_props opts) \<le> 5" "(LZMA_OK, 5) = (LZMA_OK, of_nat (length (lzma1_props opts)))"
    by (simp_all add: lzma1_props_def)
  show "lzma_lzma_props_decode al (lzma1_props opts) = (LZMA_OK, opts)"
  proof -
    obtain d p q lc lp pb mo ni mf de where opt: "opt = \<lparr>ol_dict_size = d, ol_preset_dict = p, ol_preset_dict_size = q,
        ol_lc = lc, ol_lp = lp, ol_pb = pb, ol_mode = mo, ol_nice_len = ni, ol_mf = mf, ol_depth = de\<rparr>"
      by (cases opt)
    show ?thesis
      using o(2,4) lclppb_roundtrip [OF o(3), of "al_lzma al"] unaligned_read_Cons
      by (cases "al_lzma al") (simp add: lzma_lzma_props_decode_def lzma1_props_def o(1) opt)
  qed
  show "lzma_lzma_props_encode opts out pos = (LZMA_OK, buf_write pos (lzma1_props opts) out)"
    if "pos + length (lzma1_props opts) \<le> length out"
    using that o(3) by (simp add: lzma_lzma_props_encode_def lzma_lzma_lclppb_encode_def lzma1_props_def o(1)
        unaligned_write32le_def buf_simps)
next
  show "fst (lzma_lzma_props_decode al bs) \<in> {LZMA_OK, LZMA_OPTIONS_ERROR, LZMA_MEM_ERROR}" for al bs
    by (simp add: lzma_lzma_props_decode_def split_beta)
qed

lemma lzma2_byte_le: "lzma2_props_byte ds \<le> 40"
proof -
  have "4096 \<le> unat (max ds LZMA_DICT_SIZE_MIN)"
    by (simp add: max_def LZMA_DICT_SIZE_MIN_def word_le_nat_alt)
  then have "2 \<le> unat (max ds LZMA_DICT_SIZE_MIN) - 1" by linarith
  from magnitude [OF this] show ?thesis using lzma2_round(1) by blast
qed

lemma u8_le40: "(b :: u8) \<le> 40 \<Longrightarrow> b AND 0xC0 = 0"
proof -
  assume "b \<le> 40"
  then have "unat b < 64" by (simp add: word_le_nat_alt)
  then have "take_bit 6 b = b" by (intro unat_eqI) (simp add: unat_take_bit_mod)
  then have "b = b AND mask 6" by (simp add: take_bit_eq_mask)
  then have "b AND 0xC0 = b AND (mask 6 AND 0xC0)" by (metis and.assoc)
  then show ?thesis by (simp add: mask_eq_exp_minus_1)
qed

lemma lzma2_props_decode_byte:
  "lzma_lzma2_props_decode al [b] =
     (if b AND 0xC0 \<noteq> 0 \<or> b > 40 then (LZMA_OPTIONS_ERROR, None)
      else if \<not> al_ok al then (LZMA_MEM_ERROR, None)
      else (LZMA_OK, Some (Opt_lzma ((al_lzma al)\<lparr>ol_dict_size := lzma2_dict_size b, ol_preset_dict := None,
               ol_preset_dict_size := 0\<rparr>))))"
  by (simp add: lzma_lzma2_props_decode_def lzma2_dict_size_def)

interpretation lzma2_codec: props_codec "\<lambda>opts. (LZMA_OK, 1)" "\<lambda>sz. lzma_lzma2_props_encode" lzma_lzma2_props_decode
  lzma2_canon lzma2_props
proof
  fix sz :: coder_sizes and al opts and out :: "u8 list" and pos
  assume "lzma2_canon sz al opts"
  then obtain opt where o: "opts = Some (Opt_lzma opt)" "al_ok al"
      "lzma2_dict_size (lzma2_props_byte (ol_dict_size opt)) = ol_dict_size opt"
      "(al_lzma al)\<lparr>ol_dict_size := ol_dict_size opt, ol_preset_dict := None, ol_preset_dict_size := 0\<rparr> = opt"
    by (auto simp: lzma2_canon_def split: option.splits filter_options.splits)
  show "length (lzma2_props opts) \<le> 5" "(LZMA_OK, 1) = (LZMA_OK, of_nat (length (lzma2_props opts)))"
    by (simp_all add: lzma2_props_def)
  show "lzma_lzma2_props_decode al (lzma2_props opts) = (LZMA_OK, opts)"
    using o lzma2_byte_le [of "ol_dict_size opt"] u8_le40 [OF lzma2_byte_le, of "ol_dict_size opt"]
    by (simp add: lzma2_props_decode_byte lzma2_props_def not_less)
  show "lzma_lzma2_props_encode opts out pos = (LZMA_OK, buf_write pos (lzma2_props opts) out)"
    if "pos + length (lzma2_props opts) \<le> length out"
    using that by (simp add: lzma_lzma2_props_encode_def lzma2_props_def o(1) lzma2_props_byte_def buf_simps Let_def)
next
  show "fst (lzma_lzma2_props_decode al bs) \<in> {LZMA_OK, LZMA_OPTIONS_ERROR, LZMA_MEM_ERROR}" for al bs
    by (simp add: lzma_lzma2_props_decode_def Let_def)
qed

interpretation bcj_codec: props_codec lzma_simple_props_size "\<lambda>sz. lzma_simple_props_encode" lzma_simple_props_decode
  bcj_canon bcj_props
proof
  fix sz :: coder_sizes and al opts and out :: "u8 list" and pos
  assume c: "bcj_canon sz al opts"
  then consider "opts = None" | start where "opts = Some (Opt_bcj start)" "start \<noteq> 0"
    by (auto simp: bcj_canon_def split: option.splits filter_options.splits)
  note cs = this
  have al: "al_ok al" using c by (simp add: bcj_canon_def)
  show "length (bcj_props opts) \<le> 5" using cs by cases (simp_all add: bcj_props_def)
  show "lzma_simple_props_size opts = (LZMA_OK, of_nat (length (bcj_props opts)))"
    using cs by cases (simp_all add: bcj_props_def lzma_simple_props_size_def)
  show "lzma_simple_props_decode al (bcj_props opts) = (LZMA_OK, opts)"
    using cs
  proof cases
    case (2 start)
    then show ?thesis
      using al unaligned_read_Cons(2) [of start] by (simp add: bcj_props_def lzma_simple_props_decode_def Let_def)
  qed (simp add: bcj_props_def lzma_simple_props_decode_def)
  show "lzma_simple_props_encode opts out pos = (LZMA_OK, buf_write pos (bcj_props opts) out)"
    using cs by cases (simp_all add: bcj_props_def lzma_simple_props_encode_def unaligned_write32le_def)
next
  show "fst (lzma_simple_props_decode al bs) \<in> {LZMA_OK, LZMA_OPTIONS_ERROR, LZMA_MEM_ERROR}" for al bs
    by (simp add: lzma_simple_props_decode_def Let_def)
qed

interpretation delta_codec: props_codec "\<lambda>opts. (LZMA_OK, 1)" lzma_delta_props_encode lzma_delta_props_decode
  delta_canon delta_props
proof
  fix sz :: coder_sizes and al opts and out :: "u8 list" and pos
  assume "delta_canon sz al opts"
  then obtain opt where o: "opts = Some (Opt_delta opt)" "al_ok al" "sz_delta sz \<noteq> UINT64_MAX"
      "od_type opt = LZMA_DELTA_TYPE_BYTE" "LZMA_DELTA_DIST_MIN \<le> od_dist opt" "od_dist opt \<le> LZMA_DELTA_DIST_MAX"
    by (auto simp: delta_canon_def split: option.splits filter_options.splits)
  show "length (delta_props opts) \<le> 5" "(LZMA_OK, 1) = (LZMA_OK, of_nat (length (delta_props opts)))"
    by (simp_all add: delta_props_def)
  have "unat (od_dist opt - 1) = unat (od_dist opt) - 1" "unat (od_dist opt) \<le> 256" "1 \<le> unat (od_dist opt)"
    using o(5,6) by (simp_all add: unat_sub word_le_nat_alt LZMA_DELTA_DIST_MIN_def LZMA_DELTA_DIST_MAX_def)
  then have "unat (ucast (ucast (od_dist opt - 1) :: u8) :: u32) = unat (od_dist opt - 1)"
    by (simp only: unat_ucast_mod) simp
  then have "ucast (ucast (od_dist opt - LZMA_DELTA_DIST_MIN) :: u8) + 1 = od_dist opt"
    by (simp only: LZMA_DELTA_DIST_MIN_def) (metis diff_add_cancel unat_eqI)
  then show "lzma_delta_props_decode al (delta_props opts) = (LZMA_OK, opts)"
    using o by (cases opt) (simp add: lzma_delta_props_decode_def delta_props_def)
  show "lzma_delta_props_encode sz opts out pos = (LZMA_OK, buf_write pos (delta_props opts) out)"
    if "pos + length (delta_props opts) \<le> length out"
    using that o by (simp add: lzma_delta_props_encode_def lzma_delta_coder_memusage_def delta_props_def buf_simps not_less)
next
  show "fst (lzma_delta_props_decode al bs) \<in> {LZMA_OK, LZMA_OPTIONS_ERROR, LZMA_MEM_ERROR}" for al bs
    by (simp add: lzma_delta_props_decode_def)
qed

section \<open>Filter Flags round trip\<close>

definition bcj_ids :: "lzma_vli list" where
  "bcj_ids = [LZMA_FILTER_X86, LZMA_FILTER_POWERPC, LZMA_FILTER_IA64, LZMA_FILTER_ARM, LZMA_FILTER_ARMTHUMB, LZMA_FILTER_SPARC]"

definition filter_canon :: "coder_sizes \<Rightarrow> opts_alloc \<Rightarrow> lzma_filter \<Rightarrow> bool" where
  "filter_canon sz al f \<longleftrightarrow>
     (f_id f = LZMA_FILTER_LZMA2 \<and> lzma2_canon sz al (f_options f))
     \<or> (f_id f \<in> set bcj_ids \<and> bcj_canon sz al (f_options f))
     \<or> (f_id f = LZMA_FILTER_DELTA \<and> delta_canon sz al (f_options f))"

definition filter_props :: "lzma_filter \<Rightarrow> u8 list" where
  "filter_props f =
     (if f_id f = LZMA_FILTER_LZMA2 then lzma2_props (f_options f)
      else if f_id f = LZMA_FILTER_DELTA then delta_props (f_options f)
      else bcj_props (f_options f))"

text \<open>The Filter Flags field (format document, section 3.1.5).\<close>

definition filter_flags_bytes :: "lzma_filter \<Rightarrow> u8 list" where
  "filter_flags_bytes f = vli_bytes (unat (f_id f)) @ vli_bytes (length (filter_props f)) @ filter_props f"

lemma find_tables:
  "encoder_find LZMA_FILTER_LZMA2 = Some \<lparr>fe_id = LZMA_FILTER_LZMA2, fe_props_size_get = None, fe_props_size_fixed = 1,
     fe_props_encode = (\<lambda>sz. lzma_lzma2_props_encode)\<rparr>"
  "encoder_find LZMA_FILTER_DELTA = Some \<lparr>fe_id = LZMA_FILTER_DELTA, fe_props_size_get = None, fe_props_size_fixed = 1,
     fe_props_encode = lzma_delta_props_encode\<rparr>"
  "i \<in> set bcj_ids \<Longrightarrow> encoder_find i = Some (bcj_encoder i)"
  "decoder_find LZMA_FILTER_LZMA2 = Some \<lparr>fd_id = LZMA_FILTER_LZMA2, fd_memusage = Some lzma_lzma2_decoder_memusage,
     fd_props_decode = lzma_lzma2_props_decode\<rparr>"
  "decoder_find LZMA_FILTER_DELTA = Some \<lparr>fd_id = LZMA_FILTER_DELTA, fd_memusage = Some lzma_delta_coder_memusage,
     fd_props_decode = lzma_delta_props_decode\<rparr>"
  "i \<in> set bcj_ids \<Longrightarrow> decoder_find i = Some (bcj_decoder i)"
  by (auto simp: encoder_find_def encoders_def decoder_find_def decoders_def bcj_ids_def bcj_encoder_def bcj_decoder_def filter_ids)

lemma filter_canon_id:
  assumes "filter_canon sz al f"
  shows "f_id f < LZMA_FILTER_RESERVED_START" "f_id f \<le> LZMA_VLI_MAX" "unat (f_id f) < 128" "f_id f \<noteq> LZMA_VLI_UNKNOWN"
  using assms by (auto simp: filter_canon_def bcj_ids_def filter_ids LZMA_VLI_MAX_def)

lemma filter_canon_props:
  assumes "filter_canon sz al f"
  shows "lzma_properties_size n f = (LZMA_OK, of_nat (length (filter_props f)))"
    and "length (filter_props f) \<le> 5"
    and "pos + length (filter_props f) \<le> length out \<Longrightarrow>
      lzma_properties_encode sz f out pos = (LZMA_OK, buf_write pos (filter_props f) out)"
    and "lzma_properties_decode al (g\<lparr>f_id := f_id f\<rparr>) (filter_props f) = (LZMA_OK, f)"
proof -
  have bcj: "i \<noteq> LZMA_FILTER_LZMA2" "i \<noteq> LZMA_FILTER_DELTA" if "i \<in> set bcj_ids" for i
    using that by (auto simp: bcj_ids_def filter_ids)
  have ne: "LZMA_FILTER_DELTA \<noteq> LZMA_FILTER_LZMA2" by (simp add: filter_ids)
  consider (lzma2) "f_id f = LZMA_FILTER_LZMA2" "lzma2_canon sz al (f_options f)"
    | (bcj) "f_id f \<in> set bcj_ids" "bcj_canon sz al (f_options f)"
    | (delta) "f_id f = LZMA_FILTER_DELTA" "delta_canon sz al (f_options f)"
    using assms by (auto simp: filter_canon_def)
  note cs = this
  show "lzma_properties_size n f = (LZMA_OK, of_nat (length (filter_props f)))"
    using cs
    by cases (simp_all add: lzma_properties_size_def filter_props_def find_tables lzma2_props_def delta_props_def
        bcj bcj_encoder_def bcj_codec.psize_ok ne)
  show "length (filter_props f) \<le> 5"
    using cs by cases (simp_all add: filter_props_def lzma2_props_def delta_props_def bcj bcj_codec.props_short ne)
  show "lzma_properties_encode sz f out pos = (LZMA_OK, buf_write pos (filter_props f) out)"
    if "pos + length (filter_props f) \<le> length out"
    using cs that
    by cases (simp_all add: lzma_properties_encode_def filter_props_def find_tables bcj bcj_encoder_def ne
        lzma2_codec.enc_ok bcj_codec.enc_ok delta_codec.enc_ok)
  show "lzma_properties_decode al (g\<lparr>f_id := f_id f\<rparr>) (filter_props f) = (LZMA_OK, f)"
    using cs
    by cases (simp_all add: lzma_properties_decode_def filter_props_def find_tables bcj bcj_decoder_def ne
        lzma2_codec.dec_ok bcj_codec.dec_ok delta_codec.dec_ok)
qed

lemma small_vli: "n < 128 \<Longrightarrow> (of_nat n :: lzma_vli) \<le> LZMA_VLI_MAX \<and> unat (of_nat n :: lzma_vli) = n"
  by (simp add: vli_le_max_iff unat_of_nat_u64)

lemma filter_flags_sizes:
  assumes "filter_canon sz al f"
  shows "length (filter_flags_bytes f) = 2 + length (filter_props f)"
    "vli_bytes (unat (f_id f)) = [of_nat (unat (f_id f))]" "vli_bytes (length (filter_props f)) = [of_nat (length (filter_props f))]"
  using filter_canon_id(3) [OF assms] filter_canon_props(2) [OF assms]
  by (simp_all add: filter_flags_bytes_def vli_bytes_small)

lemma ucast_small: "n < 128 \<Longrightarrow> (ucast (of_nat n :: u32) :: u64) = of_nat n" "n < 128 \<Longrightarrow> unat (of_nat n :: u32) = n"
proof -
  show u: "unat (of_nat n :: u32) = n" if "n < 128" for n using that by (intro unat_of_nat_u32) simp
  show "(ucast (of_nat n :: u32) :: u64) = of_nat n" if "n < 128"
    by (metis u [OF that] of_nat_unat)
qed

lemma filter_flags_encode_ok:
  assumes canon: "filter_canon sz al f" and room: "out_pos + length (filter_flags_bytes f) \<le> out_size" "out_size \<le> length out"
  shows "lzma_filter_flags_encode sz f out out_pos out_size
    = (LZMA_OK, buf_write out_pos (filter_flags_bytes f) out, out_pos + length (filter_flags_bytes f))"
proof -
  let ?p = "filter_props f" and ?i = "vli_bytes (unat (f_id f))" and ?n = "vli_bytes (length (filter_props f))"
  note ids = filter_canon_id [OF canon] and props = filter_canon_props [OF canon] and sizes = filter_flags_sizes [OF canon]
  have p128: "length ?p < 128" using props(2) by simp
  note n = small_vli [OF p128] ucast_small [OF p128]
  have len: "length ?i = 1" "length ?n = 1" using sizes by simp_all
  have e1: "lzma_vli_encode (f_id f) None out out_pos out_size = (LZMA_OK, None, buf_write out_pos ?i out, out_pos + 1)"
    using lzma_vli_encode_single [OF ids(2) refl, of out_pos out_size out] room sizes(1) len by simp
  have e2: "lzma_vli_encode (of_nat (length ?p)) None (buf_write out_pos ?i out) (out_pos + 1) out_size
      = (LZMA_OK, None, buf_write (out_pos + 1) ?n (buf_write out_pos ?i out), out_pos + 2)"
    using lzma_vli_encode_single [of "of_nat (length ?p)" ?n "out_pos + 1" out_size "buf_write out_pos ?i out"] n room sizes(1) len
    by simp
  have w: "buf_write (out_pos + 2) ?p (buf_write (out_pos + 1) ?n (buf_write out_pos ?i out))
      = buf_write out_pos (filter_flags_bytes f) out"
    using buf_write_append [of out_pos ?i ?n out] buf_write_append [of out_pos "?i @ ?n" ?p out] room sizes(1) len
    by (simp add: filter_flags_bytes_def)
  have "\<not> f_id f \<ge> LZMA_FILTER_RESERVED_START" using ids(1) by simp
  then show ?thesis
    using e1 e2 w n props(1) [of 0] props(3) [of "out_pos + 2"] room sizes(1)
    by (simp add: lzma_filter_flags_encode_def)
qed

lemma filter_flags_decode_ok:
  assumes canon: "filter_canon sz al f" and field: "field_at in_buf in_size in_pos (filter_flags_bytes f)"
  shows "lzma_filter_flags_decode al g in_buf in_pos in_size = (LZMA_OK, f, in_pos + length (filter_flags_bytes f))"
proof -
  let ?p = "filter_props f" and ?i = "vli_bytes (unat (f_id f))" and ?n = "vli_bytes (length (filter_props f))"
  note ids = filter_canon_id [OF canon] and props = filter_canon_props [OF canon] and sizes = filter_flags_sizes [OF canon]
  have p128: "length ?p < 128" using props(2) by simp
  note n = small_vli [OF p128]
  have len: "length ?i = 1" "length ?n = 1" using sizes by simp_all
  have f: "field_at in_buf in_size in_pos ?i" "field_at in_buf in_size (in_pos + 1) ?n" "field_at in_buf in_size (in_pos + 2) ?p"
    using field len unfolding filter_flags_bytes_def field_at_append by simp_all
  have d1: "lzma_vli_decode x None in_buf in_pos in_size = (LZMA_OK, f_id f, None, in_pos + 1)" for x
    using lzma_vli_decode_single [OF ids(2) refl, of in_pos in_size in_buf x] f(1) len by (simp add: field_at_def)
  have d2: "lzma_vli_decode 0 None in_buf (in_pos + 1) in_size = (LZMA_OK, of_nat (length ?p), None, in_pos + 2)"
    using lzma_vli_decode_single [of "of_nat (length ?p)" ?n "in_pos + 1" in_size in_buf 0] f(2) len n by (simp add: field_at_def)
  have "take (length ?p) (drop (in_pos + 2) in_buf) = ?p" "\<not> in_size - (in_pos + 2) < length ?p"
    using f(3) by (auto simp: field_at_def)
  then show ?thesis
    using d1 d2 n ids(1) props(4) [of "g\<lparr>f_options := None\<rparr>"] sizes(1)
    by (simp add: lzma_filter_flags_decode_def Let_def not_le)
qed

lemma filter_flags_size_ok:
  assumes "filter_canon sz al f"
  shows "lzma_filter_flags_size n f = (LZMA_OK, of_nat (length (filter_flags_bytes f)))"
proof -
  note ids = filter_canon_id [OF assms] and props = filter_canon_props [OF assms] and sizes = filter_flags_sizes [OF assms]
  have p128: "length (filter_props f) < 128" using props(2) by simp
  have one: "lzma_vli_size v = 1" if "v \<le> LZMA_VLI_MAX" "unat v < 128" for v
    using lzma_vli_size_eq [OF that(1)] vli_bytes_small [OF that(2)] by (intro unat_eqI) simp
  have "lzma_vli_size (f_id f) = 1" using one ids(2,3) by blast
  moreover have "lzma_vli_size (of_nat (length (filter_props f))) = 1"
    using one small_vli [OF p128] p128 by simp
  moreover have "\<not> f_id f \<ge> LZMA_FILTER_RESERVED_START" using ids(1) by simp
  ultimately show ?thesis
    using props(1) ucast_small [OF p128] sizes(1) by (simp add: lzma_filter_flags_size_def)
qed

text \<open>The decoder's possible results.\<close>

lemma vli_decode_single_ret: "fst (lzma_vli_decode v None in_buf in_pos in_size) \<in> {LZMA_OK, LZMA_DATA_ERROR}"
proof -
  have "fst (vli_decode_loop True v p in_buf in_pos in_size) \<in> {LZMA_OK, LZMA_DATA_ERROR}" if "in_pos < in_size" for v p in_pos
    using that
  proof (induction "in_size - in_pos" arbitrary: v p in_pos rule: less_induct)
    case less
    show ?case using less.prems less.hyps [of "in_pos + 1"]
      by (subst vli_decode_loop.simps) (simp add: Let_def)
  qed
  then show ?thesis by (auto simp: lzma_vli_decode_def split_beta not_le)
qed

lemma properties_decode_ret: "fst (lzma_properties_decode al f props) \<in> {LZMA_OK, LZMA_OPTIONS_ERROR, LZMA_MEM_ERROR}"
proof (cases "decoder_find (f_id f)")
  case (Some fd)
  have "fd_props_decode fd \<in> {lzma_lzma_props_decode, lzma_lzma2_props_decode, lzma_simple_props_decode, lzma_delta_props_decode}"
    using Some unfolding decoder_find_def find_Some_iff
    by (auto simp: decoders_def bcj_decoder_def nth_Cons' split: if_splits)
  then show ?thesis
    using Some lzma1_codec.dec_ret [of al props] lzma2_codec.dec_ret [of al props] bcj_codec.dec_ret [of al props]
      delta_codec.dec_ret [of al props]
    by (auto simp: lzma_properties_decode_def split_beta)
qed (simp add: lzma_properties_decode_def)

lemma filter_flags_decode_ret:
  "fst (lzma_filter_flags_decode al f in_buf in_pos in_size)
     \<in> {LZMA_OK, LZMA_DATA_ERROR, LZMA_OPTIONS_ERROR, LZMA_MEM_ERROR}"
  using vli_decode_single_ret [of "f_id f" in_buf in_pos in_size]
    vli_decode_single_ret [of 0 in_buf "snd (snd (snd (lzma_vli_decode (f_id f) None in_buf in_pos in_size)))" in_size]
    properties_decode_ret
  by (auto simp: lzma_filter_flags_decode_def Let_def split_beta)

section \<open>Properties\<close>

text \<open>C24. The LZMA2 dictionary size survives the Block Header as the format intends. \<open>lzma_lzma2_props_encode\<close>
  writes one byte that \<open>lzma_lzma2_props_decode\<close> accepts; the decoded size is at least the requested one (and at
  least \<open>LZMA_DICT_SIZE_MIN\<close>), and it is the smallest size any acceptable byte stands for with that
  property. The decoder therefore always has a large enough history and never a needlessly large one.\<close>

theorem lzma2_dict_size_rounding:
  assumes "pos < length out" "al_ok al"
  shows "\<exists>out' got. lzma_lzma2_props_encode (Some (Opt_lzma opt)) out pos = (LZMA_OK, out')
    \<and> lzma_lzma2_props_decode al [out' ! pos] = (LZMA_OK, Some (Opt_lzma got))
    \<and> max (ol_dict_size opt) LZMA_DICT_SIZE_MIN \<le> ol_dict_size got
    \<and> (\<forall>b other. lzma_lzma2_props_decode al [b] = (LZMA_OK, Some (Opt_lzma other))
         \<longrightarrow> max (ol_dict_size opt) LZMA_DICT_SIZE_MIN \<le> ol_dict_size other
         \<longrightarrow> ol_dict_size got \<le> ol_dict_size other)"
proof -
  let ?b = "lzma2_props_byte (ol_dict_size opt)"
  have other: "b \<le> 40 \<and> ol_dict_size other = lzma2_dict_size b"
    if "lzma_lzma2_props_decode al [b] = (LZMA_OK, Some (Opt_lzma other))" for b other
    using that by (auto simp: lzma_lzma2_props_decode_def lzma2_dict_size_def Let_def not_less split: if_splits)
  have enc: "lzma_lzma2_props_encode (Some (Opt_lzma opt)) out pos = (LZMA_OK, out[pos := ?b])"
    by (simp add: lzma_lzma2_props_encode_def lzma2_props_byte_def Let_def)
  let ?got = "(al_lzma al)\<lparr>ol_dict_size := lzma2_dict_size ?b, ol_preset_dict := None, ol_preset_dict_size := 0\<rparr>"
  have dec: "lzma_lzma2_props_decode al [out[pos := ?b] ! pos] = (LZMA_OK, Some (Opt_lzma ?got))"
    using lzma2_byte_le [of "ol_dict_size opt"] u8_le40 [OF lzma2_byte_le [of "ol_dict_size opt"]] assms
    by (simp add: lzma2_props_decode_byte not_less)
  have least: "lzma2_dict_size ?b \<le> ol_dict_size x"
    if "lzma_lzma2_props_decode al [b] = (LZMA_OK, Some (Opt_lzma x))"
      "max (ol_dict_size opt) LZMA_DICT_SIZE_MIN \<le> ol_dict_size x" for b x
    using other [OF that(1)] lzma2_least(2) [of b "ol_dict_size opt"] that(2) by simp
  show ?thesis
    by (rule exI [of _ "out[pos := ?b]"], rule exI [of _ ?got], intro conjI allI impI)
      (use enc dec least lzma2_least(1) [of "ol_dict_size opt"] in simp_all)
qed

definition sample_lzma :: lzma_options_lzma where
  "sample_lzma = \<lparr>ol_dict_size = 5000, ol_preset_dict = None, ol_preset_dict_size = 0, ol_lc = 3, ol_lp = 0, ol_pb = 2,
     ol_mode = 1, ol_nice_len = 128, ol_mf = 3, ol_depth = 4\<rparr>"

definition sample_alloc :: opts_alloc where
  "sample_alloc = \<lparr>al_ok = True, al_lzma = sample_lzma\<rparr>"

theorem lzma2_dict_size_rounding_witness:
  "al_ok sample_alloc \<and> (\<exists>got. lzma_lzma2_props_decode sample_alloc [1] = (LZMA_OK, Some (Opt_lzma got)) \<and> 5000 \<le> ol_dict_size got)"
proof -
  have e: "lzma_lzma2_props_encode (Some (Opt_lzma sample_lzma)) [0] 0 = (LZMA_OK, [1])"
    by (simp add: lzma_lzma2_props_encode_def dict_round_up_def sample_lzma_def LZMA_DICT_SIZE_MIN_def max_def
        get_dist_slot_eq [of 11 0 3, simplified])
  have al: "al_ok sample_alloc" by (simp add: sample_alloc_def)
  from lzma2_dict_size_rounding [of 0 "[0]" sample_alloc sample_lzma, OF _ al]
  show ?thesis using e al by (auto simp: sample_lzma_def)
qed

lemma features_find_cases:
  "features_find i =
     (if i \<in> {LZMA_FILTER_LZMA1, LZMA_FILTER_LZMA2}
      then Some \<lparr>ff_id = i, ff_non_last_ok = False, ff_last_ok = True, ff_changes_size = True\<rparr>
      else if i \<in> insert LZMA_FILTER_DELTA (set bcj_ids) then Some (bcj_features i) else None)"
  by (auto simp: features_find_def features_def bcj_features_def bcj_ids_def filter_ids)

lemma bcj_not_last: "i \<in> insert LZMA_FILTER_DELTA (set bcj_ids) \<Longrightarrow> i \<notin> {LZMA_FILTER_LZMA1, LZMA_FILTER_LZMA2}"
  by (auto simp: bcj_ids_def filter_ids)

lemma validate_chain_loop_ok:
  assumes "fs \<noteq> []" "c \<le> 2"
  shows "validate_chain_loop fs c non_last_ok last_ok i = (LZMA_OK, n) \<longleftrightarrow>
     non_last_ok \<and> n = i + length fs \<and> n \<le> 4
     \<and> f_id (last fs) \<in> {LZMA_FILTER_LZMA1, LZMA_FILTER_LZMA2}
     \<and> list_all (\<lambda>f. f_id f \<in> insert LZMA_FILTER_DELTA (set bcj_ids)) (butlast fs)"
  using assms
proof (induction fs arbitrary: c non_last_ok last_ok i)
  case (Cons f rest)
  consider (last) "f_id f \<in> {LZMA_FILTER_LZMA1, LZMA_FILTER_LZMA2}"
    | (mid) "f_id f \<in> insert LZMA_FILTER_DELTA (set bcj_ids)" "f_id f \<notin> {LZMA_FILTER_LZMA1, LZMA_FILTER_LZMA2}"
    | (none) "features_find (f_id f) = None" "f_id f \<notin> insert LZMA_FILTER_DELTA (set bcj_ids)"
        "f_id f \<notin> {LZMA_FILTER_LZMA1, LZMA_FILTER_LZMA2}"
    using features_find_cases [of "f_id f"] bcj_not_last [of "f_id f"] by (auto split: if_splits)
  then show ?case
  proof cases
    case last
    have nb: "f_id f \<notin> insert LZMA_FILTER_DELTA (set bcj_ids)" using last bcj_not_last by blast
    show ?thesis
    proof (cases rest)
      case Nil
      then show ?thesis using last Cons.prems(2) by (auto simp: features_find_cases LZMA_FILTERS_MAX_def)
    next
      case (Cons g rest')
      have "validate_chain_loop (g # rest') k False b j \<noteq> (LZMA_OK, n)" for k b j by (simp split: option.splits)
      then show ?thesis using last nb by (simp add: features_find_cases Cons)
    qed
  next
    case mid
    show ?thesis
    proof (cases "rest = []")
      case True
      then show ?thesis using mid by (simp add: features_find_cases bcj_features_def)
    next
      case False
      show ?thesis
        using mid Cons.IH [OF False Cons.prems(2), of True False "i + 1"] False
        by (auto simp: features_find_cases bcj_features_def)
    qed
  next
    case none
    then show ?thesis by simp
  qed
qed simp

text \<open>C25. \<open>validate_chain\<close> accepts exactly the chains the format allows: one to four filters, the last one
  LZMA1 or LZMA2, every earlier one Delta or a branch converter; and then the count it reports is the
  number of filters.\<close>

theorem validate_chain_iff:
  "validate_chain (Some filters) = (LZMA_OK, n) \<longleftrightarrow>
     n = length (chain_of filters) \<and> 1 \<le> n \<and> n \<le> 4
     \<and> f_id (last (chain_of filters)) \<in> {LZMA_FILTER_LZMA1, LZMA_FILTER_LZMA2}
     \<and> list_all (\<lambda>f. f_id f \<in> insert LZMA_FILTER_DELTA (set bcj_ids)) (butlast (chain_of filters))"
proof (cases "chain_of filters = []")
  case False
  then show ?thesis using validate_chain_loop_ok [OF False, of 0 True False 0 n] by (auto simp: validate_chain_def Suc_le_eq)
qed (auto simp: validate_chain_def)

end
