(* ===== verification/Block_Header.thy ===== *)
theory Block_Header
  imports Filters
begin

unbundle bit_operations_syntax

text \<open>
  Block Headers: the size computations of \<open>common/block_util.c\<close>, the encoder of
  \<open>common/block_header_encoder.c\<close> and the decoder of \<open>common/block_header_decoder.c\<close>.

  The members of \<open>lzma_block\<close> that these functions use are fields of the record. \<open>bl_filters\<close> is the
  pointer to the filter array, whose content is a list; \<open>lzma_block_header_decode\<close> writes five entries, so its
  caller provides an array of at least that many. The argument \<open>al\<close> of the decoder gives what the allocation
  for each filter yields.
\<close>

section \<open>Blocks and their sizes\<close>

record lzma_block =
  bl_version :: u32
  bl_header_size :: u32
  bl_check :: u32
  bl_compressed_size :: lzma_vli
  bl_uncompressed_size :: lzma_vli
  bl_filters :: "lzma_filter list option"
  bl_raw_check :: "u8 list"
  bl_ignore_check :: bool

definition LZMA_BLOCK_HEADER_SIZE_MIN :: u32 where "LZMA_BLOCK_HEADER_SIZE_MIN = 8"
definition LZMA_BLOCK_HEADER_SIZE_MAX :: u32 where "LZMA_BLOCK_HEADER_SIZE_MAX = 1024"

definition lzma_block_header_size_decode :: "u8 \<Rightarrow> u32" where
  "lzma_block_header_size_decode b = (ucast b + 1) * 4"

definition lzma_block_unpadded_size :: "lzma_block option \<Rightarrow> lzma_vli" where
  "lzma_block_unpadded_size b =
     (case b of
        None \<Rightarrow> 0
      | Some block \<Rightarrow>
          if bl_version block > 1
             \<or> bl_header_size block < LZMA_BLOCK_HEADER_SIZE_MIN
             \<or> bl_header_size block > LZMA_BLOCK_HEADER_SIZE_MAX
             \<or> bl_header_size block AND 3 \<noteq> 0
             \<or> \<not> lzma_vli_is_valid (bl_compressed_size block)
             \<or> bl_compressed_size block = 0
             \<or> bl_check block > LZMA_CHECK_ID_MAX then 0
          else if bl_compressed_size block = LZMA_VLI_UNKNOWN then LZMA_VLI_UNKNOWN
          else
            (let unpadded_size = bl_compressed_size block + ucast (bl_header_size block)
                   + ucast (lzma_check_size (bl_check block))
             in if unpadded_size > UNPADDED_SIZE_MAX then 0 else unpadded_size))"

definition lzma_block_compressed_size :: "lzma_block \<Rightarrow> lzma_vli \<Rightarrow> lzma_ret \<times> lzma_block" where
  "lzma_block_compressed_size block unpadded_size =
     (if lzma_block_unpadded_size (Some block) = 0 then (LZMA_PROG_ERROR, block)
      else
        (let container_size = bl_header_size block + lzma_check_size (bl_check block)
         in if unpadded_size \<le> ucast container_size then (LZMA_DATA_ERROR, block)
            else
              (let compressed_size = unpadded_size - ucast container_size
               in if bl_compressed_size block \<noteq> LZMA_VLI_UNKNOWN \<and> bl_compressed_size block \<noteq> compressed_size
                  then (LZMA_DATA_ERROR, block)
                  else (LZMA_OK, block\<lparr>bl_compressed_size := compressed_size\<rparr>))))"

definition lzma_block_total_size :: "lzma_block option \<Rightarrow> lzma_vli" where
  "lzma_block_total_size block =
     (let unpadded_size = lzma_block_unpadded_size block
      in if unpadded_size \<noteq> LZMA_VLI_UNKNOWN then vli_ceil4 unpadded_size else unpadded_size)"

section \<open>Encoding\<close>

text \<open>The loop of \<open>lzma_block_header_size\<close> over the filters before the terminator.\<close>

fun header_size_loop :: "lzma_filter list \<Rightarrow> nat \<Rightarrow> u32 \<Rightarrow> lzma_ret \<times> u32" where
  "header_size_loop [] i sz = (LZMA_OK, sz)"
| "header_size_loop (f # rest) i sz =
     (if i = LZMA_FILTERS_MAX then (LZMA_PROG_ERROR, sz)
      else
        (case lzma_filter_flags_size 0 f of
           (ret, add_size) \<Rightarrow>
             if ret \<noteq> LZMA_OK then (ret, sz) else header_size_loop rest (i + 1) (sz + add_size)))"

text \<open>What a size field adds; \<open>None\<close> is the error return.\<close>

definition size_field :: "lzma_vli \<Rightarrow> bool \<Rightarrow> u32 option" where
  "size_field v zero_ok =
     (if v = LZMA_VLI_UNKNOWN then Some 0
      else if lzma_vli_size v = 0 \<or> (\<not> zero_ok \<and> v = 0) then None
      else Some (lzma_vli_size v))"

definition lzma_block_header_size :: "lzma_block \<Rightarrow> lzma_ret \<times> lzma_block" where
  "lzma_block_header_size block =
     (if bl_version block > 1 then (LZMA_OPTIONS_ERROR, block)
      else
        (case size_field (bl_compressed_size block) False of
           None \<Rightarrow> (LZMA_PROG_ERROR, block)
         | Some add_c \<Rightarrow>
        (case size_field (bl_uncompressed_size block) True of
           None \<Rightarrow> (LZMA_PROG_ERROR, block)
         | Some add_u \<Rightarrow>
             (if bl_filters block = None \<or> chain_of (the (bl_filters block)) = [] then (LZMA_PROG_ERROR, block)
              else
                (case header_size_loop (chain_of (the (bl_filters block))) 0 (1 + 1 + 4 + add_c + add_u) of
                   (ret, sz) \<Rightarrow>
                     if ret \<noteq> LZMA_OK then (ret, block)
                     else (LZMA_OK, block\<lparr>bl_header_size := (sz + 3) AND NOT 3\<rparr>))))))"

text \<open>One optional size field of the header: the encoded integer and its flag bit in \<open>out[1]\<close>.\<close>

definition encode_size_field :: "lzma_vli \<Rightarrow> u8 \<Rightarrow> u8 list \<Rightarrow> nat \<Rightarrow> nat \<Rightarrow> lzma_ret \<times> u8 list \<times> nat" where
  "encode_size_field v flag out out_pos out_size =
     (if v = LZMA_VLI_UNKNOWN then (LZMA_OK, out, out_pos)
      else
        (case lzma_vli_encode v None out out_pos out_size of (ret, _, out, out_pos) \<Rightarrow>
           if ret \<noteq> LZMA_OK then (ret, out, out_pos)
           else (LZMA_OK, out[1 := out ! 1 OR flag], out_pos)))"

text \<open>The do-while loop over the filters; the last component is \<open>filter_count\<close>.\<close>

fun encode_filters_loop :: "coder_sizes \<Rightarrow> lzma_filter list \<Rightarrow> nat \<Rightarrow> u8 list \<Rightarrow> nat \<Rightarrow> nat \<Rightarrow> lzma_ret \<times> u8 list \<times> nat \<times> nat" where
  "encode_filters_loop csz [] filter_count out out_pos out_size = (LZMA_OK, out, out_pos, filter_count)"
| "encode_filters_loop csz (f # rest) filter_count out out_pos out_size =
     (if filter_count = LZMA_FILTERS_MAX then (LZMA_PROG_ERROR, out, out_pos, filter_count)
      else
        (case lzma_filter_flags_encode csz f out out_pos out_size of (ret, out, out_pos) \<Rightarrow>
           if ret \<noteq> LZMA_OK then (ret, out, out_pos, filter_count)
           else encode_filters_loop csz rest (filter_count + 1) out out_pos out_size))"

definition lzma_block_header_encode :: "coder_sizes \<Rightarrow> lzma_block \<Rightarrow> u8 list \<Rightarrow> lzma_ret \<times> u8 list" where
  "lzma_block_header_encode csz block out =
     (if lzma_block_unpadded_size (Some block) = 0 \<or> \<not> lzma_vli_is_valid (bl_uncompressed_size block)
      then (LZMA_PROG_ERROR, out)
      else
        (let out_size = unat (bl_header_size block) - 4;
             out = out[0 := of_nat (out_size div 4)];
             out = out[1 := 0x00]
         in
         case encode_size_field (bl_compressed_size block) 0x40 out 2 out_size of (ret, out, out_pos) \<Rightarrow>
         if ret \<noteq> LZMA_OK then (ret, out) else
         case encode_size_field (bl_uncompressed_size block) 0x80 out out_pos out_size of (ret, out, out_pos) \<Rightarrow>
         if ret \<noteq> LZMA_OK then (ret, out) else
         if bl_filters block = None \<or> chain_of (the (bl_filters block)) = [] then (LZMA_PROG_ERROR, out) else
         case encode_filters_loop csz (chain_of (the (bl_filters block))) 0 out out_pos out_size of
           (ret, out, out_pos, filter_count) \<Rightarrow>
         if ret \<noteq> LZMA_OK then (ret, out) else
         (let out = out[1 := out ! 1 OR of_nat (filter_count - 1)];
              out = buf_write out_pos (replicate (out_size - out_pos) 0) out;
              out = unaligned_write32le out out_size (lzma_crc32 (take out_size out) 0)
          in (LZMA_OK, out))))"

section \<open>Decoding\<close>

text \<open>\<open>free_properties\<close> clears the first four entries.\<close>

definition free_properties :: "lzma_block \<Rightarrow> lzma_block" where
  "free_properties block =
     block\<lparr>bl_filters := map_option (\<lambda>fs. replicate LZMA_FILTERS_MAX unknown_filter @ drop LZMA_FILTERS_MAX fs) (bl_filters block)\<rparr>"

text \<open>The loop over \<open>filter_count\<close> filters, from index \<open>i\<close> with \<open>n\<close> to go.\<close>

fun decode_filters_loop ::
  "(nat \<Rightarrow> opts_alloc) \<Rightarrow> nat \<Rightarrow> nat \<Rightarrow> lzma_filter list \<Rightarrow> u8 list \<Rightarrow> nat \<Rightarrow> nat \<Rightarrow> lzma_ret \<times> lzma_filter list \<times> nat"
where
  "decode_filters_loop al 0 i fs in_buf in_pos in_size = (LZMA_OK, fs, in_pos)"
| "decode_filters_loop al (Suc n) i fs in_buf in_pos in_size =
     (case lzma_filter_flags_decode (al i) (fs ! i) in_buf in_pos in_size of (ret, f, in_pos) \<Rightarrow>
        if ret \<noteq> LZMA_OK then (ret, fs[i := f], in_pos)
        else decode_filters_loop al n (i + 1) (fs[i := f]) in_buf in_pos in_size)"

text \<open>The part before the header is looked at.\<close>

definition header_decode_init :: "lzma_block \<Rightarrow> lzma_block" where
  "header_decode_init block =
     (let block = block\<lparr>bl_filters := map_option
                (\<lambda>fs. replicate (LZMA_FILTERS_MAX + 1) unknown_filter @ drop (LZMA_FILTERS_MAX + 1) fs) (bl_filters block)\<rparr>;
          block = (if bl_version block > 1 then block\<lparr>bl_version := 1\<rparr> else block)
      in block\<lparr>bl_ignore_check := False\<rparr>)"

definition lzma_block_header_decode :: "(nat \<Rightarrow> opts_alloc) \<Rightarrow> lzma_block \<Rightarrow> u8 list \<Rightarrow> lzma_ret \<times> lzma_block" where
  "lzma_block_header_decode al block in_buf =
     (let block = header_decode_init block
      in
      if lzma_block_header_size_decode (in_buf ! 0) \<noteq> bl_header_size block \<or> bl_check block > LZMA_CHECK_ID_MAX
      then (LZMA_PROG_ERROR, block) else
      (let in_size = unat (bl_header_size block) - 4
       in
       if lzma_crc32 (take in_size in_buf) 0 \<noteq> unaligned_read32le in_buf in_size then (LZMA_DATA_ERROR, block) else
       if in_buf ! 1 AND 0x3C \<noteq> 0 then (LZMA_OPTIONS_ERROR, block) else
       case (if in_buf ! 1 AND 0x40 \<noteq> 0
             then (case lzma_vli_decode (bl_compressed_size block) None in_buf 2 in_size of (ret, v, _, in_pos) \<Rightarrow>
                     (let block = block\<lparr>bl_compressed_size := v\<rparr>
                      in if ret \<noteq> LZMA_OK then (ret, block, in_pos)
                         else if lzma_block_unpadded_size (Some block) = 0 then (LZMA_DATA_ERROR, block, in_pos)
                         else (LZMA_OK, block, in_pos)))
             else (LZMA_OK, block\<lparr>bl_compressed_size := LZMA_VLI_UNKNOWN\<rparr>, 2)) of (ret, block, in_pos) \<Rightarrow>
       if ret \<noteq> LZMA_OK then (ret, block) else
       case (if in_buf ! 1 AND 0x80 \<noteq> 0
             then (case lzma_vli_decode (bl_uncompressed_size block) None in_buf in_pos in_size of (ret, v, _, in_pos) \<Rightarrow>
                     (ret, block\<lparr>bl_uncompressed_size := v\<rparr>, in_pos))
             else (LZMA_OK, block\<lparr>bl_uncompressed_size := LZMA_VLI_UNKNOWN\<rparr>, in_pos)) of (ret, block, in_pos) \<Rightarrow>
       if ret \<noteq> LZMA_OK then (ret, block) else
       case decode_filters_loop al (unat (in_buf ! 1 AND 3) + 1) 0 (the (bl_filters block)) in_buf in_pos in_size of
         (ret, fs, in_pos) \<Rightarrow>
       (let block = block\<lparr>bl_filters := Some fs\<rparr>
        in if ret \<noteq> LZMA_OK then (ret, free_properties block)
           else if \<exists>b\<in>set (drop in_pos (take in_size in_buf)). b \<noteq> 0 then (LZMA_OPTIONS_ERROR, free_properties block)
           else (LZMA_OK, block))))"

section \<open>The header as bytes\<close>

definition size_bytes :: "lzma_vli \<Rightarrow> u8 list" where
  "size_bytes v = (if v = LZMA_VLI_UNKNOWN then [] else vli_bytes (unat v))"

definition filters_bytes :: "lzma_filter list \<Rightarrow> u8 list" where
  "filters_bytes fs = concat (map filter_flags_bytes fs)"

definition block_fields :: "lzma_vli \<Rightarrow> lzma_vli \<Rightarrow> lzma_filter list \<Rightarrow> u8 list" where
  "block_fields c u fs = size_bytes c @ size_bytes u @ filters_bytes fs"

definition block_flags :: "lzma_vli \<Rightarrow> lzma_vli \<Rightarrow> nat \<Rightarrow> u8" where
  "block_flags c u n =
     (if c = LZMA_VLI_UNKNOWN then 0 else 0x40) OR (if u = LZMA_VLI_UNKNOWN then 0 else 0x80) OR of_nat (n - 1)"

text \<open>The header of \<open>h\<close> bytes without and with its CRC32 (format document, section 3.1).\<close>

definition block_header_body :: "nat \<Rightarrow> lzma_vli \<Rightarrow> lzma_vli \<Rightarrow> lzma_filter list \<Rightarrow> u8 list" where
  "block_header_body h c u fs =
     of_nat (h div 4 - 1) # block_flags c u (length fs) # block_fields c u fs
       @ replicate (h - 6 - length (block_fields c u fs)) 0"

definition block_header_bytes :: "nat \<Rightarrow> lzma_vli \<Rightarrow> lzma_vli \<Rightarrow> lzma_filter list \<Rightarrow> u8 list" where
  "block_header_bytes h c u fs =
     block_header_body h c u fs @ bytes32le (lzma_crc32 (block_header_body h c u fs) 0)"

lemma valid_vli_cases: "lzma_vli_is_valid v \<Longrightarrow> v = LZMA_VLI_UNKNOWN \<or> v \<le> LZMA_VLI_MAX"
  by (auto simp: lzma_vli_is_valid_def)

lemma vli_max_known: "v \<le> LZMA_VLI_MAX \<Longrightarrow> v \<noteq> LZMA_VLI_UNKNOWN"
  by (auto simp: LZMA_VLI_MAX_def LZMA_VLI_UNKNOWN_def)

lemma buf_write_split:
  "length bs \<le> length rest \<Longrightarrow> pos = length ws \<Longrightarrow> buf_write pos bs (ws @ rest) = ws @ bs @ drop (length bs) rest"
  by (simp add: buf_write_in)

lemma buf_write_split2:
  "length bs \<le> length rest \<Longrightarrow> pos = 2 + length ws \<Longrightarrow>
     buf_write pos bs (a # b # ws @ rest) = a # b # (ws @ bs) @ drop (length bs) rest"
  using buf_write_split [of bs rest pos "a # b # ws"] by simp

subsection \<open>Encoding\<close>

lemma encode_size_field_ok:
  assumes "lzma_vli_is_valid v" "2 + length ws + length (size_bytes v) \<le> n" "n \<le> 2 + length ws + length rest"
  shows "encode_size_field v flag (a # b # ws @ rest) (2 + length ws) n
    = (LZMA_OK, a # (if v = LZMA_VLI_UNKNOWN then b else b OR flag) # (ws @ size_bytes v) @ drop (length (size_bytes v)) rest,
       2 + length (ws @ size_bytes v))"
proof (cases "v = LZMA_VLI_UNKNOWN")
  case False
  then have v: "v \<le> LZMA_VLI_MAX" "size_bytes v = vli_bytes (unat v)"
    using valid_vli_cases [OF assms(1)] by (auto simp: size_bytes_def)
  then have "lzma_vli_encode v None (a # b # ws @ rest) (2 + length ws) n
      = (LZMA_OK, None, buf_write (2 + length ws) (size_bytes v) (a # b # ws @ rest), 2 + length ws + length (size_bytes v))"
    using assms(2,3) by (intro lzma_vli_encode_single) auto
  then show ?thesis
    using False assms(2,3) buf_write_split2 [of "size_bytes v" rest "2 + length ws" ws a b] by (simp add: encode_size_field_def)
qed (simp add: encode_size_field_def size_bytes_def)

lemma encode_filters_loop_ok:
  assumes "\<forall>f\<in>set fs. \<exists>al. filter_canon csz al f" "cnt + length fs \<le> 4"
    and "2 + length ws + length (filters_bytes fs) \<le> n" "n \<le> 2 + length ws + length rest"
  shows "encode_filters_loop csz fs cnt (a # b # ws @ rest) (2 + length ws) n
    = (LZMA_OK, a # b # (ws @ filters_bytes fs) @ drop (length (filters_bytes fs)) rest,
       2 + length (ws @ filters_bytes fs), cnt + length fs)"
  using assms
proof (induction fs arbitrary: cnt ws rest)
  case (Cons f fs)
  let ?b = "filter_flags_bytes f"
  obtain al where canon: "filter_canon csz al f" using Cons.prems(1) by auto
  have len: "length (filters_bytes (f # fs)) = length ?b + length (filters_bytes fs)"
    and fb: "filters_bytes (f # fs) = ?b @ filters_bytes fs" by (simp_all add: filters_bytes_def)
  have "lzma_filter_flags_encode csz f (a # b # ws @ rest) (2 + length ws) n
      = (LZMA_OK, buf_write (2 + length ws) ?b (a # b # ws @ rest), 2 + length ws + length ?b)"
    using Cons.prems(3,4) len by (intro filter_flags_encode_ok [OF canon]) auto
  also have "\<dots> = (LZMA_OK, a # b # (ws @ ?b) @ drop (length ?b) rest, 2 + length (ws @ ?b))"
    using Cons.prems(3,4) len buf_write_split2 [of ?b rest "2 + length ws" ws a b] by simp
  finally have e: "lzma_filter_flags_encode csz f (a # b # ws @ rest) (2 + length ws) n = \<dots>" .
  have "encode_filters_loop csz fs (cnt + 1) (a # b # (ws @ ?b) @ drop (length ?b) rest) (2 + length (ws @ ?b)) n
      = (LZMA_OK, a # b # ((ws @ ?b) @ filters_bytes fs) @ drop (length (filters_bytes fs)) (drop (length ?b) rest),
         2 + length ((ws @ ?b) @ filters_bytes fs), cnt + 1 + length fs)"
    using Cons.prems len by (intro Cons.IH) auto
  then show ?case
    using e Cons.prems(2) by (simp add: fb LZMA_FILTERS_MAX_def add.commute [of "length ?b"])
qed (simp add: filters_bytes_def)

text \<open>A block whose header can be written: valid sizes, one to four filters the format can express, and
  room for the fields in the announced header size.\<close>

definition block_canon :: "coder_sizes \<Rightarrow> (nat \<Rightarrow> opts_alloc) \<Rightarrow> lzma_block \<Rightarrow> bool" where
  "block_canon csz al block \<longleftrightarrow>
     lzma_block_unpadded_size (Some block) \<noteq> 0 \<and> lzma_vli_is_valid (bl_uncompressed_size block)
     \<and> bl_filters block \<noteq> None
     \<and> (let fs = chain_of (the (bl_filters block)) in
          1 \<le> length fs \<and> length fs \<le> 4 \<and> (\<forall>i<length fs. filter_canon csz (al i) (fs ! i))
          \<and> 6 + length (block_fields (bl_compressed_size block) (bl_uncompressed_size block) fs) \<le> unat (bl_header_size block))"

lemma unpadded_sizeD:
  assumes "lzma_block_unpadded_size (Some block) \<noteq> 0"
  shows "bl_version block \<le> 1" "8 \<le> unat (bl_header_size block)" "unat (bl_header_size block) \<le> 1024"
    "unat (bl_header_size block) mod 4 = 0" "lzma_vli_is_valid (bl_compressed_size block)" "bl_compressed_size block \<noteq> 0"
    "bl_check block \<le> LZMA_CHECK_ID_MAX"
proof -
  note a = assms [unfolded lzma_block_unpadded_size_def, simplified]
  show "bl_version block \<le> 1" "lzma_vli_is_valid (bl_compressed_size block)" "bl_compressed_size block \<noteq> 0"
    "bl_check block \<le> LZMA_CHECK_ID_MAX" using a by (auto split: if_splits)
  have "8 \<le> bl_header_size block" "bl_header_size block \<le> 1024" "bl_header_size block AND 3 = 0"
    using a by (auto simp: LZMA_BLOCK_HEADER_SIZE_MIN_def LZMA_BLOCK_HEADER_SIZE_MAX_def split: if_splits)
  then show "8 \<le> unat (bl_header_size block)" "unat (bl_header_size block) \<le> 1024" "unat (bl_header_size block) mod 4 = 0"
    using unat_and_mask [of "bl_header_size block" 2] by (simp_all add: word_le_nat_alt mask_eq_exp_minus_1)
qed

lemma block_header_body_length:
  assumes "6 + length (block_fields c u fs) \<le> h"
  shows "length (block_header_body h c u fs) = h - 4" "length (block_header_bytes h c u fs) = h"
  using assms by (simp_all add: block_header_body_def block_header_bytes_def)

lemma header_finish:
  fixes a fl :: u8
  assumes n: "n = 2 + length ws + k" and "k + 4 \<le> length rest"
  shows "unaligned_write32le (buf_write (2 + length ws) (replicate k 0) (a # fl # ws @ rest)) n
      (lzma_crc32 (take n (buf_write (2 + length ws) (replicate k 0) (a # fl # ws @ rest))) 0)
    = (a # fl # ws @ replicate k 0) @ bytes32le (lzma_crc32 (a # fl # ws @ replicate k 0) 0) @ drop (k + 4) rest"
proof -
  let ?body = "a # fl # ws @ replicate k 0"
  have "buf_write (2 + length ws) (replicate k 0) (a # fl # ws @ rest) = a # fl # (ws @ replicate k 0) @ drop (length (replicate k (0 :: u8))) rest"
    using assms(2) by (intro buf_write_split2) auto
  then have o: "buf_write (2 + length ws) (replicate k 0) (a # fl # ws @ rest) = ?body @ drop k rest" by simp
  have t: "take n (?body @ drop k rest) = ?body" by (simp add: n)
  have "buf_write n (bytes32le (lzma_crc32 ?body 0)) (?body @ drop k rest)
      = ?body @ bytes32le (lzma_crc32 ?body 0) @ drop (length (bytes32le (lzma_crc32 ?body 0))) (drop k rest)"
    using assms by (intro buf_write_split) auto
  then show ?thesis unfolding o t unaligned_write32le_def by (simp only: length_bytes32le drop_drop add.commute)
qed


lemma block_header_encode_ok:
  assumes canon: "block_canon csz al block" and room: "unat (bl_header_size block) \<le> length out"
  shows "lzma_block_header_encode csz block out
    = (LZMA_OK, buf_write 0 (block_header_bytes (unat (bl_header_size block)) (bl_compressed_size block)
        (bl_uncompressed_size block) (chain_of (the (bl_filters block)))) out)"
proof -
  define h where "h = unat (bl_header_size block)"
  define fs where "fs = chain_of (the (bl_filters block))"
  define c where "c = bl_compressed_size block"
  define u where "u = bl_uncompressed_size block"
  note d = unpadded_sizeD [of block]
  have unp: "lzma_block_unpadded_size (Some block) \<noteq> 0" and vu: "lzma_vli_is_valid u" and nn: "bl_filters block \<noteq> None"
    and fl: "1 \<le> length fs" "length fs \<le> 4" and fits: "6 + length (block_fields c u fs) \<le> h"
    using canon by (auto simp: block_canon_def fs_def h_def c_def u_def Let_def)
  have "\<forall>i<length fs. filter_canon csz (al i) (fs ! i)" using canon by (simp add: block_canon_def fs_def Let_def)
  then have canons: "\<forall>f\<in>set fs. \<exists>al. filter_canon csz al f" by (metis in_set_conv_nth)
  have h: "8 \<le> h" "h \<le> 1024" "h mod 4 = 0" using d [OF unp] by (simp_all add: h_def)
  have vc: "lzma_vli_is_valid c" using d(5) [OF unp] by (simp add: c_def)
  define ws where "ws = block_fields c u fs"
  have ws: "ws = (size_bytes c @ size_bytes u) @ filters_bytes fs" by (simp add: ws_def block_fields_def)
  have lens: "length ws = length (size_bytes c) + length (size_bytes u) + length (filters_bytes fs)" by (simp add: ws)
  obtain o0 o1 rest where out: "out = o0 # o1 # rest" "h \<le> 2 + length rest"
    using room h(1) unfolding h_def [symmetric] by (cases out; cases "tl out") auto
  have fits': "6 + length ws \<le> h" using fits by (simp add: ws_def)
  define k where "k = h - 6 - length ws"
  have hk: "h - 4 = 2 + length ws + k" "h = 6 + length ws + k" using fits' by (auto simp: k_def)
  let ?a = "of_nat ((h - 4) div 4) :: u8"
  let ?fc = "if c = LZMA_VLI_UNKNOWN then 0 else 0 OR 0x40 :: u8"
  let ?fu = "if u = LZMA_VLI_UNKNOWN then ?fc else ?fc OR 0x80 :: u8"
  let ?r1 = "drop (length (size_bytes c)) rest" let ?r2 = "drop (length (size_bytes u)) ?r1"
  have e1: "encode_size_field c 0x40 (?a # 0 # rest) 2 (h - 4) = (LZMA_OK, ?a # ?fc # size_bytes c @ ?r1, 2 + length (size_bytes c))"
    using encode_size_field_ok [OF vc, of "[]" "h - 4" rest "0x40" ?a 0] hk lens out(2) by simp
  have e2: "encode_size_field u 0x80 (?a # ?fc # size_bytes c @ ?r1) (2 + length (size_bytes c)) (h - 4)
      = (LZMA_OK, ?a # ?fu # (size_bytes c @ size_bytes u) @ ?r2, 2 + length (size_bytes c @ size_bytes u))"
    using hk lens out(2) by (intro encode_size_field_ok [OF vu]) auto
  have e3: "encode_filters_loop csz fs 0 (?a # ?fu # (size_bytes c @ size_bytes u) @ ?r2) (2 + length (size_bytes c @ size_bytes u)) (h - 4)
      = (LZMA_OK, ?a # ?fu # ws @ drop (length ws) rest, 2 + length ws, length fs)"
    using encode_filters_loop_ok [OF canons, of 0 "size_bytes c @ size_bytes u" "h - 4" ?r2 ?a ?fu] hk lens out(2) fl
    by (simp add: ws add.commute add.left_commute)
  let ?fl = "?fu OR of_nat (length fs - 1)"
  have flags: "?fl = block_flags c u (length fs)" by (auto simp: block_flags_def or.assoc [symmetric])
  have "(h - 4) div 4 = h div 4 - 1" using h by simp
  then have body: "?a # ?fl # ws @ replicate k 0 = block_header_body h c u fs"
    unfolding flags block_header_body_def ws_def [symmetric] k_def by simp
  have "h = Suc (Suc (k + 4 + length ws))" using hk(2) by simp
  then have "drop (k + 4) (drop (length ws) rest) = drop h out" by (simp only: out(1) drop_Suc_Cons drop_drop)
  then have fin: "unaligned_write32le (buf_write (2 + length ws) (replicate k 0) (?a # ?fl # ws @ drop (length ws) rest)) (h - 4)
      (lzma_crc32 (take (h - 4) (buf_write (2 + length ws) (replicate k 0) (?a # ?fl # ws @ drop (length ws) rest))) 0)
      = block_header_bytes h c u fs @ drop h out"
    using header_finish [OF hk(1), of "drop (length ws) rest" ?a ?fl, unfolded body] hk out(2)
    by (simp add: block_header_bytes_def)
  have w: "buf_write 0 (block_header_bytes h c u fs) out = block_header_bytes h c u fs @ drop h out"
    using block_header_body_length(2) [OF fits] room by (simp add: buf_write_in h_def [symmetric])
  have start: "out[0 := ?a, 1 := 0] = ?a # 0 # rest" by (simp add: out(1))
  have upd: "(?a # ?fu # ws @ drop (length ws) rest)[1 := (?a # ?fu # ws @ drop (length ws) rest) ! 1 OR of_nat (length fs - 1)]
      = ?a # ?fl # ws @ drop (length ws) rest" by simp
  have k': "h - 4 - (2 + length ws) = k" using hk by simp
  have guards: "\<not> (lzma_block_unpadded_size (Some block) = 0 \<or> \<not> lzma_vli_is_valid u)"
    "\<not> (bl_filters block = None \<or> fs = [])" using unp vu nn fl by auto
  have ok: "(LZMA_OK \<noteq> LZMA_OK) = False" by simp
  show ?thesis
    unfolding lzma_block_header_encode_def Let_def h_def [symmetric] fs_def [symmetric] c_def [symmetric] u_def [symmetric]
      start e1 e2 e3 prod.case if_not_P [OF guards(1)] if_not_P [OF guards(2)] ok if_False upd k' fin w ..
qed

subsection \<open>Decoding\<close>

lemma block_flags_bits:
  assumes "1 \<le> n" "n \<le> 4"
  shows "block_flags c u n AND 0x3C = 0" "block_flags c u n AND 0x40 \<noteq> 0 \<longleftrightarrow> c \<noteq> LZMA_VLI_UNKNOWN"
    "block_flags c u n AND 0x80 \<noteq> 0 \<longleftrightarrow> u \<noteq> LZMA_VLI_UNKNOWN" "unat (block_flags c u n AND 3) + 1 = n"
proof -
  consider "n = 1" | "n = 2" | "n = 3" | "n = 4" using assms by linarith
  then show "block_flags c u n AND 0x3C = 0" "block_flags c u n AND 0x40 \<noteq> 0 \<longleftrightarrow> c \<noteq> LZMA_VLI_UNKNOWN"
    "block_flags c u n AND 0x80 \<noteq> 0 \<longleftrightarrow> u \<noteq> LZMA_VLI_UNKNOWN" "unat (block_flags c u n AND 3) + 1 = n"
    by (cases; simp add: block_flags_def)+
qed

lemma unpadded_size_cong:
  "bl_version a \<le> 1 \<Longrightarrow> bl_version b \<le> 1 \<Longrightarrow> bl_header_size a = bl_header_size b \<Longrightarrow> bl_check a = bl_check b \<Longrightarrow>
     bl_compressed_size a = bl_compressed_size b \<Longrightarrow> lzma_block_unpadded_size (Some a) = lzma_block_unpadded_size (Some b)"
  unfolding lzma_block_unpadded_size_def option.case by (simp only: not_less [symmetric] simp_thms)

lemma decode_filters_loop_ok:
  assumes "field_at in_buf n pos (filters_bytes fs)" "\<forall>j<length fs. filter_canon csz (al (i + j)) (fs ! j)"
    and "i + length fs \<le> length arr"
  shows "decode_filters_loop al (length fs) i arr in_buf pos n
    = (LZMA_OK, take i arr @ fs @ drop (i + length fs) arr, pos + length (filters_bytes fs))"
  using assms
proof (induction fs arbitrary: i arr pos)
  case (Cons f fs)
  have fb: "filters_bytes (f # fs) = filter_flags_bytes f @ filters_bytes fs" by (simp add: filters_bytes_def)
  have fa: "field_at in_buf n pos (filter_flags_bytes f)" "field_at in_buf n (pos + length (filter_flags_bytes f)) (filters_bytes fs)"
    using Cons.prems(1) unfolding fb field_at_append by simp_all
  have canon: "filter_canon csz (al i) f" using Cons.prems(2) by force
  have canons: "\<forall>j<length fs. filter_canon csz (al (i + 1 + j)) (fs ! j)"
    using Cons.prems(2) by (metis Suc_eq_plus1 add.commute add.left_commute length_Cons not_less_eq nth_Cons_Suc)
  have i: "i < length arr" "i + 1 + length fs \<le> length (arr[i := f])" using Cons.prems(3) by simp_all
  have "take (i + 1) (arr[i := f]) = take i arr @ [f]" "drop (i + 1 + length fs) (arr[i := f]) = drop (i + length (f # fs)) arr"
    using i by (simp_all add: take_Suc_conv_app_nth)
  then show ?case
    using Cons.IH [OF fa(2) canons i(2)] filter_flags_decode_ok [OF canon fa(1), of "arr ! i"] by (simp add: fb)
qed (simp add: filters_bytes_def field_at_Nil)

text \<open>What the decoder leaves in the block.\<close>

definition decoded_block :: "lzma_block \<Rightarrow> lzma_vli \<Rightarrow> lzma_vli \<Rightarrow> lzma_filter list \<Rightarrow> lzma_block" where
  "decoded_block g c u fs =
     g\<lparr>bl_version := (if bl_version g > 1 then 1 else bl_version g), bl_ignore_check := False,
       bl_compressed_size := c, bl_uncompressed_size := u,
       bl_filters := Some (fs @ replicate (5 - length fs) unknown_filter @ drop 5 (the (bl_filters g)))\<rparr>"

lemma header_size_byte:
  assumes "h mod 4 = 0" "8 \<le> h" "h \<le> 1024" "unat w = h"
  shows "lzma_block_header_size_decode (of_nat (h div 4 - 1)) = w"
proof -
  obtain q where q: "h = 4 * q" using assms(1) by blast
  define r where "r = q - 1"
  have r: "r < 256" "q = r + 1" using assms q by (auto simp: r_def)
  then have "unat (of_nat r :: u8) = r" by (simp add: unat_of_nat take_bit_eq_mod)
  then have "unat (lzma_block_header_size_decode (of_nat r)) = 4 * q"
    using r by (simp add: lzma_block_header_size_decode_def unat_word_ariths unat_ucast_mod)
  moreover have "h div 4 - 1 = r" using q by (simp add: r_def)
  ultimately show ?thesis using q assms(4) by (intro unat_eqI) simp
qed

lemma block_header_decode_ok:
  assumes bytes: "take h in_buf = block_header_bytes h c u fs" and len: "h \<le> length in_buf"
    and h: "unat (bl_header_size g) = h" "8 \<le> h" "h \<le> 1024" "h mod 4 = 0" "6 + length (block_fields c u fs) \<le> h"
    and vld: "lzma_vli_is_valid c" "lzma_vli_is_valid u" "bl_check g \<le> LZMA_CHECK_ID_MAX"
    and unp: "lzma_block_unpadded_size (Some (decoded_block g c u fs)) \<noteq> 0"
    and arr: "bl_filters g = Some arr" "5 \<le> length arr"
    and fs: "1 \<le> length fs" "length fs \<le> 4" "\<forall>j<length fs. filter_canon csz (al j) (fs ! j)"
  shows "lzma_block_header_decode al g in_buf = (LZMA_OK, decoded_block g c u fs)"
proof -
  let ?body = "block_header_body h c u fs" and ?fl = "block_flags c u (length fs)"
  let ?pad = "replicate (h - 6 - length (block_fields c u fs)) 0 :: u8 list"
  have lb: "length ?body = h - 4" using block_header_body_length(1) [OF h(5)] .
  have "take (h - 4) (take h in_buf) = ?body" unfolding bytes by (simp add: block_header_bytes_def lb)
  then have tb: "take (h - 4) in_buf = ?body" by (simp add: min_def)
  have "take 4 (drop (h - 4) in_buf) = drop (h - 4) (take h in_buf)" using h(2) by (simp add: drop_take)
  then have crc4: "take 4 (drop (h - 4) in_buf) = bytes32le (lzma_crc32 ?body 0)"
    unfolding bytes by (simp add: block_header_bytes_def lb)
  have crc: "unaligned_read32le in_buf (h - 4) = lzma_crc32 ?body 0"
    using crc4 len h(2) by (simp add: unaligned_read32le_eq_iff)
  have field: "field_at in_buf (h - 4) 0 ?body" using tb len lb h(2) by (simp add: field_at_def)
  have nth: "in_buf ! 0 = of_nat (h div 4 - 1)" "in_buf ! 1 = ?fl"
    and f2: "field_at in_buf (h - 4) 2 (block_fields c u fs @ ?pad)"
    using field unfolding block_header_body_def by (simp_all add: field_at_Cons numeral_2_eq_2)
  let ?p1 = "2 + length (size_bytes c)" let ?p2 = "?p1 + length (size_bytes u)" let ?p3 = "?p2 + length (filters_bytes fs)"
  have fa: "field_at in_buf (h - 4) 2 (size_bytes c)" "field_at in_buf (h - 4) ?p1 (size_bytes u)"
    "field_at in_buf (h - 4) ?p2 (filters_bytes fs)" "field_at in_buf (h - 4) ?p3 ?pad"
    using f2 unfolding block_fields_def field_at_append by (simp_all add: add.assoc)
  have vli: "lzma_vli_decode x None in_buf pos (h - 4) = (LZMA_OK, v, None, pos + length (size_bytes v))"
    if "field_at in_buf (h - 4) pos (size_bytes v)" "lzma_vli_is_valid v" "v \<noteq> LZMA_VLI_UNKNOWN" for x v pos
    using that valid_vli_cases [OF that(2)] by (intro lzma_vli_decode_single) (auto simp: size_bytes_def field_at_def)
  have hs: "lzma_block_header_size_decode (of_nat (h div 4 - 1)) = bl_header_size g"
    using header_size_byte [OF h(4,2,3,1)] .
  have pad0: "\<forall>b\<in>set (drop ?p3 (take (h - 4) in_buf)). b = 0"
  proof -
    have "length (size_bytes c) + length (size_bytes u) + length (filters_bytes fs) = length (block_fields c u fs)"
      by (simp add: block_fields_def)
    then have "?p3 = Suc (Suc (length (block_fields c u fs)))" by simp
    then show ?thesis unfolding tb by (simp add: block_header_body_def)
  qed
  let ?g = "g\<lparr>bl_version := (if bl_version g > 1 then 1 else bl_version g), bl_ignore_check := False,
       bl_filters := Some (replicate 5 unknown_filter @ drop 5 arr)\<rparr>"
  have unp': "lzma_block_unpadded_size (Some (?g\<lparr>bl_compressed_size := c\<rparr>)) \<noteq> 0"
    using unp by (subst unpadded_size_cong [of _ "decoded_block g c u fs"]) (auto simp: decoded_block_def not_less)
  have floop: "decode_filters_loop al (unat (?fl AND 3) + 1) 0 (replicate 5 unknown_filter @ drop 5 arr) in_buf ?p2 (h - 4)
      = (LZMA_OK, fs @ replicate (5 - length fs) unknown_filter @ drop 5 arr, ?p3)"
    using decode_filters_loop_ok [OF fa(3), of csz al 0 "replicate 5 unknown_filter @ drop 5 arr"] fs arr(2)
    unfolding block_flags_bits(4) [OF fs(1,2)] by simp
  have init: "header_decode_init g = ?g" by (simp add: header_decode_init_def arr(1) LZMA_FILTERS_MAX_def Let_def)
  have g1: "\<not> (lzma_block_header_size_decode (in_buf ! 0) \<noteq> bl_header_size ?g \<or> bl_check ?g > LZMA_CHECK_ID_MAX)"
    using nth(1) hs vld(3) by (simp add: not_less)
  have g2: "\<not> lzma_crc32 (take (h - 4) in_buf) 0 \<noteq> unaligned_read32le in_buf (h - 4)" using crc tb by simp
  have g3: "\<not> in_buf ! 1 AND 0x3C \<noteq> 0" using nth(2) block_flags_bits(1) [OF fs(1,2)] by simp
  have hg: "unat (bl_header_size ?g) = h" using h(1) by simp
  let ?gc = "?g\<lparr>bl_compressed_size := c\<rparr>" let ?gu = "?gc\<lparr>bl_uncompressed_size := u\<rparr>"
  have s1: "(if in_buf ! 1 AND 0x40 \<noteq> 0
             then (case lzma_vli_decode (bl_compressed_size ?g) None in_buf 2 (h - 4) of (ret, v, _, in_pos) \<Rightarrow>
                     (let block = ?g\<lparr>bl_compressed_size := v\<rparr>
                      in if ret \<noteq> LZMA_OK then (ret, block, in_pos)
                         else if lzma_block_unpadded_size (Some block) = 0 then (LZMA_DATA_ERROR, block, in_pos)
                         else (LZMA_OK, block, in_pos)))
             else (LZMA_OK, ?g\<lparr>bl_compressed_size := LZMA_VLI_UNKNOWN\<rparr>, 2)) = (LZMA_OK, ?gc, ?p1)"
    using vli [OF fa(1) vld(1)] unp' block_flags_bits(2) [OF fs(1,2), of c u] nth(2)
    by (cases "c = LZMA_VLI_UNKNOWN") (simp_all add: size_bytes_def)
  have s2: "(if in_buf ! 1 AND 0x80 \<noteq> 0
             then (case lzma_vli_decode (bl_uncompressed_size ?gc) None in_buf ?p1 (h - 4) of (ret, v, _, in_pos) \<Rightarrow>
                     (ret, ?gc\<lparr>bl_uncompressed_size := v\<rparr>, in_pos))
             else (LZMA_OK, ?gc\<lparr>bl_uncompressed_size := LZMA_VLI_UNKNOWN\<rparr>, ?p1)) = (LZMA_OK, ?gu, ?p2)"
    using vli [OF fa(2) vld(2)] block_flags_bits(3) [OF fs(1,2), of c u] nth(2)
    by (cases "u = LZMA_VLI_UNKNOWN") (simp_all add: size_bytes_def)
  have s3: "decode_filters_loop al (unat (in_buf ! 1 AND 3) + 1) 0 (the (bl_filters ?gu)) in_buf ?p2 (h - 4)
      = (LZMA_OK, fs @ replicate (5 - length fs) unknown_filter @ drop 5 arr, ?p3)"
    using floop nth(2) by simp
  have g4: "\<not> (\<exists>b\<in>set (drop ?p3 (take (h - 4) in_buf)). b \<noteq> 0)" using pad0 by blast
  have ok: "(LZMA_OK \<noteq> LZMA_OK) = False" by simp
  have "lzma_block_header_decode al g in_buf
      = (LZMA_OK, ?gu\<lparr>bl_filters := Some (fs @ replicate (5 - length fs) unknown_filter @ drop 5 arr)\<rparr>)"
    unfolding lzma_block_header_decode_def init
    by (simp only: Let_def g1 g2 g3 g4 hg s1 [unfolded Let_def] s2 s3 ok if_False prod.case)
  then show ?thesis by (simp add: decoded_block_def arr(1))
qed

subsection \<open>Header size\<close>

lemma length_size_bytes: "lzma_vli_is_valid v \<Longrightarrow> length (size_bytes v) \<le> 9"
  using valid_vli_cases [of v] vli_bytes_length_max [of "unat v"]
  by (auto simp: size_bytes_def vli_le_max_iff LZMA_VLI_BYTES_MAX_def)

lemma size_field_ok:
  assumes "lzma_vli_is_valid v" "zero_ok \<or> v \<noteq> 0"
  shows "size_field v zero_ok = Some (of_nat (length (size_bytes v)))"
proof (cases "v = LZMA_VLI_UNKNOWN")
  case False
  then have v: "v \<le> LZMA_VLI_MAX" using valid_vli_cases [OF assms(1)] by simp
  have "lzma_vli_size v = of_nat (length (size_bytes v))"
    using lzma_vli_size_eq [OF v] False by (simp add: size_bytes_def) (metis of_nat_unat ucast_id)
  moreover have "lzma_vli_size v \<noteq> 0" using lzma_vli_size_eq [OF v] by (auto simp flip: length_greater_0_conv)
  ultimately show ?thesis using False assms(2) by (simp add: size_field_def)
qed (simp add: size_field_def size_bytes_def)

lemma header_size_loop_ok:
  assumes "\<forall>f\<in>set fs. \<exists>al. filter_canon csz al f" "i + length fs \<le> 4"
  shows "header_size_loop fs i sz = (LZMA_OK, sz + of_nat (length (filters_bytes fs)))
    \<and> length (filters_bytes fs) \<le> 7 * length fs"
  using assms
proof (induction fs arbitrary: i sz)
  case (Cons f fs)
  obtain al where canon: "filter_canon csz al f" using Cons.prems(1) by auto
  have fb: "length (filters_bytes (f # fs)) = length (filter_flags_bytes f) + length (filters_bytes fs)"
    by (simp add: filters_bytes_def)
  have "length (filter_flags_bytes f) \<le> 7"
    using filter_flags_sizes(1) [OF canon] filter_canon_props(2) [OF canon] by simp
  then show ?case
    using Cons.IH [of "i + 1" "sz + of_nat (length (filter_flags_bytes f))"] Cons.prems filter_flags_size_ok [OF canon, of 0]
    by (simp add: fb LZMA_FILTERS_MAX_def add.assoc)
qed (simp add: filters_bytes_def)

definition header_len :: "lzma_vli \<Rightarrow> lzma_vli \<Rightarrow> lzma_filter list \<Rightarrow> nat" where
  "header_len c u fs = (6 + length (block_fields c u fs) + 3) div 4 * 4"

lemma block_header_size_ok:
  assumes "bl_version block \<le> 1" "lzma_vli_is_valid (bl_compressed_size block)" "bl_compressed_size block \<noteq> 0"
    and "lzma_vli_is_valid (bl_uncompressed_size block)" "bl_filters block = Some arr"
    and "\<forall>f\<in>set (chain_of arr). \<exists>al. filter_canon csz al f" "1 \<le> length (chain_of arr)" "length (chain_of arr) \<le> 4"
  defines "h \<equiv> header_len (bl_compressed_size block) (bl_uncompressed_size block) (chain_of arr)"
  shows "lzma_block_header_size block = (LZMA_OK, block\<lparr>bl_header_size := of_nat h\<rparr>)"
    and "unat (of_nat h :: u32) = h" "8 \<le> h" "h \<le> 1024" "h mod 4 = 0"
    and "6 + length (block_fields (bl_compressed_size block) (bl_uncompressed_size block) (chain_of arr)) \<le> h"
proof -
  let ?c = "bl_compressed_size block" and ?u = "bl_uncompressed_size block" and ?fs = "chain_of arr"
  let ?n = "length (block_fields ?c ?u ?fs)"
  note loop = header_size_loop_ok [OF assms(6), of 0]
  have n: "?n = length (size_bytes ?c) + length (size_bytes ?u) + length (filters_bytes ?fs)" by (simp add: block_fields_def)
  have fl: "length (filters_bytes ?fs) \<le> 28" using loop assms(8) by fastforce
  have le: "?n \<le> 46"
    using n length_size_bytes [OF assms(2)] length_size_bytes [OF assms(4)] fl by linarith
  have h: "h = (9 + ?n) div 4 * 4" by (simp add: h_def header_len_def)
  show bounds: "8 \<le> h" "h \<le> 1024" "h mod 4 = 0" "6 + ?n \<le> h" using le unfolding h by - (linarith | simp)+
  show uh: "unat (of_nat h :: u32) = h" using bounds(2) by (intro unat_of_nat_u32) simp
  have "9 + ?n < 2 ^ 32" using le by simp
  then have "unat (of_nat (9 + ?n) AND NOT 3 :: u32) = h" by (simp only: unat_and_not3 h unat_of_nat_u32)
  then have pad: "(of_nat (9 + ?n) :: u32) AND NOT 3 = of_nat h" using uh by (intro unat_eqI) simp
  have sum: "1 + 1 + 4 + of_nat (length (size_bytes ?c)) + of_nat (length (size_bytes ?u)) + of_nat (length (filters_bytes ?fs)) + 3
      = (of_nat (9 + ?n) :: u32)" by (simp add: n)
  have "\<not> bl_version block > 1" "?fs \<noteq> []" using assms(1,7) by auto
  then show "lzma_block_header_size block = (LZMA_OK, block\<lparr>bl_header_size := of_nat h\<rparr>)"
    using loop assms(3,5,8) size_field_ok [OF assms(2), of False] size_field_ok [OF assms(4), of True]
    unfolding lzma_block_header_size_def by (simp only: sum [symmetric] pad [symmetric] option.case prod.case) simp
qed

subsection \<open>Results of the decoder\<close>

definition header_rets :: "lzma_ret set" where
  "header_rets = {LZMA_OK, LZMA_PROG_ERROR, LZMA_DATA_ERROR, LZMA_OPTIONS_ERROR, LZMA_MEM_ERROR}"

lemma header_rets [intro, simp]:
  "LZMA_OK \<in> header_rets" "LZMA_PROG_ERROR \<in> header_rets" "LZMA_DATA_ERROR \<in> header_rets"
  "LZMA_OPTIONS_ERROR \<in> header_rets" "LZMA_STREAM_END \<notin> header_rets" "LZMA_GET_CHECK \<notin> header_rets"
  "fst (lzma_vli_decode v None in_buf in_pos in_size) \<in> header_rets"
  "fst (lzma_filter_flags_decode a f in_buf in_pos in_size) \<in> header_rets"
  using vli_decode_single_ret [of v in_buf in_pos in_size] filter_flags_decode_ret [of a f in_buf in_pos in_size]
  by (auto simp: header_rets_def)

lemma decode_filters_loop_ret [intro, simp]: "fst (decode_filters_loop al n i fs in_buf in_pos in_size) \<in> header_rets"
  by (induction n arbitrary: i fs in_pos) (simp_all add: split_beta)

lemma fst_if_mem: "fst x \<in> S \<Longrightarrow> fst y \<in> S \<Longrightarrow> fst (if b then x else y) \<in> S"
  by simp

lemma block_header_decode_ret: "fst (lzma_block_header_decode al block in_buf) \<in> header_rets"
  unfolding lzma_block_header_decode_def Let_def split_beta
  by (rule fst_if_mem header_rets decode_filters_loop_ret | simp only: fst_conv)+

section \<open>Properties\<close>

lemma check_size_le:
  assumes "t \<le> LZMA_CHECK_ID_MAX"
  shows "unat (lzma_check_size t) \<le> 64"
proof -
  have "unat t < length check_sizes"
    using assms by (simp add: LZMA_CHECK_ID_MAX_def word_le_nat_alt check_sizes_def)
  then have "check_sizes ! unat t \<in> set check_sizes" by (rule nth_mem)
  moreover have "\<forall>b\<in>set check_sizes. unat b \<le> 64" by (simp add: check_sizes_def)
  moreover have "unat (ucast b :: u32) = unat b" for b :: u8 using unat_u8_less [of b] by (simp add: unat_ucast_mod)
  ultimately show ?thesis using assms by (simp add: lzma_check_size_def)
qed

text \<open>The first two tests of the decoder.\<close>

lemma header_decode_init_simps [simp]:
  "bl_header_size (header_decode_init block) = bl_header_size block" "bl_check (header_decode_init block) = bl_check block"
  by (simp_all add: header_decode_init_def Let_def)

lemma block_header_decode_tests:
  "lzma_block_header_size_decode (hdr ! 0) \<noteq> bl_header_size block \<Longrightarrow>
     fst (lzma_block_header_decode al block hdr) = LZMA_PROG_ERROR"
  "lzma_block_header_size_decode (hdr ! 0) = bl_header_size block \<Longrightarrow> \<not> bl_check block > LZMA_CHECK_ID_MAX \<Longrightarrow>
     lzma_crc32 (take (unat (bl_header_size block) - 4) hdr) 0 \<noteq> unaligned_read32le hdr (unat (bl_header_size block) - 4) \<Longrightarrow>
     fst (lzma_block_header_decode al block hdr) = LZMA_DATA_ERROR"
  unfolding lzma_block_header_decode_def Let_def header_decode_init_simps by (simp_all only: simp_thms if_True if_False fst_conv)

lemma block_header_decode_check:
  "bl_check block > LZMA_CHECK_ID_MAX \<Longrightarrow> fst (lzma_block_header_decode al block hdr) = LZMA_PROG_ERROR"
  unfolding lzma_block_header_decode_def Let_def header_decode_init_simps by (simp only: simp_thms if_True fst_conv)

lemma block_header_bytes_nth0: "block_header_bytes h c u fs ! 0 = of_nat (h div 4 - 1)"
  by (simp add: block_header_bytes_def block_header_body_def)

text \<open>C27. Block Headers round trip. For a block with valid sizes and a chain of one to four filters the format
  can express, \<open>lzma_block_header_size\<close> chooses a header size, \<open>lzma_block_header_encode\<close> succeeds with it, the first
  byte announces that size, and \<open>lzma_block_header_decode\<close>, given the announced size and the check type, restores
  both sizes and the filter chain and terminates the filter array.\<close>

theorem block_header_roundtrip:
  assumes "bl_version block \<le> 1" "lzma_vli_is_valid (bl_compressed_size block)" "bl_compressed_size block \<noteq> 0"
    and "lzma_vli_is_valid (bl_uncompressed_size block)" "bl_filters block = Some arr0"
    and "1 \<le> length (chain_of arr0)" "length (chain_of arr0) \<le> 4"
    and "\<forall>j<length (chain_of arr0). filter_canon csz (al j) (chain_of arr0 ! j)"
    and "lzma_block_unpadded_size (Some (snd (lzma_block_header_size block))) \<noteq> 0"
    and "1024 \<le> length out" "bl_check g = bl_check block" "bl_filters g = Some arr" "5 \<le> length arr"
  shows "\<exists>sized hdr. lzma_block_header_size block = (LZMA_OK, sized)
    \<and> lzma_block_header_encode csz sized out = (LZMA_OK, hdr)
    \<and> lzma_block_header_size_decode (hdr ! 0) = bl_header_size sized
    \<and> lzma_block_header_decode al (g\<lparr>bl_header_size := bl_header_size sized\<rparr>) hdr
        = (LZMA_OK, decoded_block (g\<lparr>bl_header_size := bl_header_size sized\<rparr>)
             (bl_compressed_size block) (bl_uncompressed_size block) (chain_of arr0))"
proof -
  let ?c = "bl_compressed_size block" and ?u = "bl_uncompressed_size block" and ?fs = "chain_of arr0"
  let ?h = "header_len ?c ?u ?fs"
  have "\<forall>f\<in>set ?fs. \<exists>al. filter_canon csz al f" using assms(8) by (metis in_set_conv_nth)
  note sz = block_header_size_ok [OF assms(1-5) this assms(6,7)]
  define sized where "sized = block\<lparr>bl_header_size := of_nat ?h\<rparr>"
  define hdr where "hdr = buf_write 0 (block_header_bytes ?h ?c ?u ?fs) out"
  let ?g = "g\<lparr>bl_header_size := bl_header_size sized\<rparr>"
  have s: "bl_header_size sized = of_nat ?h" "bl_compressed_size sized = ?c" "bl_uncompressed_size sized = ?u"
    "bl_filters sized = Some arr0" "bl_check sized = bl_check block" "bl_version sized = bl_version block"
    by (simp_all add: sized_def assms(5))
  have unp: "lzma_block_unpadded_size (Some sized) \<noteq> 0" using assms(9) sz(1) by (simp add: sized_def)
  have "block_canon csz al sized"
    using unp assms(4,6-8) sz(2,6) by (simp add: block_canon_def s)
  from block_header_encode_ok [OF this, of out]
  have enc: "lzma_block_header_encode csz sized out = (LZMA_OK, hdr)" using sz(2,4) assms(10) by (simp add: s hdr_def)
  have len: "length (block_header_bytes ?h ?c ?u ?fs) = ?h" using block_header_body_length(2) [OF sz(6)] .
  then have take: "take ?h hdr = block_header_bytes ?h ?c ?u ?fs" and lh: "?h \<le> length hdr"
    using sz(4) assms(10) by (simp_all add: hdr_def buf_write_in)
  have "hdr ! 0 = of_nat (?h div 4 - 1)"
    using take sz(3) by (metis block_header_bytes_nth0 nth_take gr0I not_numeral_le_zero)
  then have byte: "lzma_block_header_size_decode (hdr ! 0) = bl_header_size sized"
    using header_size_byte [OF sz(5,3,4,2)] by (simp add: s)
  have "lzma_block_unpadded_size (Some (decoded_block ?g ?c ?u ?fs)) \<noteq> 0"
    using unp assms(1,11) by (subst unpadded_size_cong [of _ sized]) (auto simp: decoded_block_def s not_less)
  then have "lzma_block_header_decode al ?g hdr = (LZMA_OK, decoded_block ?g ?c ?u ?fs)"
    using sz(2-6) assms(2,4,6-8,11-13) unpadded_sizeD(7) [OF unp]
    by (intro block_header_decode_ok [OF take lh]) (simp_all add: s)
  then show ?thesis using sz(1) enc byte by (auto simp: sized_def)
qed

text \<open>C28. The decoder notices every one-byte corruption. When \<open>lzma_block_header_decode\<close> accepts a header, changing
  any one of its bytes makes it fail: with \<open>LZMA_PROG_ERROR\<close> for the size byte, which no longer matches what the
  caller announced, and with \<open>LZMA_DATA_ERROR\<close>, from the CRC32, for every other byte.\<close>

theorem block_header_corruption:
  assumes "lzma_block_header_decode al block hdr = (LZMA_OK, block')"
    and "unat (bl_header_size block) \<le> length hdr" "i < unat (bl_header_size block)" "b \<noteq> hdr ! i"
  shows "fst (lzma_block_header_decode al block (hdr[i := b])) = (if i = 0 then LZMA_PROG_ERROR else LZMA_DATA_ERROR)"
proof -
  let ?n = "unat (bl_header_size block) - 4"
  have acc: "lzma_block_header_size_decode (hdr ! 0) = bl_header_size block" "\<not> bl_check block > LZMA_CHECK_ID_MAX"
    "lzma_crc32 (take ?n hdr) 0 = unaligned_read32le hdr ?n"
    using assms(1) block_header_decode_tests [of hdr block al] block_header_decode_check [of block al hdr] by auto
  have "unat (lzma_block_header_size_decode x) = (unat x + 1) * 4" for x
    using unat_u8_less [of x] by (simp add: lzma_block_header_size_decode_def unat_word_ariths unat_ucast_mod)
  note size_byte = this
  have four: "4 \<le> unat (bl_header_size block)" using size_byte [of "hdr ! 0"] acc(1) by simp
  show ?thesis
  proof (cases "i = 0")
    case True
    have "lzma_block_header_size_decode b \<noteq> bl_header_size block"
    proof
      assume "lzma_block_header_size_decode b = bl_header_size block"
      then have "unat b = unat (hdr ! 0)" using size_byte [of b] size_byte [of "hdr ! 0"] acc(1) by simp
      then show False using assms(4) True by (auto dest: unat_eqI)
    qed
    moreover have "hdr[0 := b] ! 0 = b" using True assms(2,3) by (intro nth_list_update_eq) linarith
    ultimately show ?thesis using True block_header_decode_tests(1) [of "hdr[0 := b]"] by simp
  next
    case False
    have "take 4 (drop ?n hdr) = bytes32le (lzma_crc32 (take ?n hdr) 0)"
      using acc(3) assms(2) four by (simp add: unaligned_read32le_eq_iff [symmetric])
    then have "lzma_crc32 (take ?n (drop 0 (hdr[i := b]))) 0 \<noteq> unaligned_read32le (hdr[i := b]) ?n"
      using assms(2-4) four by (intro crc_field_mismatch) auto
    then show ?thesis
      using False acc(1,2) by (simp add: block_header_decode_tests(2))
  qed
qed

text \<open>C29. The size functions of a block never wrap and invert each other: when \<open>lzma_block_unpadded_size\<close> reports a
  size, it is the exact sum of header, compressed data and check, at most \<open>UNPADDED_SIZE_MAX\<close>;
  \<open>lzma_block_total_size\<close> is that rounded up to a multiple of four; and \<open>lzma_block_compressed_size\<close> recovers the
  compressed size from it.\<close>

theorem block_sizes:
  assumes "lzma_block_unpadded_size (Some block) = n" "n \<noteq> 0" "n \<noteq> LZMA_VLI_UNKNOWN"
  shows "unat n = unat (bl_compressed_size block) + unat (bl_header_size block) + unat (lzma_check_size (bl_check block))
    \<and> UNPADDED_SIZE_MIN \<le> n \<and> n \<le> UNPADDED_SIZE_MAX
    \<and> unat (lzma_block_total_size (Some block)) = (unat n + 3) div 4 * 4
    \<and> lzma_block_compressed_size (block\<lparr>bl_compressed_size := LZMA_VLI_UNKNOWN\<rparr>) n = (LZMA_OK, block)
    \<and> lzma_block_compressed_size block n = (LZMA_OK, block)"
proof -
  let ?c = "bl_compressed_size block" and ?h = "bl_header_size block" and ?k = "lzma_check_size (bl_check block)"
  note d = unpadded_sizeD [of block, unfolded assms(1), OF assms(2)]
  have known: "?c \<noteq> LZMA_VLI_UNKNOWN"
    using assms d by (auto simp: lzma_block_unpadded_size_def split: if_splits)
  have n: "n = ?c + ucast ?h + ucast ?k" "n \<le> UNPADDED_SIZE_MAX"
    using assms known by (auto simp: lzma_block_unpadded_size_def Let_def split: if_splits)
  have c: "unat ?c < 9223372036854775808" "0 < unat ?c"
    using valid_vli_cases [OF d(5)] known d(6) by (auto simp: vli_le_max_iff unat_gt_0)
  have k: "unat ?k \<le> 64" using check_size_le [OF d(7)] .
  have uh: "unat (ucast ?h :: u64) = unat ?h" "unat (ucast ?k :: u64) = unat ?k"
    using unat_u32_less [of ?h] unat_u32_less [of ?k] by (simp_all add: unat_ucast_mod)
  have sum: "unat n = unat ?c + unat ?h + unat ?k"
    unfolding n(1) using c k d(3) uh by (simp add: unat_word_ariths)
  have "unat (?h + ?k) = unat ?h + unat ?k" using d(3) k by (simp add: unat_word_ariths)
  then have cont: "unat (ucast (?h + ?k) :: u64) = unat ?h + unat ?k"
    using d(3) k by (simp add: unat_ucast_mod)
  have lt: "\<not> n \<le> ucast (?h + ?k)" using sum cont c(2) by (simp add: word_le_nat_alt)
  have "unat (n - ucast (?h + ?k)) = unat ?c"
    using lt sum cont by (subst unat_sub) (auto simp: word_le_nat_alt)
  then have diff: "n - ucast (?h + ?k) = ?c" by (rule unat_eqI)
  have unk: "lzma_block_unpadded_size (Some (block\<lparr>bl_compressed_size := LZMA_VLI_UNKNOWN\<rparr>)) \<noteq> 0"
    using assms known by (auto simp: lzma_block_unpadded_size_def lzma_vli_is_valid_def LZMA_VLI_UNKNOWN_def split: if_splits)
  have "unat n \<le> 9223372036854775804" using n(2) unpadded_max(2) by (simp add: word_le_nat_alt)
  then have "unat (lzma_block_total_size (Some block)) = (unat n + 3) div 4 * 4"
    using assms(1,3) unat_vli_ceil4 [of n] by (simp add: lzma_block_total_size_def)
  moreover have "UNPADDED_SIZE_MIN \<le> n" using sum d(2) by (simp add: UNPADDED_SIZE_MIN_def word_le_nat_alt)
  moreover have "lzma_block_compressed_size (block\<lparr>bl_compressed_size := LZMA_VLI_UNKNOWN\<rparr>) n = (LZMA_OK, block)"
    using unk lt diff by (simp add: lzma_block_compressed_size_def Let_def)
  moreover have "lzma_block_compressed_size block n = (LZMA_OK, block)"
    using assms(1,2) lt diff by (simp add: lzma_block_compressed_size_def Let_def)
  ultimately show ?thesis using sum n(2) by blast
qed

text \<open>A block with an X86 branch filter before LZMA2.\<close>

definition sample_sizes :: coder_sizes where
  "sample_sizes = \<lparr>sz_delta = 1000, sz_lzma_decoder = 1000, sz_lz_decoder = 1000, sz_lzma2_decoder = 1000\<rparr>"

definition sample_lzma2 :: lzma_filter where
  "sample_lzma2 = \<lparr>f_id = LZMA_FILTER_LZMA2, f_options = Some (Opt_lzma (sample_lzma\<lparr>ol_dict_size := 0xFFFFFFFF\<rparr>))\<rparr>"

definition sample_x86 :: lzma_filter where
  "sample_x86 = \<lparr>f_id = LZMA_FILTER_X86, f_options = None\<rparr>"

definition sample_block :: lzma_block where
  "sample_block = \<lparr>bl_version = 1, bl_header_size = 0, bl_check = LZMA_CHECK_CRC32, bl_compressed_size = 300,
     bl_uncompressed_size = LZMA_VLI_UNKNOWN, bl_filters = Some [sample_x86, sample_lzma2, unknown_filter],
     bl_raw_check = [], bl_ignore_check = False\<rparr>"

lemma sample_chain: "chain_of [sample_x86, sample_lzma2, unknown_filter] = [sample_x86, sample_lzma2]"
  by (simp add: chain_of_def sample_x86_def sample_lzma2_def unknown_filter_def filter_ids)

lemma dict_round_up_max: "dict_round_up 0xFFFFFFFF = 0xFFFFFFFF"
  by (simp add: dict_round_up_def LZMA_DICT_SIZE_MIN_def max_def)

lemma sample_canon:
  "filter_canon sample_sizes sample_alloc sample_lzma2" "filter_canon sample_sizes sample_alloc sample_x86"
  by (simp_all add: filter_canon_def sample_x86_def sample_lzma2_def bcj_ids_def bcj_canon_def lzma2_canon_def sample_alloc_def
      lzma2_props_byte_def lzma2_dict_size_def dict_round_up_max sample_lzma_def)

lemma sample_fields: "length (block_fields 300 LZMA_VLI_UNKNOWN [sample_x86, sample_lzma2]) = 7"
proof -
  have "length (filter_props sample_x86) = 0" "length (filter_props sample_lzma2) = 1"
    by (simp_all add: filter_props_def sample_x86_def sample_lzma2_def bcj_props_def lzma2_props_def filter_ids)
  then have "length (filter_flags_bytes sample_x86) = 2" "length (filter_flags_bytes sample_lzma2) = 3"
    using filter_flags_sizes(1) [OF sample_canon(1)] filter_flags_sizes(1) [OF sample_canon(2)] by simp_all
  moreover have "length (size_bytes 300) = 2" "length (size_bytes LZMA_VLI_UNKNOWN) = 0"
    by (simp_all add: size_bytes_def LZMA_VLI_UNKNOWN_def vli_bytes.simps)
  ultimately show ?thesis by (simp add: block_fields_def filters_bytes_def)
qed

lemma sample_canons:
  "\<forall>j<length [sample_x86, sample_lzma2]. filter_canon sample_sizes sample_alloc ([sample_x86, sample_lzma2] ! j)"
  using sample_canon by (auto simp: less_Suc_eq)

lemma sample_valid: "lzma_vli_is_valid 300" "lzma_vli_is_valid LZMA_VLI_UNKNOWN" "LZMA_CHECK_CRC32 \<le> LZMA_CHECK_ID_MAX"
  by (simp_all add: lzma_vli_is_valid_def LZMA_VLI_MAX_def LZMA_CHECK_CRC32_def LZMA_CHECK_ID_MAX_def)

lemma sample_unpadded:
  "lzma_block_unpadded_size (Some (sample_block\<lparr>bl_header_size := 16\<rparr>)) = 320"
  by (simp add: lzma_block_unpadded_size_def sample_block_def LZMA_BLOCK_HEADER_SIZE_MIN_def LZMA_BLOCK_HEADER_SIZE_MAX_def
      sample_valid LZMA_CHECK_CRC32_def LZMA_CHECK_ID_MAX_def LZMA_VLI_UNKNOWN_def lzma_check_size_def check_sizes_def
      UNPADDED_SIZE_MAX_def LZMA_VLI_MAX_def)

lemma sample_header_size: "lzma_block_header_size sample_block = (LZMA_OK, sample_block\<lparr>bl_header_size := 16\<rparr>)"
proof -
  have "\<forall>f\<in>set [sample_x86, sample_lzma2]. \<exists>al. filter_canon sample_sizes al f" using sample_canon by auto
  then show ?thesis
    using block_header_size_ok(1) [of sample_block "[sample_x86, sample_lzma2, unknown_filter]" sample_sizes] sample_valid
    by (simp add: sample_block_def sample_chain header_len_def sample_fields)
qed

theorem block_header_roundtrip_witness:
  "\<exists>sized hdr. lzma_block_header_size sample_block = (LZMA_OK, sized)
    \<and> lzma_block_header_encode sample_sizes sized (replicate 1024 0) = (LZMA_OK, hdr)
    \<and> lzma_block_header_size_decode (hdr ! 0) = bl_header_size sized
    \<and> fst (lzma_block_header_decode (\<lambda>i. sample_alloc)
         (sample_block\<lparr>bl_filters := Some (replicate 5 unknown_filter), bl_header_size := bl_header_size sized\<rparr>) hdr) = LZMA_OK"
proof -
  let ?g = "sample_block\<lparr>bl_filters := Some (replicate 5 unknown_filter)\<rparr>"
  have fields: "bl_version sample_block \<le> 1" "lzma_vli_is_valid (bl_compressed_size sample_block)" "bl_compressed_size sample_block \<noteq> 0"
    "lzma_vli_is_valid (bl_uncompressed_size sample_block)" "bl_filters sample_block = Some [sample_x86, sample_lzma2, unknown_filter]"
    using sample_valid by (simp_all add: sample_block_def)
  have unp: "lzma_block_unpadded_size (Some (snd (lzma_block_header_size sample_block))) \<noteq> 0"
    by (simp add: sample_header_size sample_unpadded)
  show ?thesis
    using block_header_roundtrip [OF fields, of sample_sizes "\<lambda>i. sample_alloc" "replicate 1024 0" ?g "replicate 5 unknown_filter",
        unfolded sample_chain, OF _ _ sample_canons unp] by auto
qed

definition sample_header :: "u8 list" where
  "sample_header = block_header_bytes 16 300 LZMA_VLI_UNKNOWN [sample_x86, sample_lzma2]"

definition sample_target :: lzma_block where
  "sample_target = sample_block\<lparr>bl_filters := Some (replicate 5 unknown_filter), bl_header_size := 16\<rparr>"

lemma sample_decode:
  "lzma_block_header_decode (\<lambda>i. sample_alloc) sample_target sample_header
    = (LZMA_OK, decoded_block sample_target 300 LZMA_VLI_UNKNOWN [sample_x86, sample_lzma2])"
proof -
  have fits: "6 + length (block_fields 300 LZMA_VLI_UNKNOWN [sample_x86, sample_lzma2]) \<le> 16" by (simp add: sample_fields)
  have len: "length sample_header = 16" using block_header_body_length(2) [OF fits] by (simp add: sample_header_def)
  have "lzma_block_unpadded_size (Some (decoded_block sample_target 300 LZMA_VLI_UNKNOWN [sample_x86, sample_lzma2]))
      = lzma_block_unpadded_size (Some (sample_block\<lparr>bl_header_size := 16\<rparr>))"
    by (rule unpadded_size_cong) (simp_all add: decoded_block_def sample_target_def sample_block_def)
  then have "lzma_block_unpadded_size (Some (decoded_block sample_target 300 LZMA_VLI_UNKNOWN [sample_x86, sample_lzma2])) \<noteq> 0"
    by (simp add: sample_unpadded)
  then show ?thesis
    using fits len sample_valid sample_canons
    by (intro block_header_decode_ok [where h = 16 and arr = "replicate 5 unknown_filter" and csz = sample_sizes])
      (simp_all add: sample_header_def sample_target_def sample_block_def)
qed

theorem block_header_corruption_witness:
  "fst (lzma_block_header_decode (\<lambda>i. sample_alloc) sample_target (sample_header[5 := sample_header ! 5 + 1])) = LZMA_DATA_ERROR"
proof -
  have "length sample_header = 16"
    using block_header_body_length(2) [of 300 LZMA_VLI_UNKNOWN "[sample_x86, sample_lzma2]" 16]
    by (simp add: sample_header_def sample_fields)
  then show ?thesis
    using block_header_corruption [OF sample_decode, of 5 "sample_header ! 5 + 1"] by (simp add: sample_target_def)
qed

theorem block_sizes_witness:
  "lzma_block_unpadded_size (Some (sample_block\<lparr>bl_header_size := 16\<rparr>)) = 320
    \<and> unat (320 :: u64) = 300 + 16 + unat (lzma_check_size LZMA_CHECK_CRC32)"
  using block_sizes [OF sample_unpadded] sample_unpadded by (simp add: sample_block_def LZMA_VLI_UNKNOWN_def)

end
