(* ===== verification/Coder.thy ===== *)
theory Coder
  imports Filters
begin

text \<open>
  The coder framework of \<open>common/common.h\<close> and \<open>common/common.c\<close>: \<open>lzma_next_coder\<close>, \<open>lzma_stream\<close>, and the functions
  that every encoder and decoder is driven through, \<open>lzma_strm_init\<close>, \<open>lzma_code\<close> and \<open>lzma_end\<close>, together with the
  construction of filter chains of \<open>common/filter_common.c\<close>.

  A coder's private structure is the type parameter \<open>'c\<close>. Its \<open>code\<close> function takes and returns that structure, the
  positions and the output buffer; \<open>None\<close> stands for a call that does not return. The pointers \<open>next_in\<close> and
  \<open>next_out\<close> of \<open>lzma_stream\<close> are the object they point into and an offset. Function addresses that are only
  compared, the member \<open>init\<close>, are the names of the functions; the member \<open>end\<close>, which only frees memory, is left
  out, and so is \<open>lzma_free\<close>. \<open>al_ok\<close>-style arguments say whether an allocation succeeds.
\<close>

section \<open>Actions and coders\<close>

text \<open>\<open>lzma_action\<close> of \<open>api/lzma/base.h\<close>; the last constructor is any other value of the integer type.\<close>

datatype lzma_action =
    LZMA_RUN
  | LZMA_SYNC_FLUSH
  | LZMA_FULL_FLUSH
  | LZMA_FINISH
  | LZMA_FULL_BARRIER
  | LZMA_ACTION_OTHER u32

definition action_index :: "lzma_action \<Rightarrow> nat" where
  "action_index a =
     (case a of LZMA_RUN \<Rightarrow> 0 | LZMA_SYNC_FLUSH \<Rightarrow> 1 | LZMA_FULL_FLUSH \<Rightarrow> 2 | LZMA_FINISH \<Rightarrow> 3 | LZMA_FULL_BARRIER \<Rightarrow> 4
      | LZMA_ACTION_OTHER n \<Rightarrow> unat n)"

definition LZMA_ACTION_MAX :: nat where "LZMA_ACTION_MAX = 4"
definition LZMA_MEMUSAGE_BASE :: u64 where "LZMA_MEMUSAGE_BASE = push_bit 15 1"

type_synonym 'c code_result = "lzma_ret \<times> 'c \<times> nat \<times> u8 list \<times> nat"

type_synonym 'c lzma_code_function =
  "'c \<Rightarrow> u8 list \<Rightarrow> nat \<Rightarrow> nat \<Rightarrow> u8 list \<Rightarrow> nat \<Rightarrow> nat \<Rightarrow> lzma_action \<Rightarrow> 'c code_result option"

text \<open>The result of \<open>memconfig\<close> is the return code, the coder, \<open>*memusage\<close> and \<open>*old_memlimit\<close>; the result of
  \<open>get_progress\<close> is \<open>*progress_in\<close> and \<open>*progress_out\<close>.\<close>

record 'c lzma_next_coder =
  nc_coder :: "'c option"
  nc_id :: lzma_vli
  nc_init :: "string option"
  nc_code :: "'c lzma_code_function option"
  nc_get_progress :: "('c \<Rightarrow> u64 \<times> u64) option"
  nc_get_check :: "('c \<Rightarrow> u32) option"
  nc_memconfig :: "('c \<Rightarrow> u64 \<Rightarrow> lzma_ret \<times> 'c \<times> u64 \<times> u64) option"
  nc_update :: "('c \<Rightarrow> lzma_filter list option \<Rightarrow> lzma_filter list \<Rightarrow> lzma_ret \<times> 'c) option"

definition LZMA_NEXT_CODER_INIT :: "'c lzma_next_coder" where
  "LZMA_NEXT_CODER_INIT =
     \<lparr>nc_coder = None, nc_id = LZMA_VLI_UNKNOWN, nc_init = None, nc_code = None, nc_get_progress = None,
       nc_get_check = None, nc_memconfig = None, nc_update = None\<rparr>"

definition lzma_next_end :: "'c lzma_next_coder \<Rightarrow> 'c lzma_next_coder" where
  "lzma_next_end nxt = (if nc_init nxt \<noteq> None then LZMA_NEXT_CODER_INIT else nxt)"

text \<open>The macro \<open>lzma_next_coder_init\<close>.\<close>

definition lzma_next_coder_init :: "string option \<Rightarrow> 'c lzma_next_coder \<Rightarrow> 'c lzma_next_coder" where
  "lzma_next_coder_init func nxt =
     (let nxt = (if func \<noteq> nc_init nxt then lzma_next_end nxt else nxt)
      in nxt\<lparr>nc_init := func\<rparr>)"

section \<open>Filter chains\<close>

record lzma_filter_info =
  fi_id :: lzma_vli
  fi_init :: "string option"
  fi_options :: "filter_options option"

text \<open>A call through the member \<open>init\<close> of a filter: the function of that name is looked up in \<open>inits\<close>.\<close>

type_synonym 'c filter_inits =
  "string \<Rightarrow> 'c lzma_next_coder \<Rightarrow> lzma_filter_info list \<Rightarrow> lzma_ret \<times> 'c lzma_next_coder"

definition lzma_next_filter_init ::
  "'c filter_inits \<Rightarrow> 'c lzma_next_coder \<Rightarrow> lzma_filter_info list \<Rightarrow> lzma_ret \<times> 'c lzma_next_coder"
where
  "lzma_next_filter_init inits nxt filters =
     (let nxt = lzma_next_coder_init (fi_init (filters ! 0)) nxt;
          nxt = nxt\<lparr>nc_id := fi_id (filters ! 0)\<rparr>
      in case fi_init (filters ! 0) of
           None \<Rightarrow> (LZMA_OK, nxt)
         | Some name \<Rightarrow> inits name nxt filters)"

definition lzma_next_filter_update :: "'c lzma_next_coder \<Rightarrow> lzma_filter list \<Rightarrow> lzma_ret \<times> 'c lzma_next_coder" where
  "lzma_next_filter_update nxt reversed_filters =
     (if f_id (reversed_filters ! 0) \<noteq> nc_id nxt then (LZMA_PROG_ERROR, nxt)
      else if f_id (reversed_filters ! 0) = LZMA_VLI_UNKNOWN then (LZMA_OK, nxt)
      else
        (case the (nc_update nxt) (the (nc_coder nxt)) None reversed_filters of
           (ret, coder) \<Rightarrow> (ret, nxt\<lparr>nc_coder := Some coder\<rparr>)))"

text \<open>\<open>lzma_raw_coder_init\<close>; \<open>coder_find\<close> returns the name of the filter's \<open>init\<close> function, \<open>None\<close> when there is
  none. The encoder's chain is in reverse order.\<close>

fun find_inits :: "(lzma_vli \<Rightarrow> string option) \<Rightarrow> lzma_filter list \<Rightarrow> lzma_filter_info list option" where
  "find_inits coder_find [] = Some []"
| "find_inits coder_find (f # rest) =
     (case coder_find (f_id f) of
        None \<Rightarrow> None
      | Some name \<Rightarrow>
          map_option (Cons \<lparr>fi_id = f_id f, fi_init = Some name, fi_options = f_options f\<rparr>) (find_inits coder_find rest))"

definition lzma_raw_coder_init ::
  "'c filter_inits \<Rightarrow> 'c lzma_next_coder \<Rightarrow> lzma_filter list option \<Rightarrow> (lzma_vli \<Rightarrow> string option) \<Rightarrow> bool
     \<Rightarrow> lzma_ret \<times> 'c lzma_next_coder"
where
  "lzma_raw_coder_init inits nxt options coder_find is_encoder =
     (let (ret, n) = validate_chain options
      in if ret \<noteq> LZMA_OK then (ret, nxt)
         else
           (case find_inits coder_find (take n (the options)) of
              None \<Rightarrow> (LZMA_OPTIONS_ERROR, nxt)
            | Some filters \<Rightarrow>
                (let filters = (if is_encoder then rev filters else filters);
                     filters = filters @ [\<lparr>fi_id = LZMA_VLI_UNKNOWN, fi_init = None, fi_options = None\<rparr>];
                     (ret, nxt) = lzma_next_filter_init inits nxt filters
                 in (ret, if ret \<noteq> LZMA_OK then lzma_next_end nxt else nxt))))"

text \<open>The member \<open>init\<close> of the decoder table.\<close>

definition decoder_init_name :: "lzma_vli \<Rightarrow> string option" where
  "decoder_init_name i =
     (if i = LZMA_FILTER_LZMA1 then Some ''lzma_lzma_decoder_init''
      else if i = LZMA_FILTER_LZMA2 then Some ''lzma_lzma2_decoder_init''
      else if i = LZMA_FILTER_X86 then Some ''lzma_simple_x86_decoder_init''
      else if i = LZMA_FILTER_POWERPC then Some ''lzma_simple_powerpc_decoder_init''
      else if i = LZMA_FILTER_IA64 then Some ''lzma_simple_ia64_decoder_init''
      else if i = LZMA_FILTER_ARM then Some ''lzma_simple_arm_decoder_init''
      else if i = LZMA_FILTER_ARMTHUMB then Some ''lzma_simple_armthumb_decoder_init''
      else if i = LZMA_FILTER_SPARC then Some ''lzma_simple_sparc_decoder_init''
      else if i = LZMA_FILTER_DELTA then Some ''lzma_delta_decoder_init''
      else None)"

definition lzma_raw_decoder_init ::
  "'c filter_inits \<Rightarrow> 'c lzma_next_coder \<Rightarrow> lzma_filter list option \<Rightarrow> lzma_ret \<times> 'c lzma_next_coder"
where
  "lzma_raw_decoder_init inits nxt options = lzma_raw_coder_init inits nxt options decoder_init_name False"

text \<open>A call to the next coder of the chain.\<close>

definition call_next ::
  "'n lzma_next_coder \<Rightarrow> u8 list \<Rightarrow> nat \<Rightarrow> nat \<Rightarrow> u8 list \<Rightarrow> nat \<Rightarrow> nat \<Rightarrow> lzma_action
     \<Rightarrow> 'n lzma_next_coder code_result option"
where
  "call_next nxt in_buf in_pos in_size out out_pos out_size action =
     map_option (\<lambda>(ret, c, in_pos, out, out_pos). (ret, nxt\<lparr>nc_coder := Some c\<rparr>, in_pos, out, out_pos))
       (the (nc_code nxt) (the (nc_coder nxt)) in_buf in_pos in_size out out_pos out_size action)"

section \<open>Streams\<close>

datatype iseq = ISEQ_RUN | ISEQ_SYNC_FLUSH | ISEQ_FULL_FLUSH | ISEQ_FINISH | ISEQ_FULL_BARRIER | ISEQ_END | ISEQ_ERROR

record 'c lzma_internal =
  in_next :: "'c lzma_next_coder"
  in_sequence :: iseq
  in_avail_in :: nat
  in_supported_actions :: "bool list"
  in_allow_buf_error :: bool

text \<open>\<open>st_reserved\<close> says that one of the reserved members is not zero.\<close>

record 'c lzma_stream =
  st_next_in :: "(u8 list \<times> nat) option"
  st_avail_in :: nat
  st_total_in :: u64
  st_next_out :: "(u8 list \<times> nat) option"
  st_avail_out :: nat
  st_total_out :: u64
  st_internal :: "'c lzma_internal option"
  st_reserved :: bool

text \<open>\<open>lzma_bufcpy\<close>: the number of bytes copied, the new input position, output buffer and output position.\<close>

definition lzma_bufcpy :: "u8 list \<Rightarrow> nat \<Rightarrow> nat \<Rightarrow> u8 list \<Rightarrow> nat \<Rightarrow> nat \<Rightarrow> nat \<times> nat \<times> u8 list \<times> nat" where
  "lzma_bufcpy in_buf in_pos in_size out out_pos out_size =
     (let in_avail = in_size - in_pos;
          out_avail = out_size - out_pos;
          copy_size = min in_avail out_avail
      in (copy_size, in_pos + copy_size, buf_write out_pos (take copy_size (drop in_pos in_buf)) out, out_pos + copy_size))"

text \<open>The argument \<open>mem\<close> is the content of the allocated \<open>lzma_internal\<close>, \<open>None\<close> when the allocation fails.\<close>

definition lzma_strm_init :: "'c lzma_internal option \<Rightarrow> 'c lzma_stream option \<Rightarrow> lzma_ret \<times> 'c lzma_stream option" where
  "lzma_strm_init mem strm_ptr =
     (case strm_ptr of
        None \<Rightarrow> (LZMA_PROG_ERROR, None)
      | Some strm \<Rightarrow>
          (case (case st_internal strm of
                   None \<Rightarrow> map_option (\<lambda>i. i\<lparr>in_next := LZMA_NEXT_CODER_INIT\<rparr>) mem
                 | Some i \<Rightarrow> Some i) of
             None \<Rightarrow> (LZMA_MEM_ERROR, Some strm)
           | Some i \<Rightarrow>
               (LZMA_OK,
                Some (strm\<lparr>st_internal := Some (i\<lparr>in_supported_actions := replicate (LZMA_ACTION_MAX + 1) False,
                             in_sequence := ISEQ_RUN, in_allow_buf_error := False\<rparr>),
                           st_total_in := 0, st_total_out := 0\<rparr>))))"

text \<open>The first \<open>switch\<close> of \<open>lzma_code\<close>: \<open>Inl ret\<close> is a return, \<open>Inr\<close> the next sequence state.\<close>

definition iseq_check :: "iseq \<Rightarrow> lzma_action \<Rightarrow> bool \<Rightarrow> lzma_ret + iseq" where
  "iseq_check sq action same_avail =
     (case sq of
        ISEQ_RUN \<Rightarrow>
          Inr (case action of
                 LZMA_RUN \<Rightarrow> ISEQ_RUN
               | LZMA_SYNC_FLUSH \<Rightarrow> ISEQ_SYNC_FLUSH
               | LZMA_FULL_FLUSH \<Rightarrow> ISEQ_FULL_FLUSH
               | LZMA_FINISH \<Rightarrow> ISEQ_FINISH
               | LZMA_FULL_BARRIER \<Rightarrow> ISEQ_FULL_BARRIER
               | LZMA_ACTION_OTHER _ \<Rightarrow> ISEQ_RUN)
      | ISEQ_SYNC_FLUSH \<Rightarrow> if action \<noteq> LZMA_SYNC_FLUSH \<or> \<not> same_avail then Inl LZMA_PROG_ERROR else Inr sq
      | ISEQ_FULL_FLUSH \<Rightarrow> if action \<noteq> LZMA_FULL_FLUSH \<or> \<not> same_avail then Inl LZMA_PROG_ERROR else Inr sq
      | ISEQ_FINISH \<Rightarrow> if action \<noteq> LZMA_FINISH \<or> \<not> same_avail then Inl LZMA_PROG_ERROR else Inr sq
      | ISEQ_FULL_BARRIER \<Rightarrow> if action \<noteq> LZMA_FULL_BARRIER \<or> \<not> same_avail then Inl LZMA_PROG_ERROR else Inr sq
      | ISEQ_END \<Rightarrow> Inl LZMA_STREAM_END
      | ISEQ_ERROR \<Rightarrow> Inl LZMA_PROG_ERROR)"

text \<open>The last \<open>switch\<close>: what becomes of the coder's return code, of \<open>sequence\<close> and of \<open>allow_buf_error\<close>. The default branch
  asserts that a coder does not return \<open>LZMA_BUF_ERROR\<close> itself; the model is the code with \<open>NDEBUG\<close>, and a history of calls
  (below) has the asserted condition as a premise.\<close>

definition code_verdict :: "lzma_ret \<Rightarrow> iseq \<Rightarrow> bool \<Rightarrow> bool \<Rightarrow> lzma_ret \<times> iseq \<times> bool" where
  "code_verdict ret sq allow_buf_error no_progress =
     (case ret of
        LZMA_OK \<Rightarrow>
          if no_progress
          then (if allow_buf_error then (LZMA_BUF_ERROR, sq, allow_buf_error) else (LZMA_OK, sq, True))
          else (LZMA_OK, sq, False)
      | LZMA_TIMED_OUT \<Rightarrow> (LZMA_OK, sq, False)
      | LZMA_STREAM_END \<Rightarrow>
          (LZMA_STREAM_END,
           if sq = ISEQ_SYNC_FLUSH \<or> sq = ISEQ_FULL_FLUSH \<or> sq = ISEQ_FULL_BARRIER then ISEQ_RUN else ISEQ_END, False)
      | LZMA_NO_CHECK \<Rightarrow> (ret, sq, False)
      | LZMA_UNSUPPORTED_CHECK \<Rightarrow> (ret, sq, False)
      | LZMA_GET_CHECK \<Rightarrow> (ret, sq, False)
      | LZMA_MEMLIMIT_ERROR \<Rightarrow> (ret, sq, False)
      | _ \<Rightarrow> (ret, ISEQ_ERROR, allow_buf_error))"

text \<open>The object a pointer points at, from the pointer on, and the write-back of its new content.\<close>

definition at_ptr :: "(u8 list \<times> nat) option \<Rightarrow> u8 list" where
  "at_ptr p = (case p of None \<Rightarrow> [] | Some (buf, off) \<Rightarrow> drop off buf)"

definition ptr_add :: "(u8 list \<times> nat) option \<Rightarrow> nat \<Rightarrow> (u8 list \<times> nat) option" where
  "ptr_add p n = map_option (\<lambda>(buf, off). (buf, off + n)) p"

definition ptr_store :: "(u8 list \<times> nat) option \<Rightarrow> u8 list \<Rightarrow> (u8 list \<times> nat) option" where
  "ptr_store p content = map_option (\<lambda>(buf, off). (take off buf @ content, off)) p"

definition lzma_code :: "'c lzma_stream \<Rightarrow> lzma_action \<Rightarrow> (lzma_ret \<times> 'c lzma_stream) option" where
  "lzma_code strm action =
     (case st_internal strm of
        None \<Rightarrow> Some (LZMA_PROG_ERROR, strm)
      | Some i \<Rightarrow>
      (case nc_code (in_next i) of
        None \<Rightarrow> Some (LZMA_PROG_ERROR, strm)
      | Some code \<Rightarrow>
          if (st_next_in strm = None \<and> st_avail_in strm \<noteq> 0) \<or> (st_next_out strm = None \<and> st_avail_out strm \<noteq> 0)
             \<or> action_index action > LZMA_ACTION_MAX \<or> \<not> in_supported_actions i ! action_index action
          then Some (LZMA_PROG_ERROR, strm)
          else if st_reserved strm then Some (LZMA_OPTIONS_ERROR, strm)
          else
            (case iseq_check (in_sequence i) action (in_avail_in i = st_avail_in strm) of
               Inl ret \<Rightarrow> Some (ret, strm)
             | Inr sq \<Rightarrow>
                 (case code (the (nc_coder (in_next i))) (at_ptr (st_next_in strm)) 0 (st_avail_in strm)
                         (at_ptr (st_next_out strm)) 0 (st_avail_out strm) action of
                    None \<Rightarrow> None
                  | Some (ret, coder, in_pos, out, out_pos) \<Rightarrow>
                      (case code_verdict ret sq (in_allow_buf_error i) (out_pos = 0 \<and> in_pos = 0) of
                         (ret, sq, allow) \<Rightarrow>
                           Some (ret,
                             strm\<lparr>st_next_in := ptr_add (st_next_in strm) in_pos,
                                  st_avail_in := st_avail_in strm - in_pos,
                                  st_total_in := st_total_in strm + of_nat in_pos,
                                  st_next_out := ptr_add (ptr_store (st_next_out strm) out) out_pos,
                                  st_avail_out := st_avail_out strm - out_pos,
                                  st_total_out := st_total_out strm + of_nat out_pos,
                                  st_internal := Some (i\<lparr>in_next := (in_next i)\<lparr>nc_coder := Some coder\<rparr>,
                                     in_sequence := sq, in_avail_in := st_avail_in strm - in_pos,
                                     in_allow_buf_error := allow\<rparr>)\<rparr>))))))"

definition lzma_end :: "'c lzma_stream option \<Rightarrow> 'c lzma_stream option" where
  "lzma_end strm_ptr = map_option (\<lambda>strm. strm\<lparr>st_internal := None\<rparr>) strm_ptr"

text \<open>The macro \<open>lzma_next_strm_init\<close>: initialise the stream, then its coder with \<open>func\<close>, and free everything when
  that fails.\<close>

definition lzma_next_strm_init ::
  "('c lzma_next_coder \<Rightarrow> lzma_ret \<times> 'c lzma_next_coder) \<Rightarrow> 'c lzma_internal option \<Rightarrow> 'c lzma_stream option
     \<Rightarrow> lzma_ret \<times> 'c lzma_stream option"
where
  "lzma_next_strm_init func mem strm =
     (case lzma_strm_init mem strm of (ret, strm) \<Rightarrow>
        if ret \<noteq> LZMA_OK then (ret, strm)
        else
          (case func (in_next (the (st_internal (the strm)))) of (ret, nxt) \<Rightarrow>
             (let strm = map_option (\<lambda>s. s\<lparr>st_internal := map_option (\<lambda>i. i\<lparr>in_next := nxt\<rparr>) (st_internal s)\<rparr>) strm
              in if ret \<noteq> LZMA_OK then (ret, lzma_end strm) else (LZMA_OK, strm))))"

text \<open>Setting \<open>strm->internal->supported_actions[action]\<close>.\<close>

definition support_action :: "lzma_action \<Rightarrow> 'c lzma_stream option \<Rightarrow> 'c lzma_stream option" where
  "support_action action strm =
     map_option (\<lambda>s. s\<lparr>st_internal := map_option
       (\<lambda>i. i\<lparr>in_supported_actions := (in_supported_actions i)[action_index action := True]\<rparr>) (st_internal s)\<rparr>) strm"

definition lzma_get_progress :: "'c lzma_stream \<Rightarrow> u64 \<times> u64" where
  "lzma_get_progress strm =
     (let nxt = in_next (the (st_internal strm))
      in case nc_get_progress nxt of
           Some f \<Rightarrow> f (the (nc_coder nxt))
         | None \<Rightarrow> (st_total_in strm, st_total_out strm))"

definition lzma_get_check :: "'c lzma_stream \<Rightarrow> u32" where
  "lzma_get_check strm =
     (let nxt = in_next (the (st_internal strm))
      in case nc_get_check nxt of None \<Rightarrow> LZMA_CHECK_NONE | Some f \<Rightarrow> f (the (nc_coder nxt)))"

text \<open>The guard shared by the three memory functions: the stream's \<open>memconfig\<close> applied to its coder.\<close>

definition strm_memconfig :: "'c lzma_stream option \<Rightarrow> u64 \<Rightarrow> (lzma_ret \<times> 'c \<times> u64 \<times> u64) option" where
  "strm_memconfig strm new_memlimit =
     (case strm of
        None \<Rightarrow> None
      | Some s \<Rightarrow>
          (case st_internal s of
             None \<Rightarrow> None
           | Some i \<Rightarrow> map_option (\<lambda>f. f (the (nc_coder (in_next i))) new_memlimit) (nc_memconfig (in_next i))))"

definition lzma_memusage :: "'c lzma_stream option \<Rightarrow> u64" where
  "lzma_memusage strm =
     (case strm_memconfig strm 0 of
        None \<Rightarrow> 0
      | Some (ret, coder, memusage, old_memlimit) \<Rightarrow> if ret \<noteq> LZMA_OK then 0 else memusage)"

definition lzma_memlimit_get :: "'c lzma_stream option \<Rightarrow> u64" where
  "lzma_memlimit_get strm =
     (case strm_memconfig strm 0 of
        None \<Rightarrow> 0
      | Some (ret, coder, memusage, old_memlimit) \<Rightarrow> if ret \<noteq> LZMA_OK then 0 else old_memlimit)"

definition lzma_memlimit_set :: "'c lzma_stream option \<Rightarrow> u64 \<Rightarrow> lzma_ret \<times> 'c lzma_stream option" where
  "lzma_memlimit_set strm new_memlimit =
     (case strm_memconfig strm new_memlimit of
        None \<Rightarrow> (LZMA_PROG_ERROR, strm)
      | Some (ret, coder, memusage, old_memlimit) \<Rightarrow>
          if new_memlimit \<noteq> 0 \<and> new_memlimit < LZMA_MEMUSAGE_BASE then (LZMA_MEMLIMIT_ERROR, strm)
          else
            (ret, map_option (\<lambda>s. s\<lparr>st_internal := map_option
               (\<lambda>i. i\<lparr>in_next := (in_next i)\<lparr>nc_coder := Some coder\<rparr>\<rparr>) (st_internal s)\<rparr>) strm))"

section \<open>A call that reaches the coder\<close>

definition code_args_ok :: "'c lzma_stream \<Rightarrow> 'c lzma_internal \<Rightarrow> lzma_action \<Rightarrow> bool" where
  "code_args_ok strm i action \<longleftrightarrow>
     \<not> ((st_next_in strm = None \<and> st_avail_in strm \<noteq> 0) \<or> (st_next_out strm = None \<and> st_avail_out strm \<noteq> 0)
        \<or> action_index action > LZMA_ACTION_MAX \<or> \<not> in_supported_actions i ! action_index action)"

definition strm_after ::
  "'c lzma_stream \<Rightarrow> 'c lzma_internal \<Rightarrow> 'c \<Rightarrow> nat \<Rightarrow> u8 list \<Rightarrow> nat \<Rightarrow> iseq \<Rightarrow> bool \<Rightarrow> 'c lzma_stream"
where
  "strm_after strm i c n out m sq allow =
     strm\<lparr>st_next_in := ptr_add (st_next_in strm) n, st_avail_in := st_avail_in strm - n,
          st_total_in := st_total_in strm + of_nat n, st_next_out := ptr_add (ptr_store (st_next_out strm) out) m,
          st_avail_out := st_avail_out strm - m, st_total_out := st_total_out strm + of_nat m,
          st_internal := Some (i\<lparr>in_next := (in_next i)\<lparr>nc_coder := Some c\<rparr>, in_sequence := sq,
             in_avail_in := st_avail_in strm - n, in_allow_buf_error := allow\<rparr>)\<rparr>"

definition reaches_coder ::
  "'c lzma_stream \<Rightarrow> lzma_action \<Rightarrow> 'c lzma_internal \<Rightarrow> iseq \<Rightarrow> lzma_ret \<Rightarrow> 'c \<Rightarrow> nat \<Rightarrow> u8 list \<Rightarrow> nat \<Rightarrow> bool"
where
  "reaches_coder strm action i sq ret c' n out m \<longleftrightarrow>
     st_internal strm = Some i \<and> code_args_ok strm i action \<and> \<not> st_reserved strm
     \<and> iseq_check (in_sequence i) action (in_avail_in i = st_avail_in strm) = Inr sq
     \<and> (\<exists>code. nc_code (in_next i) = Some code
          \<and> code (the (nc_coder (in_next i))) (at_ptr (st_next_in strm)) 0 (st_avail_in strm) (at_ptr (st_next_out strm)) 0
              (st_avail_out strm) action = Some (ret, c', n, out, m))"

lemma lzma_code_reaches:
  assumes "reaches_coder strm action i sq ret c' n out m"
    and v: "code_verdict ret sq (in_allow_buf_error i) (m = 0 \<and> n = 0) = (ret', sq', allow)"
  shows "lzma_code strm action = Some (ret', strm_after strm i c' n out m sq' allow)"
proof -
  obtain code where i: "st_internal strm = Some i" "nc_code (in_next i) = Some code" and args: "code_args_ok strm i action"
    and res: "\<not> st_reserved strm" and sq: "iseq_check (in_sequence i) action (in_avail_in i = st_avail_in strm) = Inr sq"
    and run: "code (the (nc_coder (in_next i))) (at_ptr (st_next_in strm)) 0 (st_avail_in strm) (at_ptr (st_next_out strm)) 0
      (st_avail_out strm) action = Some (ret, c', n, out, m)"
    using assms(1) unfolding reaches_coder_def by blast
  show ?thesis
    unfolding lzma_code_def i option.case if_not_P [OF args [unfolded code_args_ok_def]] if_not_P [OF res] sq sum.case
      run prod.case v strm_after_def ..
qed

lemma lzma_code_run:
  assumes "st_internal strm = Some i" "nc_code (in_next i) = Some code" "nc_coder (in_next i) = Some c"
    and "code_args_ok strm i action" "\<not> st_reserved strm"
    and "iseq_check (in_sequence i) action (in_avail_in i = st_avail_in strm) = Inr sq"
    and "code c (at_ptr (st_next_in strm)) 0 (st_avail_in strm) (at_ptr (st_next_out strm)) 0 (st_avail_out strm) action
      = Some (ret, c', n, out, m)"
    and v: "code_verdict ret sq (in_allow_buf_error i) (m = 0 \<and> n = 0) = (ret', sq', allow)"
  shows "lzma_code strm action = Some (ret', strm_after strm i c' n out m sq' allow)"
  using assms by (intro lzma_code_reaches [OF _ v]) (simp add: reaches_coder_def)

lemma lzma_code_rejects:
  assumes "\<nexists>i sq ret c' n out m. reaches_coder strm action i sq ret c' n out m" "lzma_code strm action = Some (ret', strm')"
  shows "strm' = strm"
proof (cases "st_internal strm")
  case (Some i)
  show ?thesis
  proof (cases "nc_code (in_next i)")
    case code: (Some code)
    have "Option.is_none (code (the (nc_coder (in_next i))) (at_ptr (st_next_in strm)) 0 (st_avail_in strm) (at_ptr (st_next_out strm)) 0
      (st_avail_out strm) action)" if "code_args_ok strm i action" "\<not> st_reserved strm"
        "iseq_check (in_sequence i) action (in_avail_in i = st_avail_in strm) = Inr sq" for sq
      using assms(1) Some code that unfolding reaches_coder_def Option.is_none_def by (metis not_None_eq prod_cases5)
    then show ?thesis
      using assms(2) Some code unfolding lzma_code_def code_args_ok_def
      by (auto simp: Option.is_none_def split: if_splits sum.splits option.splits)
  qed (use assms(2) Some in \<open>simp add: lzma_code_def\<close>)
qed (use assms(2) in \<open>simp add: lzma_code_def\<close>)

lemma lzma_code_guards:
  assumes "st_internal strm = Some i" "nc_code (in_next i) = Some code"
  shows "\<not> code_args_ok strm i action \<Longrightarrow> lzma_code strm action = Some (LZMA_PROG_ERROR, strm)"
    and "code_args_ok strm i action \<Longrightarrow> st_reserved strm \<Longrightarrow> lzma_code strm action = Some (LZMA_OPTIONS_ERROR, strm)"
    and "code_args_ok strm i action \<Longrightarrow> \<not> st_reserved strm \<Longrightarrow>
      iseq_check (in_sequence i) action (in_avail_in i = st_avail_in strm) = Inl ret \<Longrightarrow> lzma_code strm action = Some (ret, strm)"
  unfolding lzma_code_def assms option.case code_args_ok_def by (simp_all only: simp_thms if_True if_False sum.case)

section \<open>What callers rely on\<close>

text \<open>The interface between \<open>lzma_code\<close>, the containers and a coder: from a state that satisfies its invariant a coder
  returns, with positions that only move forward and stay within the buffers, output of the same extent in which
  nothing outside the given window changes, and a state that satisfies the invariant again, unless the return code is
  one after which \<open>lzma_code\<close> does not call the coder again.\<close>

definition fatal :: "lzma_ret \<Rightarrow> bool" where
  "fatal ret \<longleftrightarrow> ret \<in> {LZMA_MEM_ERROR, LZMA_FORMAT_ERROR, LZMA_OPTIONS_ERROR, LZMA_DATA_ERROR, LZMA_BUF_ERROR, LZMA_PROG_ERROR}"

lemma fatal_simps [simp]:
  "\<not> fatal LZMA_OK" "\<not> fatal LZMA_STREAM_END" "\<not> fatal LZMA_TIMED_OUT" "\<not> fatal LZMA_MEMLIMIT_ERROR"
  "fatal LZMA_DATA_ERROR" "fatal LZMA_OPTIONS_ERROR" "fatal LZMA_MEM_ERROR" "fatal LZMA_PROG_ERROR" "fatal LZMA_FORMAT_ERROR"
  by (simp_all add: fatal_def)

definition window_kept :: "u8 list \<Rightarrow> nat \<Rightarrow> nat \<Rightarrow> u8 list \<Rightarrow> bool" where
  "window_kept out out_pos out_size out' \<longleftrightarrow>
     length out' = length out \<and> take out_pos out' = take out_pos out \<and> drop out_size out' = drop out_size out"

lemma window_kept_refl [simp]: "window_kept out p n out"
  by (simp add: window_kept_def)

lemma window_kept_trans:
  assumes "window_kept out p n out'" "window_kept out' p' n out''" "p \<le> p'"
  shows "window_kept out p n out''"
proof -
  have "take p out'' = take p (take p' out'')" using assms(3) by (simp add: min_def)
  also have "\<dots> = take p (take p' out')" using assms(2) by (simp add: window_kept_def)
  also have "\<dots> = take p out" using assms(1,3) by (simp add: window_kept_def min_def)
  finally show ?thesis using assms(1,2) by (simp add: window_kept_def)
qed

lemma window_kept_write:
  assumes "window_kept out p n out'" "p + length bs \<le> n" "n \<le> length out"
  shows "window_kept out p n (buf_write p bs out')"
proof -
  have l: "p + length bs \<le> length out'" using assms by (simp add: window_kept_def)
  have "drop n (buf_write p bs out') = drop n out'"
    using assms(2) l unfolding buf_write_in [OF l] by simp
  moreover have "take p (buf_write p bs out') = take p out'"
    using assms by (intro take_buf_write) (auto simp: window_kept_def)
  ultimately show ?thesis using assms(1) by (simp add: window_kept_def)
qed

definition code_ok ::
  "('c \<Rightarrow> bool) \<Rightarrow> nat \<Rightarrow> nat \<Rightarrow> u8 list \<Rightarrow> nat \<Rightarrow> nat \<Rightarrow> 'c code_result option \<Rightarrow> bool"
where
  "code_ok good in_pos in_size out out_pos out_size res \<longleftrightarrow>
     (case res of
        None \<Rightarrow> False
      | Some (ret, c, in_pos', out', out_pos') \<Rightarrow>
          (\<not> fatal ret \<longrightarrow> good c) \<and> in_pos \<le> in_pos' \<and> in_pos' \<le> in_size \<and> out_pos \<le> out_pos' \<and> out_pos' \<le> out_size
          \<and> window_kept out out_pos out_size out')"

text \<open>A stream whose coder is in a good state, or will not be called any more, and whose pointers and sizes fit its buffers.\<close>

definition strm_ok :: "'c lzma_code_function \<Rightarrow> ('c \<Rightarrow> bool) \<Rightarrow> 'c lzma_stream \<Rightarrow> bool" where
  "strm_ok code good strm \<longleftrightarrow>
     (\<exists>i c. st_internal strm = Some i \<and> nc_code (in_next i) = Some code \<and> nc_coder (in_next i) = Some c
        \<and> (in_sequence i \<noteq> ISEQ_ERROR \<longrightarrow> good c))
     \<and> (case st_next_in strm of None \<Rightarrow> st_avail_in strm = 0 | Some (buf, off) \<Rightarrow> off + st_avail_in strm \<le> length buf)
     \<and> (case st_next_out strm of None \<Rightarrow> st_avail_out strm = 0 | Some (buf, off) \<Rightarrow> off + st_avail_out strm \<le> length buf)"

text \<open>The bytes between two positions of a buffer.\<close>

definition span :: "u8 list \<Rightarrow> nat \<Rightarrow> nat \<Rightarrow> u8 list" where
  "span buf p q = take (q - p) (drop p buf)"

lemma span_self [simp]: "span buf p p = []"
  by (simp add: span_def)

lemma length_span: "q \<le> length buf \<Longrightarrow> length (span buf p q) = q - p"
  by (simp add: span_def)

lemma span_append: "p \<le> q \<Longrightarrow> q \<le> r \<Longrightarrow> span buf p q @ span buf q r = span buf p r"
  unfolding span_def by (metis (no_types) drop_drop le_add_diff_inverse2 le_add_diff_inverse Nat.add_diff_assoc2 take_add)

lemma span_Suc: "p < length buf \<Longrightarrow> p < q \<Longrightarrow> span buf p q = buf ! p # span buf (Suc p) q"
  by (simp add: span_def Suc_diff_Suc [symmetric] Cons_nth_drop_Suc [symmetric] del: Suc_diff_Suc)

text \<open>A sequence of calls to a coder of which all but the last returned \<open>LZMA_OK\<close>: the input bytes consumed and the
  output bytes produced in all, the last return code and the final state. The buffers of a call fit in the
  address space.\<close>

inductive coder_run :: "'c lzma_code_function \<Rightarrow> 'c \<Rightarrow> u8 list \<Rightarrow> u8 list \<Rightarrow> lzma_ret \<Rightarrow> 'c \<Rightarrow> bool"
  for code :: "'c lzma_code_function" and c0 :: 'c where
  first: "code c0 in_buf in_pos in_size out out_pos out_size action = Some (ret, c', in_pos', out', out_pos') \<Longrightarrow>
     in_pos \<le> in_size \<Longrightarrow> in_size \<le> length in_buf \<Longrightarrow> out_pos \<le> out_size \<Longrightarrow> out_size \<le> length out \<Longrightarrow>
     length in_buf < 2 ^ 64 \<Longrightarrow> length out < 2 ^ 64 \<Longrightarrow>
     coder_run code c0 (span in_buf in_pos in_pos') (span out' out_pos out_pos') ret c'"
| again: "coder_run code c0 ins outs LZMA_OK c \<Longrightarrow>
     code c in_buf in_pos in_size out out_pos out_size action = Some (ret, c', in_pos', out', out_pos') \<Longrightarrow>
     in_pos \<le> in_size \<Longrightarrow> in_size \<le> length in_buf \<Longrightarrow> out_pos \<le> out_size \<Longrightarrow> out_size \<le> length out \<Longrightarrow>
     length in_buf < 2 ^ 64 \<Longrightarrow> length out < 2 ^ 64 \<Longrightarrow>
     coder_run code c0 (ins @ span in_buf in_pos in_pos') (outs @ span out' out_pos out_pos') ret c'"

text \<open>An invariant that relates the state to the bytes seen so far, carried through a run.\<close>

lemma coder_run_invariant:
  assumes "coder_run code c0 ins outs ret c" "I c0 [] []"
    and step: "\<And>c ins outs in_buf in_pos in_size out out_pos out_size action ret c' in_pos' out' out_pos'.
      I c ins outs \<Longrightarrow> code c in_buf in_pos in_size out out_pos out_size action = Some (ret, c', in_pos', out', out_pos') \<Longrightarrow>
      in_pos \<le> in_size \<Longrightarrow> in_size \<le> length in_buf \<Longrightarrow> out_pos \<le> out_size \<Longrightarrow> out_size \<le> length out \<Longrightarrow>
      length in_buf < 2 ^ 64 \<Longrightarrow> length out < 2 ^ 64 \<Longrightarrow>
      (ret = LZMA_OK \<longrightarrow> I c' (ins @ span in_buf in_pos in_pos') (outs @ span out' out_pos out_pos'))
      \<and> J ret c' (ins @ span in_buf in_pos in_pos') (outs @ span out' out_pos out_pos')"
  shows "(ret = LZMA_OK \<longrightarrow> I c ins outs) \<and> J ret c ins outs"
  using assms(1)
proof induction
  case (first in_buf in_pos in_size out out_pos out_size action ret c' in_pos' out' out_pos')
  then show ?case using step [OF assms(2) first] by simp
next
  case (again ins outs c in_buf in_pos in_size out out_pos out_size action ret c' in_pos' out' out_pos')
  then show ?case using step [OF _ again(2-8)] by blast
qed

locale bounded_coder =
  fixes code :: "'c lzma_code_function"
    and good :: "'c \<Rightarrow> bool"
  assumes step: "good c \<Longrightarrow> in_pos \<le> in_size \<Longrightarrow> in_size \<le> length in_buf \<Longrightarrow> out_pos \<le> out_size \<Longrightarrow> out_size \<le> length out \<Longrightarrow>
      code_ok good in_pos in_size out out_pos out_size (code c in_buf in_pos in_size out out_pos out_size action)"
begin

lemma stepE:
  assumes "good c" "in_pos \<le> in_size" "in_size \<le> length in_buf" "out_pos \<le> out_size" "out_size \<le> length out"
  obtains ret c' in_pos' out' out_pos' where
    "code c in_buf in_pos in_size out out_pos out_size action = Some (ret, c', in_pos', out', out_pos')"
    "\<not> fatal ret \<longrightarrow> good c'" "in_pos \<le> in_pos'" "in_pos' \<le> in_size" "out_pos \<le> out_pos'" "out_pos' \<le> out_size"
    "window_kept out out_pos out_size out'"
  using step [OF assms, of action] by (auto simp: code_ok_def split: option.splits prod.splits)

lemma lzma_code_ok:
  assumes "strm_ok code good strm"
  obtains ret strm' where "lzma_code strm action = Some (ret, strm')" "strm_ok code good strm'"
    "strm' = strm \<or> (\<exists>i c n out m sq allow. n \<le> st_avail_in strm \<and> m \<le> st_avail_out strm
       \<and> window_kept (at_ptr (st_next_out strm)) 0 (st_avail_out strm) out \<and> strm' = strm_after strm i c n out m sq allow)"
proof -
  obtain i c where i: "st_internal strm = Some i" "nc_code (in_next i) = Some code" "nc_coder (in_next i) = Some c"
    "in_sequence i \<noteq> ISEQ_ERROR \<Longrightarrow> good c"
    using assms by (auto simp: strm_ok_def)
  have inb: "st_avail_in strm \<le> length (at_ptr (st_next_in strm))" and outb: "st_avail_out strm \<le> length (at_ptr (st_next_out strm))"
    using assms by (auto simp: strm_ok_def at_ptr_def split: option.splits)
  note guards = lzma_code_guards [OF i(1,2)]
  show thesis
  proof (cases "code_args_ok strm i action \<and> \<not> st_reserved strm")
    case True
    show thesis
    proof (cases "iseq_check (in_sequence i) action (in_avail_in i = st_avail_in strm)")
      case (Inl ret)
      then show thesis using guards(3) True assms that by blast
    next
      case (Inr sq)
      then have "good c" using i(4) by (cases "in_sequence i") (auto simp: iseq_check_def)
      then obtain ret c' n out m where run: "code c (at_ptr (st_next_in strm)) 0 (st_avail_in strm) (at_ptr (st_next_out strm)) 0
            (st_avail_out strm) action = Some (ret, c', n, out, m)"
        and good: "\<not> fatal ret \<longrightarrow> good c'" and b: "n \<le> st_avail_in strm" "m \<le> st_avail_out strm"
          "window_kept (at_ptr (st_next_out strm)) 0 (st_avail_out strm) out"
        by (rule stepE [OF _ _ inb _ outb, of c 0 0 action]) auto
      obtain ret' sq' allow where v: "code_verdict ret sq (in_allow_buf_error i) (m = 0 \<and> n = 0) = (ret', sq', allow)"
        by (metis prod_cases3)
      have "sq' \<noteq> ISEQ_ERROR \<Longrightarrow> good c'" using v good by (cases ret) (auto simp: code_verdict_def fatal_def)
      then have "strm_ok code good (strm_after strm i c' n out m sq' allow)"
        using assms b by (auto simp: strm_ok_def strm_after_def i(1-3) ptr_add_def ptr_store_def at_ptr_def window_kept_def split: option.splits)
      then show thesis using lzma_code_run [OF i(1-3) _ _ Inr run v] True b that by blast
    qed
  next
    case False
    then show thesis using guards(1,2) assms that by blast
  qed
qed

end

section \<open>Properties\<close>

text \<open>C30. Bookkeeping of \<open>lzma_code\<close>. Over a coder that keeps its contract, and from a stream whose pointers and sizes fit
  its buffers, every call returns, whatever the action; afterwards the pointers and sizes fit again, the end of
  the input window and of the output window has not moved, the input buffer is unchanged, the output buffer has
  changed at most inside the window, and \<open>total_in\<close> and \<open>total_out\<close> have advanced (modulo the width) by
  exactly the bytes by which \<open>avail_in\<close> and \<open>avail_out\<close> have shrunk.\<close>

theorem lzma_code_bookkeeping:
  assumes "bounded_coder code good" "strm_ok code good strm"
    and "st_next_in strm = Some (ibuf, ioff)" "st_next_out strm = Some (obuf, ooff)"
  shows "\<exists>ret strm' n m obuf'. lzma_code strm action = Some (ret, strm') \<and> strm_ok code good strm'
    \<and> n \<le> st_avail_in strm \<and> m \<le> st_avail_out strm
    \<and> st_next_in strm' = Some (ibuf, ioff + n) \<and> st_avail_in strm' = st_avail_in strm - n
    \<and> st_total_in strm' = st_total_in strm + of_nat n
    \<and> st_next_out strm' = Some (obuf', ooff + m) \<and> st_avail_out strm' = st_avail_out strm - m
    \<and> st_total_out strm' = st_total_out strm + of_nat m
    \<and> window_kept obuf ooff (ooff + st_avail_out strm) obuf'"
proof -
  obtain ret strm' where run: "lzma_code strm action = Some (ret, strm')" and ok: "strm_ok code good strm'"
    and cs: "strm' = strm \<or> (\<exists>i c n out m sq allow. n \<le> st_avail_in strm \<and> m \<le> st_avail_out strm
       \<and> window_kept (at_ptr (st_next_out strm)) 0 (st_avail_out strm) out \<and> strm' = strm_after strm i c n out m sq allow)"
    using bounded_coder.lzma_code_ok [OF assms(1,2)] by metis
  have off: "ooff + st_avail_out strm \<le> length obuf"
    using assms(2,4) by (simp add: strm_ok_def)
  show ?thesis
  proof (cases "strm' = strm")
    case True
    then show ?thesis using run ok assms(3,4)
      by (intro exI [of _ ret] exI [of _ strm] exI [of _ 0] exI [of _ 0] exI [of _ obuf]) simp
  next
    case False
    then obtain i c n out m sq allow where w: "n \<le> st_avail_in strm" "m \<le> st_avail_out strm"
      "window_kept (drop ooff obuf) 0 (st_avail_out strm) out" "strm' = strm_after strm i c n out m sq allow"
      using cs assms(4) by (auto simp: at_ptr_def)
    have "window_kept obuf ooff (ooff + st_avail_out strm) (take ooff obuf @ out)"
      using w(3) off by (auto simp: window_kept_def min_def add.commute [of ooff])
    then show ?thesis using run ok w assms(3,4)
      by (intro exI [of _ ret] exI [of _ strm'] exI [of _ n] exI [of _ m] exI [of _ "take ooff obuf @ out"])
        (simp add: strm_after_def ptr_add_def ptr_store_def)
  qed
qed

section \<open>Histories of calls\<close>

text \<open>What a call of \<open>lzma_code\<close> that reached the coder was: the action, the coder's return code, the bytes it read and wrote,
  and the return code of \<open>lzma_code\<close>.\<close>

record code_event =
  ev_action :: lzma_action
  ev_coder :: lzma_ret
  ev_in :: nat
  ev_out :: nat
  ev_ret :: lzma_ret

definition stalled :: "code_event \<Rightarrow> bool" where
  "stalled e \<longleftrightarrow> ev_coder e = LZMA_OK \<and> ev_in e = 0 \<and> ev_out e = 0"

text \<open>The life of a stream: initialisation, the actions it supports, and then calls, between which the application sets
  the buffers as it likes. Only the calls that reach the coder are events.\<close>

inductive code_history :: "code_event list \<Rightarrow> 'c lzma_stream \<Rightarrow> bool" where
  init: "lzma_next_strm_init func mem strm0 = (LZMA_OK, Some strm) \<Longrightarrow> code_history [] strm"
| support: "code_history [] strm \<Longrightarrow> support_action action (Some strm) = Some strm' \<Longrightarrow> code_history [] strm'"
| buffers: "code_history h strm \<Longrightarrow>
     code_history h (strm\<lparr>st_next_in := next_in, st_avail_in := avail_in, st_next_out := next_out, st_avail_out := avail_out\<rparr>)"
| rejected: "code_history h strm \<Longrightarrow> \<nexists>i sq ret c' n out m. reaches_coder strm action i sq ret c' n out m \<Longrightarrow>
     lzma_code strm action = Some (ret', strm') \<Longrightarrow> code_history h strm'"
| call: "code_history h strm \<Longrightarrow> reaches_coder strm action i sq ret c' n out m \<Longrightarrow> ret \<noteq> LZMA_BUF_ERROR \<Longrightarrow>
     lzma_code strm action = Some (ret', strm') \<Longrightarrow>
     code_history (h @ [\<lparr>ev_action = action, ev_coder = ret, ev_in = n, ev_out = m, ev_ret = ret'\<rparr>]) strm'"

text \<open>The state of \<open>sequence\<close> in which an action is carried out, and the one after an event.\<close>

definition action_seq :: "lzma_action \<Rightarrow> iseq" where
  "action_seq action =
     (case action of
        LZMA_RUN \<Rightarrow> ISEQ_RUN | LZMA_SYNC_FLUSH \<Rightarrow> ISEQ_SYNC_FLUSH | LZMA_FULL_FLUSH \<Rightarrow> ISEQ_FULL_FLUSH | LZMA_FINISH \<Rightarrow> ISEQ_FINISH
      | LZMA_FULL_BARRIER \<Rightarrow> ISEQ_FULL_BARRIER | LZMA_ACTION_OTHER _ \<Rightarrow> ISEQ_RUN)"

definition seq_after :: "code_event \<Rightarrow> iseq" where
  "seq_after e =
     (if fatal (ev_coder e) then ISEQ_ERROR
      else if ev_coder e = LZMA_STREAM_END
      then (if ev_action e \<in> {LZMA_SYNC_FLUSH, LZMA_FULL_FLUSH, LZMA_FULL_BARRIER} then ISEQ_RUN else ISEQ_END)
      else action_seq (ev_action e))"

lemma iseq_check_seq: "iseq_check sq action b = Inr sq' \<Longrightarrow> sq' = action_seq action \<and> sq \<noteq> ISEQ_ERROR"
  by (cases sq; cases action) (auto simp: iseq_check_def action_seq_def split: if_splits)

definition event_ret :: "bool \<Rightarrow> code_event \<Rightarrow> lzma_ret" where
  "event_ret pending e =
     (if stalled e \<and> pending then LZMA_BUF_ERROR else if ev_coder e = LZMA_TIMED_OUT then LZMA_OK else ev_coder e)"

lemma code_verdict_event:
  assumes "code_verdict ret (action_seq a) allow (m = 0 \<and> n = 0) = (ret', sq', allow')" "ret \<noteq> LZMA_BUF_ERROR"
    and "e = \<lparr>ev_action = a, ev_coder = ret, ev_in = n, ev_out = m, ev_ret = ret'\<rparr>"
  shows "sq' = seq_after e" "sq' \<noteq> ISEQ_ERROR \<Longrightarrow> allow' = stalled e"
    "ret' = event_ret allow e"
  using assms(1,2) unfolding assms(3)
  by (cases ret; cases a; auto simp: code_verdict_def event_ret_def seq_after_def stalled_def action_seq_def fatal_def split: if_splits)+

definition stall_pending :: "code_event list \<Rightarrow> bool" where
  "stall_pending h \<longleftrightarrow> h \<noteq> [] \<and> stalled (last h)"

text \<open>\<open>allow_buf_error\<close> records whether the last event was a stall, \<open>sequence\<close> what its action and its return code lead to.\<close>

definition history_inv :: "code_event list \<Rightarrow> 'c lzma_stream \<Rightarrow> bool" where
  "history_inv h strm \<longleftrightarrow>
     (\<exists>i. st_internal strm = Some i \<and> in_sequence i = (if h = [] then ISEQ_RUN else seq_after (last h))
        \<and> (in_sequence i \<noteq> ISEQ_ERROR \<longrightarrow> in_allow_buf_error i = stall_pending h)
        \<and> (h \<noteq> [] \<longrightarrow> \<not> st_reserved strm \<and> nc_code (in_next i) \<noteq> None \<and> ev_coder (last h) \<noteq> LZMA_BUF_ERROR
             \<and> ev_ret (last h) = event_ret (stall_pending (butlast h)) (last h)))"

lemma next_strm_init_state:
  assumes "lzma_next_strm_init func mem strm0 = (LZMA_OK, Some strm)"
  shows "\<exists>i. st_internal strm = Some i \<and> in_sequence i = ISEQ_RUN \<and> \<not> in_allow_buf_error i"
  using assms by (auto simp: lzma_next_strm_init_def lzma_strm_init_def Let_def split: option.splits prod.splits if_splits)

lemma code_history_inv: "code_history h strm \<Longrightarrow> history_inv h strm"
proof (induction rule: code_history.induct)
  case (init func mem strm0 strm)
  from next_strm_init_state [OF this] show ?case by (auto simp: history_inv_def stall_pending_def)
next
  case (support strm action strm')
  then show ?case by (auto simp: history_inv_def support_action_def)
next
  case (buffers h strm next_in avail_in next_out avail_out)
  then show ?case by (simp add: history_inv_def)
next
  case (rejected h strm action ret' strm')
  then show ?case using lzma_code_rejects by blast
next
  case (call h strm action i sq ret c' n out m ret' strm')
  let ?e = "\<lparr>ev_action = action, ev_coder = ret, ev_in = n, ev_out = m, ev_ret = ret'\<rparr>"
  have i: "st_internal strm = Some i" "\<not> st_reserved strm" "nc_code (in_next i) \<noteq> None"
    and sq: "iseq_check (in_sequence i) action (in_avail_in i = st_avail_in strm) = Inr sq"
    using call.hyps(2) by (auto simp: reaches_coder_def)
  have allow: "in_allow_buf_error i = stall_pending h"
    using call.IH i(1) iseq_check_seq [OF sq] by (auto simp: history_inv_def)
  obtain r sq' allow' where v: "code_verdict ret sq (in_allow_buf_error i) (m = 0 \<and> n = 0) = (r, sq', allow')" by (metis prod_cases3)
  from lzma_code_reaches [OF call.hyps(2) this] call.hyps(4)
  have r: "r = ret'" "strm' = strm_after strm i c' n out m sq' allow'" by simp_all
  note v' = v [unfolded r(1) iseq_check_seq [OF sq, THEN conjunct1]]
  note e = code_verdict_event [OF v' call.hyps(3) refl]
  show ?case
    using e i(2,3) allow call.hyps(3) by (simp add: history_inv_def r(2) strm_after_def stall_pending_def)
qed

section \<open>The states of a stream\<close>

text \<open>C31. The states of \<open>lzma_code\<close>, over every history of a stream from its initialisation on. A call that reaches the coder
  returns \<open>LZMA_BUF_ERROR\<close> exactly when it and the call before it both made no progress, \<open>LZMA_OK\<close> when the coder timed
  out, and otherwise what the coder returned. After \<open>LZMA_BUF_ERROR\<close> the same action is let through again (\<open>LZMA_RUN\<close>
  with any input). When the coder reports the end outside of a flush every later call returns \<open>LZMA_STREAM_END\<close> or
  rejects its arguments; at the end of a flush any action is let through; after a fatal error of the coder every later
  call fails; and neither an ended nor a failed stream changes any more. A coder does not return \<open>LZMA_BUF_ERROR\<close> itself,
  as the code asserts.\<close>

theorem lzma_code_states:
  assumes "code_history (h @ [e]) strm"
  shows "ev_ret e = (if stalled e \<and> h \<noteq> [] \<and> stalled (last h) then LZMA_BUF_ERROR
           else if ev_coder e = LZMA_TIMED_OUT then LZMA_OK else ev_coder e)
    \<and> (\<exists>i. st_internal strm = Some i \<and> in_sequence i = seq_after e
         \<and> (ev_ret e = LZMA_BUF_ERROR \<longrightarrow>
              (\<forall>b. b \<or> ev_action e = LZMA_RUN \<longrightarrow> iseq_check (in_sequence i) (ev_action e) b = Inr (action_seq (ev_action e))))
         \<and> (ev_coder e = LZMA_STREAM_END \<and> ev_action e \<in> {LZMA_SYNC_FLUSH, LZMA_FULL_FLUSH, LZMA_FULL_BARRIER} \<longrightarrow>
              (\<forall>a b. iseq_check (in_sequence i) a b = Inr (action_seq a))))
    \<and> (ev_coder e = LZMA_STREAM_END \<and> ev_action e \<in> {LZMA_RUN, LZMA_FINISH} \<longrightarrow>
         (\<forall>a. \<exists>r \<in> {LZMA_STREAM_END, LZMA_PROG_ERROR}. lzma_code strm a = Some (r, strm)))
    \<and> (ev_coder e \<in> {LZMA_MEM_ERROR, LZMA_FORMAT_ERROR, LZMA_OPTIONS_ERROR, LZMA_DATA_ERROR, LZMA_PROG_ERROR} \<longrightarrow>
         (\<forall>a. lzma_code strm a = Some (LZMA_PROG_ERROR, strm)))"
proof -
  obtain i code where i: "st_internal strm = Some i" "nc_code (in_next i) = Some code" "in_sequence i = seq_after e" "\<not> st_reserved strm"
    and ret: "ev_ret e = event_ret (stall_pending h) e" "ev_coder e \<noteq> LZMA_BUF_ERROR"
    using code_history_inv [OF assms] by (auto simp: history_inv_def)
  note guards = lzma_code_guards [OF i(1,2)]
  have stuck: "\<exists>r\<in>{x, LZMA_PROG_ERROR}. lzma_code strm a = Some (r, strm)" if "\<And>b. iseq_check (in_sequence i) a b = Inl x" for x a
    using guards(1,3) i(4) that by (cases "code_args_ok strm i a") auto
  have "\<forall>a. \<exists>r\<in>{LZMA_STREAM_END, LZMA_PROG_ERROR}. lzma_code strm a = Some (r, strm)" if "in_sequence i = ISEQ_END"
    using stuck [of _ LZMA_STREAM_END] that by (simp add: iseq_check_def)
  moreover have "\<forall>a. lzma_code strm a = Some (LZMA_PROG_ERROR, strm)" if "in_sequence i = ISEQ_ERROR"
    using stuck [of _ LZMA_PROG_ERROR] that by (simp add: iseq_check_def)
  moreover have "iseq_check (action_seq a) a b = Inr (action_seq a)" if "b \<or> a = LZMA_RUN" for a b
    using that by (cases a) (auto simp: iseq_check_def action_seq_def)
  moreover have "iseq_check ISEQ_RUN a b = Inr (action_seq a)" for a b
    by (cases a) (auto simp: iseq_check_def action_seq_def)
  moreover have "ev_ret e = LZMA_BUF_ERROR \<Longrightarrow> \<not> fatal (ev_coder e) \<and> ev_coder e \<noteq> LZMA_STREAM_END"
    using ret by (auto simp: event_ret_def stalled_def split: if_splits)
  ultimately show ?thesis
    using ret i by (auto simp: stall_pending_def event_ret_def seq_after_def)
qed

end
