(* ===== verification/Delta.thy ===== *)
theory Delta
  imports Coder
begin

text \<open>
  The Delta filter: \<open>delta/delta_common.c\<close>, \<open>delta/delta_decoder.c\<close> and \<open>delta/delta_encoder.c\<close>. The history of the last
  256 bytes is a ring buffer indexed downwards by an eight-bit position, as in the source. A loop over a buffer
  is a recursion over its bytes that returns the new coder and the new bytes. The coder below it in the chain has
  the type parameter \<open>'n\<close>.
\<close>

section \<open>The code\<close>

record 'n delta_coder =
  de_next :: "'n lzma_next_coder"
  de_distance :: nat
  de_pos :: u8
  de_history :: "u8 list"

text \<open>\<open>mem\<close> is the content of the allocated structure; \<open>inits\<close> the initialisation functions of the next filter.\<close>

definition lzma_delta_coder_init ::
  "coder_sizes \<Rightarrow> 'n filter_inits \<Rightarrow> 'n delta_coder option \<Rightarrow> 'n delta_coder lzma_next_coder \<Rightarrow> lzma_filter_info list
     \<Rightarrow> lzma_ret \<times> 'n delta_coder lzma_next_coder"
where
  "lzma_delta_coder_init sz inits mem nxt filters =
     (case (case nc_coder nxt of
              None \<Rightarrow> map_option (\<lambda>c. c\<lparr>de_next := LZMA_NEXT_CODER_INIT\<rparr>) mem
            | Some c \<Rightarrow> Some c) of
        None \<Rightarrow> (LZMA_MEM_ERROR, nxt)
      | Some c \<Rightarrow>
          if lzma_delta_coder_memusage sz (fi_options (filters ! 0)) = UINT64_MAX
          then (LZMA_OPTIONS_ERROR, nxt\<lparr>nc_coder := Some c\<rparr>)
          else
            (let c = c\<lparr>de_distance := unat (od_dist (the (opt_delta (fi_options (filters ! 0))))), de_pos := 0,
                       de_history := replicate 256 0\<rparr>;
                 (ret, inner) = lzma_next_filter_init inits (de_next c) (tl filters)
             in (ret, nxt\<lparr>nc_coder := Some (c\<lparr>de_next := inner\<rparr>)\<rparr>)))"

definition delta_tmp :: "'n delta_coder \<Rightarrow> u8" where
  "delta_tmp coder = de_history coder ! ((de_distance coder + unat (de_pos coder)) mod 256)"

definition delta_push :: "'n delta_coder \<Rightarrow> u8 \<Rightarrow> 'n delta_coder" where
  "delta_push coder b = coder\<lparr>de_history := (de_history coder)[unat (de_pos coder) := b], de_pos := de_pos coder - 1\<rparr>"

fun decode_buffer :: "'n delta_coder \<Rightarrow> u8 list \<Rightarrow> 'n delta_coder \<times> u8 list" where
  "decode_buffer coder [] = (coder, [])"
| "decode_buffer coder (b # rest) =
     (let b = b + delta_tmp coder;
          (coder, rest) = decode_buffer (delta_push coder b) rest
      in (coder, b # rest))"

fun encode_in_place :: "'n delta_coder \<Rightarrow> u8 list \<Rightarrow> 'n delta_coder \<times> u8 list" where
  "encode_in_place coder [] = (coder, [])"
| "encode_in_place coder (b # rest) =
     (let tmp = delta_tmp coder;
          (coder, rest) = encode_in_place (delta_push coder b) rest
      in (coder, (b - tmp) # rest))"

text \<open>\<open>copy_and_encode\<close> does the same work from the input to the output buffer.\<close>

fun copy_and_encode :: "'n delta_coder \<Rightarrow> u8 list \<Rightarrow> 'n delta_coder \<times> u8 list" where
  "copy_and_encode coder [] = (coder, [])"
| "copy_and_encode coder (b # rest) =
     (let tmp = delta_tmp coder;
          (coder, out) = copy_and_encode (delta_push coder b) rest
      in (coder, (b - tmp) # out))"

definition delta_decode :: "'n delta_coder lzma_code_function" where
  "delta_decode coder in_buf in_pos in_size out out_pos out_size action =
     (case call_next (de_next coder) in_buf in_pos in_size out out_pos out_size action of
        None \<Rightarrow> None
      | Some (ret, inner, in_pos', out', out_pos') \<Rightarrow>
          (case decode_buffer (coder\<lparr>de_next := inner\<rparr>) (take (out_pos' - out_pos) (drop out_pos out')) of
             (coder, bytes) \<Rightarrow> Some (ret, coder, in_pos', buf_write out_pos bytes out', out_pos')))"

definition delta_encode :: "'n delta_coder lzma_code_function" where
  "delta_encode coder in_buf in_pos in_size out out_pos out_size action =
     (if nc_code (de_next coder) = None
      then
        (let sz = min (in_size - in_pos) (out_size - out_pos);
             (coder, bytes) = copy_and_encode coder (take sz (drop in_pos in_buf));
             ret = (if action \<noteq> LZMA_RUN \<and> in_pos + sz = in_size then LZMA_STREAM_END else LZMA_OK)
         in Some (ret, coder, in_pos + sz, buf_write out_pos bytes out, out_pos + sz))
      else
        (case call_next (de_next coder) in_buf in_pos in_size out out_pos out_size action of
           None \<Rightarrow> None
         | Some (ret, inner, in_pos', out', out_pos') \<Rightarrow>
             (case encode_in_place (coder\<lparr>de_next := inner\<rparr>) (take (out_pos' - out_pos) (drop out_pos out')) of
                (coder, bytes) \<Rightarrow> Some (ret, coder, in_pos', buf_write out_pos bytes out', out_pos'))))"

definition delta_encoder_update :: "'n delta_coder \<Rightarrow> lzma_filter list option \<Rightarrow> lzma_filter list \<Rightarrow> lzma_ret \<times> 'n delta_coder" where
  "delta_encoder_update coder filters_null reversed_filters =
     (case lzma_next_filter_update (de_next coder) (tl reversed_filters) of
        (ret, inner) \<Rightarrow> (ret, coder\<lparr>de_next := inner\<rparr>))"

definition lzma_delta_decoder_init ::
  "coder_sizes \<Rightarrow> 'n filter_inits \<Rightarrow> 'n delta_coder option \<Rightarrow> 'n delta_coder lzma_next_coder \<Rightarrow> lzma_filter_info list
     \<Rightarrow> lzma_ret \<times> 'n delta_coder lzma_next_coder"
where
  "lzma_delta_decoder_init sz inits mem nxt filters =
     lzma_delta_coder_init sz inits mem (nxt\<lparr>nc_code := Some delta_decode\<rparr>) filters"

definition lzma_delta_encoder_init ::
  "coder_sizes \<Rightarrow> 'n filter_inits \<Rightarrow> 'n delta_coder option \<Rightarrow> 'n delta_coder lzma_next_coder \<Rightarrow> lzma_filter_info list
     \<Rightarrow> lzma_ret \<times> 'n delta_coder lzma_next_coder"
where
  "lzma_delta_encoder_init sz inits mem nxt filters =
     lzma_delta_coder_init sz inits mem
       (nxt\<lparr>nc_code := Some delta_encode, nc_update := Some delta_encoder_update\<rparr>) filters"

section \<open>The history as a ring buffer\<close>

text \<open>The byte \<open>k + 1\<close> positions back in the data seen so far, zero before its beginning.\<close>

definition byte_back :: "u8 list \<Rightarrow> nat \<Rightarrow> u8" where
  "byte_back past k = (if k < length past then past ! (length past - 1 - k) else 0)"

definition history_of :: "'n delta_coder \<Rightarrow> u8 list \<Rightarrow> bool" where
  "history_of coder past \<longleftrightarrow>
     length (de_history coder) = 256 \<and> 1 \<le> de_distance coder \<and> de_distance coder \<le> 256
     \<and> (\<forall>k<256. de_history coder ! ((unat (de_pos coder) + 1 + k) mod 256) = byte_back past k)"

lemma back_append: "byte_back (past @ [b]) k = (if k = 0 then b else byte_back past (k - 1))"
  by (auto simp: byte_back_def nth_append)

lemma delta_tmp_back:
  assumes "history_of coder past"
  shows "delta_tmp coder = byte_back past (de_distance coder - 1)"
proof -
  have "de_distance coder - 1 < 256" "de_distance coder + unat (de_pos coder) = unat (de_pos coder) + 1 + (de_distance coder - 1)"
    using assms by (auto simp: history_of_def)
  then show ?thesis using assms by (simp only: delta_tmp_def history_of_def)
qed

lemma unat_dec_u8: "unat (p - 1 :: u8) = (unat p + 255) mod 256"
proof -
  have "p - 1 = p + (255 :: u8)" by simp
  then show ?thesis by (simp only: unat_word_ariths) simp
qed

lemma history_of_push:
  assumes "history_of coder past"
  shows "history_of (delta_push coder b) (past @ [b])"
proof -
  let ?p = "unat (de_pos coder)"
  have p: "?p < 256" using unat_u8_less [of "de_pos coder"] by simp
  have h: "length (de_history coder) = 256" "\<And>k. k < 256 \<Longrightarrow> de_history coder ! ((?p + 1 + k) mod 256) = byte_back past k"
    using assms by (auto simp: history_of_def)
  have "(de_history coder)[?p := b] ! ((unat (de_pos coder - 1) + 1 + k) mod 256) = byte_back (past @ [b]) k" if k: "k < 256" for k
  proof -
    have ix: "(unat (de_pos coder - 1) + 1 + k) mod 256 = (?p + k) mod 256"
    proof -
      have "(unat (de_pos coder - 1) + 1 + k) mod 256 = ((?p + 255) mod 256 + (1 + k)) mod 256" by (simp add: unat_dec_u8)
      also have "\<dots> = (?p + k + 256) mod 256" unfolding mod_add_left_eq by (simp add: add.commute add.left_commute)
      finally show ?thesis by simp
    qed
    show ?thesis
    proof (cases "k = 0")
      case True
      then have "(?p + k) mod 256 = ?p" using p by simp
      then show ?thesis using True p h(1) unfolding ix by (simp add: back_append)
    next
      case False
      then obtain j where j: "k = Suc j" by (cases k) auto
      have "(?p + k) mod 256 \<noteq> ?p"
      proof (cases "?p + k < 256")
        case False
        then have "(?p + k) mod 256 = ?p + k - 256" using p k by (simp add: le_mod_geq)
        then show ?thesis using k False by simp
      qed (use j in simp)
      moreover have "(?p + k) mod 256 = (?p + 1 + j) mod 256" using j by simp
      ultimately show ?thesis using h(2) [of j] k j unfolding ix by (simp add: back_append)
    qed
  qed
  then show ?thesis using assms by (simp add: history_of_def delta_push_def)
qed

lemma delta_push_simps [simp]: "de_distance (delta_push c b) = de_distance c" "de_next (delta_push c b) = de_next c"
  by (simp_all add: delta_push_def)

text \<open>What the filter computes: the difference to the byte \<open>distance\<close> positions before.\<close>

definition delta_bytes :: "nat \<Rightarrow> u8 list \<Rightarrow> u8 list \<Rightarrow> u8 list" where
  "delta_bytes dist past xs = map (\<lambda>i. xs ! i - byte_back (past @ take i xs) (dist - 1)) [0..<length xs]"

lemma delta_bytes_Cons:
  "delta_bytes dist past (x # xs) = (x - byte_back past (dist - 1)) # delta_bytes dist (past @ [x]) xs"
proof -
  have "[0..<length (x # xs)] = 0 # map Suc [0..<length xs]" by (simp add: map_Suc_upt upt_conv_Cons del: upt_Suc)
  then show ?thesis unfolding delta_bytes_def by (simp add: o_def)
qed

lemma encode_in_place_spec:
  assumes "history_of coder past" "encode_in_place coder xs = (coder', ys)"
  shows "ys = delta_bytes (de_distance coder) past xs \<and> history_of coder' (past @ xs)
    \<and> de_distance coder' = de_distance coder \<and> de_next coder' = de_next coder"
  using assms
proof (induction xs arbitrary: coder past coder' ys)
  case (Cons x xs)
  obtain c zs where e: "encode_in_place (delta_push coder x) xs = (c, zs)" by fastforce
  show ?case
    using Cons.IH [OF history_of_push [OF Cons.prems(1), of x] e] Cons.prems(2) e delta_tmp_back [OF Cons.prems(1)]
    by (auto simp: delta_bytes_Cons)
qed (auto simp: delta_bytes_def)

lemma copy_and_encode_eq: "copy_and_encode coder xs = encode_in_place coder xs"
  by (induction xs arbitrary: coder) simp_all

lemma decode_encode:
  "encode_in_place coder xs = (coder', ys) \<Longrightarrow> decode_buffer coder ys = (coder', xs)"
  by (induction xs arbitrary: coder ys) (auto split: prod.splits)

section \<open>Contract\<close>

lemma length_decode_buffer: "length (snd (decode_buffer coder xs)) = length xs"
  by (induction xs arbitrary: coder) (simp_all add: split_beta Let_def)

lemma length_encode_in_place: "length (snd (encode_in_place coder xs)) = length xs"
  by (induction xs arbitrary: coder) (simp_all add: split_beta Let_def)

lemma delta_keeps_next:
  "de_next (fst (decode_buffer coder xs)) = de_next coder" "de_next (fst (encode_in_place coder xs)) = de_next coder"
  by (induction xs arbitrary: coder) (simp_all add: split_beta Let_def)

text \<open>Without a next coder the encoder is a bounded coder; above a bounded coder both directions are.\<close>

definition delta_last :: "'n delta_coder \<Rightarrow> bool" where
  "delta_last coder \<longleftrightarrow> nc_code (de_next coder) = None"

interpretation delta_last_encoder: bounded_coder delta_encode delta_last
proof
  fix c :: "'n delta_coder" and in_pos in_size out_pos out_size :: nat and in_buf out :: "u8 list" and action
  assume a: "delta_last c" "in_pos \<le> in_size" "in_size \<le> length in_buf" "out_pos \<le> out_size" "out_size \<le> length out"
  let ?sz = "min (in_size - in_pos) (out_size - out_pos)"
  obtain c' bs where e: "copy_and_encode c (take ?sz (drop in_pos in_buf)) = (c', bs)" by fastforce
  have "length bs = ?sz" "de_next c' = de_next c"
    using e length_encode_in_place [of c "take ?sz (drop in_pos in_buf)"] delta_keeps_next(2) [of c "take ?sz (drop in_pos in_buf)"] a
    by (simp_all add: copy_and_encode_eq)
  moreover have "in_pos + ?sz \<le> in_size" "out_pos + ?sz \<le> out_size" using a by linarith+
  ultimately show "code_ok delta_last in_pos in_size out out_pos out_size
      (delta_encode c in_buf in_pos in_size out out_pos out_size action)"
    using a e window_kept_write [of out out_pos out_size out bs]
    by (simp add: delta_encode_def delta_last_def code_ok_def Let_def)
qed

definition delta_over :: "'n lzma_code_function \<Rightarrow> ('n \<Rightarrow> bool) \<Rightarrow> 'n delta_coder \<Rightarrow> bool" where
  "delta_over code good coder \<longleftrightarrow>
     nc_code (de_next coder) = Some code \<and> (\<exists>c. nc_coder (de_next coder) = Some c \<and> good c)"

lemma delta_decode_bounded:
  assumes "bounded_coder code good"
  shows "bounded_coder delta_decode (delta_over code good)"
proof
  fix c :: "'a delta_coder" and in_pos in_size out_pos out_size :: nat and in_buf out :: "u8 list" and action
  assume a: "delta_over code good c" "in_pos \<le> in_size" "in_size \<le> length in_buf" "out_pos \<le> out_size" "out_size \<le> length out"
  obtain i where i: "nc_code (de_next c) = Some code" "nc_coder (de_next c) = Some i" "good i"
    using a(1) by (auto simp: delta_over_def)
  obtain ret i' ip out' op where run: "code i in_buf in_pos in_size out out_pos out_size action = Some (ret, i', ip, out', op)"
    and ok: "\<not> fatal ret \<longrightarrow> good i'" "in_pos \<le> ip" "ip \<le> in_size" "out_pos \<le> op" "op \<le> out_size" "window_kept out out_pos out_size out'"
    by (rule bounded_coder.stepE [OF assms i(3) a(2-5)])
  let ?c = "c\<lparr>de_next := (de_next c)\<lparr>nc_coder := Some i'\<rparr>\<rparr>"
  obtain c' bs where d: "decode_buffer ?c (take (op - out_pos) (drop out_pos out')) = (c', bs)" by fastforce
  have "length bs = op - out_pos" "de_next c' = de_next ?c"
    using d length_decode_buffer [of ?c "take (op - out_pos) (drop out_pos out')"] ok(4-6) a(5)
      delta_keeps_next(1) [of ?c "take (op - out_pos) (drop out_pos out')"] by (simp_all add: window_kept_def)
  then show "code_ok (delta_over code good) in_pos in_size out out_pos out_size
      (delta_decode c in_buf in_pos in_size out out_pos out_size action)"
    using ok window_kept_write [OF ok(6), of bs] a(5) d
    by (simp add: delta_decode_def call_next_def i run code_ok_def delta_over_def)
qed

section \<open>Properties\<close>

text \<open>A buffer function applied to the successive pieces of a stream.\<close>

fun run_pieces :: "('s \<Rightarrow> 'a list \<Rightarrow> 's \<times> 'b list) \<Rightarrow> 's \<Rightarrow> 'a list list \<Rightarrow> 'b list" where
  "run_pieces f s [] = []"
| "run_pieces f s (x # xs) = (let (s, y) = f s x in y @ run_pieces f s xs)"

lemma encode_in_place_append:
  "encode_in_place c (xs @ ys) = (let (c, a) = encode_in_place c xs; (c, b) = encode_in_place c ys in (c, a @ b))"
  by (induction xs arbitrary: c) (simp_all add: split_beta Let_def)

lemma decode_buffer_append:
  "decode_buffer c (xs @ ys) = (let (c, a) = decode_buffer c xs; (c, b) = decode_buffer c ys in (c, a @ b))"
  by (induction xs arbitrary: c) (simp_all add: split_beta Let_def)

lemma run_pieces_concat:
  assumes "\<And>s. f s [] = (s, [])" "\<And>s xs ys. f s (xs @ ys) = (let (s, a) = f s xs; (s, b) = f s ys in (s, a @ b))"
  shows "run_pieces f s xss = snd (f s (concat xss))"
  by (induction xss arbitrary: s) (simp_all add: assms split_beta Let_def)

lemma delta_init_history:
  assumes "lzma_delta_coder_init sz inits mem nxt filters = (LZMA_OK, nxt')" "nc_coder nxt' = Some c"
  shows "history_of c []" "de_distance c = unat (od_dist (the (opt_delta (fi_options (filters ! 0)))))"
proof -
  let ?o = "fi_options (filters ! 0)"
  have usage: "lzma_delta_coder_memusage sz ?o \<noteq> UINT64_MAX"
    using assms by (auto simp: lzma_delta_coder_init_def split: option.splits if_splits)
  have c: "de_distance c = unat (od_dist (the (opt_delta ?o)))" "de_pos c = 0" "de_history c = replicate 256 0"
    using assms usage by (auto simp: lzma_delta_coder_init_def split_beta Let_def split: option.splits)
  obtain opt where "opt_delta ?o = Some opt" "LZMA_DELTA_DIST_MIN \<le> od_dist opt" "od_dist opt \<le> LZMA_DELTA_DIST_MAX"
    using usage by (auto simp: lzma_delta_coder_memusage_def not_less split: option.splits if_splits)
  then show "history_of c []" "de_distance c = unat (od_dist (the (opt_delta ?o)))"
    using c by (auto simp: history_of_def byte_back_def LZMA_DELTA_DIST_MIN_def LZMA_DELTA_DIST_MAX_def word_le_nat_alt)
qed

text \<open>C32. The Delta filter computes byte differences at its distance, and decoding restores the data. Started by
  \<open>lzma_delta_coder_init\<close>, the encoder turns any sequence of pieces into the differences to the bytes \<open>distance\<close>
  positions earlier in the whole stream, although it only keeps a ring buffer of 256 bytes and sees the stream
  piece by piece; and a decoder started with the same options turns these differences back into the stream, however
  they are cut into pieces.\<close>

theorem delta_stream:
  assumes "lzma_delta_coder_init sz inits mem nxt filters = (LZMA_OK, nxt')" "nc_coder nxt' = Some enc"
    and "lzma_delta_coder_init sz inits' mem' dnxt filters = (LZMA_OK, dnxt')" "nc_coder dnxt' = Some dec"
  shows "run_pieces copy_and_encode enc xss
      = delta_bytes (unat (od_dist (the (opt_delta (fi_options (filters ! 0)))))) [] (concat xss)
    \<and> (concat yss = run_pieces copy_and_encode enc xss \<longrightarrow> run_pieces decode_buffer dec yss = concat xss)"
proof -
  note e = delta_init_history [OF assms(1,2)] and d = delta_init_history [OF assms(3,4)]
  have run_e: "run_pieces copy_and_encode enc xss = snd (encode_in_place enc (concat xss))"
    by (subst run_pieces_concat) (simp_all add: copy_and_encode_eq encode_in_place_append)
  have run_d: "run_pieces decode_buffer dec yss = snd (decode_buffer dec (concat yss))"
    by (rule run_pieces_concat) (simp_all add: decode_buffer_append)
  obtain c ys where enc: "encode_in_place enc (concat xss) = (c, ys)" by fastforce
  obtain c2 ys2 where enc2: "encode_in_place dec (concat xss) = (c2, ys2)" by fastforce
  have "ys = ys2" using encode_in_place_spec [OF e(1) enc] encode_in_place_spec [OF d(1) enc2] e(2) d(2) by simp
  then have "snd (decode_buffer dec ys) = concat xss" using decode_encode [OF enc2] by simp
  then show ?thesis using run_e run_d enc encode_in_place_spec [OF e(1) enc] e(2) by simp
qed

definition sample_delta_filters :: "lzma_filter_info list" where
  "sample_delta_filters =
     [\<lparr>fi_id = LZMA_FILTER_DELTA, fi_init = Some ''lzma_delta_decoder_init'',
       fi_options = Some (Opt_delta \<lparr>od_type = 0, od_dist = 2\<rparr>)\<rparr>,
      \<lparr>fi_id = LZMA_VLI_UNKNOWN, fi_init = None, fi_options = None\<rparr>]"

definition sample_delta_mem :: "unit delta_coder" where
  "sample_delta_mem = \<lparr>de_next = LZMA_NEXT_CODER_INIT, de_distance = 0, de_pos = 0, de_history = []\<rparr>"

definition no_inits :: "'c filter_inits" where
  "no_inits name nxt filters = (LZMA_OPTIONS_ERROR, nxt)"

lemma sample_delta_init:
  "\<exists>nxt c. lzma_delta_coder_init \<lparr>sz_delta = 300, sz_lzma_decoder = 1, sz_lz_decoder = 1, sz_lzma2_decoder = 1\<rparr> no_inits
     (Some sample_delta_mem) LZMA_NEXT_CODER_INIT sample_delta_filters = (LZMA_OK, nxt) \<and> nc_coder nxt = Some c"
  by (simp add: lzma_delta_coder_init_def LZMA_NEXT_CODER_INIT_def sample_delta_filters_def lzma_delta_coder_memusage_def
      UINT64_MAX_def LZMA_DELTA_TYPE_BYTE_def LZMA_DELTA_DIST_MIN_def LZMA_DELTA_DIST_MAX_def lzma_next_filter_init_def
      lzma_next_coder_init_def lzma_next_end_def)

theorem delta_stream_witness:
  "\<exists>c :: unit delta_coder. run_pieces copy_and_encode c [[10, 20], [13]] = [10, 20, 3]
     \<and> run_pieces decode_buffer c [[10], [20, 3]] = [10, 20, 13]"
proof -
  obtain nxt and c :: "unit delta_coder" where i:
    "lzma_delta_coder_init \<lparr>sz_delta = 300, sz_lzma_decoder = 1, sz_lz_decoder = 1, sz_lzma2_decoder = 1\<rparr> no_inits
     (Some sample_delta_mem) LZMA_NEXT_CODER_INIT sample_delta_filters = (LZMA_OK, nxt)" "nc_coder nxt = Some c"
    using sample_delta_init by blast
  have "delta_bytes (unat (od_dist (the (opt_delta (fi_options (sample_delta_filters ! 0)))))) [] [10, 20, 13] = [10, 20, 3]"
    by (simp add: sample_delta_filters_def delta_bytes_Cons byte_back_def) (simp add: delta_bytes_def)
  then show ?thesis
    using delta_stream [OF i i, of "[[10, 20], [13]]" "[[10], [20, 3]]"] by auto
qed

section \<open>A stream run by the Delta encoder\<close>

text \<open>Three bytes of input and two of room, driven by \<open>lzma_code\<close>.\<close>

definition sample_delta :: "unit delta_coder" where
  "sample_delta = \<lparr>de_next = LZMA_NEXT_CODER_INIT, de_distance = 1, de_pos = 0, de_history = replicate 256 0\<rparr>"

definition sample_internal :: "unit delta_coder lzma_internal" where
  "sample_internal =
     \<lparr>in_next = LZMA_NEXT_CODER_INIT\<lparr>nc_coder := Some sample_delta, nc_code := Some delta_encode\<rparr>, in_sequence = ISEQ_RUN,
       in_avail_in = 0, in_supported_actions = replicate 5 True, in_allow_buf_error = False\<rparr>"

definition sample_strm :: "unit delta_coder lzma_stream" where
  "sample_strm =
     \<lparr>st_next_in = Some ([7, 9, 8], 0), st_avail_in = 3, st_total_in = 0, st_next_out = Some ([0, 0], 0), st_avail_out = 2,
       st_total_out = 0, st_internal = Some sample_internal, st_reserved = False\<rparr>"

lemma sample_strm_ok: "strm_ok delta_encode delta_last sample_strm"
  by (simp add: strm_ok_def sample_strm_def sample_internal_def sample_delta_def delta_last_def LZMA_NEXT_CODER_INIT_def)

theorem lzma_code_bookkeeping_witness:
  "\<exists>ret strm' n m obuf'. lzma_code sample_strm LZMA_RUN = Some (ret, strm') \<and> st_next_in strm' = Some ([7, 9, 8], 0 + n)
     \<and> st_avail_in strm' = 3 - n \<and> st_next_out strm' = Some (obuf', 0 + m) \<and> st_avail_out strm' = 2 - m"
  using lzma_code_bookkeeping [OF delta_last_encoder.bounded_coder_axioms sample_strm_ok, of "[7, 9, 8]" 0 "[0, 0]" 0 LZMA_RUN]
  by (force simp: sample_strm_def)

text \<open>Initialised, and then called without input.\<close>

definition sample_starved :: "bool \<Rightarrow> unit delta_coder lzma_stream" where
  "sample_starved allow =
     sample_strm\<lparr>st_avail_in := 0, st_internal := Some (sample_internal\<lparr>in_supported_actions := [True, False, False, False, False],
       in_allow_buf_error := allow\<rparr>)\<rparr>"

lemma sample_starved_starts: "code_history [] (sample_starved False)"
proof -
  let ?i = "sample_internal\<lparr>in_supported_actions := replicate 5 False\<rparr>"
  let ?s = "sample_strm\<lparr>st_internal := Some ?i\<rparr>"
  have "code_history [] ?s"
    by (rule init [of "\<lambda>_. (LZMA_OK, in_next sample_internal)" "Some sample_internal" "Some (sample_strm\<lparr>st_internal := None\<rparr>)"])
      (simp add: lzma_next_strm_init_def lzma_strm_init_def sample_strm_def sample_internal_def LZMA_ACTION_MAX_def)
  then have "code_history [] (?s\<lparr>st_internal := Some (?i\<lparr>in_supported_actions := [True, False, False, False, False]\<rparr>)\<rparr>)"
    by (rule support [where action = LZMA_RUN]) (simp add: support_action_def action_index_def numeral_eq_Suc)
  from buffers [OF this, where avail_in = 0 and next_in = "st_next_in sample_strm" and next_out = "st_next_out sample_strm" and avail_out = 2] show ?thesis
    by (simp add: sample_starved_def sample_strm_def sample_internal_def)
qed

lemma sample_starved_stalls:
  assumes "code_history h (sample_starved allow)"
  shows "\<exists>ret allow'. code_history (h @ [\<lparr>ev_action = LZMA_RUN, ev_coder = LZMA_OK, ev_in = 0, ev_out = 0, ev_ret = ret\<rparr>]) (sample_starved allow')
    \<and> lzma_code (sample_starved allow) LZMA_RUN = Some (ret, sample_starved allow')"
proof -
  let ?i = "sample_internal\<lparr>in_supported_actions := [True, False, False, False, False], in_allow_buf_error := allow\<rparr>"
  have r: "reaches_coder (sample_starved allow) LZMA_RUN ?i ISEQ_RUN LZMA_OK sample_delta 0 [0, 0] 0"
    by (simp add: reaches_coder_def code_args_ok_def sample_starved_def sample_strm_def sample_internal_def action_index_def iseq_check_def
        at_ptr_def delta_encode_def sample_delta_def LZMA_NEXT_CODER_INIT_def)
  obtain ret allow' where v: "code_verdict LZMA_OK ISEQ_RUN allow (0 = (0 :: nat) \<and> 0 = (0 :: nat)) = (ret, ISEQ_RUN, allow')"
    by (cases allow) (auto simp: code_verdict_def)
  have "strm_after (sample_starved allow) ?i sample_delta 0 [0, 0] 0 ISEQ_RUN allow' = sample_starved allow'"
    by (simp add: strm_after_def sample_starved_def sample_strm_def sample_internal_def ptr_add_def ptr_store_def LZMA_NEXT_CODER_INIT_def)
  with lzma_code_reaches [OF r, of ret ISEQ_RUN allow'] v
  have "lzma_code (sample_starved allow) LZMA_RUN = Some (ret, sample_starved allow')" by simp
  with call [OF assms r _ this] show ?thesis by auto
qed

theorem lzma_code_states_witness:
  "\<exists>strm. lzma_code (sample_starved False) LZMA_RUN = Some (LZMA_OK, strm) \<and> (\<exists>strm'. lzma_code strm LZMA_RUN = Some (LZMA_BUF_ERROR, strm'))"
proof -
  obtain ret allow where one: "code_history [\<lparr>ev_action = LZMA_RUN, ev_coder = LZMA_OK, ev_in = 0, ev_out = 0, ev_ret = ret\<rparr>] (sample_starved allow)"
    "lzma_code (sample_starved False) LZMA_RUN = Some (ret, sample_starved allow)"
    using sample_starved_stalls [OF sample_starved_starts] by auto
  obtain ret' allow' where two: "code_history [\<lparr>ev_action = LZMA_RUN, ev_coder = LZMA_OK, ev_in = 0, ev_out = 0, ev_ret = ret\<rparr>,
      \<lparr>ev_action = LZMA_RUN, ev_coder = LZMA_OK, ev_in = 0, ev_out = 0, ev_ret = ret'\<rparr>] (sample_starved allow')"
    "lzma_code (sample_starved allow) LZMA_RUN = Some (ret', sample_starved allow')"
    using sample_starved_stalls [OF one(1)] by auto
  have "ret = LZMA_OK" using lzma_code_states [of "[]", simplified append_Nil, OF one(1), THEN conjunct1] by simp
  moreover have "ret' = LZMA_BUF_ERROR"
    using lzma_code_states [of "[_]", simplified append_Cons append_Nil, OF two(1), THEN conjunct1] by (simp add: stalled_def)
  ultimately show ?thesis using one(2) two(2) by blast
qed

end
