(* ===== verification/Block_Decoder.thy ===== *)
theory Block_Decoder
  imports Block_Header Delta
begin

text \<open>
  The Block decoder, \<open>common/block_decoder.c\<close>: it runs the filter chain over the compressed data, keeps account of both
  sizes, and then reads the padding and the check.

  The field \<open>bd_block\<close> is the structure the pointer \<open>block\<close> points to; whoever owns that structure reads it back
  from here after a call. The filter chain below has the type parameter \<open>'r\<close>; its initialisation functions are the
  argument \<open>inits\<close>.
\<close>

section \<open>The code\<close>

datatype block_seq = SEQ_CODE | BLOCK_SEQ_PADDING | SEQ_CHECK

record 'r block_coder =
  bd_sequence :: block_seq
  bd_next :: "'r lzma_next_coder"
  bd_block :: lzma_block
  bd_compressed_size :: lzma_vli
  bd_uncompressed_size :: lzma_vli
  bd_compressed_limit :: lzma_vli
  bd_check_pos :: nat
  bd_check :: lzma_check_state
  bd_ignore_check :: bool

text \<open>\<open>True\<close> is failure; the size is changed only on success.\<close>

definition update_size :: "lzma_vli \<Rightarrow> lzma_vli \<Rightarrow> lzma_vli \<Rightarrow> bool \<times> lzma_vli" where
  "update_size sz add limit =
     (let limit = (if limit > LZMA_VLI_MAX then LZMA_VLI_MAX else limit)
      in if limit < sz \<or> limit - sz < add then (True, sz) else (False, sz + add))"

definition is_size_valid :: "lzma_vli \<Rightarrow> lzma_vli \<Rightarrow> bool" where
  "is_size_valid sz reference \<longleftrightarrow> reference = LZMA_VLI_UNKNOWN \<or> reference = sz"

text \<open>The case \<open>SEQ_CHECK\<close>.\<close>

definition block_decode_check :: "'r block_coder \<Rightarrow> u8 list \<Rightarrow> nat \<Rightarrow> nat \<Rightarrow> lzma_ret \<times> 'r block_coder \<times> nat" where
  "block_decode_check coder in_buf in_pos in_size =
     (let check_size = unat (lzma_check_size (bl_check (bd_block coder)));
          (_, in_pos, raw_check, check_pos) =
            lzma_bufcpy in_buf in_pos in_size (bl_raw_check (bd_block coder)) (bd_check_pos coder) check_size;
          coder = coder\<lparr>bd_block := (bd_block coder)\<lparr>bl_raw_check := raw_check\<rparr>, bd_check_pos := check_pos\<rparr>
      in if check_pos < check_size then (LZMA_OK, coder, in_pos)
         else if \<not> bd_ignore_check coder \<and> lzma_check_is_supported (bl_check (bd_block coder))
              \<and> take check_size raw_check \<noteq> take check_size (cs_buffer (bd_check coder))
         then (LZMA_DATA_ERROR, coder, in_pos)
         else (LZMA_STREAM_END, coder, in_pos))"

text \<open>The loop over the padding; \<open>Some ret\<close> is a return.\<close>

function block_padding_loop :: "u8 list \<Rightarrow> nat \<Rightarrow> lzma_vli \<Rightarrow> nat \<Rightarrow> lzma_ret option \<times> lzma_vli \<times> nat" where
  "block_padding_loop in_buf in_size compressed_size in_pos =
     (if compressed_size AND 3 = 0 then (None, compressed_size, in_pos)
      else if in_pos \<ge> in_size then (Some LZMA_OK, compressed_size, in_pos)
      else if in_buf ! in_pos \<noteq> 0 then (Some LZMA_DATA_ERROR, compressed_size + 1, in_pos + 1)
      else block_padding_loop in_buf in_size (compressed_size + 1) (in_pos + 1))"
  by pat_completeness auto
termination by (relation "measure (\<lambda>(in_buf, in_size, compressed_size, in_pos). in_size - in_pos)") auto

declare block_padding_loop.simps [simp del]

text \<open>The case \<open>SEQ_PADDING\<close> with the fall through.\<close>

definition block_decode_padding :: "'r block_coder \<Rightarrow> u8 list \<Rightarrow> nat \<Rightarrow> nat \<Rightarrow> lzma_ret \<times> 'r block_coder \<times> nat" where
  "block_decode_padding coder in_buf in_pos in_size =
     (case block_padding_loop in_buf in_size (bd_compressed_size coder) in_pos of
        (ret, compressed_size, in_pos) \<Rightarrow>
          (let coder = coder\<lparr>bd_compressed_size := compressed_size\<rparr>
           in case ret of
                Some ret \<Rightarrow> (ret, coder, in_pos)
              | None \<Rightarrow>
                  if bl_check (bd_block coder) = LZMA_CHECK_NONE then (LZMA_STREAM_END, coder, in_pos)
                  else
                    (let coder = (if \<not> bd_ignore_check coder
                                  then coder\<lparr>bd_check := lzma_check_finish (bd_check coder) (bl_check (bd_block coder))\<rparr>
                                  else coder);
                         coder = coder\<lparr>bd_sequence := SEQ_CHECK\<rparr>
                     in block_decode_check coder in_buf in_pos in_size)))"

text \<open>The part of the case \<open>SEQ_CODE\<close> after the call to the filter chain, up to the fall through; \<open>None\<close> goes on.\<close>

definition block_account ::
  "lzma_ret \<Rightarrow> 'r block_coder \<Rightarrow> nat \<Rightarrow> u8 list \<Rightarrow> lzma_ret option \<times> 'r block_coder"
where
  "block_account ret coder in_used produced =
     (case update_size (bd_compressed_size coder) (of_nat in_used) (bd_compressed_limit coder) of
        (err, compressed_size) \<Rightarrow>
          (let coder = coder\<lparr>bd_compressed_size := compressed_size\<rparr>
           in if err then (Some LZMA_DATA_ERROR, coder)
              else
                (case update_size (bd_uncompressed_size coder) (of_nat (length produced)) (bl_uncompressed_size (bd_block coder)) of
                   (err, uncompressed_size) \<Rightarrow>
                     (let coder = coder\<lparr>bd_uncompressed_size := uncompressed_size\<rparr>
                      in if err then (Some LZMA_DATA_ERROR, coder)
                         else
                           (let coder = (if \<not> bd_ignore_check coder
                                  then coder\<lparr>bd_check := lzma_check_update (bd_check coder) (bl_check (bd_block coder)) produced\<rparr>
                                  else coder)
                            in if ret \<noteq> LZMA_STREAM_END then (Some ret, coder)
                               else if \<not> is_size_valid compressed_size (bl_compressed_size (bd_block coder))
                                    \<or> \<not> is_size_valid uncompressed_size (bl_uncompressed_size (bd_block coder))
                               then (Some LZMA_DATA_ERROR, coder)
                               else
                                 (None,
                                  coder\<lparr>bd_block := (bd_block coder)\<lparr>bl_compressed_size := compressed_size,
                                           bl_uncompressed_size := uncompressed_size\<rparr>,
                                         bd_sequence := BLOCK_SEQ_PADDING\<rparr>))))))"

definition block_decode :: "'r block_coder lzma_code_function" where
  "block_decode coder in_buf in_pos in_size out out_pos out_size action =
     (case bd_sequence coder of
        SEQ_CODE \<Rightarrow>
          (case call_next (bd_next coder) in_buf in_pos in_size out out_pos out_size action of
             None \<Rightarrow> None
           | Some (ret, inner, in_pos', out', out_pos') \<Rightarrow>
               (case block_account ret (coder\<lparr>bd_next := inner\<rparr>) (in_pos' - in_pos) (span out' out_pos out_pos') of
                  (Some ret, coder) \<Rightarrow> Some (ret, coder, in_pos', out', out_pos')
                | (None, coder) \<Rightarrow>
                    (case block_decode_padding coder in_buf in_pos' in_size of
                       (ret, coder, in_pos') \<Rightarrow> Some (ret, coder, in_pos', out', out_pos'))))
      | BLOCK_SEQ_PADDING \<Rightarrow>
          (case block_decode_padding coder in_buf in_pos in_size of
             (ret, coder, in_pos) \<Rightarrow> Some (ret, coder, in_pos, out, out_pos))
      | SEQ_CHECK \<Rightarrow>
          (case block_decode_check coder in_buf in_pos in_size of
             (ret, coder, in_pos) \<Rightarrow> Some (ret, coder, in_pos, out, out_pos)))"

text \<open>\<open>mem\<close> is the content of the allocated structure, \<open>None\<close> when the allocation fails.\<close>

definition lzma_block_decoder_init ::
  "'r filter_inits \<Rightarrow> 'r block_coder option \<Rightarrow> 'r block_coder lzma_next_coder \<Rightarrow> lzma_block
     \<Rightarrow> lzma_ret \<times> 'r block_coder lzma_next_coder"
where
  "lzma_block_decoder_init inits mem nxt block =
     (let nxt = lzma_next_coder_init (Some ''lzma_block_decoder_init'') nxt
      in if lzma_block_unpadded_size (Some block) = 0 \<or> \<not> lzma_vli_is_valid (bl_uncompressed_size block)
         then (LZMA_PROG_ERROR, nxt)
         else
           (case (case nc_coder nxt of
                    Some c \<Rightarrow> Some (c, nxt)
                  | None \<Rightarrow> map_option (\<lambda>c. (c\<lparr>bd_next := LZMA_NEXT_CODER_INIT\<rparr>, nxt\<lparr>nc_code := Some block_decode\<rparr>)) mem) of
              None \<Rightarrow> (LZMA_MEM_ERROR, nxt)
            | Some (c, nxt) \<Rightarrow>
                (let c = c\<lparr>bd_sequence := SEQ_CODE, bd_block := block, bd_compressed_size := 0, bd_uncompressed_size := 0,
                           bd_compressed_limit :=
                             (if bl_compressed_size block = LZMA_VLI_UNKNOWN
                              then (LZMA_VLI_MAX AND NOT 3) - ucast (bl_header_size block) - ucast (lzma_check_size (bl_check block))
                              else bl_compressed_size block),
                           bd_check_pos := 0, bd_check := lzma_check_init (bd_check c) (bl_check block),
                           bd_ignore_check := (if bl_version block \<ge> 1 then bl_ignore_check block else False)\<rparr>;
                     (ret, inner) = lzma_raw_decoder_init inits (bd_next c) (bl_filters block)
                 in (ret, nxt\<lparr>nc_coder := Some (c\<lparr>bd_next := inner\<rparr>)\<rparr>))))"

definition lzma_block_decoder ::
  "'r filter_inits \<Rightarrow> 'r block_coder option \<Rightarrow> 'r block_coder lzma_internal option \<Rightarrow> 'r block_coder lzma_stream option \<Rightarrow> lzma_block
     \<Rightarrow> lzma_ret \<times> 'r block_coder lzma_stream option"
where
  "lzma_block_decoder inits mem imem strm block =
     (case lzma_next_strm_init (\<lambda>nxt. lzma_block_decoder_init inits mem nxt block) imem strm of
        (ret, strm) \<Rightarrow>
          if ret \<noteq> LZMA_OK then (ret, strm)
          else (LZMA_OK, support_action LZMA_FINISH (support_action LZMA_RUN strm)))"

section \<open>Account of a run\<close>

text \<open>The sizes the decoder has written back, and what the Block Header had announced.\<close>

definition sizes_final :: "lzma_block \<Rightarrow> lzma_block \<Rightarrow> u8 list \<Rightarrow> u8 list \<Rightarrow> bool" where
  "sizes_final b0 b raw outs \<longleftrightarrow>
     unat (bl_compressed_size b) = length raw \<and> unat (bl_uncompressed_size b) = length outs
     \<and> is_size_valid (bl_compressed_size b) (bl_compressed_size b0)
     \<and> is_size_valid (bl_uncompressed_size b) (bl_uncompressed_size b0)"

text \<open>Zero bytes after the compressed data, not past the next multiple of four.\<close>

definition padding_of :: "u8 list \<Rightarrow> u8 list \<Rightarrow> bool" where
  "padding_of raw pad \<longleftrightarrow>
     (\<forall>b\<in>set pad. b = 0) \<and> length raw < 2 ^ 63 \<and> length raw + length pad \<le> 4 * ((length raw + 3) div 4)"

text \<open>The consumed bytes while the padding, and while the check is being read.\<close>

definition padding_read :: "lzma_block \<Rightarrow> lzma_block \<Rightarrow> lzma_vli \<Rightarrow> u8 list \<Rightarrow> u8 list \<Rightarrow> bool" where
  "padding_read b0 b compressed_size ins outs \<longleftrightarrow>
     (\<exists>raw pad. ins = raw @ pad \<and> padding_of raw pad \<and> sizes_final b0 b raw outs
        \<and> unat compressed_size = length ins \<and> (pad = [] \<or> length ins mod 4 \<noteq> 0))"

definition check_read :: "lzma_block \<Rightarrow> lzma_block \<Rightarrow> nat \<Rightarrow> u8 list \<Rightarrow> u8 list \<Rightarrow> bool" where
  "check_read b0 b check_pos ins outs \<longleftrightarrow>
     (\<exists>raw pad chk. ins = raw @ pad @ chk \<and> padding_of raw pad \<and> (length raw + length pad) mod 4 = 0
        \<and> sizes_final b0 b raw outs \<and> length chk = check_pos \<and> take check_pos (bl_raw_check b) = chk)"

text \<open>What is known of the state when the bytes \<open>ins\<close> have been consumed and \<open>outs\<close> produced.\<close>

definition block_track :: "lzma_block \<Rightarrow> bool \<Rightarrow> 'r block_coder \<Rightarrow> u8 list \<Rightarrow> u8 list \<Rightarrow> bool" where
  "block_track b0 ignore c ins outs \<longleftrightarrow>
     bl_check (bd_block c) = bl_check b0 \<and> bl_check b0 \<le> LZMA_CHECK_ID_MAX \<and> bd_ignore_check c = ignore
     \<and> length (bl_raw_check (bd_block c)) = 64
     \<and> (case bd_sequence c of
          SEQ_CODE \<Rightarrow>
            bd_block c = b0 \<and> unat (bd_compressed_size c) = length ins \<and> unat (bd_uncompressed_size c) = length outs
            \<and> bd_check_pos c = 0 \<and> (\<not> ignore \<longrightarrow> check_track (bl_check b0) (bd_check c) outs)
        | BLOCK_SEQ_PADDING \<Rightarrow>
            padding_read b0 (bd_block c) (bd_compressed_size c) ins outs
            \<and> bd_check_pos c = 0 \<and> (\<not> ignore \<longrightarrow> check_track (bl_check b0) (bd_check c) outs)
        | SEQ_CHECK \<Rightarrow>
            check_read b0 (bd_block c) (bd_check_pos c) ins outs \<and> bd_check_pos c \<le> unat (lzma_check_size (bl_check b0))
            \<and> (\<not> ignore \<and> lzma_check_is_supported (bl_check b0) \<longrightarrow>
                 take (unat (lzma_check_size (bl_check b0))) (cs_buffer (bd_check c)) = check_value (bl_check b0) outs))"

text \<open>What has been read when the decoder reports the end of the Block.\<close>

definition block_complete :: "lzma_block \<Rightarrow> bool \<Rightarrow> lzma_block \<Rightarrow> u8 list \<Rightarrow> u8 list \<Rightarrow> bool" where
  "block_complete b0 ignore b ins outs \<longleftrightarrow>
     (\<exists>raw pad chk. ins = raw @ pad @ chk \<and> padding_of raw pad \<and> (length raw + length pad) mod 4 = 0
        \<and> sizes_final b0 b raw outs \<and> length chk = unat (lzma_check_size (bl_check b0))
        \<and> (\<not> ignore \<and> lzma_check_is_supported (bl_check b0) \<longrightarrow> chk = check_value (bl_check b0) outs))"

lemma bufcpy_bounds:
  assumes "lzma_bufcpy in_buf in_pos in_size out out_pos out_size = (n, in_pos', out', out_pos')"
    and "in_pos \<le> in_size" "in_size \<le> length in_buf" "out_pos \<le> out_size" "out_size \<le> length out"
  shows "in_pos \<le> in_pos'" "in_pos' \<le> in_size" "out_pos' = out_pos + (in_pos' - in_pos)" "out_pos' \<le> out_size"
    "length out' = length out" "take out_pos' out' = take out_pos out @ span in_buf in_pos in_pos'"
    "in_pos' = in_size \<or> out_pos' = out_size"
proof -
  let ?n = "min (in_size - in_pos) (out_size - out_pos)" let ?bs = "take ?n (drop in_pos in_buf)"
  have r: "n = ?n" "in_pos' = in_pos + ?n" "out' = buf_write out_pos ?bs out" "out_pos' = out_pos + ?n"
    using assms(1) by (auto simp: lzma_bufcpy_def Let_def)
  have le: "in_pos + ?n \<le> in_size" "out_pos + ?n \<le> out_size" using assms(2,4) by linarith+
  have "?n \<le> length in_buf - in_pos" using assms(3) le(1) by linarith
  then have len: "length ?bs = ?n" by (simp add: min_def)
  show "in_pos \<le> in_pos'" "in_pos' \<le> in_size" "out_pos' = out_pos + (in_pos' - in_pos)" "out_pos' \<le> out_size"
    "length out' = length out" using r le by simp_all
  have "out_pos + length ?bs \<le> length out" using le len assms(5) by linarith
  from take_buf_write_all [OF this] show "take out_pos' out' = take out_pos out @ span in_buf in_pos in_pos'"
    unfolding r(3,4) len by (simp add: span_def r(2))
  show "in_pos' = in_size \<or> out_pos' = out_size" using r(2,4) assms(2,4) by linarith
qed

lemma block_decode_check_ok:
  assumes "block_track b0 ignore c ins outs" "bd_sequence c = SEQ_CHECK"
    and "block_decode_check c in_buf in_pos in_size = (ret, c', in_pos')" "in_pos \<le> in_size" "in_size \<le> length in_buf"
  shows "in_pos \<le> in_pos' \<and> in_pos' \<le> in_size \<and> bd_next c' = bd_next c \<and> ret \<in> {LZMA_OK, LZMA_DATA_ERROR, LZMA_STREAM_END}
    \<and> (ret = LZMA_OK \<longrightarrow> block_track b0 ignore c' (ins @ span in_buf in_pos in_pos') outs)
    \<and> (ret = LZMA_STREAM_END \<longrightarrow> block_complete b0 ignore (bd_block c') (ins @ span in_buf in_pos in_pos') outs)"
proof -
  let ?t = "bl_check b0" and ?n = "unat (lzma_check_size (bl_check b0))"
  have t: "bl_check (bd_block c) = ?t" "?t \<le> LZMA_CHECK_ID_MAX" "bd_ignore_check c = ignore" "length (bl_raw_check (bd_block c)) = 64"
    and fin: "\<not> ignore \<and> lzma_check_is_supported ?t \<longrightarrow> take ?n (cs_buffer (bd_check c)) = check_value ?t outs"
    and rd: "check_read b0 (bd_block c) (bd_check_pos c) ins outs" "bd_check_pos c \<le> ?n"
    using assms(1,2) by (simp_all add: block_track_def)
  obtain raw pad chk where ins: "ins = raw @ pad @ chk" "padding_of raw pad" "(length raw + length pad) mod 4 = 0"
    "sizes_final b0 (bd_block c) raw outs" "length chk = bd_check_pos c"
    "take (bd_check_pos c) (bl_raw_check (bd_block c)) = chk"
    using rd(1) unfolding check_read_def by (elim exE conjE) (rule that)
  have n64: "?n \<le> 64" using check_size_le [OF t(2)] .
  obtain k ip raw_check pos where cp: "lzma_bufcpy in_buf in_pos in_size (bl_raw_check (bd_block c)) (bd_check_pos c) ?n = (k, ip, raw_check, pos)"
    by (metis prod_cases4)
  note b = bufcpy_bounds [OF cp assms(4,5) rd(2)]
  have n64': "?n \<le> length (bl_raw_check (bd_block c))" using n64 t(4) by simp
  note b = b [OF n64']
  let ?c = "c\<lparr>bd_block := (bd_block c)\<lparr>bl_raw_check := raw_check\<rparr>, bd_check_pos := pos\<rparr>"
  have res: "(ret, c', in_pos') =
      (if pos < ?n then (LZMA_OK, ?c, ip)
       else if \<not> ignore \<and> lzma_check_is_supported ?t \<and> take ?n raw_check \<noteq> take ?n (cs_buffer (bd_check c))
       then (LZMA_DATA_ERROR, ?c, ip) else (LZMA_STREAM_END, ?c, ip))"
    using assms(3) [symmetric] by (simp only: block_decode_check_def t(1) cp Let_def prod.case) (simp add: t)
  have c': "c' = ?c" "in_pos' = ip" "ret \<in> {LZMA_OK, LZMA_DATA_ERROR, LZMA_STREAM_END}"
    using res by (simp_all split: if_split_asm)
  have chk: "take pos raw_check = chk @ span in_buf in_pos ip" using b(6) ins(6) by simp
  have fin': "sizes_final b0 (bd_block ?c) raw outs" using ins(4) by (simp add: sizes_final_def)
  have len: "length (chk @ span in_buf in_pos ip) = pos"
    using ins(5) b(2,3) assms(5) by (simp add: length_span)
  have "block_track b0 ignore ?c (ins @ span in_buf in_pos ip) outs"
  proof -
    have "check_read b0 (bd_block ?c) pos (ins @ span in_buf in_pos ip) outs"
      unfolding check_read_def using ins(1-3) fin' len chk
      by (intro exI [of _ raw] exI [of _ pad] exI [of _ "chk @ span in_buf in_pos ip"]) simp
    then show ?thesis using t fin b(4,5) assms(2) by (simp add: block_track_def)
  qed
  moreover have "block_complete b0 ignore (bd_block ?c) (ins @ span in_buf in_pos ip) outs" if "ret = LZMA_STREAM_END"
  proof -
    have p: "pos = ?n" and eq: "\<not> ignore \<and> lzma_check_is_supported ?t \<longrightarrow> take ?n raw_check = take ?n (cs_buffer (bd_check c))"
      using that res b(4) by (auto split: if_split_asm)
    then show ?thesis
      unfolding block_complete_def using ins(1-3) fin' len chk fin
      by (intro exI [of _ raw] exI [of _ pad] exI [of _ "chk @ span in_buf in_pos ip"]) simp
  qed
  ultimately show ?thesis unfolding c'(1,2) using c'(3) b(1,2) by (simp only: simp_thms) simp
qed

text \<open>The padding loop reads zero bytes up to a multiple of four.\<close>

lemma unat_and3: "unat (w AND 3 :: u64) = unat w mod 4"
  using unat_and_mask [of w 2] by (simp add: mask_eq_exp_minus_1)

lemma pad_arith:
  "n mod 4 \<noteq> 0 \<Longrightarrow> n mod 4 + 1 \<le> (4 :: nat)"
  "n mod 4 \<noteq> 0 \<Longrightarrow> Suc n mod 4 \<noteq> 0 \<Longrightarrow> Suc n mod 4 = Suc (n mod 4)"
  "n mod 4 \<noteq> 0 \<Longrightarrow> Suc n mod 4 \<noteq> 0 \<Longrightarrow> Suc n div 4 = n div 4"
  by presburger+

text \<open>The result of the loop, with \<open>k\<close> the number of bytes it consumed.\<close>

definition padding_done :: "lzma_ret option \<Rightarrow> nat \<Rightarrow> nat \<Rightarrow> nat \<Rightarrow> bool" where
  "padding_done ret n n' k \<longleftrightarrow> n' = n + k \<and> (k = 0 \<or> n mod 4 \<noteq> 0 \<and> n mod 4 + k \<le> 4)
     \<and> (ret = None \<and> n' mod 4 = 0 \<or> ret = Some LZMA_OK \<and> n' mod 4 \<noteq> 0 \<or> ret = Some LZMA_DATA_ERROR)"

lemma block_padding_loop_ok:
  assumes "block_padding_loop in_buf in_size sz in_pos = (ret, sz', in_pos')" "in_pos \<le> in_size" "in_size \<le> length in_buf"
    and "unat sz div 4 < 2 ^ 61"
  shows "in_pos \<le> in_pos' \<and> in_pos' \<le> in_size \<and> padding_done ret (unat sz) (unat sz') (in_pos' - in_pos)
    \<and> (ret \<noteq> Some LZMA_DATA_ERROR \<longrightarrow> (\<forall>b\<in>set (span in_buf in_pos in_pos'). b = 0))"
  using assms
proof (induction "in_size - in_pos" arbitrary: sz in_pos rule: less_induct)
  case less
  have and3: "sz AND 3 = 0 \<longleftrightarrow> unat sz mod 4 = 0" by (metis unat_and3 unsigned_eq_0_iff)
  have suc: "unat (sz + 1) = Suc (unat sz)" using less.prems(4) by (simp add: unat_word_ariths)
  note eq = less.prems(1) [unfolded block_padding_loop.simps [of in_buf in_size sz in_pos] and3]
  consider (fin) "unat sz mod 4 = 0" | (short) "unat sz mod 4 \<noteq> 0" "in_pos \<ge> in_size"
    | (bad) "unat sz mod 4 \<noteq> 0" "in_pos < in_size" "in_buf ! in_pos \<noteq> 0"
    | (go) "unat sz mod 4 \<noteq> 0" "in_pos < in_size" "in_buf ! in_pos = 0" by linarith
  then show ?case
  proof cases
    case fin
    then show ?thesis using eq less.prems(2) by (simp add: padding_done_def)
  next
    case short
    then have "ret = Some LZMA_OK" "sz' = sz" "in_pos' = in_pos" using eq by simp_all
    then show ?thesis using short less.prems(2) by (simp add: padding_done_def)
  next
    case bad
    then have "ret = Some LZMA_DATA_ERROR" "sz' = sz + 1" "in_pos' = in_pos + 1" using eq by simp_all
    then show ?thesis using bad suc pad_arith(1) [OF bad(1)] by (simp add: padding_done_def)
  next
    case go
    have rec: "block_padding_loop in_buf in_size (sz + 1) (in_pos + 1) = (ret, sz', in_pos')" using eq go by simp
    have sp: "span in_buf in_pos q = 0 # span in_buf (in_pos + 1) q" if "in_pos < q" for q
      using that go less.prems(3) by (simp add: span_Suc)
    show ?thesis
    proof (cases "Suc (unat sz) mod 4 = 0")
      case True
      then have "(sz + 1) AND 3 = 0" using suc unat_and3 [of "sz + 1"] by (metis unsigned_eq_0_iff)
      then have "block_padding_loop in_buf in_size (sz + 1) (in_pos + 1) = (None, sz + 1, in_pos + 1)"
        by (simp add: block_padding_loop.simps [of _ _ "sz + 1"])
      then have "ret = None" "sz' = sz + 1" "in_pos' = in_pos + 1" using rec by simp_all
      then show ?thesis using True suc go sp pad_arith(1) [OF go(1)] by (simp add: padding_done_def)
    next
      case False
      have lim: "unat (sz + 1) div 4 < 2 ^ 61" using less.prems(4) suc pad_arith(3) [OF go(1) False] by simp
      have m: "in_size - (in_pos + 1) < in_size - in_pos" "in_pos + 1 \<le> in_size" using go(2) by simp_all
      note IH = less.hyps [OF m(1) rec m(2) less.prems(3) lim]
      have k: "in_pos' - in_pos = Suc (in_pos' - (in_pos + 1))" using IH by linarith
      have "padding_done ret (unat sz) (unat sz') (in_pos' - in_pos)"
        using IH go(1) pad_arith(1,2) [OF go(1)] False unfolding padding_done_def suc k by auto
      then show ?thesis using IH sp [of in_pos'] by simp
    qed
  qed
qed

lemma pad_step:
  fixes a n k :: nat
  assumes "n \<le> 4 * ((a + 3) div 4)" "k = 0 \<or> n mod 4 \<noteq> 0 \<and> n mod 4 + k \<le> 4"
  shows "n + k \<le> 4 * ((a + 3) div 4)"
proof (cases "k = 0")
  case False
  define q where "q = (a + 3) div 4"
  have m: "n mod 4 \<noteq> 0" "n mod 4 + k \<le> 4" using assms(2) False by simp_all
  then have "n \<noteq> 4 * q" by auto
  then have "n div 4 < q" using assms(1) by (simp add: q_def [symmetric] less_mult_imp_div_less)
  moreover have "n = 4 * (n div 4) + n mod 4" by simp
  ultimately show ?thesis using m(2) unfolding q_def [symmetric] by linarith
qed (use assms(1) in simp)

lemma pad_lim:
  fixes a n :: nat
  assumes "n \<le> 4 * ((a + 3) div 4)" "a < 4 * m" "n = a \<or> n mod 4 \<noteq> 0"
  shows "n div 4 < m"
proof (cases "n = a")
  case True
  then show ?thesis using assms(2) by (simp add: less_mult_imp_div_less mult.commute)
next
  case False
  have "(a + 3) div 4 \<le> m" using assms(2) by linarith
  then have "n \<le> 4 * m" using assms(1) by linarith
  moreover have "n \<noteq> 4 * m" using assms(3) False by auto
  ultimately show ?thesis by (simp add: less_mult_imp_div_less mult.commute)
qed

lemma pad_full:
  fixes a p :: nat
  assumes "a + p \<le> 4 * ((a + 3) div 4)" "(a + p) mod 4 = 0"
  shows "a + p = 4 * ((a + 3) div 4)"
proof -
  obtain k where k: "a + p = 4 * k" using assms(2) by auto
  then have "a \<le> 4 * k" by simp
  then have "(a + 3) div 4 \<le> k" by linarith
  then show ?thesis using assms(1) k by simp
qed

text \<open>What the stages after the compressed data guarantee.\<close>

definition tail_ok ::
  "lzma_block \<Rightarrow> bool \<Rightarrow> 'r block_coder \<Rightarrow> u8 list \<Rightarrow> u8 list \<Rightarrow> u8 list \<Rightarrow> nat \<Rightarrow> nat \<Rightarrow> lzma_ret \<times> 'r block_coder \<times> nat \<Rightarrow> bool"
where
  "tail_ok b0 ignore c ins outs in_buf in_pos in_size res \<longleftrightarrow>
     (case res of (ret, c', in_pos') \<Rightarrow>
        in_pos \<le> in_pos' \<and> in_pos' \<le> in_size \<and> bd_next c' = bd_next c \<and> ret \<in> {LZMA_OK, LZMA_DATA_ERROR, LZMA_STREAM_END}
        \<and> (ret = LZMA_OK \<longrightarrow> block_track b0 ignore c' (ins @ span in_buf in_pos in_pos') outs)
        \<and> (ret = LZMA_STREAM_END \<longrightarrow> block_complete b0 ignore (bd_block c') (ins @ span in_buf in_pos in_pos') outs))"

lemma block_decode_check_tail:
  assumes "block_track b0 ignore c ins outs" "bd_sequence c = SEQ_CHECK" "in_pos \<le> in_size" "in_size \<le> length in_buf"
  shows "tail_ok b0 ignore c ins outs in_buf in_pos in_size (block_decode_check c in_buf in_pos in_size)"
proof -
  obtain ret c' in_pos' where r: "block_decode_check c in_buf in_pos in_size = (ret, c', in_pos')" by (metis prod_cases3)
  show ?thesis unfolding r tail_ok_def prod.case by (rule block_decode_check_ok [OF assms(1,2) r assms(3,4)])
qed

text \<open>Reading on after some bytes.\<close>

lemma tail_ok_after:
  assumes "tail_ok b0 ignore c1 (ins @ span in_buf p q) outs in_buf q n res" "p \<le> q" "q \<le> n" "bd_next c1 = bd_next c"
  shows "tail_ok b0 ignore c ins outs in_buf p n res"
proof -
  obtain ret c' r where res: "res = (ret, c', r)" by (metis prod_cases3)
  have "q \<le> r" using assms(1) by (simp add: tail_ok_def res)
  then have "(ins @ span in_buf p q) @ span in_buf q r = ins @ span in_buf p r" using assms(2) by (simp add: span_append)
  then show ?thesis using assms unfolding tail_ok_def res prod.case by simp
qed

lemma block_decode_padding_tail:
  assumes "block_track b0 ignore c ins outs" "bd_sequence c = BLOCK_SEQ_PADDING" "in_pos \<le> in_size" "in_size \<le> length in_buf"
  shows "tail_ok b0 ignore c ins outs in_buf in_pos in_size (block_decode_padding c in_buf in_pos in_size)"
proof -
  let ?t = "bl_check b0"
  have t: "bl_check (bd_block c) = ?t" "?t \<le> LZMA_CHECK_ID_MAX" "bd_ignore_check c = ignore" "length (bl_raw_check (bd_block c)) = 64"
    and rd: "padding_read b0 (bd_block c) (bd_compressed_size c) ins outs" "bd_check_pos c = 0"
    and trk: "\<not> ignore \<longrightarrow> check_track ?t (bd_check c) outs"
    using assms(1,2) by (simp_all add: block_track_def)
  obtain raw pad where ins: "ins = raw @ pad" "padding_of raw pad" "sizes_final b0 (bd_block c) raw outs"
    "unat (bd_compressed_size c) = length ins" "pad = [] \<or> length ins mod 4 \<noteq> 0"
    using rd(1) unfolding padding_read_def by (elim exE conjE) (rule that)
  have len: "length ins = length raw + length pad" "length ins \<le> 4 * ((length raw + 3) div 4)" "length raw < 2 ^ 63" "\<forall>b\<in>set pad. b = 0"
    using ins(1,2) by (simp_all add: padding_of_def)
  have "length ins div 4 < 2 ^ 61" by (rule pad_lim [OF len(2)]) (use len(1,3) ins(5) in auto)
  then have lim: "unat (bd_compressed_size c) div 4 < 2 ^ 61" unfolding ins(4) .
  obtain ret sz ip where l: "block_padding_loop in_buf in_size (bd_compressed_size c) in_pos = (ret, sz, ip)" by (metis prod_cases3)
  note ok = block_padding_loop_ok [OF l assms(3,4) lim]
  then have b: "in_pos \<le> ip" "ip \<le> in_size" "padding_done ret (length ins) (unat sz) (ip - in_pos)" by (simp_all add: ins(4))
  let ?sp = "span in_buf in_pos ip" and ?c = "c\<lparr>bd_compressed_size := sz\<rparr>"
  have sp: "length ?sp = ip - in_pos" using b(2) assms(4) by (simp add: length_span)
  have sz: "unat sz = length (ins @ ?sp)" using b(3) sp by (simp add: padding_done_def)
  have k: "ip - in_pos = 0 \<or> length ins mod 4 \<noteq> 0 \<and> length ins mod 4 + (ip - in_pos) \<le> 4"
    using b(3) by (simp only: padding_done_def)
  have total: "length raw + length (pad @ ?sp) = length ins + (ip - in_pos)" using len(1) sp by simp
  have pad: "padding_of raw (pad @ ?sp)" if "ret \<noteq> Some LZMA_DATA_ERROR"
    unfolding padding_of_def total using pad_step [OF len(2) k] ok that len(3,4) by (simp add: ball_Un)
  show ?thesis
  proof (cases ret)
    case (Some r)
    then have r: "r = LZMA_OK \<and> unat sz mod 4 \<noteq> 0 \<or> r = LZMA_DATA_ERROR" using b(3) unfolding padding_done_def by blast
    have "block_track b0 ignore ?c (ins @ ?sp) outs" if "r = LZMA_OK"
    proof -
      have "padding_read b0 (bd_block ?c) sz (ins @ ?sp) outs"
        unfolding padding_read_def using ins(1,3) pad Some that r sz
        by (intro exI [of _ raw] exI [of _ "pad @ ?sp"]) auto
      then show ?thesis using t rd(2) trk assms(2) by (simp add: block_track_def)
    qed
    then show ?thesis
      unfolding block_decode_padding_def l prod.case Let_def Some option.case tail_ok_def using b(1,2) r by auto
  next
    case None
    then have m4: "unat sz mod 4 = 0" using b(3) unfolding padding_done_def by blast
    note pad = pad [unfolded None, simplified]
    have m4': "(length raw + length (pad @ ?sp)) mod 4 = 0" using m4 sz len(1) by (simp add: ac_simps)
    have cr: "check_read b0 (bd_block c) 0 (ins @ ?sp) outs"
      unfolding check_read_def using ins(1,3) pad m4'
      by (intro exI [of _ raw] exI [of _ "pad @ ?sp"] exI [of _ "[]"]) simp
    show ?thesis
    proof (cases "?t = LZMA_CHECK_NONE")
      case True
      have "block_complete b0 ignore (bd_block c) (ins @ ?sp) outs"
        unfolding block_complete_def using ins(1,3) pad m4' True
        by (intro exI [of _ raw] exI [of _ "pad @ ?sp"] exI [of _ "[]"])
          (simp add: check_value_def lzma_check_size_def check_sizes_def check_ids LZMA_CHECK_ID_MAX_def)
      then show ?thesis
        unfolding block_decode_padding_def l prod.case Let_def None option.case tail_ok_def using b(1,2) True t(1) by simp
    next
      case False
      define c2 where "c2 = (if \<not> ignore then ?c\<lparr>bd_check := lzma_check_finish (bd_check c) ?t\<rparr> else ?c)\<lparr>bd_sequence := SEQ_CHECK\<rparr>"
      have c2: "bd_next c2 = bd_next c" "bd_block c2 = bd_block c" "bd_sequence c2 = SEQ_CHECK" "bd_check_pos c2 = 0"
        "bd_ignore_check c2 = ignore" "\<not> ignore \<Longrightarrow> bd_check c2 = lzma_check_finish (bd_check c) ?t"
        using rd(2) t(3) by (simp_all add: c2_def)
      have fin: "\<not> ignore \<and> lzma_check_is_supported ?t \<longrightarrow>
          take (unat (lzma_check_size ?t)) (cs_buffer (bd_check c2)) = check_value ?t outs"
        using trk c2(6) check_track_finish by auto
      have "block_track b0 ignore c2 (ins @ ?sp) outs"
        using t cr c2(2-5) fin by (simp add: block_track_def)
      from tail_ok_after [OF block_decode_check_tail [OF this c2(3) b(2) assms(4)] b(1,2) c2(1)]
      show ?thesis unfolding block_decode_padding_def l prod.case Let_def None option.case
        using False t(1,3) by (simp add: c2_def cong: if_cong)
    qed
  qed
qed

text \<open>The stage of the compressed data.\<close>

lemma unat_VLI_MAX: "unat LZMA_VLI_MAX = 2 ^ 63 - 1"
  by (simp add: LZMA_VLI_MAX_def)

lemma update_size_ok:
  assumes "update_size sz (of_nat n) limit = (False, sz')" "n < 2 ^ 64"
  shows "unat sz' = unat sz + n" "unat sz' < 2 ^ 63"
proof -
  define lim where "lim = (if limit > LZMA_VLI_MAX then LZMA_VLI_MAX else limit)"
  have "lim \<le> LZMA_VLI_MAX" by (simp add: lim_def not_less)
  then have m: "unat lim < 2 ^ 63" using unat_VLI_MAX by (simp add: word_le_nat_alt)
  have le: "sz \<le> lim" "of_nat n \<le> lim - sz" and sz': "sz' = sz + of_nat n"
    using assms(1) by (auto simp: update_size_def lim_def [symmetric] Let_def split: if_splits)
  have "unat (of_nat n :: lzma_vli) = n" using assms(2) by (simp add: unat_of_nat)
  then have "n \<le> unat lim - unat sz" using le by (simp add: word_le_nat_alt unat_sub)
  then have b: "unat sz + n \<le> unat lim" using le(1) by (simp add: word_le_nat_alt)
  then show "unat sz' = unat sz + n"
    unfolding sz' using m assms(2) by (subst unat_add_lem [THEN iffD1]) (simp_all add: unat_of_nat)
  then show "unat sz' < 2 ^ 63" using b m by simp
qed

lemma block_account_ok:
  assumes "block_track b0 ignore c ins outs" "bd_sequence c = SEQ_CODE"
    and "block_account ret c (length add) produced = (r, c')" "length add < 2 ^ 64" "length produced < 2 ^ 64"
  shows "bd_next c' = bd_next c \<and> (r = None \<or> r = Some LZMA_DATA_ERROR \<or> r = Some ret \<and> ret \<noteq> LZMA_STREAM_END)
    \<and> (r = Some LZMA_OK \<longrightarrow> block_track b0 ignore c' (ins @ add) (outs @ produced))
    \<and> (r = None \<longrightarrow> block_track b0 ignore c' (ins @ add) (outs @ produced) \<and> bd_sequence c' = BLOCK_SEQ_PADDING)"
proof -
  let ?t = "bl_check b0"
  have t: "bl_check (bd_block c) = ?t" "?t \<le> LZMA_CHECK_ID_MAX" "bd_ignore_check c = ignore" "length (bl_raw_check (bd_block c)) = 64"
    and sz: "unat (bd_compressed_size c) = length ins" "unat (bd_uncompressed_size c) = length outs" "bd_check_pos c = 0" "bd_block c = b0"
    and trk: "\<not> ignore \<longrightarrow> check_track ?t (bd_check c) outs"
    using assms(1,2) by (auto simp: block_track_def)
  obtain e1 s1 where u1: "update_size (bd_compressed_size c) (of_nat (length add)) (bd_compressed_limit c) = (e1, s1)" by fastforce
  obtain e2 s2 where u2: "update_size (bd_uncompressed_size c) (of_nat (length produced)) (bl_uncompressed_size b0) = (e2, s2)" by fastforce
  define c2 where "c2 = (if \<not> ignore then c\<lparr>bd_compressed_size := s1, bd_uncompressed_size := s2,
      bd_check := lzma_check_update (bd_check c) ?t produced\<rparr> else c\<lparr>bd_compressed_size := s1, bd_uncompressed_size := s2\<rparr>)"
  have c2: "bd_next c2 = bd_next c" "bd_sequence c2 = SEQ_CODE" "bd_block c2 = b0" "bd_compressed_size c2 = s1" "bd_uncompressed_size c2 = s2"
    "bd_check_pos c2 = 0" "bd_ignore_check c2 = ignore" using sz t assms(2) by (simp_all add: c2_def)
  have trk2: "\<not> ignore \<longrightarrow> check_track ?t (bd_check c2) (outs @ produced)"
    using trk check_track_update by (simp add: c2_def)
  let ?c3 = "c2\<lparr>bd_block := b0\<lparr>bl_compressed_size := s1, bl_uncompressed_size := s2\<rparr>, bd_sequence := BLOCK_SEQ_PADDING\<rparr>"
  let ?bad = "\<not> is_size_valid s1 (bl_compressed_size b0) \<or> \<not> is_size_valid s2 (bl_uncompressed_size b0)"
  have res: "block_account ret c (length add) produced =
      (if e1 then (Some LZMA_DATA_ERROR, c\<lparr>bd_compressed_size := s1\<rparr>)
       else if e2 then (Some LZMA_DATA_ERROR, c\<lparr>bd_compressed_size := s1, bd_uncompressed_size := s2\<rparr>)
       else if ret \<noteq> LZMA_STREAM_END then (Some ret, c2)
       else if ?bad then (Some LZMA_DATA_ERROR, c2) else (None, ?c3))"
    unfolding block_account_def u1 prod.case Let_def by (simp add: u2 sz(4) t(3) c2_def cong: if_cong) blast
  show ?thesis
  proof (cases "e1 \<or> e2")
    case True
    then show ?thesis using assms(3) unfolding res by (auto split: if_splits)
  next
    case False
    then have u: "update_size (bd_compressed_size c) (of_nat (length add)) (bd_compressed_limit c) = (False, s1)"
      "update_size (bd_uncompressed_size c) (of_nat (length produced)) (bl_uncompressed_size b0) = (False, s2)" using u1 u2 by simp_all
    have s1: "unat s1 = length (ins @ add)" "unat s1 < 2 ^ 63" and s2: "unat s2 = length (outs @ produced)"
      using update_size_ok(1) [OF u(1) assms(4)] update_size_ok(2) [OF u(1) assms(4)] update_size_ok(1) [OF u(2) assms(5)] sz(1,2)
      by (simp_all only: length_append)
    have A: "block_track b0 ignore c2 (ins @ add) (outs @ produced)"
      using c2 t(2,4) sz(4) s1 s2 trk2 by (simp add: block_track_def)
    have B: "block_track b0 ignore ?c3 (ins @ add) (outs @ produced)" if "\<not> ?bad"
    proof -
      have "padding_read b0 (bd_block ?c3) s1 (ins @ add) (outs @ produced)"
        unfolding padding_read_def padding_of_def sizes_final_def using s1 s2 that
        by (intro exI [of _ "ins @ add"] exI [of _ "[]"]) simp
      then show ?thesis using c2 t(2,4) sz(4) trk2 by (simp add: block_track_def)
    qed
    consider "ret \<noteq> LZMA_STREAM_END" "r = Some ret" "c' = c2" | "r = Some LZMA_DATA_ERROR" "c' = c2" | "r = None" "c' = ?c3" "\<not> ?bad"
      using assms(3) False unfolding res by (auto split: if_splits)
    then show ?thesis
    proof cases
      case 3
      show ?thesis unfolding 3(1,2) using B [OF 3(3)] c2(1) by simp
    qed (use A c2(1) in simp_all)
  qed
qed

section \<open>The Block decoder as a coder\<close>

text \<open>The filter chain below is a bounded coder in a good state.\<close>

definition block_over :: "'r lzma_code_function \<Rightarrow> ('r \<Rightarrow> bool) \<Rightarrow> 'r block_coder \<Rightarrow> bool" where
  "block_over code good coder \<longleftrightarrow>
     nc_code (bd_next coder) = Some code \<and> (\<exists>c. nc_coder (bd_next coder) = Some c \<and> good c)"

lemma block_padding_loop_bounds:
  "block_padding_loop in_buf in_size sz in_pos = (ret, sz', in_pos') \<Longrightarrow> in_pos \<le> in_size \<Longrightarrow> in_pos \<le> in_pos' \<and> in_pos' \<le> in_size"
proof (induction in_buf in_size sz in_pos rule: block_padding_loop.induct)
  case (1 in_buf in_size sz in_pos)
  show ?case
    using 1(2,3) 1(1) unfolding block_padding_loop.simps [of in_buf in_size sz in_pos] by (auto split: if_splits)
qed

lemma block_check_bounds:
  assumes "block_decode_check c in_buf in_pos in_size = (ret, c', in_pos')" "in_pos \<le> in_size"
  shows "in_pos \<le> in_pos' \<and> in_pos' \<le> in_size \<and> bd_next c' = bd_next c"
  using assms by (auto simp: block_decode_check_def lzma_bufcpy_def Let_def min_def split: if_splits)

lemma block_padding_bounds:
  assumes "block_decode_padding c in_buf in_pos in_size = (ret, c', in_pos')" "in_pos \<le> in_size"
  shows "in_pos \<le> in_pos' \<and> in_pos' \<le> in_size \<and> bd_next c' = bd_next c"
proof -
  obtain r sz ip where l: "block_padding_loop in_buf in_size (bd_compressed_size c) in_pos = (r, sz, ip)" by (metis prod_cases3)
  note b = block_padding_loop_bounds [OF l assms(2)]
  show ?thesis
    using assms(1) b block_check_bounds [of _ in_buf ip in_size ret c' in_pos']
    unfolding block_decode_padding_def l prod.case Let_def by (fastforce split: option.splits if_splits)
qed

lemma block_account_next: "block_account ret c n produced = (r, c') \<Longrightarrow> bd_next c' = bd_next c"
  by (auto simp: block_account_def Let_def split: prod.splits if_splits)

lemma block_account_fatal: "block_account ret c n produced = (r, c') \<Longrightarrow> fatal ret \<Longrightarrow> \<exists>x. r = Some x \<and> fatal x"
  by (auto simp: block_account_def Let_def split: prod.splits if_splits)

lemma block_decode_cases:
  assumes "bounded_coder code good" "block_over code good c"
    and "in_pos \<le> in_size" "in_size \<le> length in_buf" "out_pos \<le> out_size" "out_size \<le> length out"
  obtains (coding) ret inner ip out' op r c1 where "bd_sequence c = SEQ_CODE"
      "nc_code inner = Some code" "\<exists>i. nc_coder inner = Some i \<and> (\<not> fatal ret \<longrightarrow> good i)"
      "in_pos \<le> ip" "ip \<le> in_size" "out_pos \<le> op" "op \<le> out_size" "window_kept out out_pos out_size out'"
      "block_account ret (c\<lparr>bd_next := inner\<rparr>) (ip - in_pos) (span out' out_pos op) = (r, c1)"
      "block_decode c in_buf in_pos in_size out out_pos out_size action =
        (case r of Some ret \<Rightarrow> Some (ret, c1, ip, out', op)
         | None \<Rightarrow> (case block_decode_padding c1 in_buf ip in_size of (ret, c2, ip2) \<Rightarrow> Some (ret, c2, ip2, out', op)))"
    | (padding) "bd_sequence c = BLOCK_SEQ_PADDING"
      "block_decode c in_buf in_pos in_size out out_pos out_size action =
        (case block_decode_padding c in_buf in_pos in_size of (ret, c2, ip2) \<Rightarrow> Some (ret, c2, ip2, out, out_pos))"
    | (check) "bd_sequence c = SEQ_CHECK"
      "block_decode c in_buf in_pos in_size out out_pos out_size action =
        (case block_decode_check c in_buf in_pos in_size of (ret, c2, ip2) \<Rightarrow> Some (ret, c2, ip2, out, out_pos))"
proof (cases "bd_sequence c")
  case SEQ_CODE
  obtain i where i: "nc_code (bd_next c) = Some code" "nc_coder (bd_next c) = Some i" "good i"
    using assms(2) by (auto simp: block_over_def)
  obtain ret i' ip out' op where run: "code i in_buf in_pos in_size out out_pos out_size action = Some (ret, i', ip, out', op)"
    and ok: "\<not> fatal ret \<longrightarrow> good i'" "in_pos \<le> ip" "ip \<le> in_size" "out_pos \<le> op" "op \<le> out_size" "window_kept out out_pos out_size out'"
    by (rule bounded_coder.stepE [OF assms(1) i(3) assms(3-6)])
  let ?inner = "(bd_next c)\<lparr>nc_coder := Some i'\<rparr>"
  obtain r c1 where acc: "block_account ret (c\<lparr>bd_next := ?inner\<rparr>) (ip - in_pos) (span out' out_pos op) = (r, c1)" by fastforce
  have "block_decode c in_buf in_pos in_size out out_pos out_size action =
        (case r of Some ret \<Rightarrow> Some (ret, c1, ip, out', op)
         | None \<Rightarrow> (case block_decode_padding c1 in_buf ip in_size of (ret, c2, ip2) \<Rightarrow> Some (ret, c2, ip2, out', op)))"
    unfolding block_decode_def SEQ_CODE block_seq.case call_next_def i option.sel run option.map prod.case option.case acc
    by (simp split: option.split)
  from coding [OF SEQ_CODE _ _ ok(2-6) acc this] show thesis using i ok(1) by simp
qed (simp_all add: block_decode_def padding check)

lemma block_decode_bounded:
  assumes "bounded_coder code good"
  shows "bounded_coder block_decode (block_over code good)"
proof
  fix c :: "'a block_coder" and in_pos in_size out_pos out_size :: nat and in_buf out :: "u8 list" and action
  assume a: "block_over code good c" "in_pos \<le> in_size" "in_size \<le> length in_buf" "out_pos \<le> out_size" "out_size \<le> length out"
  from assms a show "code_ok (block_over code good) in_pos in_size out out_pos out_size
      (block_decode c in_buf in_pos in_size out out_pos out_size action)"
  proof (cases rule: block_decode_cases [where action = action])
    case (coding ret inner ip out' op r c1)
    have n: "bd_next c1 = inner" using block_account_next [OF coding(9)] by simp
    obtain ret2 c2 ip2 where p: "block_decode_padding c1 in_buf ip in_size = (ret2, c2, ip2)" by (metis prod_cases3)
    show ?thesis
      unfolding coding(10) using coding(2-8) n p block_padding_bounds [OF p coding(5)] block_account_fatal [OF coding(9)]
      by (cases r) (auto simp: code_ok_def block_over_def)
  next
    case padding
    obtain ret2 c2 ip2 where p: "block_decode_padding c in_buf in_pos in_size = (ret2, c2, ip2)" by (metis prod_cases3)
    show ?thesis unfolding padding(2) p using block_padding_bounds [OF p a(2)] a(1,4) by (simp add: code_ok_def block_over_def)
  next
    case check
    obtain ret2 c2 ip2 where p: "block_decode_check c in_buf in_pos in_size = (ret2, c2, ip2)" by (metis prod_cases3)
    show ?thesis unfolding check(2) p using block_check_bounds [OF p a(2)] a(1,4) by (simp add: code_ok_def block_over_def)
  qed
qed

lemma block_decode_step:
  assumes "bounded_coder code good" "block_over code good c" "block_track b0 ignore c ins outs"
    and "block_decode c in_buf in_pos in_size out out_pos out_size action = Some (ret, c', in_pos', out', out_pos')"
    and b: "in_pos \<le> in_size" "in_size \<le> length in_buf" "out_pos \<le> out_size" "out_size \<le> length out"
    and l: "length in_buf < 2 ^ 64" "length out < 2 ^ 64"
  shows "(ret = LZMA_OK \<longrightarrow> block_track b0 ignore c' (ins @ span in_buf in_pos in_pos') (outs @ span out' out_pos out_pos'))
    \<and> (ret = LZMA_STREAM_END \<longrightarrow>
         block_complete b0 ignore (bd_block c') (ins @ span in_buf in_pos in_pos') (outs @ span out' out_pos out_pos'))"
  using assms(1,2) b
proof (cases rule: block_decode_cases [where action = action])
  case (coding ret1 inner ip out1 op r c1)
  let ?add = "span in_buf in_pos ip" and ?prod = "span out1 out_pos op"
  have len: "length ?add = ip - in_pos" "length ?add < 2 ^ 64" "length ?prod < 2 ^ 64"
    using coding(5,7,8) b l by (auto simp: length_span window_kept_def)
  have trk: "block_track b0 ignore (c\<lparr>bd_next := inner\<rparr>) ins outs" using assms(3) coding(1) by (auto simp: block_track_def)
  have "bd_sequence (c\<lparr>bd_next := inner\<rparr>) = SEQ_CODE" using coding(1) by simp
  note ok = block_account_ok [OF trk this coding(9) [folded len(1)] len(2,3)]
  show ?thesis
  proof (cases r)
    case (Some x)
    then show ?thesis using assms(4) coding(10) ok by auto
  next
    case None
    have "block_track b0 ignore c1 (ins @ ?add) (outs @ ?prod)" "bd_sequence c1 = BLOCK_SEQ_PADDING" using ok None by simp_all
    from tail_ok_after [OF block_decode_padding_tail [OF this coding(5) b(2)] coding(4,5) refl]
    show ?thesis using assms(4) coding(10) None by (auto simp: tail_ok_def split: prod.splits)
  qed
next
  case padding
  show ?thesis using block_decode_padding_tail [OF assms(3) padding(1) b(1,2)] assms(4) padding(2)
    by (auto simp: tail_ok_def split: prod.splits)
next
  case check
  show ?thesis using block_decode_check_tail [OF assms(3) check(1) b(1,2)] assms(4) check(2)
    by (auto simp: tail_ok_def split: prod.splits)
qed

lemma block_decoder_init_track:
  assumes "lzma_block_decoder_init inits mem nxt block = (LZMA_OK, nxt')" "nc_coder nxt' = Some c"
    and "length (bl_raw_check block) = 64"
    and "\<And>m. mem = Some m \<or> nc_coder nxt = Some m \<Longrightarrow> length (cs_buffer (bd_check m)) = 64"
  shows "block_track block (bl_version block \<ge> 1 \<and> bl_ignore_check block) c [] []"
proof -
  let ?nxt = "lzma_next_coder_init (Some ''lzma_block_decoder_init'') nxt"
  have g: "lzma_block_unpadded_size (Some block) \<noteq> 0" using assms(1) by (auto simp: lzma_block_decoder_init_def Let_def)
  then have id: "bl_check block \<le> LZMA_CHECK_ID_MAX" by (rule unpadded_sizeD)
  obtain m where m: "mem = Some m \<or> nc_coder ?nxt = Some m"
      "bd_sequence c = SEQ_CODE" "bd_block c = block" "bd_compressed_size c = 0" "bd_uncompressed_size c = 0" "bd_check_pos c = 0"
      "bd_check c = lzma_check_init (bd_check m) (bl_check block)"
      "bd_ignore_check c \<longleftrightarrow> bl_version block \<ge> 1 \<and> bl_ignore_check block"
  proof (cases "nc_coder ?nxt")
    case None
    then obtain m where "mem = Some m" using assms(1) g by (auto simp: lzma_block_decoder_init_def Let_def split: if_splits option.splits)
    then show thesis
      using that [of m] assms(1,2) g None by (auto simp: lzma_block_decoder_init_def Let_def split: if_splits prod.splits)
  next
    case (Some m)
    then show thesis
      using that [of m] assms(1,2) g by (auto simp: lzma_block_decoder_init_def Let_def split: if_splits prod.splits)
  qed
  have "nc_coder ?nxt = Some m \<Longrightarrow> nc_coder nxt = Some m"
    by (auto simp: lzma_next_coder_init_def lzma_next_end_def LZMA_NEXT_CODER_INIT_def Let_def split: if_splits)
  then have "length (cs_buffer (bd_check m)) = 64" using m(1) assms(4) by blast
  then show ?thesis using m id assms(3) check_track_init [of "bd_check m"] by (simp add: block_track_def)
qed

section \<open>Properties\<close>

text \<open>C5. What the end of a Block means. When the Block decoder, initialised for a Block and called any number of times with
  any pieces of input and any room for output, reports \<open>LZMA_STREAM_END\<close>, the bytes it consumed are the compressed
  data, zero padding up to the next multiple of four, and the Check field; the sizes stored in the Block are those
  of the compressed data and of the output, and agree with the sizes the Block Header announced; and the Check field
  is the check value of all the output, if the check type is supported and verification was not switched off. The
  filter chain is any coder that stays within its buffers until it reports an error.\<close>

theorem block_decode_sound:
  assumes "bounded_coder code good"
    and "lzma_block_decoder_init inits mem nxt block = (LZMA_OK, nxt')" "nc_coder nxt' = Some c" "block_over code good c"
    and "length (bl_raw_check block) = 64"
    and "\<And>m. mem = Some m \<or> nc_coder nxt = Some m \<Longrightarrow> length (cs_buffer (bd_check m)) = 64"
    and "coder_run block_decode c ins outs LZMA_STREAM_END c'"
  shows "\<exists>raw pad chk. ins = raw @ pad @ chk
    \<and> (\<forall>b\<in>set pad. b = 0) \<and> length raw + length pad = 4 * ((length raw + 3) div 4)
    \<and> length raw = unat (bl_compressed_size (bd_block c')) \<and> length outs = unat (bl_uncompressed_size (bd_block c'))
    \<and> bl_compressed_size block \<in> {LZMA_VLI_UNKNOWN, bl_compressed_size (bd_block c')}
    \<and> bl_uncompressed_size block \<in> {LZMA_VLI_UNKNOWN, bl_uncompressed_size (bd_block c')}
    \<and> length chk = unat (lzma_check_size (bl_check block))
    \<and> (lzma_check_is_supported (bl_check block) \<and> \<not> (bl_version block \<ge> 1 \<and> bl_ignore_check block) \<longrightarrow>
         chk = check_value (bl_check block) outs)"
proof -
  let ?ign = "bl_version block \<ge> 1 \<and> bl_ignore_check block"
  let ?I = "\<lambda>c ins outs. block_over code good c \<and> block_track block ?ign c ins outs"
  let ?J = "\<lambda>ret c ins outs. ret = LZMA_STREAM_END \<longrightarrow> block_complete block ?ign (bd_block c) ins outs"
  have "(LZMA_STREAM_END = LZMA_OK \<longrightarrow> ?I c' ins outs) \<and> ?J LZMA_STREAM_END c' ins outs"
  proof (rule coder_run_invariant [where I = ?I and J = ?J, OF assms(7)])
    show "?I c [] []" using block_decoder_init_track [OF assms(2,3,5,6)] assms(4) by blast
  next
    fix c :: "'a block_coder" and ins outs in_buf in_pos in_size out out_pos out_size action ret and c' :: "'a block_coder" and in_pos' out' out_pos'
    assume I: "?I c ins outs"
      and run: "block_decode c in_buf in_pos in_size out out_pos out_size action = Some (ret, c', in_pos', out', out_pos')"
      and b: "in_pos \<le> in_size" "in_size \<le> length in_buf" "out_pos \<le> out_size" "out_size \<le> length out"
        "length in_buf < 2 ^ 64" "length out < 2 ^ 64"
    have "ret = LZMA_OK \<longrightarrow> block_over code good c'"
      using bounded_coder.step [OF block_decode_bounded [OF assms(1)] _ b(1-4), of c action] I run by (simp add: code_ok_def)
    then show "(ret = LZMA_OK \<longrightarrow> ?I c' (ins @ span in_buf in_pos in_pos') (outs @ span out' out_pos out_pos'))
        \<and> ?J ret c' (ins @ span in_buf in_pos in_pos') (outs @ span out' out_pos out_pos')"
      using block_decode_step [OF assms(1) conjunct1 [OF I] conjunct2 [OF I] run b] by blast
  qed
  then have "block_complete block ?ign (bd_block c') ins outs" by simp
  then obtain raw pad chk where r: "ins = raw @ pad @ chk" "padding_of raw pad" "(length raw + length pad) mod 4 = 0"
    "sizes_final block (bd_block c') raw outs" "length chk = unat (lzma_check_size (bl_check block))"
    "\<not> ?ign \<and> lzma_check_is_supported (bl_check block) \<longrightarrow> chk = check_value (bl_check block) outs"
    unfolding block_complete_def by (elim exE conjE) (rule that)
  have "length raw + length pad = 4 * ((length raw + 3) div 4)"
    using r(2,3) by (intro pad_full) (simp_all add: padding_of_def)
  moreover have "\<forall>b\<in>set pad. b = 0" using r(2) by (simp add: padding_of_def)
  moreover note r(4) [unfolded sizes_final_def is_size_valid_def]
  ultimately show ?thesis
    using r(1,5,6) by (intro exI [of _ raw] exI [of _ pad] exI [of _ chk] conjI) simp_all
qed

text \<open>A chain that copies a given number of bytes, as an instance of the filter chain below the Block decoder.\<close>

definition sample_copy :: "nat lzma_code_function" where
  "sample_copy left in_buf in_pos in_size out out_pos out_size action =
     (let n = min left (min (in_size - in_pos) (out_size - out_pos))
      in Some (if n = left then LZMA_STREAM_END else LZMA_OK, left - n, in_pos + n,
           buf_write out_pos (take n (drop in_pos in_buf)) out, out_pos + n))"

definition sample_copy_inits :: "nat filter_inits" where
  "sample_copy_inits name nxt filters = (LZMA_OK, nxt\<lparr>nc_coder := Some 3, nc_code := Some sample_copy\<rparr>)"

lemma sample_copy_bounded: "bounded_coder sample_copy (\<lambda>_. True)"
proof
  fix c in_pos in_size out_pos out_size :: nat and in_buf out :: "u8 list" and action
  assume a: "in_pos \<le> in_size" "in_size \<le> length in_buf" "out_pos \<le> out_size" "out_size \<le> length out"
  define n where "n = min c (min (in_size - in_pos) (out_size - out_pos))"
  have le: "in_pos + n \<le> in_size" "out_pos + n \<le> out_size" using a unfolding n_def by linarith+
  then have "length (take n (drop in_pos in_buf)) = n" using a(2) by simp
  then show "code_ok (\<lambda>_. True) in_pos in_size out out_pos out_size
      (sample_copy c in_buf in_pos in_size out out_pos out_size action)"
    using window_kept_write [of out out_pos out_size out "take n (drop in_pos in_buf)"] a(4) le
    unfolding sample_copy_def n_def [symmetric] Let_def code_ok_def by simp
qed

definition sample_block_mem :: "nat block_coder" where
  "sample_block_mem = \<lparr>bd_sequence = SEQ_CODE, bd_next = LZMA_NEXT_CODER_INIT, bd_block = sample_block, bd_compressed_size = 9,
     bd_uncompressed_size = 9, bd_compressed_limit = 9, bd_check_pos = 9,
     bd_check = \<lparr>cs_crc32 = 5, cs_crc64 = 6, cs_sha256 = \<lparr>sha_buffer = replicate 64 0, sha_state = [], sha_size = 0\<rparr>\<rparr>,
     bd_ignore_check = False\<rparr>"

definition sample_small_block :: lzma_block where
  "sample_small_block = sample_block\<lparr>bl_header_size := 16, bl_compressed_size := LZMA_VLI_UNKNOWN,
     bl_raw_check := replicate 64 0\<rparr>"

definition sample_block_coder :: "nat block_coder" where
  "sample_block_coder = \<lparr>bd_sequence = SEQ_CODE,
     bd_next = LZMA_NEXT_CODER_INIT\<lparr>nc_init := Some ''lzma_simple_x86_decoder_init'', nc_id := LZMA_FILTER_X86,
       nc_coder := Some 3, nc_code := Some sample_copy\<rparr>,
     bd_block = sample_small_block, bd_compressed_size = 0,
     bd_uncompressed_size = 0, bd_compressed_limit = (LZMA_VLI_MAX AND NOT 3) - 20, bd_check_pos = 0,
     bd_check = lzma_check_init (bd_check sample_block_mem) LZMA_CHECK_CRC32, bd_ignore_check = False\<rparr>"

lemma sample_small_unpadded: "lzma_block_unpadded_size (Some sample_small_block) = LZMA_VLI_UNKNOWN"
  using sample_valid by (simp add: lzma_block_unpadded_size_def sample_block_def sample_small_block_def LZMA_BLOCK_HEADER_SIZE_MIN_def
      LZMA_BLOCK_HEADER_SIZE_MAX_def LZMA_VLI_UNKNOWN_def)

lemma sample_validate: "validate_chain (bl_filters sample_small_block) = (LZMA_OK, 2)"
  by (simp add: sample_small_block_def sample_block_def validate_chain_def sample_chain)
    (simp add: sample_x86_def sample_lzma2_def filter_ids features_find_def features_def bcj_features_def LZMA_FILTERS_MAX_def)

lemma sample_find: "find_inits decoder_init_name (take 2 (the (bl_filters sample_small_block)))
    = Some [\<lparr>fi_id = LZMA_FILTER_X86, fi_init = Some ''lzma_simple_x86_decoder_init'', fi_options = f_options sample_x86\<rparr>,
            \<lparr>fi_id = LZMA_FILTER_LZMA2, fi_init = Some ''lzma_lzma2_decoder_init'', fi_options = f_options sample_lzma2\<rparr>]"
  by (simp add: sample_small_block_def sample_block_def sample_x86_def sample_lzma2_def decoder_init_name_def filter_ids)

lemma sample_raw_init: "lzma_raw_decoder_init sample_copy_inits LZMA_NEXT_CODER_INIT (bl_filters sample_small_block)
    = (LZMA_OK, LZMA_NEXT_CODER_INIT\<lparr>nc_init := Some ''lzma_simple_x86_decoder_init'', nc_id := LZMA_FILTER_X86,
         nc_coder := Some 3, nc_code := Some sample_copy\<rparr>)"
  unfolding lzma_raw_decoder_init_def lzma_raw_coder_init_def sample_validate Let_def prod.case sample_find
  by (simp add: lzma_next_filter_init_def lzma_next_coder_init_def LZMA_NEXT_CODER_INIT_def lzma_next_end_def sample_copy_inits_def)

lemma sample_block_init:
  "lzma_block_decoder_init sample_copy_inits (Some sample_block_mem) LZMA_NEXT_CODER_INIT sample_small_block
    = (LZMA_OK, LZMA_NEXT_CODER_INIT\<lparr>nc_init := Some ''lzma_block_decoder_init'', nc_coder := Some sample_block_coder,
         nc_code := Some block_decode\<rparr>)"
proof -
  have b: "lzma_vli_is_valid (bl_uncompressed_size sample_small_block)" "bl_version sample_small_block = 1" "bl_header_size sample_small_block = 16"
    "bl_compressed_size sample_small_block = LZMA_VLI_UNKNOWN" "bl_check sample_small_block = LZMA_CHECK_CRC32" "\<not> bl_ignore_check sample_small_block"
    using sample_valid by (simp_all add: sample_small_block_def sample_block_def)
  have n: "lzma_next_coder_init f LZMA_NEXT_CODER_INIT = LZMA_NEXT_CODER_INIT\<lparr>nc_init := f\<rparr>" for f :: "string option"
    by (simp add: lzma_next_coder_init_def LZMA_NEXT_CODER_INIT_def lzma_next_end_def)
  have sz: "lzma_check_size LZMA_CHECK_CRC32 = 4" by (simp add: lzma_check_size_def check_sizes_def check_ids LZMA_CHECK_ID_MAX_def)
  have z: "LZMA_VLI_UNKNOWN \<noteq> 0" by (simp add: LZMA_VLI_UNKNOWN_def)
  have nc: "nc_coder (LZMA_NEXT_CODER_INIT :: nat block_coder lzma_next_coder) = None" by (simp add: LZMA_NEXT_CODER_INIT_def)
  show ?thesis
    unfolding lzma_block_decoder_init_def Let_def sample_small_unpadded n
    by (simp add: b z nc sz sample_raw_init sample_block_coder_def sample_block_mem_def)
qed

definition sample_block_input :: "u8 list" where
  "sample_block_input = [1, 2, 3, 0, 0x1D, 0x80, 0xBC, 0x55]"

lemma funpow_8: "(f ^^ 8) x = f (f (f (f (f (f (f (f x)))))))"
  by (simp add: numeral_eq_Suc)

lemma sample_crc: "lzma_crc32 [1, 2, 3] 0 = 0x55BC801D"
  by (simp add: lzma_crc32_run funpow_8 crc_shift_def poly32_def)

lemma sample_check_value: "check_value LZMA_CHECK_CRC32 [1, 2, 3] = [0x1D, 0x80, 0xBC, 0x55]"
  by (simp add: check_value_def sample_crc bytes32le_def)

lemma sample_block_run: "\<exists>c'. coder_run block_decode sample_block_coder sample_block_input [1, 2, 3] LZMA_STREAM_END c'
    \<and> bl_compressed_size (bd_block c') = 3"
proof -
  let ?k = "lzma_check_update (bd_check sample_block_coder) LZMA_CHECK_CRC32 [1, 2, 3]"
  define inner where "inner = (bd_next sample_block_coder)\<lparr>nc_coder := Some 0\<rparr>"
  define c1 where "c1 = sample_block_coder\<lparr>bd_next := inner, bd_compressed_size := 3, bd_uncompressed_size := 3, bd_check := ?k,
    bd_block := sample_small_block\<lparr>bl_compressed_size := 3, bl_uncompressed_size := 3\<rparr>, bd_sequence := BLOCK_SEQ_PADDING\<rparr>"
  have b: "bl_check sample_small_block = LZMA_CHECK_CRC32" "bl_uncompressed_size sample_small_block = LZMA_VLI_UNKNOWN"
    "bl_compressed_size sample_small_block = LZMA_VLI_UNKNOWN" "bl_raw_check sample_small_block = replicate 64 0"
    by (simp_all add: sample_small_block_def sample_block_def)
  have next_call: "call_next (bd_next sample_block_coder) sample_block_input 0 8 [0, 0, 0] 0 3 LZMA_RUN = Some (LZMA_STREAM_END, inner, 3, [1, 2, 3], 3)"
    by (simp add: call_next_def inner_def sample_block_coder_def sample_copy_def sample_block_input_def buf_write_def LZMA_NEXT_CODER_INIT_def)
  have acc: "block_account LZMA_STREAM_END (sample_block_coder\<lparr>bd_next := inner\<rparr>) 3 [1, 2, 3] = (None, c1)"
    by (simp add: block_account_def c1_def sample_block_coder_def b update_size_def is_size_valid_def LZMA_VLI_MAX_def LZMA_VLI_UNKNOWN_def)
  have loop: "block_padding_loop sample_block_input 8 3 3 = (None, 4, 4)"
    by (simp add: block_padding_loop.simps sample_block_input_def)
  define c2 where "c2 = c1\<lparr>bd_compressed_size := 4, bd_check := lzma_check_finish ?k LZMA_CHECK_CRC32, bd_sequence := SEQ_CHECK\<rparr>"
  have pad: "block_decode_padding c1 sample_block_input 3 8 = block_decode_check c2 sample_block_input 4 8"
    using loop by (simp add: block_decode_padding_def c1_def c2_def b sample_block_coder_def check_ids)
  have "check_track LZMA_CHECK_CRC32 ?k [1, 2, 3]"
    using check_track_update [OF check_track_init, of "bd_check sample_block_mem" LZMA_CHECK_CRC32 "[1, 2, 3]"]
    by (simp add: sample_block_coder_def sample_block_mem_def)
  note fin = check_track_finish [OF this, unfolded sample_check_value]
  have size4: "unat (lzma_check_size LZMA_CHECK_CRC32) = 4"
    by (simp add: lzma_check_size_def check_sizes_def check_ids LZMA_CHECK_ID_MAX_def)
  have fin: "take 4 (cs_buffer (bd_check c2)) = [0x1D, 0x80, 0xBC, 0x55]"
    using fin unfolding size4 by (simp add: supported_checks c2_def)
  have chk: "block_decode_check c2 sample_block_input 4 8 =
      (LZMA_STREAM_END, c2\<lparr>bd_block := (bd_block c2)\<lparr>bl_raw_check := [0x1D, 0x80, 0xBC, 0x55] @ replicate 60 0\<rparr>, bd_check_pos := 4\<rparr>, 8)"
  proof -
    have c2: "bl_check (bd_block c2) = LZMA_CHECK_CRC32" "bl_raw_check (bd_block c2) = replicate 64 0" "bd_check_pos c2 = 0"
      by (simp_all add: c2_def c1_def b sample_block_coder_def)
    have "lzma_bufcpy sample_block_input 4 8 (replicate 64 0) 0 4 = (4, 8, [0x1D, 0x80, 0xBC, 0x55] @ replicate 60 0, 4)"
      by (simp add: lzma_bufcpy_def sample_block_input_def buf_write_def)
    then show ?thesis unfolding block_decode_check_def c2 size4 by (simp add: fin)
  qed
  let ?c = "c2\<lparr>bd_block := (bd_block c2)\<lparr>bl_raw_check := [0x1D, 0x80, 0xBC, 0x55] @ replicate 60 0\<rparr>, bd_check_pos := 4\<rparr>"
  have "block_decode sample_block_coder sample_block_input 0 8 [0, 0, 0] 0 3 LZMA_RUN = Some (LZMA_STREAM_END, ?c, 8, [1, 2, 3], 3)"
  proof -
    have "bd_sequence sample_block_coder = SEQ_CODE" by (simp add: sample_block_coder_def)
    then show ?thesis
      unfolding block_decode_def using acc by (simp add: next_call span_def pad chk)
  qed
  from coder_run.first [where code = block_decode, OF this] have "coder_run block_decode sample_block_coder sample_block_input [1, 2, 3] LZMA_STREAM_END ?c"
    by (simp add: sample_block_input_def span_def)
  then show ?thesis by (intro exI [of _ ?c]) (simp add: c2_def c1_def)
qed

theorem block_decode_sound_witness:
  "\<exists>c'. coder_run block_decode sample_block_coder sample_block_input [1, 2, 3] LZMA_STREAM_END c'
    \<and> (\<exists>raw pad. sample_block_input = raw @ pad @ check_value LZMA_CHECK_CRC32 [1, 2, 3] \<and> length raw = 3 \<and> set pad \<subseteq> {0})"
proof -
  obtain c' where run: "coder_run block_decode sample_block_coder sample_block_input [1, 2, 3] LZMA_STREAM_END c'"
    and sz: "bl_compressed_size (bd_block c') = 3" using sample_block_run by blast
  let ?nxt = "LZMA_NEXT_CODER_INIT\<lparr>nc_init := Some ''lzma_block_decoder_init'', nc_coder := Some sample_block_coder, nc_code := Some block_decode\<rparr>"
  have h: "nc_coder ?nxt = Some sample_block_coder" "block_over sample_copy (\<lambda>_. True) sample_block_coder"
    "length (bl_raw_check sample_small_block) = 64"
    "\<And>m. Some sample_block_mem = Some m \<or> nc_coder LZMA_NEXT_CODER_INIT = Some m \<Longrightarrow> length (cs_buffer (bd_check m)) = 64"
    by (auto simp: block_over_def sample_block_coder_def sample_small_block_def sample_block_mem_def LZMA_NEXT_CODER_INIT_def)
  have b: "bl_check sample_small_block = LZMA_CHECK_CRC32" "\<not> bl_ignore_check sample_small_block" "lzma_check_is_supported LZMA_CHECK_CRC32"
    by (simp_all add: sample_small_block_def sample_block_def supported_checks)
  obtain raw pad chk where "sample_block_input = raw @ pad @ chk" "\<forall>b\<in>set pad. b = 0" "length raw = unat (bl_compressed_size (bd_block c'))"
    "chk = check_value (bl_check sample_small_block) [1, 2, 3]"
    using block_decode_sound [OF sample_copy_bounded sample_block_init h run] b by auto
  then show ?thesis using run b(1) sz by (intro exI [of _ c'] conjI exI [of _ raw] exI [of _ pad]) auto
qed

end
