(* ===== verification/Stream_Decoder.thy ===== *)
theory Stream_Decoder
  imports Block_Decoder
begin

text \<open>
  The Stream decoder, \<open>common/stream_decoder.c\<close>: Stream Header, Blocks, Index and Stream Footer in resumable calls,
  and further Streams with padding between them when \<open>LZMA_CONCATENATED\<close> is given.

  The structure \<open>block_options\<close> is shared with the Block decoder, which holds a pointer to it; the model stores it in
  the Block decoder before each call and reads it back afterwards. What the allocations of a call return, the
  uninitialised local variables and the initialisation functions of the filters are collected in a \<open>stream_env\<close>.
  The loop of \<open>stream_decode\<close> is a partial function, \<open>None\<close> when it does not return.
\<close>

section \<open>The code\<close>

definition LZMA_TELL_NO_CHECK :: u32 where "LZMA_TELL_NO_CHECK = 0x01"
definition LZMA_TELL_UNSUPPORTED_CHECK :: u32 where "LZMA_TELL_UNSUPPORTED_CHECK = 0x02"
definition LZMA_TELL_ANY_CHECK :: u32 where "LZMA_TELL_ANY_CHECK = 0x04"
definition LZMA_CONCATENATED :: u32 where "LZMA_CONCATENATED = 0x08"
definition LZMA_IGNORE_CHECK :: u32 where "LZMA_IGNORE_CHECK = 0x10"

definition LZMA_SUPPORTED_FLAGS :: u32 where
  "LZMA_SUPPORTED_FLAGS =
     LZMA_TELL_NO_CHECK OR LZMA_TELL_UNSUPPORTED_CHECK OR LZMA_TELL_ANY_CHECK OR LZMA_IGNORE_CHECK OR LZMA_CONCATENATED"

lemmas stream_flag_defs =
  LZMA_TELL_NO_CHECK_def LZMA_TELL_UNSUPPORTED_CHECK_def LZMA_TELL_ANY_CHECK_def LZMA_CONCATENATED_def LZMA_IGNORE_CHECK_def
  LZMA_SUPPORTED_FLAGS_def

datatype stream_seq =
  SEQ_STREAM_HEADER | SEQ_BLOCK_HEADER | SEQ_BLOCK | SEQ_INDEX | SEQ_STREAM_FOOTER | SEQ_STREAM_PADDING

record 'r stream_coder =
  sd_sequence :: stream_seq
  sd_block_decoder :: "'r block_coder lzma_next_coder"
  sd_block_options :: lzma_block
  sd_stream_flags :: lzma_stream_flags
  sd_index_hash :: "lzma_index_hash option"
  sd_memlimit :: u64
  sd_memusage :: u64
  sd_tell_no_check :: bool
  sd_tell_unsupported_check :: bool
  sd_tell_any_check :: bool
  sd_ignore_check :: bool
  sd_concatenated :: bool
  sd_first_stream :: bool
  sd_pos :: nat
  sd_buffer :: "u8 list"

record 'r stream_env =
  se_sizes :: coder_sizes
  se_alloc :: "nat \<Rightarrow> opts_alloc"
  se_filters :: "lzma_filter list"
  se_inits :: "'r filter_inits"
  se_block_mem :: "'r block_coder option"
  se_index_mem :: "lzma_index_hash option"
  se_footer_flags :: lzma_stream_flags

definition stream_decoder_reset :: "'r stream_env \<Rightarrow> 'r stream_coder \<Rightarrow> lzma_ret \<times> 'r stream_coder" where
  "stream_decoder_reset env coder =
     (let coder = coder\<lparr>sd_index_hash := lzma_index_hash_init (sd_index_hash coder) (se_index_mem env)\<rparr>
      in if sd_index_hash coder = None then (LZMA_MEM_ERROR, coder)
         else (LZMA_OK, coder\<lparr>sd_sequence := SEQ_STREAM_HEADER, sd_pos := 0\<rparr>))"

text \<open>One turn of the loop: \<open>Inl\<close> is a return, \<open>Inr\<close> goes to the head of the loop with the new state, input
  position, output buffer and output position.\<close>

type_synonym 'r stream_turn = "'r stream_coder code_result + 'r stream_coder \<times> nat \<times> u8 list \<times> nat"

text \<open>The case \<open>SEQ_STREAM_PADDING\<close>. The loop returns, or goes on at a byte that is not zero.\<close>

function stream_padding_loop :: "u8 list \<Rightarrow> nat \<Rightarrow> lzma_action \<Rightarrow> nat \<Rightarrow> nat \<Rightarrow> lzma_ret option \<times> nat \<times> nat" where
  "stream_padding_loop in_buf in_size action pos in_pos =
     (if in_pos \<ge> in_size
      then (Some (if action \<noteq> LZMA_FINISH then LZMA_OK else if pos = 0 then LZMA_STREAM_END else LZMA_DATA_ERROR), pos, in_pos)
      else if in_buf ! in_pos \<noteq> 0 then (None, pos, in_pos)
      else stream_padding_loop in_buf in_size action ((pos + 1) AND 3) (in_pos + 1))"
  by pat_completeness auto
termination by (relation "measure (\<lambda>(in_buf, in_size, action, pos, in_pos). in_size - in_pos)") auto

declare stream_padding_loop.simps [simp del]

definition stream_decode_padding ::
  "'r stream_env \<Rightarrow> 'r stream_coder \<Rightarrow> u8 list \<Rightarrow> nat \<Rightarrow> nat \<Rightarrow> u8 list \<Rightarrow> nat \<Rightarrow> lzma_action \<Rightarrow> 'r stream_turn"
where
  "stream_decode_padding env coder in_buf in_pos in_size out out_pos action =
     (case stream_padding_loop in_buf in_size action (sd_pos coder) in_pos of
        (ret, pos, in_pos) \<Rightarrow>
          (let coder = coder\<lparr>sd_pos := pos\<rparr>
           in case ret of
                Some ret \<Rightarrow> Inl (ret, coder, in_pos, out, out_pos)
              | None \<Rightarrow>
                  if pos \<noteq> 0 then Inl (LZMA_DATA_ERROR, coder, in_pos + 1, out, out_pos)
                  else
                    (case stream_decoder_reset env coder of
                       (ret, coder) \<Rightarrow>
                         if ret \<noteq> LZMA_OK then Inl (ret, coder, in_pos, out, out_pos)
                         else Inr (coder, in_pos, out, out_pos))))"

text \<open>The case \<open>SEQ_STREAM_FOOTER\<close> with the fall through.\<close>

definition stream_decode_footer ::
  "'r stream_env \<Rightarrow> 'r stream_coder \<Rightarrow> u8 list \<Rightarrow> nat \<Rightarrow> nat \<Rightarrow> u8 list \<Rightarrow> nat \<Rightarrow> lzma_action \<Rightarrow> 'r stream_turn"
where
  "stream_decode_footer env coder in_buf in_pos in_size out out_pos action =
     (let (_, in_pos, buffer, pos) = lzma_bufcpy in_buf in_pos in_size (sd_buffer coder) (sd_pos coder) LZMA_STREAM_HEADER_SIZE;
          coder = coder\<lparr>sd_buffer := buffer, sd_pos := pos\<rparr>
      in if pos < LZMA_STREAM_HEADER_SIZE then Inl (LZMA_OK, coder, in_pos, out, out_pos)
         else
           (let coder = coder\<lparr>sd_pos := 0\<rparr>;
                (ret, footer_flags) = lzma_stream_footer_decode (se_footer_flags env) buffer
            in if ret \<noteq> LZMA_OK
               then Inl (if ret = LZMA_FORMAT_ERROR then LZMA_DATA_ERROR else ret, coder, in_pos, out, out_pos)
               else if lzma_index_hash_size (the (sd_index_hash coder)) \<noteq> sf_backward_size footer_flags
               then Inl (LZMA_DATA_ERROR, coder, in_pos, out, out_pos)
               else if lzma_stream_flags_compare (sd_stream_flags coder) footer_flags \<noteq> LZMA_OK
               then Inl (lzma_stream_flags_compare (sd_stream_flags coder) footer_flags, coder, in_pos, out, out_pos)
               else if \<not> sd_concatenated coder then Inl (LZMA_STREAM_END, coder, in_pos, out, out_pos)
               else
                 stream_decode_padding env (coder\<lparr>sd_sequence := SEQ_STREAM_PADDING\<rparr>) in_buf in_pos in_size out out_pos action))"

text \<open>The case \<open>SEQ_INDEX\<close> with the fall through.\<close>

definition stream_decode_index ::
  "'r stream_env \<Rightarrow> 'r stream_coder \<Rightarrow> u8 list \<Rightarrow> nat \<Rightarrow> nat \<Rightarrow> u8 list \<Rightarrow> nat \<Rightarrow> lzma_action \<Rightarrow> 'r stream_turn"
where
  "stream_decode_index env coder in_buf in_pos in_size out out_pos action =
     (if in_pos \<ge> in_size then Inl (LZMA_OK, coder, in_pos, out, out_pos)
      else
        (case lzma_index_hash_decode (the (sd_index_hash coder)) in_buf in_pos in_size of
           (ret, ih, in_pos) \<Rightarrow>
             (let coder = coder\<lparr>sd_index_hash := Some ih\<rparr>
              in if ret \<noteq> LZMA_STREAM_END then Inl (ret, coder, in_pos, out, out_pos)
                 else stream_decode_footer env (coder\<lparr>sd_sequence := SEQ_STREAM_FOOTER\<rparr>) in_buf in_pos in_size out out_pos action)))"

text \<open>The case \<open>SEQ_BLOCK\<close>.\<close>

definition share_block :: "'r stream_coder \<Rightarrow> 'r block_coder lzma_next_coder" where
  "share_block coder =
     (sd_block_decoder coder)\<lparr>nc_coder := map_option (\<lambda>b. b\<lparr>bd_block := sd_block_options coder\<rparr>) (nc_coder (sd_block_decoder coder))\<rparr>"

definition stream_decode_block ::
  "'r stream_coder \<Rightarrow> u8 list \<Rightarrow> nat \<Rightarrow> nat \<Rightarrow> u8 list \<Rightarrow> nat \<Rightarrow> nat \<Rightarrow> lzma_action \<Rightarrow> 'r stream_turn option"
where
  "stream_decode_block coder in_buf in_pos in_size out out_pos out_size action =
     (case call_next (share_block coder) in_buf in_pos in_size out out_pos out_size action of
        None \<Rightarrow> None
      | Some (ret, block_decoder, in_pos, out, out_pos) \<Rightarrow>
          (let coder = coder\<lparr>sd_block_decoder := block_decoder, sd_block_options := bd_block (the (nc_coder block_decoder))\<rparr>
           in if ret \<noteq> LZMA_STREAM_END then Some (Inl (ret, coder, in_pos, out, out_pos))
              else
                (case lzma_index_hash_append (the (sd_index_hash coder)) (lzma_block_unpadded_size (Some (sd_block_options coder)))
                        (bl_uncompressed_size (sd_block_options coder)) of
                   (ret, ih) \<Rightarrow>
                     (let coder = coder\<lparr>sd_index_hash := Some ih\<rparr>
                      in if ret \<noteq> LZMA_OK then Some (Inl (ret, coder, in_pos, out, out_pos))
                         else Some (Inr (coder\<lparr>sd_sequence := SEQ_BLOCK_HEADER\<rparr>, in_pos, out, out_pos))))))"

text \<open>From the complete Block Header in \<open>buffer\<close> to the initialised Block decoder.\<close>

definition stream_start_block :: "'r stream_env \<Rightarrow> 'r stream_coder \<Rightarrow> lzma_ret \<times> 'r stream_coder" where
  "stream_start_block env coder =
     (case lzma_block_header_decode (se_alloc env)
             ((sd_block_options coder)\<lparr>bl_version := 1, bl_filters := Some (se_filters env)\<rparr>) (sd_buffer coder) of
        (ret, block) \<Rightarrow>
          if ret \<noteq> LZMA_OK then (ret, coder\<lparr>sd_block_options := block\<rparr>)
          else
            (let block = block\<lparr>bl_ignore_check := sd_ignore_check coder\<rparr>;
                 memusage = lzma_raw_decoder_memusage (se_sizes env) (bl_filters block);
                 (ret, coder) =
                   (if memusage = UINT64_MAX then (LZMA_OPTIONS_ERROR, coder)
                    else if memusage > sd_memlimit coder then (LZMA_MEMLIMIT_ERROR, coder\<lparr>sd_memusage := memusage\<rparr>)
                    else
                      (case lzma_block_decoder_init (se_inits env) (se_block_mem env) (sd_block_decoder coder) block of
                         (ret, block_decoder) \<Rightarrow> (ret, coder\<lparr>sd_memusage := memusage, sd_block_decoder := block_decoder\<rparr>)));
                 coder = coder\<lparr>sd_block_options := block\<lparr>bl_filters := None\<rparr>\<rparr>
             in if ret \<noteq> LZMA_OK then (ret, coder) else (LZMA_OK, coder\<lparr>sd_sequence := SEQ_BLOCK\<rparr>)))"

text \<open>The case \<open>SEQ_BLOCK_HEADER\<close> with the fall through.\<close>

definition stream_decode_block_header ::
  "'r stream_env \<Rightarrow> 'r stream_coder \<Rightarrow> u8 list \<Rightarrow> nat \<Rightarrow> nat \<Rightarrow> u8 list \<Rightarrow> nat \<Rightarrow> nat \<Rightarrow> lzma_action \<Rightarrow> 'r stream_turn option"
where
  "stream_decode_block_header env coder in_buf in_pos in_size out out_pos out_size action =
     (if in_pos \<ge> in_size then Some (Inl (LZMA_OK, coder, in_pos, out, out_pos))
      else if sd_pos coder = 0 \<and> in_buf ! in_pos = 0 then Some (Inr (coder\<lparr>sd_sequence := SEQ_INDEX\<rparr>, in_pos, out, out_pos))
      else
        (let coder = (if sd_pos coder = 0
                      then coder\<lparr>sd_block_options :=
                             (sd_block_options coder)\<lparr>bl_header_size := lzma_block_header_size_decode (in_buf ! in_pos)\<rparr>\<rparr>
                      else coder);
             header_size = unat (bl_header_size (sd_block_options coder));
             (_, in_pos, buffer, pos) = lzma_bufcpy in_buf in_pos in_size (sd_buffer coder) (sd_pos coder) header_size;
             coder = coder\<lparr>sd_buffer := buffer, sd_pos := pos\<rparr>
         in if pos < header_size then Some (Inl (LZMA_OK, coder, in_pos, out, out_pos))
            else
              (case stream_start_block env (coder\<lparr>sd_pos := 0\<rparr>) of
                 (ret, coder) \<Rightarrow>
                   if ret \<noteq> LZMA_OK then Some (Inl (ret, coder, in_pos, out, out_pos))
                   else stream_decode_block coder in_buf in_pos in_size out out_pos out_size action)))"

text \<open>The case \<open>SEQ_STREAM_HEADER\<close> with the fall through.\<close>

definition stream_decode_header ::
  "'r stream_env \<Rightarrow> 'r stream_coder \<Rightarrow> u8 list \<Rightarrow> nat \<Rightarrow> nat \<Rightarrow> u8 list \<Rightarrow> nat \<Rightarrow> nat \<Rightarrow> lzma_action \<Rightarrow> 'r stream_turn option"
where
  "stream_decode_header env coder in_buf in_pos in_size out out_pos out_size action =
     (let (_, in_pos, buffer, pos) = lzma_bufcpy in_buf in_pos in_size (sd_buffer coder) (sd_pos coder) LZMA_STREAM_HEADER_SIZE;
          coder = coder\<lparr>sd_buffer := buffer, sd_pos := pos\<rparr>
      in if pos < LZMA_STREAM_HEADER_SIZE then Some (Inl (LZMA_OK, coder, in_pos, out, out_pos))
         else
           (let (ret, flags) = lzma_stream_header_decode (sd_stream_flags coder) buffer;
                coder = coder\<lparr>sd_pos := 0, sd_stream_flags := flags\<rparr>
            in if ret \<noteq> LZMA_OK
               then Some (Inl (if ret = LZMA_FORMAT_ERROR \<and> \<not> sd_first_stream coder then LZMA_DATA_ERROR else ret,
                     coder, in_pos, out, out_pos))
               else
                 (let coder = coder\<lparr>sd_first_stream := False,
                        sd_block_options := (sd_block_options coder)\<lparr>bl_check := sf_check flags\<rparr>,
                        sd_sequence := SEQ_BLOCK_HEADER\<rparr>
                  in if sd_tell_no_check coder \<and> sf_check flags = LZMA_CHECK_NONE
                     then Some (Inl (LZMA_NO_CHECK, coder, in_pos, out, out_pos))
                     else if sd_tell_unsupported_check coder \<and> \<not> lzma_check_is_supported (sf_check flags)
                     then Some (Inl (LZMA_UNSUPPORTED_CHECK, coder, in_pos, out, out_pos))
                     else if sd_tell_any_check coder then Some (Inl (LZMA_GET_CHECK, coder, in_pos, out, out_pos))
                     else stream_decode_block_header env coder in_buf in_pos in_size out out_pos out_size action)))"

definition stream_turn ::
  "'r stream_env \<Rightarrow> 'r stream_coder \<Rightarrow> u8 list \<Rightarrow> nat \<Rightarrow> nat \<Rightarrow> u8 list \<Rightarrow> nat \<Rightarrow> nat \<Rightarrow> lzma_action \<Rightarrow> 'r stream_turn option"
where
  "stream_turn env coder in_buf in_pos in_size out out_pos out_size action =
     (case sd_sequence coder of
        SEQ_STREAM_HEADER \<Rightarrow> stream_decode_header env coder in_buf in_pos in_size out out_pos out_size action
      | SEQ_BLOCK_HEADER \<Rightarrow> stream_decode_block_header env coder in_buf in_pos in_size out out_pos out_size action
      | SEQ_BLOCK \<Rightarrow> stream_decode_block coder in_buf in_pos in_size out out_pos out_size action
      | SEQ_INDEX \<Rightarrow> Some (stream_decode_index env coder in_buf in_pos in_size out out_pos action)
      | SEQ_STREAM_FOOTER \<Rightarrow> Some (stream_decode_footer env coder in_buf in_pos in_size out out_pos action)
      | SEQ_STREAM_PADDING \<Rightarrow> Some (stream_decode_padding env coder in_buf in_pos in_size out out_pos action))"

partial_function (option) stream_loop ::
  "'r stream_env \<Rightarrow> u8 list \<Rightarrow> nat \<Rightarrow> nat \<Rightarrow> lzma_action \<Rightarrow> 'r stream_coder \<Rightarrow> nat \<Rightarrow> u8 list \<Rightarrow> nat
     \<Rightarrow> 'r stream_coder code_result option"
where
  "stream_loop env in_buf in_size out_size action coder in_pos out out_pos =
     Option.bind (stream_turn env coder in_buf in_pos in_size out out_pos out_size action)
       (\<lambda>turn. case turn of
          Inl result \<Rightarrow> Some result
        | Inr (coder, in_pos, out, out_pos) \<Rightarrow> stream_loop env in_buf in_size out_size action coder in_pos out out_pos)"

definition stream_decode :: "'r stream_env \<Rightarrow> 'r stream_coder lzma_code_function" where
  "stream_decode env coder in_buf in_pos in_size out out_pos out_size action =
     stream_loop env in_buf in_size out_size action coder in_pos out out_pos"

definition stream_decoder_get_check :: "'r stream_coder \<Rightarrow> u32" where
  "stream_decoder_get_check coder = sf_check (sd_stream_flags coder)"

definition stream_decoder_memconfig :: "'r stream_coder \<Rightarrow> u64 \<Rightarrow> lzma_ret \<times> 'r stream_coder \<times> u64 \<times> u64" where
  "stream_decoder_memconfig coder new_memlimit =
     (if new_memlimit \<noteq> 0 then
        (if new_memlimit < sd_memusage coder then (LZMA_MEMLIMIT_ERROR, coder, sd_memusage coder, sd_memlimit coder)
         else (LZMA_OK, coder\<lparr>sd_memlimit := new_memlimit\<rparr>, sd_memusage coder, sd_memlimit coder))
      else (LZMA_OK, coder, sd_memusage coder, sd_memlimit coder))"

definition lzma_stream_decoder_init ::
  "'r stream_env \<Rightarrow> 'r stream_coder option \<Rightarrow> 'r stream_coder lzma_next_coder \<Rightarrow> u64 \<Rightarrow> u32
     \<Rightarrow> lzma_ret \<times> 'r stream_coder lzma_next_coder"
where
  "lzma_stream_decoder_init env mem nxt memlimit flags =
     (let nxt = lzma_next_coder_init (Some ''lzma_stream_decoder_init'') nxt
      in if memlimit = 0 then (LZMA_PROG_ERROR, nxt)
         else if flags AND NOT LZMA_SUPPORTED_FLAGS \<noteq> 0 then (LZMA_OPTIONS_ERROR, nxt)
         else
           (case (case nc_coder nxt of
                    Some c \<Rightarrow> Some (c, nxt)
                  | None \<Rightarrow>
                      map_option (\<lambda>c. (c\<lparr>sd_block_decoder := LZMA_NEXT_CODER_INIT, sd_index_hash := None\<rparr>,
                          nxt\<lparr>nc_code := Some (stream_decode env), nc_get_check := Some stream_decoder_get_check,
                              nc_memconfig := Some stream_decoder_memconfig\<rparr>)) mem) of
              None \<Rightarrow> (LZMA_MEM_ERROR, nxt)
            | Some (c, nxt) \<Rightarrow>
                (let c = c\<lparr>sd_memlimit := memlimit, sd_memusage := LZMA_MEMUSAGE_BASE,
                           sd_tell_no_check := (flags AND LZMA_TELL_NO_CHECK \<noteq> 0),
                           sd_tell_unsupported_check := (flags AND LZMA_TELL_UNSUPPORTED_CHECK \<noteq> 0),
                           sd_tell_any_check := (flags AND LZMA_TELL_ANY_CHECK \<noteq> 0),
                           sd_ignore_check := (flags AND LZMA_IGNORE_CHECK \<noteq> 0),
                           sd_concatenated := (flags AND LZMA_CONCATENATED \<noteq> 0),
                           sd_first_stream := True\<rparr>;
                     (ret, c) = stream_decoder_reset env c
                 in (ret, nxt\<lparr>nc_coder := Some c\<rparr>))))"

definition lzma_stream_decoder ::
  "'r stream_env \<Rightarrow> 'r stream_coder option \<Rightarrow> 'r stream_coder lzma_internal option \<Rightarrow> 'r stream_coder lzma_stream option \<Rightarrow> u64 \<Rightarrow> u32
     \<Rightarrow> lzma_ret \<times> 'r stream_coder lzma_stream option"
where
  "lzma_stream_decoder env mem imem strm memlimit flags =
     (case lzma_next_strm_init (\<lambda>nxt. lzma_stream_decoder_init env mem nxt memlimit flags) imem strm of
        (ret, strm) \<Rightarrow>
          if ret \<noteq> LZMA_OK then (ret, strm)
          else (LZMA_OK, support_action LZMA_FINISH (support_action LZMA_RUN strm)))"

section \<open>Return codes\<close>

lemma stream_header_decode_ret: "fst (lzma_stream_header_decode flags buf) \<notin> {LZMA_STREAM_END, LZMA_TIMED_OUT}"
  by (simp add: lzma_stream_header_decode_def Let_def split_beta)

lemma stream_footer_decode_ret: "fst (lzma_stream_footer_decode flags buf) \<notin> {LZMA_STREAM_END, LZMA_TIMED_OUT}"
  by (simp add: lzma_stream_footer_decode_def Let_def split_beta)

lemma stream_flags_compare_ret: "lzma_stream_flags_compare a b \<notin> {LZMA_STREAM_END, LZMA_TIMED_OUT}"
  by (simp add: lzma_stream_flags_compare_def)

lemma index_hash_append_ret: "fst (lzma_index_hash_append ih u c) \<notin> {LZMA_STREAM_END, LZMA_TIMED_OUT}"
  by (simp add: lzma_index_hash_append_def Let_def)

lemma vli_decode_timed: "fst (lzma_vli_decode v p in_buf in_pos in_size) \<noteq> LZMA_TIMED_OUT"
proof -
  have "fst (vli_decode_loop single v q in_buf in_pos in_size) \<noteq> LZMA_TIMED_OUT" for single v q in_pos
  proof (induction single v q in_buf in_pos in_size rule: vli_decode_loop.induct)
    case (1 single v q in_buf in_pos in_size)
    show ?case using 1 by (subst vli_decode_loop.simps) (auto simp: Let_def)
  qed
  then show ?thesis by (auto simp: lzma_vli_decode_def Let_def split_beta split: option.splits)
qed

lemma index_crc_loop_timed: "fst (index_hash_crc_loop in_buf in_size ih in_pos) \<noteq> LZMA_TIMED_OUT"
proof (induction in_buf in_size ih in_pos rule: index_hash_crc_loop.induct)
  case (1 in_buf in_size ih in_pos)
  show ?case using 1 by (subst index_hash_crc_loop.simps) (auto simp: Let_def)
qed

lemma index_padding_timed: "index_hash_padding in_buf in_start in_size ih in_pos \<noteq> Return LZMA_TIMED_OUT s"
  "index_hash_padding in_buf in_start in_size ih in_pos \<noteq> Goto_out LZMA_TIMED_OUT s"
  using index_crc_loop_timed by (auto simp: index_hash_padding_def Let_def split_beta)

lemma index_step_timed:
  "index_hash_step in_buf in_start in_size ih in_pos \<noteq> Return LZMA_TIMED_OUT s"
  "index_hash_step in_buf in_start in_size ih in_pos \<noteq> Goto_out LZMA_TIMED_OUT s"
  using index_padding_timed index_crc_loop_timed vli_decode_timed
  by (simp_all add: index_hash_step_def Let_def split_beta split: index_hash_seq.splits)

lemma index_hash_decode_timed: "fst (lzma_index_hash_decode ih in_buf in_pos in_size) \<noteq> LZMA_TIMED_OUT"
proof -
  have "fst (index_hash_loop in_buf in_start in_size ih in_pos) \<noteq> LZMA_TIMED_OUT" for in_start ih in_pos
  proof (induction in_buf in_start in_size ih in_pos rule: index_hash_loop.induct)
    case (1 in_buf in_start in_size ih in_pos)
    show ?case
      using 1 by (subst index_hash_loop.simps) (auto simp: index_hash_out_def index_step_timed split: loop_end.splits)
  qed
  then show ?thesis by (simp add: lzma_index_hash_decode_def)
qed

lemma validate_chain_loop_ret: "fst (validate_chain_loop fs n a b i) \<notin> {LZMA_STREAM_END, LZMA_TIMED_OUT}"
  by (induction fs n a b i rule: validate_chain_loop.induct) (simp_all split: option.splits)

lemma validate_chain_ret: "fst (validate_chain fs) \<notin> {LZMA_STREAM_END, LZMA_TIMED_OUT}"
  using validate_chain_loop_ret by (simp add: validate_chain_def split: option.splits)

text \<open>What the Stream decoder relies on: the filter chain stays within its buffers until it reports an error, and its
  initialisation, in fresh memory or in that of a chain in a good state, either reports an error (neither the end of the data
  nor a timeout) or leaves it in a good state.\<close>

definition raw_next_ok :: "'r lzma_code_function \<Rightarrow> ('r \<Rightarrow> bool) \<Rightarrow> 'r lzma_next_coder \<Rightarrow> bool" where
  "raw_next_ok code good nxt \<longleftrightarrow> nc_coder nxt = None \<or> nc_code nxt = Some code \<and> good (the (nc_coder nxt))"

lemma raw_next_fresh [simp]: "raw_next_ok code good LZMA_NEXT_CODER_INIT"
  by (simp add: raw_next_ok_def LZMA_NEXT_CODER_INIT_def)

definition raw_chain_ok :: "'r lzma_code_function \<Rightarrow> ('r \<Rightarrow> bool) \<Rightarrow> 'r filter_inits \<Rightarrow> bool" where
  "raw_chain_ok code good inits \<longleftrightarrow>
     bounded_coder code good
     \<and> (\<forall>name nxt filters. fst (inits name nxt filters) \<notin> {LZMA_STREAM_END, LZMA_TIMED_OUT})
     \<and> (\<forall>nxt filters ret nxt'. raw_next_ok code good nxt \<and> lzma_raw_decoder_init inits nxt filters = (ret, nxt') \<longrightarrow>
          raw_next_ok code good nxt' \<and> (ret = LZMA_OK \<longrightarrow> nc_coder nxt' \<noteq> None))"

text \<open>How the initialisation of a chain goes: it fails before any filter is initialised, or it calls the initialisation of the
  first filter, which is the only one if it is LZMA1 or LZMA2.\<close>

lemma raw_decoder_init_cases:
  assumes "lzma_raw_decoder_init inits nxt filters = (ret, nxt')"
  obtains (early) "ret \<noteq> LZMA_OK" "nxt' = nxt"
  | (init) f :: lzma_filter and rest name infos n where "decoder_init_name (f_id f) = Some name" "f_id f \<in> {LZMA_FILTER_LZMA1, LZMA_FILTER_LZMA2} \<longrightarrow> rest = []"
      "find_inits decoder_init_name rest = Some infos"
      "inits name ((lzma_next_coder_init (Some name) nxt)\<lparr>nc_id := f_id f\<rparr>)
         (\<lparr>fi_id = f_id f, fi_init = Some name, fi_options = f_options f\<rparr> # infos
            @ [\<lparr>fi_id = LZMA_VLI_UNKNOWN, fi_init = None, fi_options = None\<rparr>]) = (ret, n)"
      "nxt' = (if ret \<noteq> LZMA_OK then lzma_next_end n else n)"
proof (cases "fst (validate_chain filters) = LZMA_OK \<and> find_inits decoder_init_name (take (snd (validate_chain filters)) (the filters)) \<noteq> None")
  case False
  then show thesis using assms by (intro early) (auto simp: lzma_raw_decoder_init_def lzma_raw_coder_init_def split_beta split: option.splits if_splits)
next
  case True
  then obtain k where v: "validate_chain filters = (LZMA_OK, k)" by (metis prod.collapse)
  then obtain fs where fs: "filters = Some fs" "chain_of fs \<noteq> []" by (auto simp: validate_chain_def split: option.splits if_splits)
  have chain: "k = length (chain_of fs)" "list_all (\<lambda>f. f_id f \<in> insert LZMA_FILTER_DELTA (set bcj_ids)) (butlast (chain_of fs))"
    using v fs validate_chain_loop_ok [OF fs(2), of 0 True False 0 k] by (simp_all add: validate_chain_def)
  have "take k fs = chain_of fs" using chain(1) unfolding chain_of_def by (metis takeWhile_eq_take)
  moreover obtain f rest where cons: "chain_of fs = f # rest" using fs(2) by (cases "chain_of fs") auto
  ultimately obtain name infos where n: "decoder_init_name (f_id f) = Some name" "find_inits decoder_init_name rest = Some infos"
    using True v fs(1) by (auto split: option.splits)
  let ?infos = "\<lparr>fi_id = f_id f, fi_init = Some name, fi_options = f_options f\<rparr> # infos"
  have found: "find_inits decoder_init_name (take k (the filters)) = Some ?infos" using n fs(1) cons \<open>take k fs = chain_of fs\<close> by simp
  have only: "f_id f \<in> {LZMA_FILTER_LZMA1, LZMA_FILTER_LZMA2} \<longrightarrow> rest = []"
    using chain(2) cons bcj_not_last [of "f_id f"] by (cases rest) auto
  obtain r m where call: "inits name ((lzma_next_coder_init (Some name) nxt)\<lparr>nc_id := f_id f\<rparr>)
      (?infos @ [\<lparr>fi_id = LZMA_VLI_UNKNOWN, fi_init = None, fi_options = None\<rparr>]) = (r, m)" by fastforce
  then have "lzma_raw_decoder_init inits nxt filters = (r, if r \<noteq> LZMA_OK then lzma_next_end m else m)"
    by (simp add: lzma_raw_decoder_init_def lzma_raw_coder_init_def v found lzma_next_filter_init_def Let_def)
  then show thesis using init [OF n(1) only n(2)] call assms by simp
qed

lemma raw_init_ret:
  assumes "raw_chain_ok code good inits"
  shows "fst (lzma_raw_decoder_init inits nxt fs) \<notin> {LZMA_STREAM_END, LZMA_TIMED_OUT}"
proof -
  have "fst (lzma_next_filter_init inits n f) \<notin> {LZMA_STREAM_END, LZMA_TIMED_OUT}" for n f
    using assms by (simp add: lzma_next_filter_init_def raw_chain_ok_def Let_def split: option.splits)
  then show ?thesis
    using validate_chain_ret [of fs]
    by (simp add: lzma_raw_decoder_init_def lzma_raw_coder_init_def Let_def split_beta split: option.splits)
qed

lemma fst_case_option: "(case x of None \<Rightarrow> a | Some y \<Rightarrow> f y) = (if x = None then a else f (the x))"
  by (cases x) simp_all

lemma block_decoder_init_ret:
  assumes "raw_chain_ok code good inits"
  shows "fst (lzma_block_decoder_init inits mem nxt block) \<notin> {LZMA_STREAM_END, LZMA_TIMED_OUT}"
  using raw_init_ret [OF assms]
  unfolding lzma_block_decoder_init_def Let_def split_beta fst_case_option by simp

section \<open>The invariant\<close>

definition block_next_ok :: "'r lzma_code_function \<Rightarrow> ('r \<Rightarrow> bool) \<Rightarrow> 'r block_coder lzma_next_coder \<Rightarrow> bool" where
  "block_next_ok code good nxt \<longleftrightarrow>
     nc_coder nxt = None \<or> nc_init nxt = Some ''lzma_block_decoder_init'' \<and> nc_code nxt = Some block_decode
       \<and> raw_next_ok code good (bd_next (the (nc_coder nxt)))"

definition block_running :: "'r lzma_code_function \<Rightarrow> ('r \<Rightarrow> bool) \<Rightarrow> 'r block_coder lzma_next_coder \<Rightarrow> bool" where
  "block_running code good nxt \<longleftrightarrow> nc_code nxt = Some block_decode \<and> (\<exists>b. nc_coder nxt = Some b \<and> block_over code good b)"

lemma block_decoder_init_ok:
  assumes "raw_chain_ok code good inits" "block_next_ok code good nxt" "lzma_block_decoder_init inits mem nxt block = (ret, nxt')"
  shows "block_next_ok code good nxt' \<and> (ret = LZMA_OK \<longrightarrow> block_running code good nxt')"
proof -
  let ?nxt = "lzma_next_coder_init (Some ''lzma_block_decoder_init'') nxt"
  have n: "nc_init ?nxt = Some ''lzma_block_decoder_init''" "nc_coder ?nxt \<noteq> None \<longrightarrow> nc_code ?nxt = Some block_decode"
    "nc_coder ?nxt \<noteq> None \<longrightarrow> raw_next_ok code good (bd_next (the (nc_coder ?nxt)))"
    using assms(2) by (auto simp: lzma_next_coder_init_def lzma_next_end_def LZMA_NEXT_CODER_INIT_def Let_def block_next_ok_def split: if_splits)
  have raw: "raw_next_ok code good y \<and> (r = LZMA_OK \<longrightarrow> nc_code y = Some code \<and> (\<exists>c. nc_coder y = Some c \<and> good c))"
    if "lzma_raw_decoder_init inits x (bl_filters block) = (r, y)" "raw_next_ok code good x" for x y r
  proof -
    have "raw_next_ok code good y \<and> (r = LZMA_OK \<longrightarrow> nc_coder y \<noteq> None)" using assms(1) that unfolding raw_chain_ok_def by blast
    then show ?thesis by (auto simp: raw_next_ok_def)
  qed
  show ?thesis
  proof (cases "lzma_block_unpadded_size (Some block) = 0 \<or> \<not> lzma_vli_is_valid (bl_uncompressed_size block)")
    case True
    then have "ret = LZMA_PROG_ERROR" "nxt' = ?nxt" using assms(3) by (auto simp: lzma_block_decoder_init_def Let_def)
    then show ?thesis using n by (auto simp: block_next_ok_def)
  next
    case False
    show ?thesis
    proof (cases "nc_coder ?nxt")
      case None
      show ?thesis
      proof (cases mem)
        case mem: None
        then have "ret = LZMA_MEM_ERROR" "nxt' = ?nxt" using assms(3) False None by (auto simp: lzma_block_decoder_init_def Let_def)
        then show ?thesis using None by (simp add: block_next_ok_def)
      next
        case (Some m)
        then show ?thesis
          using assms(3) False None n(1) raw
          by (auto simp: lzma_block_decoder_init_def Let_def block_next_ok_def block_running_def block_over_def split: prod.splits)
      qed
    next
      case (Some m)
      then show ?thesis
        using assms(3) False n raw
        by (auto simp: lzma_block_decoder_init_def Let_def block_next_ok_def block_running_def block_over_def split: prod.splits)
    qed
  qed
qed

text \<open>Where the decoder is while it waits for more input, in every state of the loop.\<close>

definition stream_good :: "'r lzma_code_function \<Rightarrow> ('r \<Rightarrow> bool) \<Rightarrow> 'r stream_coder \<Rightarrow> bool" where
  "stream_good code good c \<longleftrightarrow>
     length (sd_buffer c) = 1024 \<and> sd_index_hash c \<noteq> None \<and> block_next_ok code good (sd_block_decoder c)
     \<and> (case sd_sequence c of
          SEQ_STREAM_HEADER \<Rightarrow> sd_pos c < LZMA_STREAM_HEADER_SIZE
        | SEQ_BLOCK_HEADER \<Rightarrow> sd_pos c = 0 \<or> sd_pos c < unat (bl_header_size (sd_block_options c))
            \<and> unat (bl_header_size (sd_block_options c)) \<le> 1024
        | SEQ_BLOCK \<Rightarrow> sd_pos c = 0 \<and> block_running code good (sd_block_decoder c)
        | SEQ_INDEX \<Rightarrow> sd_pos c = 0
        | SEQ_STREAM_FOOTER \<Rightarrow> sd_pos c < LZMA_STREAM_HEADER_SIZE
        | SEQ_STREAM_PADDING \<Rightarrow> sd_pos c < 4 \<and> sd_concatenated c)"

text \<open>The turns of the loop that do not consume input go down in this order.\<close>

definition stream_rank :: "stream_seq \<Rightarrow> nat" where
  "stream_rank sq = (case sq of SEQ_BLOCK \<Rightarrow> 2 | SEQ_BLOCK_HEADER \<Rightarrow> 1 | SEQ_STREAM_PADDING \<Rightarrow> 1 | _ \<Rightarrow> 0)"

definition io_ok :: "nat \<Rightarrow> nat \<Rightarrow> u8 list \<Rightarrow> nat \<Rightarrow> nat \<Rightarrow> nat \<Rightarrow> u8 list \<Rightarrow> nat \<Rightarrow> bool" where
  "io_ok in_pos in_size out out_pos out_size in_pos' out' out_pos' \<longleftrightarrow>
     in_pos \<le> in_pos' \<and> in_pos' \<le> in_size \<and> out_pos \<le> out_pos' \<and> out_pos' \<le> out_size \<and> window_kept out out_pos out_size out'"

lemma io_ok_same [simp]: "io_ok in_pos in_size out out_pos out_size ip out out_pos \<longleftrightarrow> in_pos \<le> ip \<and> ip \<le> in_size \<and> out_pos \<le> out_size"
  by (auto simp: io_ok_def)

lemma io_ok_trans:
  "io_ok p n out q m p' out' q' \<Longrightarrow> io_ok p' n out' q' m p'' out'' q'' \<Longrightarrow> io_ok p n out q m p'' out'' q''"
  using window_kept_trans [of out q m out' q' out''] by (auto simp: io_ok_def)

text \<open>A turn from input position \<open>in_pos\<close> with \<open>bound\<close> above what the turns that follow may use; \<open>con\<close> says that Streams are
  concatenated.\<close>

definition turn_ok ::
  "'r lzma_code_function \<Rightarrow> ('r \<Rightarrow> bool) \<Rightarrow> bool \<Rightarrow> lzma_action \<Rightarrow> nat \<Rightarrow> nat \<Rightarrow> u8 list \<Rightarrow> nat \<Rightarrow> nat \<Rightarrow> nat \<Rightarrow> 'r stream_turn \<Rightarrow> bool"
where
  "turn_ok code good con action in_pos in_size out out_pos out_size bound t \<longleftrightarrow>
     (case t of
        Inl (ret, c, ip, out', op) \<Rightarrow>
          (\<not> fatal ret \<longrightarrow> stream_good code good c) \<and> sd_concatenated c = con \<and> io_ok in_pos in_size out out_pos out_size ip out' op
          \<and> (ret = LZMA_STREAM_END \<longrightarrow> \<not> con \<or> action = LZMA_FINISH)
      | Inr (c, ip, out', op) \<Rightarrow>
          stream_good code good c \<and> sd_concatenated c = con \<and> io_ok in_pos in_size out out_pos out_size ip out' op
          \<and> 3 * (in_size - ip) + stream_rank (sd_sequence c) < bound)"

lemma turn_ok_Inl:
  "turn_ok code good con action in_pos in_size out out_pos out_size bound (Inl (ret, c, ip, out', op)) \<longleftrightarrow>
     (\<not> fatal ret \<longrightarrow> stream_good code good c) \<and> sd_concatenated c = con \<and> io_ok in_pos in_size out out_pos out_size ip out' op
     \<and> (ret = LZMA_STREAM_END \<longrightarrow> \<not> con \<or> action = LZMA_FINISH)"
  by (simp add: turn_ok_def)

lemma turn_ok_Inr:
  "turn_ok code good con action in_pos in_size out out_pos out_size bound (Inr (c, ip, out', op)) \<longleftrightarrow>
     stream_good code good c \<and> sd_concatenated c = con \<and> io_ok in_pos in_size out out_pos out_size ip out' op
     \<and> 3 * (in_size - ip) + stream_rank (sd_sequence c) < bound"
  by (simp add: turn_ok_def)

text \<open>A stage entered after some bytes have been consumed.\<close>

lemma turn_ok_later:
  assumes "turn_ok code good con action ip in_size out out_pos out_size b t" "in_pos \<le> ip" "b \<le> bound"
  shows "turn_ok code good con action in_pos in_size out out_pos out_size bound t"
  using assms by (auto simp: turn_ok_def io_ok_def split: sum.splits prod.splits)

lemma bufcpy_into:
  assumes "lzma_bufcpy in_buf in_pos in_size buf pos n = (k, ip, buf', pos')" "in_pos \<le> in_size"
  shows "in_pos \<le> ip" "ip \<le> in_size" "length buf' = length buf" "pos \<le> n \<Longrightarrow> pos' \<le> n" "pos < n \<Longrightarrow> n \<le> pos' \<Longrightarrow> in_pos < ip"
    "n \<le> pos \<Longrightarrow> ip = in_pos \<and> pos' = pos" "pos' = pos + (ip - in_pos)"
  using assms by (auto simp: lzma_bufcpy_def Let_def min_def split: if_splits)

lemma and3_lt4: "(n :: nat) AND 3 < 4"
  using take_bit_nat_less_exp [of 2 n] by (simp add: take_bit_eq_mask mask_eq_exp_minus_1)

lemma stream_padding_loop_ok:
  "stream_padding_loop in_buf in_size action pos in_pos = (ret, pos', ip) \<Longrightarrow> in_pos \<le> in_size \<Longrightarrow> pos < 4 \<Longrightarrow>
     in_pos \<le> ip \<and> ip \<le> in_size \<and> pos' < 4 \<and> (ret = None \<longrightarrow> ip < in_size) \<and> (ret = Some LZMA_STREAM_END \<longrightarrow> action = LZMA_FINISH)"
proof (induction in_buf in_size action pos in_pos rule: stream_padding_loop.induct)
  case (1 in_buf in_size action pos in_pos)
  show ?case
    using 1(2-4) 1(1) and3_lt4 [of "pos + 1"]
    unfolding stream_padding_loop.simps [of in_buf in_size action pos in_pos] by (auto split: if_splits)
qed

lemma stream_padding_turn:
  assumes "stream_good code good c" "sd_sequence c = SEQ_STREAM_PADDING" "in_pos \<le> in_size" "out_pos \<le> out_size"
  shows "turn_ok code good (sd_concatenated c) action in_pos in_size out out_pos out_size (3 * (in_size - in_pos) + 1)
    (stream_decode_padding env c in_buf in_pos in_size out out_pos action)"
proof -
  obtain ret pos ip where l: "stream_padding_loop in_buf in_size action (sd_pos c) in_pos = (ret, pos, ip)" by (metis prod_cases3)
  have g: "sd_pos c < 4" "sd_concatenated c" "length (sd_buffer c) = 1024" "sd_index_hash c \<noteq> None" "block_next_ok code good (sd_block_decoder c)"
    using assms(1,2) by (simp_all add: stream_good_def)
  note ok = stream_padding_loop_ok [OF l assms(3) g(1)]
  have good: "stream_good code good (c\<lparr>sd_pos := pos\<rparr>)" using g ok assms(2) by (simp add: stream_good_def)
  show ?thesis
  proof (cases ret)
    case (Some r)
    then show ?thesis using good ok assms(4) by (simp add: stream_decode_padding_def l turn_ok_Inl)
  next
    case None
    obtain ih where "sd_index_hash c = Some ih" using g(4) by blast
    then have r: "stream_decoder_reset env (c\<lparr>sd_pos := pos\<rparr>) =
        (LZMA_OK, c\<lparr>sd_index_hash := lzma_index_hash_init (Some ih) (se_index_mem env), sd_sequence := SEQ_STREAM_HEADER, sd_pos := 0\<rparr>)"
      and ih: "lzma_index_hash_init (Some ih) (se_index_mem env) \<noteq> None"
      by (simp_all add: stream_decoder_reset_def lzma_index_hash_init_def Let_def)
    let ?r = "c\<lparr>sd_index_hash := lzma_index_hash_init (Some ih) (se_index_mem env), sd_sequence := SEQ_STREAM_HEADER, sd_pos := 0\<rparr>"
    have "stream_good code good ?r" using g ih by (simp add: stream_good_def LZMA_STREAM_HEADER_SIZE_def)
    moreover have "3 * (in_size - ip) < 3 * (in_size - in_pos) + 1" using ok by linarith
    ultimately show ?thesis
      using good ok assms(4) None
      unfolding stream_decode_padding_def l prod.case Let_def r None option.case
      by (simp add: turn_ok_Inl turn_ok_Inr stream_rank_def)
  qed
qed

lemma stream_footer_turn:
  assumes "stream_good code good c" "sd_sequence c = SEQ_STREAM_FOOTER" "in_pos \<le> in_size" "out_pos \<le> out_size"
  shows "turn_ok code good (sd_concatenated c) action in_pos in_size out out_pos out_size (3 * (in_size - in_pos))
    (stream_decode_footer env c in_buf in_pos in_size out out_pos action)"
proof -
  have g: "sd_pos c < LZMA_STREAM_HEADER_SIZE" "length (sd_buffer c) = 1024" "sd_index_hash c \<noteq> None" "block_next_ok code good (sd_block_decoder c)"
    using assms(1,2) by (simp_all add: stream_good_def)
  obtain k ip buffer pos where cp:
    "lzma_bufcpy in_buf in_pos in_size (sd_buffer c) (sd_pos c) LZMA_STREAM_HEADER_SIZE = (k, ip, buffer, pos)" by (metis prod_cases4)
  note b = bufcpy_into [OF cp assms(3)]
  obtain ret ff where f: "lzma_stream_footer_decode (se_footer_flags env) buffer = (ret, ff)" by fastforce
  have r: "ret \<noteq> LZMA_STREAM_END" using stream_footer_decode_ret [of "se_footer_flags env" buffer] f by simp
  let ?c = "c\<lparr>sd_buffer := buffer, sd_pos := 0\<rparr>"
  let ?p = "?c\<lparr>sd_sequence := SEQ_STREAM_PADDING\<rparr>"
  have good: "stream_good code good (c\<lparr>sd_buffer := buffer, sd_pos := pos\<rparr>)" if "pos < LZMA_STREAM_HEADER_SIZE"
    using that g b(3) assms(2) by (simp add: stream_good_def)
  have good0: "stream_good code good ?c" using g b(3) assms(2) by (simp add: stream_good_def LZMA_STREAM_HEADER_SIZE_def)
  have pad: "turn_ok code good (sd_concatenated c) action in_pos in_size out out_pos out_size (3 * (in_size - in_pos))
      (stream_decode_padding env ?p in_buf ip in_size out out_pos action)"
    if "sd_concatenated c" "\<not> pos < LZMA_STREAM_HEADER_SIZE"
  proof -
    have lt: "in_pos < ip" using b(5) g(1) that(2) by simp
    have "stream_good code good ?p" using good0 that(1) by (simp add: stream_good_def)
    from stream_padding_turn [OF this _ b(2) assms(4), of action out env in_buf] show ?thesis
      using lt b(2) by (auto elim!: turn_ok_later)
  qed
  show ?thesis
    using pad good good0 r stream_flags_compare_ret [of "sd_stream_flags c" ff] b(1,2) assms(4)
    unfolding stream_decode_footer_def cp Let_def prod.case f
    by (simp add: turn_ok_Inl)
qed

lemma stream_index_turn:
  assumes "stream_good code good c" "sd_sequence c = SEQ_INDEX" "in_pos \<le> in_size" "out_pos \<le> out_size"
  shows "turn_ok code good (sd_concatenated c) action in_pos in_size out out_pos out_size (3 * (in_size - in_pos))
    (stream_decode_index env c in_buf in_pos in_size out out_pos action)"
proof -
  have g: "sd_pos c = 0" "length (sd_buffer c) = 1024" "sd_index_hash c \<noteq> None" "block_next_ok code good (sd_block_decoder c)"
    using assms(1,2) by (simp_all add: stream_good_def)
  obtain ret ih ip where d: "lzma_index_hash_decode (the (sd_index_hash c)) in_buf in_pos in_size = (ret, ih, ip)" by (metis prod_cases3)
  note b = index_hash_decode_progress [OF d assms(3)]
  let ?c = "c\<lparr>sd_index_hash := Some ih, sd_sequence := SEQ_STREAM_FOOTER\<rparr>"
  have good: "stream_good code good ?c" "stream_good code good (c\<lparr>sd_index_hash := Some ih\<rparr>)"
    using g assms(2) by (simp_all add: stream_good_def LZMA_STREAM_HEADER_SIZE_def)
  have "turn_ok code good (sd_concatenated c) action in_pos in_size out out_pos out_size (3 * (in_size - in_pos))
      (stream_decode_footer env ?c in_buf ip in_size out out_pos action)"
    using stream_footer_turn [OF good(1) _ b(2) assms(4), of action out env in_buf] b(1) by (auto elim!: turn_ok_later)
  then show ?thesis
    using good assms b unfolding stream_decode_index_def d prod.case Let_def by (simp add: turn_ok_Inl)
qed

definition turn_some ::
  "'r lzma_code_function \<Rightarrow> ('r \<Rightarrow> bool) \<Rightarrow> bool \<Rightarrow> lzma_action \<Rightarrow> nat \<Rightarrow> nat \<Rightarrow> u8 list \<Rightarrow> nat \<Rightarrow> nat \<Rightarrow> nat \<Rightarrow> 'r stream_turn option \<Rightarrow> bool"
where
  "turn_some code good con action in_pos in_size out out_pos out_size bound t \<longleftrightarrow>
     (\<exists>t'. t = Some t' \<and> turn_ok code good con action in_pos in_size out out_pos out_size bound t')"

lemma turn_some_Some [simp]:
  "turn_some code good con action in_pos in_size out out_pos out_size bound (Some t)
     \<longleftrightarrow> turn_ok code good con action in_pos in_size out out_pos out_size bound t"
  by (simp add: turn_some_def)

lemma turn_some_later:
  assumes "turn_some code good con action ip in_size out out_pos out_size b t" "in_pos \<le> ip" "b \<le> bound"
  shows "turn_some code good con action in_pos in_size out out_pos out_size bound t"
  using assms turn_ok_later unfolding turn_some_def by metis

lemma stream_block_turn:
  assumes "bounded_coder code good" "stream_good code good c" "sd_sequence c = SEQ_BLOCK" "in_pos \<le> in_size" "in_size \<le> length in_buf"
    and "out_pos \<le> out_size" "out_size \<le> length out"
  shows "turn_some code good (sd_concatenated c) action in_pos in_size out out_pos out_size (3 * (in_size - in_pos) + 2)
    (stream_decode_block c in_buf in_pos in_size out out_pos out_size action)"
proof -
  have g: "sd_pos c = 0" "length (sd_buffer c) = 1024" "sd_index_hash c \<noteq> None" "block_next_ok code good (sd_block_decoder c)"
    "block_running code good (sd_block_decoder c)"
    using assms(2,3) by (simp_all add: stream_good_def)
  obtain b where n: "nc_code (sd_block_decoder c) = Some block_decode" "nc_coder (sd_block_decoder c) = Some b" "block_over code good b"
    using g(5) by (auto simp: block_running_def)
  have init: "nc_init (sd_block_decoder c) = Some ''lzma_block_decoder_init''" using g(4) n(2) by (simp add: block_next_ok_def)
  let ?b = "b\<lparr>bd_block := sd_block_options c\<rparr>"
  have over: "block_over code good ?b" using n(3) by (simp add: block_over_def)
  obtain ret b' ip out' op where run: "block_decode ?b in_buf in_pos in_size out out_pos out_size action = Some (ret, b', ip, out', op)"
    and ok: "\<not> fatal ret \<longrightarrow> block_over code good b'" "in_pos \<le> ip" "ip \<le> in_size" "out_pos \<le> op" "op \<le> out_size" "window_kept out out_pos out_size out'"
    by (rule bounded_coder.stepE [OF block_decode_bounded [OF assms(1)] over assms(4-7)])
  let ?n = "(sd_block_decoder c)\<lparr>nc_coder := Some b'\<rparr>"
  have call: "call_next (share_block c) in_buf in_pos in_size out out_pos out_size action = Some (ret, ?n, ip, out', op)"
    by (simp add: call_next_def share_block_def n run)
  let ?c = "c\<lparr>sd_block_decoder := ?n, sd_block_options := bd_block b'\<rparr>"
  have io: "io_ok in_pos in_size out out_pos out_size ip out' op" using ok by (simp add: io_ok_def)
  have run': "block_next_ok code good ?n" "block_running code good ?n" if "\<not> fatal ret"
    using n(1) ok(1) init that by (auto simp: block_next_ok_def block_running_def block_over_def raw_next_ok_def)
  have good: "stream_good code good ?c" if "\<not> fatal ret" using g(1-3) assms(3) run' [OF that] by (simp add: stream_good_def)
  obtain r ih where app: "lzma_index_hash_append (the (sd_index_hash c)) (lzma_block_unpadded_size (Some (bd_block b')))
      (bl_uncompressed_size (bd_block b')) = (r, ih)" by fastforce
  have r: "r \<noteq> LZMA_STREAM_END"
    using index_hash_append_ret [of "the (sd_index_hash c)" "lzma_block_unpadded_size (Some (bd_block b'))" "bl_uncompressed_size (bd_block b')"] app
    by simp
  have good1: "stream_good code good (?c\<lparr>sd_index_hash := Some ih\<rparr>)" if "\<not> fatal ret" using good [OF that] assms(3) by (simp add: stream_good_def)
  have good2: "stream_good code good (?c\<lparr>sd_index_hash := Some ih, sd_sequence := SEQ_BLOCK_HEADER\<rparr>)" if "\<not> fatal ret"
    using g(1-3) run' [OF that] by (simp add: stream_good_def)
  have "3 * (in_size - ip) + 1 < 3 * (in_size - in_pos) + 2" using ok(2) by linarith
  then show ?thesis
    using good good1 good2 io r
    unfolding stream_decode_block_def call option.case prod.case Let_def
    by (simp add: app turn_ok_Inl turn_ok_Inr stream_rank_def)
qed

lemma stream_start_block_ok:
  assumes "raw_chain_ok code good (se_inits env)" "stream_good code good c" "sd_sequence c = SEQ_BLOCK_HEADER" "sd_pos c = 0"
    and "stream_start_block env c = (ret, c')"
  shows "stream_good code good c' \<and> sd_concatenated c' = sd_concatenated c \<and> ret \<notin> {LZMA_STREAM_END, LZMA_TIMED_OUT}
    \<and> (ret = LZMA_OK \<longrightarrow> sd_sequence c' = SEQ_BLOCK)"
proof -
  let ?blk = "(sd_block_options c)\<lparr>bl_version := 1, bl_filters := Some (se_filters env)\<rparr>"
  have g: "length (sd_buffer c) = 1024" "sd_index_hash c \<noteq> None" "block_next_ok code good (sd_block_decoder c)"
    using assms(2,3) by (simp_all add: stream_good_def)
  obtain r blk where d: "lzma_block_header_decode (se_alloc env) ?blk (sd_buffer c) = (r, blk)" by fastforce
  have r: "r \<notin> {LZMA_STREAM_END, LZMA_TIMED_OUT}" using block_header_decode_ret [of "se_alloc env" ?blk "sd_buffer c"] d by (auto simp: header_rets_def)
  define b where "b = blk\<lparr>bl_ignore_check := sd_ignore_check c\<rparr>"
  define mu where "mu = lzma_raw_decoder_memusage (se_sizes env) (bl_filters b)"
  obtain r2 nxt where i: "lzma_block_decoder_init (se_inits env) (se_block_mem env) (sd_block_decoder c) b = (r2, nxt)" by fastforce
  have r2: "r2 \<notin> {LZMA_STREAM_END, LZMA_TIMED_OUT}"
    using block_decoder_init_ret [OF assms(1), of "se_block_mem env" "sd_block_decoder c" b] i by simp
  note nxt = block_decoder_init_ok [OF assms(1) g(3) i]
  have eq: "stream_start_block env c =
      (if r \<noteq> LZMA_OK then (r, c\<lparr>sd_block_options := blk\<rparr>)
       else if mu = UINT64_MAX then (LZMA_OPTIONS_ERROR, c\<lparr>sd_block_options := b\<lparr>bl_filters := None\<rparr>\<rparr>)
       else if mu > sd_memlimit c
       then (LZMA_MEMLIMIT_ERROR, c\<lparr>sd_memusage := mu, sd_block_options := b\<lparr>bl_filters := None\<rparr>\<rparr>)
       else if r2 \<noteq> LZMA_OK then (r2, c\<lparr>sd_memusage := mu, sd_block_decoder := nxt, sd_block_options := b\<lparr>bl_filters := None\<rparr>\<rparr>)
       else (LZMA_OK, c\<lparr>sd_memusage := mu, sd_block_decoder := nxt, sd_block_options := b\<lparr>bl_filters := None\<rparr>, sd_sequence := SEQ_BLOCK\<rparr>))"
    unfolding stream_start_block_def d prod.case Let_def b_def [symmetric] mu_def [symmetric] i by simp
  show ?thesis
    using assms(5) g r r2 nxt assms(3,4) unfolding eq by (auto simp: stream_good_def split: if_splits)
qed

lemma header_size_decode_range: "0 < unat (lzma_block_header_size_decode b)" "unat (lzma_block_header_size_decode b) \<le> 1024"
proof -
  have b: "unat b < 256" using unsigned_less [of b] by simp
  have "unat (ucast b :: u32) = unat b" by (simp add: unsigned_ucast_eq take_bit_nat_eq_self_iff order.strict_trans2 [OF b])
  then have "unat (lzma_block_header_size_decode b) = (unat b + 1) * 4"
    using b by (simp add: lzma_block_header_size_decode_def unat_word_ariths)
  then show "0 < unat (lzma_block_header_size_decode b)" "unat (lzma_block_header_size_decode b) \<le> 1024" using b by simp_all
qed

lemma stream_block_header_turn:
  assumes "raw_chain_ok code good (se_inits env)" "stream_good code good c" "sd_sequence c = SEQ_BLOCK_HEADER"
    and io: "in_pos \<le> in_size" "in_size \<le> length in_buf" "out_pos \<le> out_size" "out_size \<le> length out"
  shows "turn_some code good (sd_concatenated c) action in_pos in_size out out_pos out_size (3 * (in_size - in_pos) + 1)
    (stream_decode_block_header env c in_buf in_pos in_size out out_pos out_size action)"
proof (cases "in_pos \<ge> in_size \<or> sd_pos c = 0 \<and> in_buf ! in_pos = 0")
  case True
  have "stream_good code good (c\<lparr>sd_sequence := SEQ_INDEX\<rparr>)" if "sd_pos c = 0" using assms(2) that by (simp add: stream_good_def split: stream_seq.splits)
  then show ?thesis
    using True assms(2) io by (auto simp: stream_decode_block_header_def turn_ok_Inl turn_ok_Inr stream_rank_def)
next
  case False
  then have n: "\<not> in_pos \<ge> in_size" "\<not> (sd_pos c = 0 \<and> in_buf ! in_pos = 0)" by simp_all
  define c0 where "c0 = (if sd_pos c = 0 then c\<lparr>sd_block_options :=
      (sd_block_options c)\<lparr>bl_header_size := lzma_block_header_size_decode (in_buf ! in_pos)\<rparr>\<rparr> else c)"
  define h where "h = unat (bl_header_size (sd_block_options c0))"
  have g: "length (sd_buffer c) = 1024" "sd_index_hash c \<noteq> None" "block_next_ok code good (sd_block_decoder c)"
    using assms(2,3) by (simp_all add: stream_good_def)
  have c0: "sd_buffer c0 = sd_buffer c" "sd_index_hash c0 = sd_index_hash c" "sd_block_decoder c0 = sd_block_decoder c"
    "sd_pos c0 = sd_pos c" "sd_sequence c0 = SEQ_BLOCK_HEADER" "sd_concatenated c0 = sd_concatenated c"
    using assms(3) by (simp_all add: c0_def)
  have h: "sd_pos c < h" "h \<le> 1024"
    using assms(2,3) header_size_decode_range by (auto simp: h_def c0_def stream_good_def)
  obtain k ip buffer pos where cp: "lzma_bufcpy in_buf in_pos in_size (sd_buffer c0) (sd_pos c0) h = (k, ip, buffer, pos)"
    by (metis prod_cases4)
  note b = bufcpy_into [OF cp io(1)]
  let ?c = "c0\<lparr>sd_buffer := buffer, sd_pos := pos\<rparr>"
  obtain ret c1 where st: "stream_start_block env (?c\<lparr>sd_pos := 0\<rparr>) = (ret, c1)" by fastforce
  have eq: "stream_decode_block_header env c in_buf in_pos in_size out out_pos out_size action =
      (if pos < h then Some (Inl (LZMA_OK, ?c, ip, out, out_pos))
       else if ret \<noteq> LZMA_OK then Some (Inl (ret, c1, ip, out, out_pos))
       else stream_decode_block c1 in_buf ip in_size out out_pos out_size action)"
    unfolding stream_decode_block_header_def if_not_P [OF n(1)] if_not_P [OF n(2)] c0_def [symmetric] Let_def h_def [symmetric] cp
      prod.case st by simp
  show ?thesis
  proof (cases "pos < h")
    case True
    then have "stream_good code good ?c" using g c0 h b(3) by (simp add: stream_good_def h_def)
    then show ?thesis using True b io c0 unfolding eq by (simp add: turn_ok_Inl)
  next
    case nl: False
    have lt: "in_pos < ip" using b(5) h(1) nl c0(4) by simp
    have "stream_good code good (?c\<lparr>sd_pos := 0\<rparr>)" using g c0 b(3) by (simp add: stream_good_def)
    note ok = stream_start_block_ok [OF assms(1) this _ _ st]
    have c1: "stream_good code good c1" "sd_concatenated c1 = sd_concatenated c" "ret \<noteq> LZMA_STREAM_END"
      "ret = LZMA_OK \<Longrightarrow> sd_sequence c1 = SEQ_BLOCK" using ok c0 by simp_all
    have bc: "bounded_coder code good" using assms(1) by (simp add: raw_chain_ok_def)
    have "3 * (in_size - ip) + 2 \<le> 3 * (in_size - in_pos) + 1" using lt b(2) by linarith
    from turn_some_later [OF stream_block_turn [OF bc c1(1,4) b(2) io(2-4), of action] _ this]
    show ?thesis using nl c1 b(1,2) io(3) unfolding eq by (simp add: turn_ok_Inl)
  qed
qed

lemma stream_header_turn:
  assumes "raw_chain_ok code good (se_inits env)" "stream_good code good c" "sd_sequence c = SEQ_STREAM_HEADER"
    and io: "in_pos \<le> in_size" "in_size \<le> length in_buf" "out_pos \<le> out_size" "out_size \<le> length out"
  shows "turn_some code good (sd_concatenated c) action in_pos in_size out out_pos out_size (3 * (in_size - in_pos))
    (stream_decode_header env c in_buf in_pos in_size out out_pos out_size action)"
proof -
  have g: "sd_pos c < LZMA_STREAM_HEADER_SIZE" "length (sd_buffer c) = 1024" "sd_index_hash c \<noteq> None" "block_next_ok code good (sd_block_decoder c)"
    using assms(2,3) by (simp_all add: stream_good_def)
  obtain k ip buffer pos where cp:
    "lzma_bufcpy in_buf in_pos in_size (sd_buffer c) (sd_pos c) LZMA_STREAM_HEADER_SIZE = (k, ip, buffer, pos)" by (metis prod_cases4)
  note b = bufcpy_into [OF cp io(1)]
  obtain ret flags where f: "lzma_stream_header_decode (sd_stream_flags c) buffer = (ret, flags)" by fastforce
  have r: "ret \<noteq> LZMA_STREAM_END" using stream_header_decode_ret [of "sd_stream_flags c" buffer] f by simp
  let ?c = "c\<lparr>sd_buffer := buffer, sd_pos := pos\<rparr>"
  let ?d = "c\<lparr>sd_buffer := buffer, sd_pos := 0, sd_stream_flags := flags\<rparr>"
  let ?h = "?d\<lparr>sd_first_stream := False, sd_block_options := (sd_block_options c)\<lparr>bl_check := sf_check flags\<rparr>, sd_sequence := SEQ_BLOCK_HEADER\<rparr>"
  have good: "pos < LZMA_STREAM_HEADER_SIZE \<Longrightarrow> stream_good code good ?c" "stream_good code good ?d" "stream_good code good ?h"
    using g b(3) assms(3) by (simp_all add: stream_good_def LZMA_STREAM_HEADER_SIZE_def)
  have "turn_some code good (sd_concatenated c) action in_pos in_size out out_pos out_size (3 * (in_size - in_pos))
      (stream_decode_block_header env ?h in_buf ip in_size out out_pos out_size action)" if "\<not> pos < LZMA_STREAM_HEADER_SIZE"
  proof -
    have lt: "in_pos < ip" using b(5) g(1) that by simp
    then have "3 * (in_size - ip) + 1 \<le> 3 * (in_size - in_pos)" using b(2) by linarith
    then show ?thesis
      using turn_some_later [OF stream_block_header_turn [OF assms(1) good(3) _ b(2) io(2-4), of action] b(1)] by simp
  qed
  then show ?thesis
    using good r b(1,2) io(3)
    unfolding stream_decode_header_def cp Let_def prod.case by (auto simp: f turn_ok_Inl)
qed

lemma stream_turn_ok:
  assumes "raw_chain_ok code good (se_inits env)" "stream_good code good c"
    and io: "in_pos \<le> in_size" "in_size \<le> length in_buf" "out_pos \<le> out_size" "out_size \<le> length out"
  shows "turn_some code good (sd_concatenated c) action in_pos in_size out out_pos out_size
    (3 * (in_size - in_pos) + stream_rank (sd_sequence c)) (stream_turn env c in_buf in_pos in_size out out_pos out_size action)"
proof (cases "sd_sequence c")
  case SEQ_STREAM_HEADER
  show ?thesis using stream_header_turn [OF assms(1,2) SEQ_STREAM_HEADER io, of action] by (simp add: stream_turn_def SEQ_STREAM_HEADER stream_rank_def)
next
  case SEQ_BLOCK_HEADER
  show ?thesis using stream_block_header_turn [OF assms(1,2) SEQ_BLOCK_HEADER io, of action] by (simp add: stream_turn_def SEQ_BLOCK_HEADER stream_rank_def)
next
  case SEQ_BLOCK
  have "bounded_coder code good" using assms(1) by (simp add: raw_chain_ok_def)
  from stream_block_turn [OF this assms(2) SEQ_BLOCK io, of action] show ?thesis by (simp add: stream_turn_def SEQ_BLOCK stream_rank_def)
next
  case SEQ_INDEX
  show ?thesis using stream_index_turn [OF assms(2) SEQ_INDEX io(1,3), of action out env in_buf] by (simp add: stream_turn_def SEQ_INDEX stream_rank_def)
next
  case SEQ_STREAM_FOOTER
  show ?thesis using stream_footer_turn [OF assms(2) SEQ_STREAM_FOOTER io(1,3), of action out env in_buf] by (simp add: stream_turn_def SEQ_STREAM_FOOTER stream_rank_def)
next
  case SEQ_STREAM_PADDING
  show ?thesis using stream_padding_turn [OF assms(2) SEQ_STREAM_PADDING io(1,3), of action out env in_buf] by (simp add: stream_turn_def SEQ_STREAM_PADDING stream_rank_def)
qed

text \<open>The loop returns: every turn that goes on uses up some of the bound.\<close>

lemma stream_loop_ok:
  assumes "raw_chain_ok code good (se_inits env)" "stream_good code good c"
    and "in_pos \<le> in_size" "in_size \<le> length in_buf" "out_pos \<le> out_size" "out_size \<le> length out"
  shows "\<exists>ret c' ip out' op. stream_loop env in_buf in_size out_size action c in_pos out out_pos = Some (ret, c', ip, out', op)
    \<and> (\<not> fatal ret \<longrightarrow> stream_good code good c') \<and> sd_concatenated c' = sd_concatenated c \<and> io_ok in_pos in_size out out_pos out_size ip out' op
    \<and> (ret = LZMA_STREAM_END \<longrightarrow> \<not> sd_concatenated c \<or> action = LZMA_FINISH)"
  using assms(2-6)
proof (induction "3 * (in_size - in_pos) + stream_rank (sd_sequence c)" arbitrary: c in_pos out out_pos rule: less_induct)
  case less
  note io = less.prems(2-5)
  obtain t where t: "stream_turn env c in_buf in_pos in_size out out_pos out_size action = Some t"
    and ok: "turn_ok code good (sd_concatenated c) action in_pos in_size out out_pos out_size
      (3 * (in_size - in_pos) + stream_rank (sd_sequence c)) t"
    using stream_turn_ok [OF assms(1) less.prems(1) io, of action] by (auto simp: turn_some_def)
  show ?case
  proof (cases t)
    case (Inl res)
    then show ?thesis using ok t by (cases res) (simp add: stream_loop.simps turn_ok_Inl)
  next
    case (Inr st)
    then obtain c1 ip out1 op where st: "t = Inr (c1, ip, out1, op)" by (metis prod_cases4)
    note ok = ok [unfolded st turn_ok_Inr]
    have b: "ip \<le> in_size" "op \<le> out_size" "out_size \<le> length out1" using ok io(4) by (auto simp: io_ok_def window_kept_def)
    have "stream_loop env in_buf in_size out_size action c in_pos out out_pos = stream_loop env in_buf in_size out_size action c1 ip out1 op"
      by (subst stream_loop.simps) (simp add: t st)
    then show ?thesis using less.hyps [of ip c1 op out1] ok b io(2) io_ok_trans [of in_pos in_size out out_pos out_size ip out1 op] by fastforce
  qed
qed

lemma stream_decode_bounded:
  assumes "raw_chain_ok code good (se_inits env)"
  shows "bounded_coder (stream_decode env) (stream_good code good)"
proof
  fix c :: "'a stream_coder" and in_pos in_size out_pos out_size :: nat and in_buf out :: "u8 list" and action
  assume a: "stream_good code good c" "in_pos \<le> in_size" "in_size \<le> length in_buf" "out_pos \<le> out_size" "out_size \<le> length out"
  show "code_ok (stream_good code good) in_pos in_size out out_pos out_size
      (stream_decode env c in_buf in_pos in_size out out_pos out_size action)"
    using stream_loop_ok [OF assms a, of action] by (auto simp: stream_decode_def code_ok_def io_ok_def)
qed

section \<open>How much output the decoder can produce\<close>

text \<open>A filter chain whose output is bounded by what it has consumed: \<open>pot\<close> bounds what a state can still produce without
  input, each byte of input adds at most \<open>k\<close> to it, and a chain starts with at most \<open>p0\<close>. It knows no timeout.\<close>

definition chain_expands :: "'r lzma_code_function \<Rightarrow> ('r \<Rightarrow> bool) \<Rightarrow> 'r filter_inits \<Rightarrow> ('r \<Rightarrow> nat) \<Rightarrow> nat \<Rightarrow> nat \<Rightarrow> bool" where
  "chain_expands code good inits pot k p0 \<longleftrightarrow>
     (\<forall>c in_buf in_pos in_size out out_pos out_size action ret c' in_pos' out' out_pos'.
        good c \<and> in_pos \<le> in_size \<and> in_size \<le> length in_buf \<and> out_pos \<le> out_size \<and> out_size \<le> length out
        \<and> code c in_buf in_pos in_size out out_pos out_size action = Some (ret, c', in_pos', out', out_pos') \<longrightarrow>
          ret \<noteq> LZMA_TIMED_OUT \<and> (out_pos' - out_pos) + pot c' \<le> pot c + k * (in_pos' - in_pos))
     \<and> (\<forall>nxt filters nxt' c. lzma_raw_decoder_init inits nxt filters = (LZMA_OK, nxt') \<and> nc_coder nxt' = Some c \<longrightarrow> pot c \<le> p0)"

definition block_pot :: "('r \<Rightarrow> nat) \<Rightarrow> 'r block_coder \<Rightarrow> nat" where
  "block_pot pot b = pot (the (nc_coder (bd_next b)))"

definition stream_pot :: "('r \<Rightarrow> nat) \<Rightarrow> 'r stream_coder \<Rightarrow> nat" where
  "stream_pot pot c = (if sd_sequence c = SEQ_BLOCK then block_pot pot (the (nc_coder (sd_block_decoder c))) else 0)"

lemma block_check_timed: "fst (block_decode_check c in_buf in_pos in_size) \<noteq> LZMA_TIMED_OUT"
  by (simp add: block_decode_check_def Let_def split_beta)

lemma block_padding_loop_timed: "fst (block_padding_loop in_buf in_size sz in_pos) \<noteq> Some LZMA_TIMED_OUT"
proof (induction in_buf in_size sz in_pos rule: block_padding_loop.induct)
  case (1 in_buf in_size sz in_pos)
  show ?case using 1 by (subst block_padding_loop.simps) auto
qed

lemma block_padding_timed: "fst (block_decode_padding c in_buf in_pos in_size) \<noteq> LZMA_TIMED_OUT"
  using block_padding_loop_timed [of in_buf in_size "bd_compressed_size c" in_pos] block_check_timed
  by (auto simp: block_decode_padding_def Let_def split_beta split: option.splits)

lemma block_account_timed: "block_account ret c n produced = (Some r, c') \<Longrightarrow> r = ret \<or> r \<noteq> LZMA_TIMED_OUT"
  by (auto simp: block_account_def Let_def split: prod.splits if_splits)

lemma block_decode_next:
  assumes "bounded_coder code good" "block_over code good b"
    and io: "in_pos \<le> in_size" "in_size \<le> length in_buf" "out_pos \<le> out_size" "out_size \<le> length out"
    and run: "block_decode b in_buf in_pos in_size out out_pos out_size action = Some (ret, b', ip, out', op)"
  shows "op = out_pos \<and> bd_next b' = bd_next b \<and> ret \<noteq> LZMA_TIMED_OUT \<or>
    (\<exists>c r c' ip1. nc_code (bd_next b) = Some code \<and> nc_coder (bd_next b) = Some c \<and> good c \<and> nc_coder (bd_next b') = Some c'
       \<and> code c in_buf in_pos in_size out out_pos out_size action = Some (r, c', ip1, out', op) \<and> ip1 \<le> ip
       \<and> (ret = r \<or> ret \<noteq> LZMA_TIMED_OUT))"
proof (cases "bd_sequence b")
  case SEQ_CODE
  obtain i where i: "nc_code (bd_next b) = Some code" "nc_coder (bd_next b) = Some i" "good i"
    using assms(2) by (auto simp: block_over_def)
  obtain r i' ip1 out1 op1 where inner: "code i in_buf in_pos in_size out out_pos out_size action = Some (r, i', ip1, out1, op1)"
    and b: "ip1 \<le> in_size" by (rule bounded_coder.stepE [OF assms(1) i(3) io])
  let ?inner = "(bd_next b)\<lparr>nc_coder := Some i'\<rparr>"
  obtain r2 b1 where acc: "block_account r (b\<lparr>bd_next := ?inner\<rparr>) (ip1 - in_pos) (span out1 out_pos op1) = (r2, b1)" by fastforce
  have n: "bd_next b1 = ?inner" using block_account_next [OF acc] by simp
  obtain r3 b2 ip2 where pad: "block_decode_padding b1 in_buf ip1 in_size = (r3, b2, ip2)" by (metis prod_cases3)
  have "block_decode b in_buf in_pos in_size out out_pos out_size action =
      (case r2 of Some r \<Rightarrow> Some (r, b1, ip1, out1, op1) | None \<Rightarrow> Some (r3, b2, ip2, out1, op1))"
    unfolding block_decode_def SEQ_CODE block_seq.case call_next_def i option.sel inner option.map prod.case option.case acc
    by (simp add: pad split: option.split)
  then have "out' = out1 \<and> op = op1 \<and> ip1 \<le> ip \<and> nc_coder (bd_next b') = Some i' \<and> (ret = r \<or> ret \<noteq> LZMA_TIMED_OUT)"
    using run n block_padding_bounds [OF pad b] block_padding_timed [of b1 in_buf ip1 in_size] pad
      block_account_timed [of r "b\<lparr>bd_next := ?inner\<rparr>" "ip1 - in_pos" "span out1 out_pos op1" ret b1] acc
    by (auto split: option.splits)
  then show ?thesis using i inner by blast
next
  case BLOCK_SEQ_PADDING
  then have "block_decode_padding b in_buf in_pos in_size = (ret, b', ip)" "op = out_pos"
    using run by (auto simp: block_decode_def split: prod.splits)
  then show ?thesis using block_padding_bounds [OF _ io(1)] block_padding_timed [of b in_buf in_pos in_size] by fastforce
next
  case SEQ_CHECK
  then have "block_decode_check b in_buf in_pos in_size = (ret, b', ip)" "op = out_pos"
    using run by (auto simp: block_decode_def split: prod.splits)
  then show ?thesis using block_check_bounds [OF _ io(1)] block_check_timed [of b in_buf in_pos in_size] by fastforce
qed

lemma block_decode_expands:
  assumes "bounded_coder code good" "chain_expands code good inits pot k p0" "block_over code good b"
    and io: "in_pos \<le> in_size" "in_size \<le> length in_buf" "out_pos \<le> out_size" "out_size \<le> length out"
    and run: "block_decode b in_buf in_pos in_size out out_pos out_size action = Some (ret, b', ip, out', op)"
  shows "ret \<noteq> LZMA_TIMED_OUT \<and> (op - out_pos) + block_pot pot b' \<le> block_pot pot b + k * (ip - in_pos)"
  using block_decode_next [OF assms(1,3) io run]
proof
  assume "\<exists>c r c' ip1. nc_code (bd_next b) = Some code \<and> nc_coder (bd_next b) = Some c \<and> good c \<and> nc_coder (bd_next b') = Some c'
       \<and> code c in_buf in_pos in_size out out_pos out_size action = Some (r, c', ip1, out', op) \<and> ip1 \<le> ip
       \<and> (ret = r \<or> ret \<noteq> LZMA_TIMED_OUT)"
  then obtain c r c' ip1 where c: "nc_coder (bd_next b) = Some c" "good c" "nc_coder (bd_next b') = Some c'"
    and r: "code c in_buf in_pos in_size out out_pos out_size action = Some (r, c', ip1, out', op)"
    and c4: "ip1 \<le> ip" and e: "ret = r \<or> ret \<noteq> LZMA_TIMED_OUT" by blast
  have x: "r \<noteq> LZMA_TIMED_OUT \<and> (op - out_pos) + pot c' \<le> pot c + k * (ip1 - in_pos)"
    using assms(2) c(2) io r unfolding chain_expands_def by blast
  have "k * (ip1 - in_pos) \<le> k * (ip - in_pos)" using c4 by (intro mult_le_mono2 diff_le_mono)
  then have "(op - out_pos) + pot c' \<le> pot c + k * (ip - in_pos)" using x by linarith
  moreover have "ret \<noteq> LZMA_TIMED_OUT" using x e by blast
  ultimately show ?thesis using c by (simp add: block_pot_def)
qed (simp add: block_pot_def)

text \<open>The account of a turn.\<close>

definition turn_budget :: "('r \<Rightarrow> nat) \<Rightarrow> nat \<Rightarrow> nat \<Rightarrow> nat \<Rightarrow> nat \<Rightarrow> 'r stream_turn \<Rightarrow> bool" where
  "turn_budget pot kk start in_pos out_pos t \<longleftrightarrow>
     (case t of
        Inl (ret, c, ip, out', op) \<Rightarrow> ret \<noteq> LZMA_TIMED_OUT \<and> (op - out_pos) + stream_pot pot c \<le> start + kk * (ip - in_pos)
      | Inr (c, ip, out', op) \<Rightarrow> (op - out_pos) + stream_pot pot c \<le> start + kk * (ip - in_pos))"

lemma turn_budget_idle:
  "ret \<noteq> LZMA_TIMED_OUT \<Longrightarrow> sd_sequence c \<noteq> SEQ_BLOCK \<Longrightarrow> turn_budget pot kk s in_pos out_pos (Inl (ret, c, ip, out', out_pos))"
  "sd_sequence c \<noteq> SEQ_BLOCK \<Longrightarrow> turn_budget pot kk s in_pos out_pos (Inr (c, ip, out', out_pos))"
  by (simp_all add: turn_budget_def stream_pot_def)

lemmas stream_timed = stream_header_decode_ret [simplified] stream_footer_decode_ret [simplified] stream_flags_compare_ret [simplified]
  index_hash_append_ret [simplified] index_hash_decode_timed

lemma stream_padding_loop_timed: "fst (stream_padding_loop in_buf in_size action pos in_pos) \<noteq> Some LZMA_TIMED_OUT"
proof (induction in_buf in_size action pos in_pos rule: stream_padding_loop.induct)
  case (1 in_buf in_size action pos in_pos)
  show ?case using 1 by (subst stream_padding_loop.simps) auto
qed

lemma stream_padding_budget:
  assumes "sd_sequence c = SEQ_STREAM_PADDING"
  shows "turn_budget pot kk s in_pos out_pos (stream_decode_padding env c in_buf ip in_size out out_pos action)"
proof -
  obtain ret pos ip1 where l: "stream_padding_loop in_buf in_size action (sd_pos c) ip = (ret, pos, ip1)" by (metis prod_cases3)
  have r: "ret \<noteq> Some LZMA_TIMED_OUT" using stream_padding_loop_timed [of in_buf in_size action "sd_pos c" ip] l by simp
  show ?thesis
    using r assms unfolding stream_decode_padding_def l prod.case Let_def
    by (auto simp: stream_decoder_reset_def Let_def intro!: turn_budget_idle split: option.split)
qed

lemma stream_footer_budget:
  assumes "sd_sequence c = SEQ_STREAM_FOOTER"
  shows "turn_budget pot kk s in_pos out_pos (stream_decode_footer env c in_buf ip in_size out out_pos action)"
  using assms unfolding stream_decode_footer_def Let_def split_beta
  by (simp add: turn_budget_idle stream_padding_budget stream_timed)

lemma stream_index_budget:
  assumes "sd_sequence c = SEQ_INDEX"
  shows "turn_budget pot kk s in_pos out_pos (stream_decode_index env c in_buf ip in_size out out_pos action)"
  using assms unfolding stream_decode_index_def Let_def split_beta
  by (simp add: turn_budget_idle stream_footer_budget stream_timed)

lemma stream_block_budget:
  assumes "bounded_coder code good" "chain_expands code good inits pot k p0" "stream_good code good c" "sd_sequence c = SEQ_BLOCK"
    and io: "ip \<le> in_size" "in_size \<le> length in_buf" "out_pos \<le> out_size" "out_size \<le> length out"
    and run: "stream_decode_block c in_buf ip in_size out out_pos out_size action = Some t"
    and "in_pos \<le> ip" "k \<le> kk" "stream_pot pot c \<le> s + kk * (ip - in_pos)"
  shows "turn_budget pot kk s in_pos out_pos t"
proof -
  obtain b where n: "nc_code (sd_block_decoder c) = Some block_decode" "nc_coder (sd_block_decoder c) = Some b" "block_over code good b"
    using assms(3,4) by (auto simp: stream_good_def block_running_def)
  let ?b = "b\<lparr>bd_block := sd_block_options c\<rparr>"
  have over: "block_over code good ?b" using n(3) by (simp add: block_over_def)
  obtain ret b' ip' out' op where inner: "block_decode ?b in_buf ip in_size out out_pos out_size action = Some (ret, b', ip', out', op)"
    and le: "ip \<le> ip'" by (rule bounded_coder.stepE [OF block_decode_bounded [OF assms(1)] over io])
  have q: "ret \<noteq> LZMA_TIMED_OUT" using block_decode_expands [OF assms(1,2) over io inner] by simp
  have "(op - out_pos) + block_pot pot b' \<le> block_pot pot b + k * (ip' - ip)"
    using block_decode_expands [OF assms(1,2) over io inner] by (simp add: block_pot_def)
  also have "\<dots> \<le> stream_pot pot c + kk * (ip' - ip)" using assms(4,11) n(2) by (simp add: stream_pot_def)
  also have "\<dots> \<le> s + kk * (ip - in_pos) + kk * (ip' - ip)" using assms(12) by simp
  also have "\<dots> = s + kk * (ip' - in_pos)" using assms(10) le by (simp flip: distrib_left)
  finally have B: "(op - out_pos) + block_pot pot b' \<le> s + kk * (ip' - in_pos)" .
  have "call_next (share_block c) in_buf ip in_size out out_pos out_size action
      = Some (ret, (sd_block_decoder c)\<lparr>nc_coder := Some b'\<rparr>, ip', out', op)"
    by (simp add: call_next_def share_block_def n inner)
  then show ?thesis
    using run B q assms(4) unfolding stream_decode_block_def Let_def split_beta
    by (auto simp: turn_budget_def stream_pot_def stream_timed split: if_splits)
qed

lemma stream_start_block_pot:
  assumes "raw_chain_ok code good (se_inits env)" "chain_expands code good (se_inits env) pot k p0" "block_next_ok code good (sd_block_decoder c)"
    and "stream_start_block env c = (ret, c')" "sd_sequence c = SEQ_BLOCK_HEADER"
  shows "stream_pot pot c' \<le> p0"
proof -
  have "block_pot pot (the (nc_coder nxt')) \<le> p0"
    if i: "lzma_block_decoder_init (se_inits env) mem (sd_block_decoder c) blk = (LZMA_OK, nxt')" for mem blk nxt'
  proof -
    obtain b where b: "nc_coder nxt' = Some b" using block_decoder_init_ok [OF assms(1,3) i] by (auto simp: block_running_def)
    have "\<exists>x. fst (lzma_raw_decoder_init (se_inits env) x (bl_filters blk)) = LZMA_OK
        \<and> bd_next b = snd (lzma_raw_decoder_init (se_inits env) x (bl_filters blk))"
      using i b unfolding lzma_block_decoder_init_def Let_def split_beta fst_case_option
      by (auto split: if_splits) blast+
    then obtain x inner where "lzma_raw_decoder_init (se_inits env) x (bl_filters blk) = (LZMA_OK, inner)" "bd_next b = inner"
      by (metis prod.collapse)
    moreover have "\<exists>r. nc_coder (bd_next b) = Some r" using block_decoder_init_ok [OF assms(1,3) i] b by (auto simp: block_running_def block_over_def)
    ultimately show ?thesis using assms(2) b unfolding chain_expands_def block_pot_def by force
  qed
  then show ?thesis
    using assms(4,5) by (auto simp: stream_start_block_def stream_pot_def Let_def split: prod.splits if_splits)
qed

lemma stream_block_header_budget:
  assumes raw: "raw_chain_ok code good (se_inits env)" and ex: "chain_expands code good (se_inits env) pot k p0"
    and good: "stream_good code good c" "sd_sequence c = SEQ_BLOCK_HEADER"
    and io: "ip \<le> in_size" "in_size \<le> length in_buf" "out_pos \<le> out_size" "out_size \<le> length out"
    and run: "stream_decode_block_header env c in_buf ip in_size out out_pos out_size action = Some t" and "in_pos \<le> ip"
  shows "turn_budget pot (k + p0) s in_pos out_pos t"
proof (cases "ip \<ge> in_size \<or> sd_pos c = 0 \<and> in_buf ! ip = 0")
  case True
  then show ?thesis using run good(2) by (auto simp: stream_decode_block_header_def turn_budget_def stream_pot_def split: if_splits)
next
  case False
  then have n: "\<not> ip \<ge> in_size" "\<not> (sd_pos c = 0 \<and> in_buf ! ip = 0)" by simp_all
  define c0 where "c0 = (if sd_pos c = 0 then c\<lparr>sd_block_options :=
      (sd_block_options c)\<lparr>bl_header_size := lzma_block_header_size_decode (in_buf ! ip)\<rparr>\<rparr> else c)"
  define h where "h = unat (bl_header_size (sd_block_options c0))"
  have c0: "sd_buffer c0 = sd_buffer c" "sd_index_hash c0 = sd_index_hash c" "sd_block_decoder c0 = sd_block_decoder c"
    "sd_pos c0 = sd_pos c" "sd_sequence c0 = SEQ_BLOCK_HEADER" using good(2) by (simp_all add: c0_def)
  have h: "sd_pos c < h" using good header_size_decode_range by (auto simp: h_def c0_def stream_good_def)
  obtain x ip1 buffer pos where cp: "lzma_bufcpy in_buf ip in_size (sd_buffer c0) (sd_pos c0) h = (x, ip1, buffer, pos)"
    by (metis prod_cases4)
  note b = bufcpy_into [OF cp io(1)]
  let ?c = "c0\<lparr>sd_buffer := buffer, sd_pos := pos\<rparr>"
  obtain ret c1 where st: "stream_start_block env (?c\<lparr>sd_pos := 0\<rparr>) = (ret, c1)" by fastforce
  have t: "Some t = (if pos < h then Some (Inl (LZMA_OK, ?c, ip1, out, out_pos))
       else if ret \<noteq> LZMA_OK then Some (Inl (ret, c1, ip1, out, out_pos))
       else stream_decode_block c1 in_buf ip1 in_size out out_pos out_size action)"
    using run unfolding stream_decode_block_header_def if_not_P [OF n(1)] if_not_P [OF n(2)] c0_def [symmetric] Let_def h_def [symmetric] cp
      prod.case st by simp
  show ?thesis
  proof (cases "pos < h")
    case True
    then show ?thesis using t c0(5) by (simp add: turn_budget_def stream_pot_def)
  next
    case nl: False
    have lt: "ip < ip1" using b(5) h nl c0(4) by simp
    have g1: "stream_good code good (?c\<lparr>sd_pos := 0\<rparr>)" using good c0 b(3) by (simp add: stream_good_def)
    have g2: "block_next_ok code good (sd_block_decoder (?c\<lparr>sd_pos := 0\<rparr>))" using good(1) c0(3) by (simp add: stream_good_def)
    have p: "stream_pot pot c1 \<le> p0" using stream_start_block_pot [OF raw ex g2 st] c0(5) by simp
    have c1: "stream_good code good c1" "ret = LZMA_OK \<Longrightarrow> sd_sequence c1 = SEQ_BLOCK" "ret \<noteq> LZMA_TIMED_OUT"
      using stream_start_block_ok [OF raw g1 _ _ st] c0(5) by simp_all
    have "p0 \<le> (k + p0) * (ip1 - in_pos)" using lt assms(10) by (cases "ip1 - in_pos") (auto simp: algebra_simps)
    then have p': "stream_pot pot c1 \<le> s + (k + p0) * (ip1 - in_pos)" using p by linarith
    have bc: "bounded_coder code good" using raw by (simp add: raw_chain_ok_def)
    show ?thesis
    proof (cases "ret = LZMA_OK")
      case True
      then have "stream_decode_block c1 in_buf ip1 in_size out out_pos out_size action = Some t" using t nl by simp
      then show ?thesis
        using stream_block_budget [OF bc ex c1(1) c1(2) [OF True] b(2) io(2-4)] lt assms(10) p' by simp
    next
      case False
      then show ?thesis using t nl p' c1(3) by (simp add: turn_budget_def)
    qed
  qed
qed

lemma stream_header_budget:
  assumes raw: "raw_chain_ok code good (se_inits env)" and ex: "chain_expands code good (se_inits env) pot k p0"
    and good: "stream_good code good c" "sd_sequence c = SEQ_STREAM_HEADER"
    and io: "ip \<le> in_size" "in_size \<le> length in_buf" "out_pos \<le> out_size" "out_size \<le> length out"
    and run: "stream_decode_header env c in_buf ip in_size out out_pos out_size action = Some t"
  shows "turn_budget pot (k + p0) s ip out_pos t"
proof -
  obtain x ip1 buffer pos where cp:
    "lzma_bufcpy in_buf ip in_size (sd_buffer c) (sd_pos c) LZMA_STREAM_HEADER_SIZE = (x, ip1, buffer, pos)" by (metis prod_cases4)
  note b = bufcpy_into [OF cp io(1)]
  obtain ret flags where f: "lzma_stream_header_decode (sd_stream_flags c) buffer = (ret, flags)" by fastforce
  let ?h = "c\<lparr>sd_buffer := buffer, sd_pos := 0, sd_stream_flags := flags, sd_first_stream := False,
    sd_block_options := (sd_block_options c)\<lparr>bl_check := sf_check flags\<rparr>, sd_sequence := SEQ_BLOCK_HEADER\<rparr>"
  have "stream_good code good ?h" using good b(3) by (simp add: stream_good_def)
  note hb = stream_block_header_budget [OF raw ex this _ b(2) io(2-4) _ b(1), where s = s]
  show ?thesis
    using run hb good(2) stream_header_decode_ret [of "sd_stream_flags c" buffer] unfolding stream_decode_header_def cp Let_def prod.case
    by (auto simp: f turn_budget_idle split: if_splits)
qed

lemma stream_turn_budget:
  assumes raw: "raw_chain_ok code good (se_inits env)" and ex: "chain_expands code good (se_inits env) pot k p0"
    and good: "stream_good code good c"
    and io: "in_pos \<le> in_size" "in_size \<le> length in_buf" "out_pos \<le> out_size" "out_size \<le> length out"
    and run: "stream_turn env c in_buf in_pos in_size out out_pos out_size action = Some t"
  shows "turn_budget pot (k + p0) (stream_pot pot c) in_pos out_pos t"
proof (cases "sd_sequence c")
  case SEQ_STREAM_HEADER
  then show ?thesis using stream_header_budget [OF raw ex good SEQ_STREAM_HEADER io] run by (simp add: stream_turn_def)
next
  case SEQ_BLOCK_HEADER
  then show ?thesis using stream_block_header_budget [OF raw ex good SEQ_BLOCK_HEADER io] run by (simp add: stream_turn_def)
next
  case SEQ_BLOCK
  have "bounded_coder code good" using raw by (simp add: raw_chain_ok_def)
  from stream_block_budget [OF this ex good SEQ_BLOCK io] show ?thesis using run SEQ_BLOCK by (simp add: stream_turn_def)
qed (use run stream_index_budget stream_footer_budget stream_padding_budget in \<open>auto simp: stream_turn_def\<close>)

lemma stream_loop_budget:
  assumes raw: "raw_chain_ok code good (se_inits env)" and ex: "chain_expands code good (se_inits env) pot k p0"
    and "stream_good code good c" "in_pos \<le> in_size" "in_size \<le> length in_buf" "out_pos \<le> out_size" "out_size \<le> length out"
    and "stream_loop env in_buf in_size out_size action c in_pos out out_pos = Some (ret, c', ip, out', op)"
  shows "ret \<noteq> LZMA_TIMED_OUT \<and> (op - out_pos) + stream_pot pot c' \<le> stream_pot pot c + (k + p0) * (ip - in_pos)"
  using assms(3-8)
proof (induction "3 * (in_size - in_pos) + stream_rank (sd_sequence c)" arbitrary: c in_pos out out_pos rule: less_induct)
  case less
  note io = less.prems(2-5)
  obtain t where t: "stream_turn env c in_buf in_pos in_size out out_pos out_size action = Some t"
    and ok: "turn_ok code good (sd_concatenated c) action in_pos in_size out out_pos out_size
      (3 * (in_size - in_pos) + stream_rank (sd_sequence c)) t"
    using stream_turn_ok [OF raw less.prems(1) io, of action] by (auto simp: turn_some_def)
  note bud = stream_turn_budget [OF raw ex less.prems(1) io t]
  show ?case
  proof (cases t)
    case (Inl res)
    then have "res = (ret, c', ip, out', op)" using less.prems(6) t by (simp add: stream_loop.simps)
    then show ?thesis using bud Inl by (simp add: turn_budget_def)
  next
    case (Inr st)
    then obtain c1 ip1 out1 op1 where st: "t = Inr (c1, ip1, out1, op1)" by (metis prod_cases4)
    note ok = ok [unfolded st turn_ok_Inr]
    have b: "ip1 \<le> in_size" "op1 \<le> out_size" "out_size \<le> length out1" "in_pos \<le> ip1" "out_pos \<le> op1"
      using ok io(4) by (auto simp: io_ok_def window_kept_def)
    have run: "stream_loop env in_buf in_size out_size action c1 ip1 out1 op1 = Some (ret, c', ip, out', op)"
      using less.prems(6) by (subst (asm) stream_loop.simps) (simp add: t st)
    have le: "ip1 \<le> ip" "op1 \<le> op"
      using stream_loop_ok [OF raw _ b(1) io(2) b(2,3), of c1 action] ok run by (auto simp: io_ok_def)
    have IH: "ret \<noteq> LZMA_TIMED_OUT \<and> (op - op1) + stream_pot pot c' \<le> stream_pot pot c1 + (k + p0) * (ip - ip1)"
      using less.hyps [OF _ _ b(1) io(2) b(2,3) run] ok by simp
    moreover have "(op1 - out_pos) + stream_pot pot c1 \<le> stream_pot pot c + (k + p0) * (ip1 - in_pos)"
      using bud st by (simp add: turn_budget_def)
    moreover have "(k + p0) * (ip - in_pos) = (k + p0) * (ip1 - in_pos) + (k + p0) * (ip - ip1)"
      using le b(4) by (simp flip: distrib_left)
    ultimately show ?thesis using IH le(2) b(5) by linarith
  qed
qed

lemma stream_decoder_init_good:
  assumes "lzma_stream_decoder_init env mem nxt memlimit flags = (LZMA_OK, nxt')"
    and "\<And>c. mem = Some c \<or> nc_coder nxt = Some c \<Longrightarrow> length (sd_buffer c) = 1024"
    and "\<And>c. nc_coder nxt = Some c \<Longrightarrow> block_next_ok code good (sd_block_decoder c) \<and> nc_code nxt = Some (stream_decode env)"
  shows "\<exists>c. nc_coder nxt' = Some c \<and> nc_code nxt' = Some (stream_decode env) \<and> stream_good code good c
    \<and> (sd_concatenated c \<longleftrightarrow> flags AND LZMA_CONCATENATED \<noteq> 0)"
proof -
  let ?nxt = "lzma_next_coder_init (Some ''lzma_stream_decoder_init'') nxt"
  have g: "memlimit \<noteq> 0" "flags AND NOT LZMA_SUPPORTED_FLAGS = 0"
    using assms(1) by (auto simp: lzma_stream_decoder_init_def Let_def split: if_splits)
  have reset: "stream_decoder_reset env x = (LZMA_OK, y) \<Longrightarrow> length (sd_buffer x) = 1024 \<Longrightarrow> block_next_ok code good (sd_block_decoder x) \<Longrightarrow>
      stream_good code good y \<and> sd_concatenated y = sd_concatenated x" for x y
    by (auto simp: stream_decoder_reset_def stream_good_def LZMA_STREAM_HEADER_SIZE_def Let_def split: if_splits)
  have fresh: "block_next_ok code good LZMA_NEXT_CODER_INIT" by (simp add: block_next_ok_def LZMA_NEXT_CODER_INIT_def)
  show ?thesis
  proof (cases "nc_coder ?nxt")
    case None
    then obtain m where "mem = Some m"
      using assms(1) g by (auto simp: lzma_stream_decoder_init_def Let_def split: if_splits option.splits)
    then show ?thesis
      using assms(1,2) g None reset fresh
      by (fastforce simp: lzma_stream_decoder_init_def Let_def split: prod.splits)
  next
    case (Some m)
    then have "nc_coder nxt = Some m" "?nxt = nxt\<lparr>nc_init := Some ''lzma_stream_decoder_init''\<rparr>"
      by (auto simp: lzma_next_coder_init_def lzma_next_end_def LZMA_NEXT_CODER_INIT_def Let_def split: if_splits)
    then show ?thesis
      using assms g Some reset
      by (fastforce simp: lzma_stream_decoder_init_def Let_def split: prod.splits)
  qed
qed

text \<open>The states calls of the decoder lead to, as long as they report no fatal error.\<close>

inductive stream_reach :: "'r stream_env \<Rightarrow> 'r stream_coder \<Rightarrow> 'r stream_coder \<Rightarrow> bool"
  for env :: "'r stream_env" and c0 :: "'r stream_coder" where
  start: "stream_reach env c0 c0"
| call: "stream_reach env c0 c \<Longrightarrow>
     stream_decode env c in_buf in_pos in_size out out_pos out_size action = Some (ret, c', in_pos', out', out_pos') \<Longrightarrow>
     in_pos \<le> in_size \<Longrightarrow> in_size \<le> length in_buf \<Longrightarrow> out_pos \<le> out_size \<Longrightarrow> out_size \<le> length out \<Longrightarrow>
     \<not> fatal ret \<Longrightarrow> stream_reach env c0 c'"

lemma stream_reach_good:
  assumes "stream_reach env c0 c" "raw_chain_ok code good (se_inits env)" "stream_good code good c0"
  shows "stream_good code good c \<and> sd_concatenated c = sd_concatenated c0"
  using assms(1)
proof induction
  case start
  show ?case using assms(3) by simp
next
  case (call c in_buf in_pos in_size out out_pos out_size action ret c' in_pos' out' out_pos')
  then show ?case
    using stream_loop_ok [OF assms(2) _ call(3-6), of c action] by (auto simp: stream_decode_def)
qed

section \<open>Properties\<close>

text \<open>C4. The Stream decoder always returns, stays within its buffers, and reports the end of concatenated Streams only on
  request. In every state that calls lead to, as long as they report no fatal error, after \<open>lzma_stream_decoder_init\<close>, whatever bytes it is given, the loop
  in \<open>stream_decode\<close> ends; the positions move forward inside the given windows and nothing else of the output buffer
  changes; and with \<open>LZMA_CONCATENATED\<close> it returns \<open>LZMA_STREAM_END\<close> only if the action is \<open>LZMA_FINISH\<close>. The filter
  chain is any coder that stays within its buffers and whose initialisation reports no end of data.\<close>

theorem stream_decode_total:
  assumes "raw_chain_ok code good (se_inits env)"
    and "lzma_stream_decoder_init env (Some mem) LZMA_NEXT_CODER_INIT memlimit flags = (LZMA_OK, nxt)"
    and "length (sd_buffer mem) = 1024" "nc_coder nxt = Some c0" "stream_reach env c0 c"
    and "in_pos \<le> in_size" "in_size \<le> length in_buf" "out_pos \<le> out_size" "out_size \<le> length out"
  shows "\<exists>ret c' in_pos' out' out_pos'.
    stream_decode env c in_buf in_pos in_size out out_pos out_size action = Some (ret, c', in_pos', out', out_pos')
    \<and> in_pos \<le> in_pos' \<and> in_pos' \<le> in_size \<and> out_pos \<le> out_pos' \<and> out_pos' \<le> out_size
    \<and> length out' = length out \<and> take out_pos out' = take out_pos out \<and> drop out_size out' = drop out_size out
    \<and> (ret = LZMA_STREAM_END \<longrightarrow> flags AND LZMA_CONCATENATED = 0 \<or> action = LZMA_FINISH)"
proof -
  have no: "nc_coder (LZMA_NEXT_CODER_INIT :: 'a stream_coder lzma_next_coder) = None" by (simp add: LZMA_NEXT_CODER_INIT_def)
  have "stream_good code good c0" "sd_concatenated c0 \<longleftrightarrow> flags AND LZMA_CONCATENATED \<noteq> 0"
    using stream_decoder_init_good [OF assms(2), of code good] assms(3,4) no by auto
  then have "stream_good code good c" "sd_concatenated c \<longleftrightarrow> flags AND LZMA_CONCATENATED \<noteq> 0"
    using stream_reach_good [OF assms(5,1)] by simp_all
  from stream_loop_ok [OF assms(1) this(1) assms(6-9), of action] this(2)
  show ?thesis by (auto simp: stream_decode_def io_ok_def window_kept_def)
qed

text \<open>An environment over the copying chain.\<close>

definition zero_flags :: lzma_stream_flags where
  "zero_flags = \<lparr>sf_version = 0, sf_backward_size = 0, sf_check = 0\<rparr>"

definition sample_env :: "nat stream_env" where
  "sample_env = \<lparr>se_sizes = sample_sizes, se_alloc = (\<lambda>_. sample_alloc), se_filters = replicate 5 unknown_filter,
     se_inits = sample_copy_inits, se_block_mem = Some sample_block_mem, se_index_mem = Some zero_index_hash,
     se_footer_flags = zero_flags\<rparr>"

definition sample_stream_mem :: "'r stream_coder" where
  "sample_stream_mem = \<lparr>sd_sequence = SEQ_INDEX, sd_block_decoder = LZMA_NEXT_CODER_INIT, sd_block_options = sample_target,
     sd_stream_flags = zero_flags, sd_index_hash = None, sd_memlimit = 0, sd_memusage = 0, sd_tell_no_check = False,
     sd_tell_unsupported_check = False, sd_tell_any_check = False, sd_ignore_check = False, sd_concatenated = False,
     sd_first_stream = False, sd_pos = 7, sd_buffer = replicate 1024 0\<rparr>"

lemma sample_raw_chain_ok: "raw_chain_ok sample_copy (\<lambda>_. True) sample_copy_inits"
proof -
  have "raw_next_ok sample_copy (\<lambda>_. True) nxt' \<and> (ret = LZMA_OK \<longrightarrow> nc_coder nxt' \<noteq> None)"
    if "raw_next_ok sample_copy (\<lambda>_. True) nxt" "lzma_raw_decoder_init sample_copy_inits nxt filters = (ret, nxt')" for nxt nxt' filters ret
    using that(2)
  proof (cases rule: raw_decoder_init_cases)
    case early
    then show ?thesis using that(1) by simp
  next
    case (init f rest name infos n)
    then show ?thesis by (auto simp: sample_copy_inits_def raw_next_ok_def)
  qed
  then show ?thesis using sample_copy_bounded by (auto simp: raw_chain_ok_def sample_copy_inits_def)
qed

definition sample_stream :: "nat stream_coder" where
  "sample_stream = sample_stream_mem\<lparr>sd_memlimit := 1000, sd_memusage := LZMA_MEMUSAGE_BASE, sd_concatenated := True,
     sd_first_stream := True, sd_index_hash := lzma_index_hash_init None (Some zero_index_hash), sd_sequence := SEQ_STREAM_HEADER,
     sd_pos := 0\<rparr>"

lemma sample_stream_init:
  "\<exists>nxt. lzma_stream_decoder_init sample_env (Some sample_stream_mem) LZMA_NEXT_CODER_INIT 1000 LZMA_CONCATENATED = (LZMA_OK, nxt)
    \<and> nc_coder nxt = Some sample_stream"
  by (simp add: lzma_stream_decoder_init_def lzma_next_coder_init_def LZMA_NEXT_CODER_INIT_def lzma_next_end_def
      stream_decoder_reset_def sample_env_def sample_stream_mem_def sample_stream_def lzma_index_hash_init_def stream_flag_defs Let_def)

theorem stream_decode_total_witness:
  "\<exists>ret c' in_pos' out' out_pos'. stream_decode sample_env sample_stream [1, 2, 3] 0 3 [9] 0 1 LZMA_RUN = Some (ret, c', in_pos', out', out_pos')
    \<and> ret \<noteq> LZMA_STREAM_END"
proof -
  have raw: "raw_chain_ok sample_copy (\<lambda>_. True) (se_inits sample_env)" using sample_raw_chain_ok by (simp add: sample_env_def)
  obtain nxt where i: "lzma_stream_decoder_init sample_env (Some sample_stream_mem) LZMA_NEXT_CODER_INIT 1000 LZMA_CONCATENATED = (LZMA_OK, nxt)"
    "nc_coder nxt = Some sample_stream" using sample_stream_init by blast
  have "length (sd_buffer sample_stream_mem) = 1024" by (simp add: sample_stream_mem_def)
  from stream_decode_total [OF raw i(1) this i(2) stream_reach.start, of 0 3 "[1, 2, 3]" 0 1 "[9]" LZMA_RUN]
  show ?thesis by (auto simp: LZMA_CONCATENATED_def)
qed

text \<open>C33. A memory limit that is too low cannot be repaired. The interface says that decoding can be continued after
  \<open>LZMA_MEMLIMIT_ERROR\<close> once \<open>lzma_memlimit_set\<close> has raised the limit. But when the Stream decoder finds that a Block
  needs more memory than allowed, it has already consumed the Block Header and forgotten it: it waits for the first byte
  of another Block Header, also after the limit has been raised, and takes the Block's compressed data for that (a
  zero byte for the start of the Index).\<close>

theorem memlimit_header_lost:
  assumes "sd_sequence c = SEQ_BLOCK_HEADER" "sd_pos c = 0" "in_pos < in_size" "in_buf ! in_pos \<noteq> 0"
    and h: "h = unat (lzma_block_header_size_decode (in_buf ! in_pos))" "in_pos + h \<le> in_size"
    and dec: "lzma_block_header_decode (se_alloc env)
      ((sd_block_options c)\<lparr>bl_header_size := lzma_block_header_size_decode (in_buf ! in_pos), bl_version := 1, bl_filters := Some (se_filters env)\<rparr>)
      (buf_write 0 (take h (drop in_pos in_buf)) (sd_buffer c)) = (LZMA_OK, block)"
    and need: "need = lzma_raw_decoder_memusage (se_sizes env) (bl_filters block)" "need \<noteq> UINT64_MAX" "sd_memlimit c < need" "need \<le> limit"
  shows "\<exists>c' c'' used old. stream_decode env c in_buf in_pos in_size out out_pos out_size action
      = Some (LZMA_MEMLIMIT_ERROR, c', in_pos + h, out, out_pos)
    \<and> stream_decoder_memconfig c' limit = (LZMA_OK, c'', used, old) \<and> sd_memlimit c'' = limit
    \<and> sd_sequence c'' = SEQ_BLOCK_HEADER \<and> sd_pos c'' = 0
    \<and> (\<forall>buf p n out q m a. p < n \<and> buf ! p = 0 \<longrightarrow>
         stream_turn env c'' buf p n out q m a = Some (Inr (c''\<lparr>sd_sequence := SEQ_INDEX\<rparr>, p, out, q)))"
proof -
  define c0 where "c0 = c\<lparr>sd_block_options := (sd_block_options c)\<lparr>bl_header_size := lzma_block_header_size_decode (in_buf ! in_pos)\<rparr>\<rparr>"
  let ?buf = "buf_write 0 (take h (drop in_pos in_buf)) (sd_buffer c)"
  have cp: "lzma_bufcpy in_buf in_pos in_size (sd_buffer c0) (sd_pos c0) (unat (bl_header_size (sd_block_options c0))) = (h, in_pos + h, ?buf, h)"
  proof -
    have "min (in_size - in_pos) h = h" using h(2) by linarith
    then show ?thesis using h(1) assms(2) by (simp add: lzma_bufcpy_def c0_def Let_def)
  qed
  define b where "b = block\<lparr>bl_ignore_check := sd_ignore_check c\<rparr>"
  let ?c = "c0\<lparr>sd_buffer := ?buf, sd_pos := 0, sd_memusage := need, sd_block_options := b\<lparr>bl_filters := None\<rparr>\<rparr>"
  have "stream_start_block env (c0\<lparr>sd_buffer := ?buf, sd_pos := h, sd_pos := 0\<rparr>) = (LZMA_MEMLIMIT_ERROR, ?c)"
    using dec need by (simp add: stream_start_block_def c0_def b_def)
  then have "stream_decode_block_header env c in_buf in_pos in_size out out_pos out_size action
      = Some (Inl (LZMA_MEMLIMIT_ERROR, ?c, in_pos + h, out, out_pos))"
    using assms(2-4) h(1) cp unfolding stream_decode_block_header_def c0_def [symmetric] by (simp add: c0_def Let_def)
  then have run: "stream_decode env c in_buf in_pos in_size out out_pos out_size action = Some (LZMA_MEMLIMIT_ERROR, ?c, in_pos + h, out, out_pos)"
    using assms(1) by (simp add: stream_decode_def stream_loop.simps stream_turn_def)
  have "limit \<noteq> 0" "\<not> limit < need" using need(3,4) by auto
  then have cfg: "stream_decoder_memconfig ?c limit = (LZMA_OK, ?c\<lparr>sd_memlimit := limit\<rparr>, need, sd_memlimit c)"
    by (simp add: stream_decoder_memconfig_def c0_def)
  show ?thesis
    by (rule exI [of _ ?c], rule exI [of _ "?c\<lparr>sd_memlimit := limit\<rparr>"], rule exI [of _ need], rule exI [of _ "sd_memlimit c"])
      (use run cfg assms(1) in \<open>simp add: c0_def stream_turn_def stream_decode_block_header_def\<close>)
qed

definition sample_waiting :: "nat stream_coder" where
  "sample_waiting = sample_stream\<lparr>sd_sequence := SEQ_BLOCK_HEADER\<rparr>"

lemma sample_header_bytes: "length sample_header = 16" "sample_header ! 0 = 3"
proof -
  have "6 + length (block_fields 300 LZMA_VLI_UNKNOWN [sample_x86, sample_lzma2]) \<le> 16" by (simp add: sample_fields)
  from block_header_body_length [OF this] show "length sample_header = 16" by (simp add: sample_header_def)
  show "sample_header ! 0 = 3" by (simp add: sample_header_def block_header_bytes_def block_header_body_def)
qed

lemma sample_decode_long: "lzma_block_header_decode (\<lambda>i. sample_alloc) sample_target (sample_header @ replicate 1008 0)
    = (LZMA_OK, decoded_block sample_target 300 LZMA_VLI_UNKNOWN [sample_x86, sample_lzma2])"
proof -
  have "lzma_block_unpadded_size (Some (decoded_block sample_target 300 LZMA_VLI_UNKNOWN [sample_x86, sample_lzma2]))
      = lzma_block_unpadded_size (Some (sample_block\<lparr>bl_header_size := 16\<rparr>))"
    by (rule unpadded_size_cong) (simp_all add: decoded_block_def sample_target_def sample_block_def)
  then have "lzma_block_unpadded_size (Some (decoded_block sample_target 300 LZMA_VLI_UNKNOWN [sample_x86, sample_lzma2])) \<noteq> 0"
    by (simp add: sample_unpadded)
  then show ?thesis
    using sample_fields sample_header_bytes(1) sample_valid sample_canons
    by (intro block_header_decode_ok [where h = 16 and arr = "replicate 5 unknown_filter" and csz = sample_sizes])
      (simp_all add: sample_header_def sample_target_def sample_block_def)
qed

lemma sample_need:
  "lzma_raw_decoder_memusage sample_sizes (bl_filters (decoded_block sample_target 300 LZMA_VLI_UNKNOWN [sample_x86, sample_lzma2]))
     = 4295004087"
proof -
  have r3: "replicate 3 unknown_filter = [unknown_filter, unknown_filter, unknown_filter]" by (simp add: numeral_eq_Suc)
  have ch: "chain_of (sample_x86 # sample_lzma2 # replicate 3 unknown_filter) = [sample_x86, sample_lzma2]"
    unfolding r3 by (simp add: chain_of_def sample_x86_def sample_lzma2_def unknown_filter_def filter_ids)
  have "validate_chain_loop [sample_x86, sample_lzma2] 0 True False 0 = (LZMA_OK, 2)"
    using sample_validate by (simp add: validate_chain_def sample_small_block_def sample_block_def sample_chain)
  then show ?thesis
    by (simp add: lzma_raw_decoder_memusage_def decoded_block_def sample_target_def sample_block_def validate_chain_def ch)
      (simp add: decoder_find_def decoders_def bcj_decoder_def sample_x86_def sample_lzma2_def filter_ids lzma_lzma2_decoder_memusage_def
        lzma_lzma_decoder_memusage_nocheck_def lzma_lz_decoder_memusage_def sample_sizes_def UINT64_MAX_def)
qed

theorem memlimit_header_lost_witness:
  "\<exists>c' c'' used old. stream_decode sample_env sample_waiting sample_header 0 16 [] 0 0 LZMA_RUN = Some (LZMA_MEMLIMIT_ERROR, c', 16, [], 0)
    \<and> stream_decoder_memconfig c' 5000000000 = (LZMA_OK, c'', used, old) \<and> sd_sequence c'' = SEQ_BLOCK_HEADER \<and> sd_pos c'' = 0"
proof -
  have c: "sd_sequence sample_waiting = SEQ_BLOCK_HEADER" "sd_pos sample_waiting = 0" "sd_memlimit sample_waiting = 1000"
    "sd_buffer sample_waiting = replicate 1024 0" "sd_block_options sample_waiting = sample_target"
    by (simp_all add: sample_waiting_def sample_stream_def sample_stream_mem_def)
  have hs: "lzma_block_header_size_decode (sample_header ! 0) = 16"
    by (simp add: sample_header_bytes lzma_block_header_size_decode_def)
  have "replicate 1024 0 = replicate 16 0 @ replicate 1008 (0 :: u8)" by (simp flip: replicate_add)
  then have buf: "buf_write 0 (take 16 (drop 0 sample_header)) (replicate 1024 0) = sample_header @ replicate 1008 0"
    using sample_header_bytes(1) by (simp add: buf_write_def)
  have tgt: "sample_target\<lparr>bl_header_size := 16, bl_version := 1, bl_filters := Some (se_filters sample_env)\<rparr> = sample_target"
    by (simp add: sample_target_def sample_block_def sample_env_def)
  have dec: "lzma_block_header_decode (se_alloc sample_env) ((sd_block_options sample_waiting)\<lparr>bl_header_size := lzma_block_header_size_decode (sample_header ! 0),
      bl_version := 1, bl_filters := Some (se_filters sample_env)\<rparr>) (buf_write 0 (take 16 (drop 0 sample_header)) (sd_buffer sample_waiting))
      = (LZMA_OK, decoded_block sample_target 300 LZMA_VLI_UNKNOWN [sample_x86, sample_lzma2])"
    unfolding c hs buf tgt using sample_decode_long by (simp add: sample_env_def)
  have need: "4295004087 = lzma_raw_decoder_memusage (se_sizes sample_env)
      (bl_filters (decoded_block sample_target 300 LZMA_VLI_UNKNOWN [sample_x86, sample_lzma2]))"
    using sample_need by (simp add: sample_env_def)
  from memlimit_header_lost [OF c(1,2) _ _ _ _ dec need, of 16 5000000000 "[]" 0 0 LZMA_RUN]
  show ?thesis using sample_header_bytes hs c(3) by (fastforce simp: UINT64_MAX_def)
qed

end
