(* ===== verification/Lz_Dict.thy ===== *)
theory Lz_Dict
  imports Coder
begin

text \<open>
  The dictionary of the LZ decoders, \<open>lz/lz_decoder.h\<close>: a ring buffer of the bytes decoded last. A result \<open>None\<close> is
  undefined behaviour: an access outside of the buffer, or a \<open>memcpy\<close> between areas that overlap.

  The specification is the history, the list of all bytes since the last reset: the dictionary holds its end. The
  copy of a match (\<open>lz_copy\<close>) appends to the history byte by byte; \<open>dict_repeat\<close>, which distinguishes three cases in
  order to copy blocks, is proved to do the same.
\<close>

section \<open>The code\<close>

record lzma_dict =
  di_buf :: "u8 list"
  di_pos :: nat
  di_full :: nat
  di_limit :: nat
  di_size :: nat
  di_need_reset :: bool

definition mem_move :: "u8 list \<Rightarrow> nat \<Rightarrow> nat \<Rightarrow> nat \<Rightarrow> u8 list option" where
  "mem_move buf dest src n =
     (if dest + n \<le> length buf \<and> src + n \<le> length buf then Some (buf_write dest (take n (drop src buf)) buf) else None)"

definition mem_copy :: "u8 list \<Rightarrow> nat \<Rightarrow> nat \<Rightarrow> nat \<Rightarrow> u8 list option" where
  "mem_copy buf dest src n =
     (if n = 0 \<or> src + n \<le> dest \<or> dest + n \<le> src then mem_move buf dest src n else None)"

text \<open>The size is added where the difference would be negative.\<close>

definition dict_get :: "lzma_dict \<Rightarrow> u32 \<Rightarrow> u8 option" where
  "dict_get dict distance =
     (let n = unat distance;
          i = (if n < di_pos dict then di_pos dict - n - 1 else di_pos dict + di_size dict - n - 1)
      in if n < di_pos dict + di_size dict \<and> i < length (di_buf dict) then Some (di_buf dict ! i) else None)"

definition dict_is_empty :: "lzma_dict \<Rightarrow> bool" where
  "dict_is_empty dict \<longleftrightarrow> di_full dict = 0"

definition dict_is_distance_valid :: "lzma_dict \<Rightarrow> u32 \<Rightarrow> bool" where
  "dict_is_distance_valid dict distance \<longleftrightarrow> di_full dict > unat distance"

text \<open>\<open>if (dict->full < dict->pos) dict->full = dict->pos\<close>\<close>

definition dict_fill :: "lzma_dict \<Rightarrow> lzma_dict" where
  "dict_fill dict = (if di_full dict < di_pos dict then dict\<lparr>di_full := di_pos dict\<rparr> else dict)"

fun dict_repeat_loop :: "lzma_dict \<Rightarrow> u32 \<Rightarrow> nat \<Rightarrow> lzma_dict option" where
  "dict_repeat_loop dict distance 0 = Some dict"
| "dict_repeat_loop dict distance (Suc left) =
     (case dict_get dict distance of
        None \<Rightarrow> None
      | Some byte \<Rightarrow>
          if di_pos dict < length (di_buf dict)
          then dict_repeat_loop (dict\<lparr>di_buf := (di_buf dict)[di_pos dict := byte], di_pos := di_pos dict + 1\<rparr>) distance left
          else None)"

text \<open>The third case; the variables \<open>copy_pos\<close> and \<open>copy_size\<close> have 32 bits.\<close>

definition dict_repeat_wrap :: "lzma_dict \<Rightarrow> u32 \<Rightarrow> nat \<Rightarrow> lzma_dict option" where
  "dict_repeat_wrap dict distance left =
     (let copy_pos = (di_pos dict + di_size dict + 2 ^ 32 - unat distance - 1) mod 2 ^ 32;
          copy_size = (di_size dict + 2 ^ 32 - copy_pos) mod 2 ^ 32
      in if copy_size < left
         then
           (case mem_move (di_buf dict) (di_pos dict) copy_pos copy_size of
              None \<Rightarrow> None
            | Some buf \<Rightarrow>
                map_option (\<lambda>buf. dict\<lparr>di_buf := buf, di_pos := di_pos dict + copy_size + (left - copy_size)\<rparr>)
                  (mem_copy buf (di_pos dict + copy_size) 0 (left - copy_size)))
         else map_option (\<lambda>buf. dict\<lparr>di_buf := buf, di_pos := di_pos dict + left\<rparr>) (mem_move (di_buf dict) (di_pos dict) copy_pos left))"

definition dict_repeat :: "lzma_dict \<Rightarrow> u32 \<Rightarrow> u32 \<Rightarrow> (bool \<times> lzma_dict \<times> u32) option" where
  "dict_repeat dict distance len =
     (let dict_avail = di_limit dict - di_pos dict;
          left = min dict_avail (unat len);
          len = len - of_nat left
      in map_option (\<lambda>dict. (len \<noteq> 0, dict_fill dict, len))
           (if unat distance < left then dict_repeat_loop dict distance left
            else if unat distance < di_pos dict
            then map_option (\<lambda>buf. dict\<lparr>di_buf := buf, di_pos := di_pos dict + left\<rparr>)
                   (mem_copy (di_buf dict) (di_pos dict) (di_pos dict - unat distance - 1) left)
            else dict_repeat_wrap dict distance left))"

definition dict_put :: "lzma_dict \<Rightarrow> u8 \<Rightarrow> (bool \<times> lzma_dict) option" where
  "dict_put dict byte =
     (if di_pos dict = di_limit dict then Some (True, dict)
      else if di_pos dict < length (di_buf dict)
      then Some (False, dict_fill (dict\<lparr>di_buf := (di_buf dict)[di_pos dict := byte], di_pos := di_pos dict + 1\<rparr>))
      else None)"

text \<open>The new input position, dictionary and number of bytes left.\<close>

definition dict_write :: "lzma_dict \<Rightarrow> u8 list \<Rightarrow> nat \<Rightarrow> nat \<Rightarrow> nat \<Rightarrow> nat \<times> lzma_dict \<times> nat" where
  "dict_write dict in_buf in_pos in_size left =
     (let in_size = (if in_size - in_pos > left then in_pos + left else in_size);
          (copied, in_pos, buf, pos) = lzma_bufcpy in_buf in_pos in_size (di_buf dict) (di_pos dict) (di_limit dict)
      in (in_pos, dict_fill (dict\<lparr>di_buf := buf, di_pos := pos\<rparr>), left - copied))"

definition dict_reset :: "lzma_dict \<Rightarrow> lzma_dict" where
  "dict_reset dict = dict\<lparr>di_need_reset := True\<rparr>"

section \<open>The history\<close>

text \<open>The bytes in the dictionary from the oldest to the newest, and the invariant: the buffer is full or has been filled up
  to the position. A dictionary has at most \<open>2 ^ 32\<close> bytes, the largest size that can be asked for.\<close>

definition dict_bytes :: "lzma_dict \<Rightarrow> u8 list" where
  "dict_bytes d = (if di_full d = di_size d then drop (di_pos d) (di_buf d) else []) @ take (di_pos d) (di_buf d)"

definition dict_ok :: "lzma_dict \<Rightarrow> bool" where
  "dict_ok d \<longleftrightarrow>
     length (di_buf d) = di_size d \<and> 0 < di_size d \<and> di_size d \<le> 2 ^ 32
     \<and> di_pos d \<le> di_limit d \<and> di_limit d \<le> di_size d \<and> di_full d \<le> di_size d
     \<and> (di_full d = di_pos d \<or> di_full d = di_size d)"

definition dict_holds :: "lzma_dict \<Rightarrow> u8 list \<Rightarrow> bool" where
  "dict_holds d h \<longleftrightarrow>
     dict_ok d \<and> di_full d = min (di_size d) (length h) \<and> dict_bytes d = drop (length h - di_full d) h"

fun lz_copy :: "'a list \<Rightarrow> nat \<Rightarrow> nat \<Rightarrow> 'a list" where
  "lz_copy h distance 0 = h"
| "lz_copy h distance (Suc n) = lz_copy (h @ [h ! (length h - 1 - distance)]) distance n"

text \<open>Bytes written at the position.\<close>

definition dict_append :: "lzma_dict \<Rightarrow> u8 list \<Rightarrow> lzma_dict" where
  "dict_append d bs = dict_fill (d\<lparr>di_buf := buf_write (di_pos d) bs (di_buf d), di_pos := di_pos d + length bs\<rparr>)"

lemma length_dict_bytes: "dict_ok d \<Longrightarrow> length (dict_bytes d) = di_full d"
  by (auto simp: dict_ok_def dict_bytes_def)

lemma dict_append_holds:
  assumes "dict_holds d h" "di_pos d + length bs \<le> di_limit d"
  shows "dict_holds (dict_append d bs) (h @ bs)"
proof -
  have ok: "length (di_buf d) = di_size d" "di_pos d + length bs \<le> di_size d" "di_full d = min (di_size d) (length h)"
    "dict_bytes d = drop (length h - di_full d) h" "di_full d = di_pos d \<or> di_full d = di_size d" "dict_ok d"
    using assms by (auto simp: dict_holds_def dict_ok_def)
  define buf where "buf = take (di_pos d) (di_buf d) @ bs @ drop (di_pos d + length bs) (di_buf d)"
  have new: "dict_append d bs = dict_fill (d\<lparr>di_buf := buf, di_pos := di_pos d + length bs\<rparr>)"
    using ok(1,2) by (simp add: dict_append_def buf_write_in buf_def)
  show ?thesis
  proof (cases "di_full d = di_size d")
    case True
    have fill: "dict_append d bs = d\<lparr>di_buf := buf, di_pos := di_pos d + length bs\<rparr>" using new True ok(2) by (simp add: dict_fill_def)
    have "drop (di_pos d + length bs) buf @ take (di_pos d + length bs) buf = drop (length bs) (dict_bytes d) @ bs"
      using True ok(1,2) by (simp add: buf_def dict_bytes_def add.commute)
    also have "\<dots> = drop (length bs + (length h - di_size d)) h @ bs" using ok(4) True by simp
    also have "\<dots> = drop (length (h @ bs) - di_size d) (h @ bs)" using True ok(2,3) by (simp add: add.commute min_def split: if_splits)
    finally show ?thesis using ok(6) True ok(1-3) assms(2)
      by (auto simp: dict_holds_def dict_ok_def dict_bytes_def fill buf_def min_def split: if_splits)
  next
    case False
    then have h: "length h = di_pos d" "di_full d = di_pos d" "take (di_pos d) (di_buf d) = h"
      using ok(3-5) by (auto simp: dict_bytes_def min_def split: if_splits)
    have full: "di_full (dict_append d bs) = di_pos d + length bs" using new h(2) by (simp add: dict_fill_def)
    have "dict_bytes (dict_append d bs) = h @ bs"
      using new full h ok(1,2) by (auto simp: dict_bytes_def dict_fill_def buf_def)
    then show ?thesis using full ok(1,2,6) h(1) assms(2) new
      by (auto simp: dict_holds_def dict_ok_def dict_fill_def buf_def)
  qed
qed

lemma dict_get_holds:
  assumes "dict_holds d h" "unat distance < di_full d"
  shows "dict_get d distance = Some (h ! (length h - 1 - unat distance))"
proof -
  define n where "n = unat distance"
  have ok: "length (di_buf d) = di_size d" "di_pos d \<le> di_size d" "di_full d = min (di_size d) (length h)"
    "dict_bytes d = drop (length h - di_full d) h" "di_full d = di_pos d \<or> di_full d = di_size d" "n < di_full d"
    using assms by (auto simp: dict_holds_def dict_ok_def n_def)
  have "h ! (length h - 1 - n) = drop (length h - di_full d) h ! (di_full d - 1 - n)" using ok(3,6) by simp
  also have "\<dots> = dict_bytes d ! (di_full d - 1 - n)" using ok(4) by simp
  finally have h: "h ! (length h - 1 - n) = dict_bytes d ! (di_full d - 1 - n)" .
  show ?thesis
  proof (cases "n < di_pos d")
    case True
    then have "dict_bytes d ! (di_full d - 1 - n) = di_buf d ! (di_pos d - n - 1)"
      using ok(1,2,5) by (auto simp: dict_bytes_def nth_append diff_commute)
    then show ?thesis using h True ok(1,2) by (simp add: dict_get_def n_def Let_def)
  next
    case False
    then have full: "di_full d = di_size d" "di_pos d < di_size d" using ok(5,6) by auto
    have "dict_bytes d ! (di_full d - 1 - n) = di_buf d ! (di_pos d + di_size d - n - 1)"
      using False full ok(1,6) by (simp add: dict_bytes_def nth_append)
    then show ?thesis using h False full ok(1,6) by (simp add: dict_get_def n_def Let_def)
  qed
qed

section \<open>Repeating a match\<close>

lemma lz_copy_append: "lz_copy h n (i + j) = lz_copy (lz_copy h n i) n j"
  by (induction i arbitrary: h) simp_all

lemma lz_copy_block:
  assumes "k \<le> n + 1" "n < length h"
  shows "lz_copy h n k = h @ take k (drop (length h - 1 - n) h)"
  using assms(1)
proof (induction k)
  case (Suc k)
  let ?i = "length h - 1 - n"
  have "lz_copy h n (Suc k) = lz_copy (lz_copy h n k) n 1" using lz_copy_append [of h n k 1] by simp
  also have "\<dots> = (h @ take k (drop ?i h)) @ [(h @ take k (drop ?i h)) ! (length h + k - 1 - n)]"
    using Suc assms(2) by simp
  also have "(h @ take k (drop ?i h)) ! (length h + k - 1 - n) = drop ?i h ! k"
    using Suc.prems assms(2) by (simp add: nth_append add.commute)
  finally show ?case using Suc.prems assms(2) by (simp add: take_Suc_conv_app_nth)
qed simp

lemma dict_fill_simps [simp]:
  "di_buf (dict_fill d) = di_buf d" "di_pos (dict_fill d) = di_pos d" "di_limit (dict_fill d) = di_limit d"
  "di_size (dict_fill d) = di_size d" "di_need_reset (dict_fill d) = di_need_reset d"
  "dict_fill (dict_fill d) = dict_fill d" "dict_get (dict_fill d) n = dict_get d n"
  by (simp_all add: dict_fill_def dict_get_def Let_def)

lemma dict_append_one:
  "di_pos d < length (di_buf d) \<Longrightarrow> dict_append d [b] = dict_fill (d\<lparr>di_buf := (di_buf d)[di_pos d := b], di_pos := di_pos d + 1\<rparr>)"
  by (simp add: dict_append_def list_update_buf_write)

lemma dict_append_simps [simp]:
  "di_pos (dict_append d bs) = di_pos d + length bs" "di_limit (dict_append d bs) = di_limit d" "di_size (dict_append d bs) = di_size d"
  "di_need_reset (dict_append d bs) = di_need_reset d"
  by (simp_all add: dict_append_def)

text \<open>The fields that \<open>dict_repeat\<close> keeps.\<close>

definition dict_frame :: "lzma_dict \<Rightarrow> lzma_dict \<Rightarrow> bool" where
  "dict_frame d d' \<longleftrightarrow> di_limit d' = di_limit d \<and> di_size d' = di_size d \<and> di_need_reset d' = di_need_reset d"

lemma dict_fill_frame: "dict_frame d (dict_fill d') \<longleftrightarrow> dict_frame d d'"
  by (simp add: dict_frame_def)

lemma dict_repeat_loop_holds:
  assumes "dict_holds (dict_fill d) h" "unat distance < length h" "unat distance < di_size d" "di_pos d + left \<le> di_limit d"
  shows "\<exists>d'. dict_repeat_loop d distance left = Some d' \<and> dict_holds (dict_fill d') (lz_copy h (unat distance) left)
    \<and> di_pos d' = di_pos d + left \<and> dict_frame d d'"
  using assms
proof (induction left arbitrary: d h)
  case (Suc left)
  let ?b = "h ! (length h - 1 - unat distance)"
  let ?d = "d\<lparr>di_buf := (di_buf d)[di_pos d := ?b], di_pos := di_pos d + 1\<rparr>"
  have full: "unat distance < di_full (dict_fill d)" "di_pos d < length (di_buf d)"
    using Suc.prems by (auto simp: dict_holds_def dict_ok_def)
  have get: "dict_get d distance = Some ?b" using dict_get_holds [OF Suc.prems(1) full(1)] by simp
  have "dict_fill ?d = dict_append (dict_fill d) [?b]"
    using full(2) by (subst dict_append_one) (auto simp: dict_fill_def)
  then have "dict_holds (dict_fill ?d) (h @ [?b])"
    using dict_append_holds [OF Suc.prems(1), of "[?b]"] Suc.prems(4) by simp
  from Suc.IH [OF this] Suc.prems(2-4) get full(2) show ?case by (auto simp: dict_frame_def)
qed (simp add: dict_frame_def)

text \<open>The bytes of the match in the buffer.\<close>

lemma dict_source:
  assumes "dict_holds d h" "n < di_full d"
  shows "drop (length h - 1 - n) h = drop (di_full d - 1 - n) (dict_bytes d)"
proof -
  have "dict_bytes d = drop (length h - di_full d) h" "di_full d \<le> length h" using assms(1) by (auto simp: dict_holds_def)
  then show ?thesis using assms(2) by simp
qed

lemma dict_holds_length: "dict_holds d h \<Longrightarrow> di_full d \<le> length h"
  by (simp add: dict_holds_def)

lemma dict_repeat_near:
  assumes "dict_holds d h" "unat distance < di_pos d" "left \<le> unat distance" "di_pos d + left \<le> di_limit d"
  shows "mem_copy (di_buf d) (di_pos d) (di_pos d - unat distance - 1) left
      = Some (buf_write (di_pos d) (take left (drop (length h - 1 - unat distance) h)) (di_buf d))"
proof -
  let ?n = "unat distance"
  have ok: "length (di_buf d) = di_size d" "di_pos d \<le> di_size d" "di_limit d \<le> di_size d" "di_full d = di_pos d \<or> di_full d = di_size d"
    using assms(1) by (auto simp: dict_holds_def dict_ok_def)
  have "drop (length h - 1 - ?n) h = drop (di_full d - 1 - ?n) (dict_bytes d)"
    using dict_source [OF assms(1)] assms(2) ok by auto
  also have "\<dots> = drop (di_pos d - 1 - ?n) (take (di_pos d) (di_buf d))"
    using ok assms(2) by (auto simp: dict_bytes_def)
  finally have "take left (drop (length h - 1 - ?n) h) = take left (drop (di_pos d - ?n - 1) (di_buf d))"
    using assms(2,3) by (simp add: drop_take min_def diff_commute)
  moreover have "di_pos d - ?n - 1 + left \<le> di_pos d" "di_pos d + left \<le> length (di_buf d)" using assms(2-4) ok by linarith+
  ultimately show ?thesis using ok(1) by (simp add: mem_copy_def mem_move_def del: diff_Suc_1)
qed

lemma dict_wrap_index:
  fixes distance :: u32
  assumes "dict_ok d" "di_pos d \<le> unat distance" "unat distance < di_size d" "distance \<noteq> 0xFFFFFFFF"
  shows "(di_pos d + di_size d + 2 ^ 32 - unat distance - 1) mod 2 ^ 32 = di_pos d + di_size d - unat distance - 1"
    "(di_size d + 2 ^ 32 - (di_pos d + di_size d - unat distance - 1)) mod 2 ^ 32 = unat distance + 1 - di_pos d"
proof -
  have size: "di_size d \<le> 2 ^ 32" using assms(1) by (simp add: dict_ok_def)
  have "unat distance \<noteq> 0xFFFFFFFF" using assms(4) by (simp add: word_unat_eq_iff)
  moreover have "unat distance < 2 ^ 32" using unat_u32_less by simp
  ultimately have n: "unat distance + 1 < 2 ^ 32" by simp
  have "di_pos d + di_size d + 2 ^ 32 - unat distance - 1 = (di_pos d + di_size d - unat distance - 1) + 2 ^ 32" using assms(3) by simp
  then show "(di_pos d + di_size d + 2 ^ 32 - unat distance - 1) mod 2 ^ 32 = di_pos d + di_size d - unat distance - 1"
    using assms(2,3) size by (simp only: mod_add_self2) simp
  have "di_size d + 2 ^ 32 - (di_pos d + di_size d - unat distance - 1) = (unat distance + 1 - di_pos d) + 2 ^ 32" using assms(2,3) by simp
  then show "(di_size d + 2 ^ 32 - (di_pos d + di_size d - unat distance - 1)) mod 2 ^ 32 = unat distance + 1 - di_pos d"
    using n by (simp only: mod_add_self2) simp
qed

lemma dict_repeat_far:
  assumes "dict_holds d h" "di_pos d \<le> unat distance" "unat distance < di_full d" "distance \<noteq> 0xFFFFFFFF"
    and "left \<le> unat distance" "di_pos d + left \<le> di_limit d"
  shows "dict_repeat_wrap d distance left
      = Some (d\<lparr>di_buf := buf_write (di_pos d) (take left (drop (length h - 1 - unat distance) h)) (di_buf d), di_pos := di_pos d + left\<rparr>)"
proof -
  let ?n = "unat distance" and ?p = "di_pos d" and ?s = "di_size d" and ?b = "di_buf d"
  define cp where "cp = ?p + ?s - ?n - 1"
  define cs where "cs = ?n + 1 - ?p"
  have ok: "length ?b = ?s" "di_limit d \<le> ?s" "di_full d = ?s" "dict_ok d"
    using assms(1-3) by (auto simp: dict_holds_def dict_ok_def)
  have idx: "(?p + ?s + 2 ^ 32 - ?n - 1) mod 2 ^ 32 = cp" "(?s + 2 ^ 32 - cp) mod 2 ^ 32 = cs"
    using dict_wrap_index [OF ok(4) assms(2) _ assms(4)] assms(2,3) ok(3) by (simp_all add: cp_def cs_def)
  have "drop (length h - 1 - ?n) h = drop (?s - 1 - ?n) (drop ?p ?b @ take ?p ?b)"
    using dict_source [OF assms(1,3)] ok(3) by (simp add: dict_bytes_def)
  also have "\<dots> = drop cp ?b @ take ?p ?b" using assms(2,3) ok by (simp add: cp_def add.commute)
  finally have src: "drop (length h - 1 - ?n) h = drop cp ?b @ take ?p ?b" .
  have le: "cp + cs = ?s" "?p + left \<le> ?s" "left < cs + ?p" using assms(2,3,5,6) ok by (auto simp: cp_def cs_def)
  have code: "dict_repeat_wrap d distance left =
      (if cs < left
       then (case mem_move ?b ?p cp cs of None \<Rightarrow> None
             | Some buf \<Rightarrow> map_option (\<lambda>buf. d\<lparr>di_buf := buf, di_pos := ?p + cs + (left - cs)\<rparr>) (mem_copy buf (?p + cs) 0 (left - cs)))
       else map_option (\<lambda>buf. d\<lparr>di_buf := buf, di_pos := ?p + left\<rparr>) (mem_move ?b ?p cp left))"
    unfolding dict_repeat_wrap_def Let_def idx ..
  show ?thesis
  proof (cases "cs < left")
    case True
    let ?b1 = "buf_write ?p (take cs (drop cp ?b)) ?b"
    have b1: "?b1 = take ?p ?b @ drop cp ?b @ drop (?p + cs) ?b" "length (drop cp ?b) = cs"
      using le ok(1) True by (simp_all add: buf_write_in flip: le(1))
    have first: "take (left - cs) ?b1 = take (left - cs) (take ?p ?b)" using b1 le ok(1) by (simp add: min_def)
    have move: "mem_move ?b ?p cp cs = Some ?b1" using le ok(1) True by (simp add: mem_move_def)
    have "left - cs \<le> ?p + cs" "?p + cs + (left - cs) \<le> ?s" "left - cs \<le> ?s" using True le by linarith+
    then have "mem_copy ?b1 (?p + cs) 0 (left - cs) = Some (buf_write (?p + cs) (take (left - cs) (take ?p ?b)) ?b1)"
      by (simp only: mem_copy_def mem_move_def length_buf_write ok(1) drop_0 first) simp
    then have "dict_repeat_wrap d distance left = Some (d\<lparr>di_buf := buf_write (?p + cs) (take (left - cs) (take ?p ?b)) ?b1, di_pos := ?p + left\<rparr>)"
      using True by (simp only: code move if_True option.case option.map) simp
    moreover have "buf_write (?p + cs) (take (left - cs) (take ?p ?b)) ?b1 = buf_write ?p (take left (drop cp ?b @ take ?p ?b)) ?b"
      using True le ok(1) b1 by (simp add: buf_write_in add.commute [of left])
    ultimately show ?thesis using src by simp
  next
    case False
    then have "mem_move ?b ?p cp left = Some (buf_write ?p (take left (drop cp ?b)) ?b)" using le ok(1) by (simp add: mem_move_def)
    moreover have "take left (drop (length h - 1 - ?n) h) = take left (drop cp ?b)" using False le ok(1) by (simp only: src) simp
    ultimately show ?thesis using False by (simp only: code if_False option.map)
  qed
qed


text \<open>All three cases of \<open>dict_repeat\<close>, and the flags it returns.\<close>

lemma dict_repeat_holds:
  fixes len :: u32
  assumes "dict_holds d h" "unat distance < di_full d" "distance \<noteq> 0xFFFFFFFF"
  defines "left \<equiv> min (di_limit d - di_pos d) (unat len)"
  shows "\<exists>d'. dict_repeat d distance len = Some (unat len \<noteq> left, d', of_nat (unat len - left))
    \<and> dict_holds d' (lz_copy h (unat distance) left) \<and> di_pos d' = di_pos d + left \<and> dict_frame d d'"
proof -
  let ?n = "unat distance"
  have ok: "di_pos d \<le> di_limit d" "di_full d \<le> di_size d" "dict_fill d = d" "di_full d \<le> length h"
    using assms(1) by (auto simp: dict_holds_def dict_ok_def dict_fill_def)
  have "left \<le> unat len" "di_pos d + left \<le> di_limit d" using ok(1) by (auto simp: left_def)
  moreover from this have "len - of_nat left = of_nat (unat len - left)" by (simp add: of_nat_diff)
  moreover have "of_nat (unat len - left) = (0 :: u32) \<longleftrightarrow> unat len - left = 0"
    using unat_u32_less [of len] by (simp add: word_unat_eq_iff unat_of_nat take_bit_nat_eq_self)
  ultimately have len: "len - of_nat left = of_nat (unat len - left)" "(of_nat (unat len - left) \<noteq> (0 :: u32)) = (unat len \<noteq> left)" "di_pos d + left \<le> di_limit d"
    by auto
  have code: "dict_repeat d distance len
      = map_option (\<lambda>d'. (unat len \<noteq> left, dict_fill d', of_nat (unat len - left)))
          (if ?n < left then dict_repeat_loop d distance left
           else if ?n < di_pos d
           then map_option (\<lambda>buf. d\<lparr>di_buf := buf, di_pos := di_pos d + left\<rparr>) (mem_copy (di_buf d) (di_pos d) (di_pos d - ?n - 1) left)
           else dict_repeat_wrap d distance left)"
    unfolding dict_repeat_def Let_def left_def [symmetric] len(1,2) ..
  show ?thesis
  proof (cases "?n < left")
    case True
    then show ?thesis
      using dict_repeat_loop_holds [of d h distance left] assms(1,2) ok len
      by (auto simp: code dict_fill_frame)
  next
    case False
    let ?d = "dict_append d (take left (drop (length h - 1 - ?n) h))"
    have n: "length (take left (drop (length h - 1 - ?n) h)) = left" using False ok(4) assms(2) by simp
    have "dict_repeat d distance len = Some (unat len \<noteq> left, ?d, of_nat (unat len - left))"
      using False n assms(1-3) len dict_repeat_near [of d h distance left] dict_repeat_far [of d h distance left]
      by (auto simp: code dict_append_def)
    moreover have "dict_holds ?d (lz_copy h ?n left)"
      using dict_append_holds [OF assms(1)] n len(3) lz_copy_block [of left ?n h] False assms(2) ok(4) by simp
    ultimately show ?thesis using n by (auto simp: dict_frame_def)
  qed
qed

section \<open>The property\<close>

text \<open>C9. \<open>dict_repeat\<close> refines the copying of a match byte by byte (\<open>lz_copy\<close> on the history). While the dictionary holds the
  end of a history and the distance is valid, the call has no undefined behaviour (no access leaves the buffer and no
  \<open>memcpy\<close> gets areas that overlap); afterwards the dictionary holds the end of the longer history, the position
  has moved by the bytes that fit below the limit, \<open>len\<close> is what is left, and the result tells whether it is not zero.
  The distance \<open>UINT32_MAX\<close>, which marks the end of the payload in the format, is excluded: with it the size of the
  first block would be cut to 32 bits.\<close>

theorem dict_repeat_refines:
  fixes len :: u32
  assumes "dict_holds d h" "dict_is_distance_valid d distance" "distance \<noteq> 0xFFFFFFFF"
  shows "\<exists>d'. dict_repeat d distance len
      = Some (di_limit d - di_pos d < unat len, d', of_nat (unat len - min (di_limit d - di_pos d) (unat len)))
    \<and> dict_holds d' (lz_copy h (unat distance) (min (di_limit d - di_pos d) (unat len)))
    \<and> di_pos d' = di_pos d + min (di_limit d - di_pos d) (unat len) \<and> dict_frame d d'"
  using dict_repeat_holds [OF assms(1) _ assms(3), of len] assms(2)
  by (auto simp: dict_is_distance_valid_def min_def split: if_splits)

text \<open>A dictionary of four bytes that has wrapped around: the match \<open>2, 3\<close> begins at its end.\<close>

definition wrapped_dict :: lzma_dict where
  "wrapped_dict = \<lparr>di_buf = [3, 0, 1, 2], di_pos = 1, di_full = 4, di_limit = 4, di_size = 4, di_need_reset = False\<rparr>"

lemma wrapped_dict_holds: "dict_holds wrapped_dict [0, 1, 2, 3]"
  by (simp add: wrapped_dict_def dict_holds_def dict_ok_def dict_bytes_def)

theorem dict_repeat_refines_witness:
  "dict_holds wrapped_dict [0, 1, 2, 3] \<and> dict_is_distance_valid wrapped_dict 1
   \<and> (\<exists>d'. dict_repeat wrapped_dict 1 5 = Some (True, d', 2) \<and> dict_holds d' [0, 1, 2, 3, 2, 3, 2] \<and> di_pos d' = 4)"
proof -
  have valid: "dict_is_distance_valid wrapped_dict 1" by (simp add: dict_is_distance_valid_def wrapped_dict_def)
  have copy: "lz_copy [0, 1, 2, 3] (Suc 0) 3 = [0, 1, 2, 3, 2, 3, 2 :: u8]" by (simp add: numeral_3_eq_3)
  from dict_repeat_refines [OF wrapped_dict_holds valid, of 5] show ?thesis
    using wrapped_dict_holds valid by (auto simp: copy) (auto simp: wrapped_dict_def copy)
qed

end
