(* ===== verification/Lz_Decoder.thy ===== *)
theory Lz_Decoder
  imports Lz_Dict
begin

text \<open>
  The LZ decoder, \<open>lz/lz_decoder.c\<close>: it owns the dictionary, calls an LZ-based decoder (LZMA or LZMA2) to fill it, and copies
  the new bytes to the output. \<open>'c\<close> is the type of that decoder, \<open>'n\<close> that of the next filter of the chain.

  The locale \<open>lz_based\<close> is the contract of an LZ-based decoder. For every such decoder the loop of \<open>decode_buffer\<close> is proved
  to end, and to stay inside of the dictionary and the output.
\<close>

section \<open>The code\<close>

type_synonym 'c lz_code_function = "'c \<Rightarrow> lzma_dict \<Rightarrow> u8 list \<Rightarrow> nat \<Rightarrow> nat \<Rightarrow> (lzma_ret \<times> 'c \<times> lzma_dict \<times> nat) option"

record lzma_lz_options =
  lo_dict_size :: nat
  lo_preset_dict :: "u8 list option"
  lo_preset_dict_size :: nat

text \<open>Of the function pointers only \<open>end\<close> is left out, which frees memory.\<close>

record 'c lzma_lz_decoder =
  lz_coder :: "'c option"
  lz_code :: "'c lz_code_function option"
  lz_reset :: "('c \<Rightarrow> lzma_options_lzma \<Rightarrow> 'c) option"
  lz_set_uncompressed :: "('c \<Rightarrow> u64 \<Rightarrow> 'c) option"

definition LZMA_LZ_DECODER_INIT :: "'c lzma_lz_decoder" where
  "LZMA_LZ_DECODER_INIT = \<lparr>lz_coder = None, lz_code = None, lz_reset = None, lz_set_uncompressed = None\<rparr>"

definition LZMA_BUFFER_SIZE :: nat where "LZMA_BUFFER_SIZE = 4096"

record ('c, 'n) lz_decoder =
  lzd_dict :: lzma_dict
  lzd_lz :: "'c lzma_lz_decoder"
  lzd_next :: "'n lzma_next_coder"
  lzd_next_finished :: bool
  lzd_this_finished :: bool
  lzd_temp_pos :: nat
  lzd_temp_size :: nat
  lzd_temp_buffer :: "u8 list"

definition lz_dict_reset :: "lzma_dict \<Rightarrow> lzma_dict" where
  "lz_dict_reset dict =
     dict\<lparr>di_pos := 0, di_full := 0, di_buf := (di_buf dict)[di_size dict - 1 := 0], di_need_reset := False\<rparr>"

definition lz_decoder_reset :: "('c, 'n) lz_decoder \<Rightarrow> ('c, 'n) lz_decoder" where
  "lz_decoder_reset coder = coder\<lparr>lzd_dict := lz_dict_reset (lzd_dict coder)\<rparr>"

text \<open>The beginning of the loop body of \<open>decode_buffer\<close>: the dictionary wraps around and gets a new limit.\<close>

definition lz_dict_window :: "lzma_dict \<Rightarrow> nat \<Rightarrow> lzma_dict" where
  "lz_dict_window dict out_avail =
     (let dict = (if di_pos dict = di_size dict then dict\<lparr>di_pos := 0\<rparr> else dict)
      in dict\<lparr>di_limit := di_pos dict + min out_avail (di_size dict - di_pos dict)\<rparr>)"

partial_function (option) lz_decode_buffer ::
  "('c, 'n) lz_decoder \<Rightarrow> u8 list \<Rightarrow> nat \<Rightarrow> nat \<Rightarrow> u8 list \<Rightarrow> nat \<Rightarrow> nat \<Rightarrow> ('c, 'n) lz_decoder code_result option"
where
  "lz_decode_buffer coder in_buf in_pos in_size out out_pos out_size =
     (let dict = lz_dict_window (lzd_dict coder) (out_size - out_pos);
          dict_start = di_pos dict;
          lz = lzd_lz coder
      in case the (lz_code lz) (the (lz_coder lz)) dict in_buf in_pos in_size of
           None \<Rightarrow> None
         | Some (ret, c, dict, in_pos) \<Rightarrow>
             (let copy_size = di_pos dict - dict_start;
                  out = buf_write out_pos (take copy_size (drop dict_start (di_buf dict))) out;
                  out_pos = out_pos + copy_size;
                  coder = coder\<lparr>lzd_dict := dict, lzd_lz := lz\<lparr>lz_coder := Some c\<rparr>\<rparr>
              in if di_need_reset dict
                 then
                   (let coder = lz_decoder_reset coder
                    in if ret \<noteq> LZMA_OK \<or> out_pos = out_size then Some (ret, coder, in_pos, out, out_pos)
                       else lz_decode_buffer coder in_buf in_pos in_size out out_pos out_size)
                 else if ret \<noteq> LZMA_OK \<or> out_pos = out_size \<or> di_pos dict < di_size dict
                 then Some (ret, coder, in_pos, out, out_pos)
                 else lz_decode_buffer coder in_buf in_pos in_size out out_pos out_size))"

text \<open>Filling the temporary buffer from the next coder: \<open>Inl\<close> is a return.\<close>

definition lz_fill_temp ::
  "('c, 'n) lz_decoder \<Rightarrow> u8 list \<Rightarrow> nat \<Rightarrow> nat \<Rightarrow> lzma_action \<Rightarrow> ((lzma_ret \<times> ('c, 'n) lz_decoder \<times> nat) + (('c, 'n) lz_decoder \<times> nat)) option"
where
  "lz_fill_temp coder in_buf in_pos in_size action =
     (if \<not> lzd_next_finished coder \<and> lzd_temp_pos coder = lzd_temp_size coder
      then
        (case call_next (lzd_next coder) in_buf in_pos in_size (lzd_temp_buffer coder) 0 LZMA_BUFFER_SIZE action of
           None \<Rightarrow> None
         | Some (ret, nxt, in_pos, buffer, temp_size) \<Rightarrow>
             (let coder = coder\<lparr>lzd_next := nxt, lzd_temp_pos := 0, lzd_temp_size := temp_size, lzd_temp_buffer := buffer\<rparr>
              in if ret = LZMA_STREAM_END then Some (Inr (coder\<lparr>lzd_next_finished := True\<rparr>, in_pos))
                 else if ret \<noteq> LZMA_OK \<or> temp_size = 0 then Some (Inl (ret, coder, in_pos))
                 else Some (Inr (coder, in_pos))))
      else Some (Inr (coder, in_pos)))"

partial_function (option) lz_decode_chain ::
  "('c, 'n) lz_decoder \<Rightarrow> u8 list \<Rightarrow> nat \<Rightarrow> nat \<Rightarrow> u8 list \<Rightarrow> nat \<Rightarrow> nat \<Rightarrow> lzma_action \<Rightarrow> ('c, 'n) lz_decoder code_result option"
where
  "lz_decode_chain coder in_buf in_pos in_size out out_pos out_size action =
     (if out_pos < out_size
      then
        (case lz_fill_temp coder in_buf in_pos in_size action of
           None \<Rightarrow> None
         | Some (Inl (ret, coder, in_pos)) \<Rightarrow> Some (ret, coder, in_pos, out, out_pos)
         | Some (Inr (coder, in_pos)) \<Rightarrow>
             if lzd_this_finished coder
             then Some (if lzd_temp_size coder \<noteq> 0 then LZMA_DATA_ERROR else if lzd_next_finished coder then LZMA_STREAM_END else LZMA_OK,
                        coder, in_pos, out, out_pos)
             else
               (case lz_decode_buffer coder (lzd_temp_buffer coder) (lzd_temp_pos coder) (lzd_temp_size coder) out out_pos out_size of
                  None \<Rightarrow> None
                | Some (ret, coder, temp_pos, out, out_pos) \<Rightarrow>
                    (let coder = coder\<lparr>lzd_temp_pos := temp_pos\<rparr>
                     in if ret = LZMA_STREAM_END
                        then lz_decode_chain (coder\<lparr>lzd_this_finished := True\<rparr>) in_buf in_pos in_size out out_pos out_size action
                        else if ret \<noteq> LZMA_OK then Some (ret, coder, in_pos, out, out_pos)
                        else if lzd_next_finished coder \<and> out_pos < out_size then Some (LZMA_DATA_ERROR, coder, in_pos, out, out_pos)
                        else lz_decode_chain coder in_buf in_pos in_size out out_pos out_size action)))
      else Some (LZMA_OK, coder, in_pos, out, out_pos))"

definition lz_decode :: "('c, 'n) lz_decoder lzma_code_function" where
  "lz_decode coder in_buf in_pos in_size out out_pos out_size action =
     (if nc_code (lzd_next coder) = None then lz_decode_buffer coder in_buf in_pos in_size out out_pos out_size
      else lz_decode_chain coder in_buf in_pos in_size out out_pos out_size action)"

text \<open>\<open>mem\<close> is the content of the allocated structure, \<open>alloc\<close> that of a dictionary of a given size; \<open>lz_init\<close> and \<open>inits\<close>
  are the initialisation functions of the LZ-based decoder and of the next filter. A NULL dictionary is the empty list.\<close>

definition lz_dict_alloc :: "(nat \<Rightarrow> u8 list option) \<Rightarrow> lzma_dict \<Rightarrow> nat \<Rightarrow> bool \<times> lzma_dict" where
  "lz_dict_alloc alloc dict dict_size =
     (if di_size dict \<noteq> dict_size
      then
        (case alloc dict_size of
           None \<Rightarrow> (False, dict\<lparr>di_buf := []\<rparr>)
         | Some buf \<Rightarrow> (True, dict\<lparr>di_buf := buf, di_size := dict_size\<rparr>))
      else (True, dict))"

definition lz_preset_dict :: "lzma_lz_options \<Rightarrow> nat \<Rightarrow> lzma_dict \<Rightarrow> lzma_dict" where
  "lz_preset_dict lz_options dict_size dict =
     (case lo_preset_dict lz_options of
        None \<Rightarrow> dict
      | Some preset \<Rightarrow>
          if lo_preset_dict_size lz_options > 0
          then
            (let copy_size = min (lo_preset_dict_size lz_options) dict_size;
                 offset = lo_preset_dict_size lz_options - copy_size
             in dict\<lparr>di_buf := buf_write 0 (take copy_size (drop offset preset)) (di_buf dict), di_pos := copy_size, di_full := copy_size\<rparr>)
          else dict)"

text \<open>\<open>lzma_lz_decoder_init\<close> after the allocation of the structure.\<close>

definition lz_decoder_setup ::
  "('c lzma_lz_decoder \<Rightarrow> filter_options option \<Rightarrow> lzma_ret \<times> 'c lzma_lz_decoder \<times> lzma_lz_options) \<Rightarrow> (nat \<Rightarrow> u8 list option)
     \<Rightarrow> 'n filter_inits \<Rightarrow> ('c, 'n) lz_decoder \<Rightarrow> lzma_filter_info list \<Rightarrow> lzma_ret \<times> ('c, 'n) lz_decoder"
where
  "lz_decoder_setup lz_init alloc inits coder filters =
     (let (ret, lz, lz_options) = lz_init (lzd_lz coder) (fi_options (filters ! 0));
          coder = coder\<lparr>lzd_lz := lz\<rparr>
      in if ret \<noteq> LZMA_OK then (ret, coder)
         else
           (let dict_size = max 4096 (lo_dict_size lz_options)
            in if dict_size > 2 ^ 64 - 1 - 15 then (LZMA_MEM_ERROR, coder)
               else
                 (let dict_size = (dict_size + 15) div 16 * 16;
                      (ok, dict) = lz_dict_alloc alloc (lzd_dict coder) dict_size
                  in if \<not> ok then (LZMA_MEM_ERROR, coder\<lparr>lzd_dict := dict\<rparr>)
                     else
                       (let coder = lz_decoder_reset (coder\<lparr>lzd_dict := dict\<rparr>);
                            coder = coder\<lparr>lzd_dict := lz_preset_dict lz_options dict_size (lzd_dict coder),
                                          lzd_next_finished := False, lzd_this_finished := False, lzd_temp_pos := 0, lzd_temp_size := 0\<rparr>;
                            (ret, inner) = lzma_next_filter_init inits (lzd_next coder) (tl filters)
                        in (ret, coder\<lparr>lzd_next := inner\<rparr>)))))"

definition lzma_lz_decoder_init ::
  "('c lzma_lz_decoder \<Rightarrow> filter_options option \<Rightarrow> lzma_ret \<times> 'c lzma_lz_decoder \<times> lzma_lz_options) \<Rightarrow> (nat \<Rightarrow> u8 list option)
     \<Rightarrow> 'n filter_inits \<Rightarrow> ('c, 'n) lz_decoder option \<Rightarrow> ('c, 'n) lz_decoder lzma_next_coder \<Rightarrow> lzma_filter_info list
     \<Rightarrow> lzma_ret \<times> ('c, 'n) lz_decoder lzma_next_coder"
where
  "lzma_lz_decoder_init lz_init alloc inits mem nxt filters =
     (case (case nc_coder nxt of
              None \<Rightarrow>
                map_option (\<lambda>c. nxt\<lparr>nc_code := Some lz_decode,
                  nc_coder := Some (c\<lparr>lzd_dict := (lzd_dict c)\<lparr>di_buf := [], di_size := 0\<rparr>, lzd_lz := LZMA_LZ_DECODER_INIT,
                                      lzd_next := LZMA_NEXT_CODER_INIT\<rparr>)\<rparr>) mem
            | Some c \<Rightarrow> Some nxt) of
        None \<Rightarrow> (LZMA_MEM_ERROR, nxt)
      | Some nxt \<Rightarrow>
          (let (ret, coder) = lz_decoder_setup lz_init alloc inits (the (nc_coder nxt)) filters
           in (ret, nxt\<lparr>nc_coder := Some coder\<rparr>)))"

definition lzma_lz_decoder_uncompressed :: "('c, 'n) lz_decoder \<Rightarrow> u64 \<Rightarrow> ('c, 'n) lz_decoder" where
  "lzma_lz_decoder_uncompressed coder uncompressed_size =
     (let lz = lzd_lz coder
      in coder\<lparr>lzd_lz := lz\<lparr>lz_coder := Some (the (lz_set_uncompressed lz) (the (lz_coder lz)) uncompressed_size)\<rparr>\<rparr>)"

section \<open>The contract\<close>

text \<open>The dictionary whatever its limit, which \<open>decode_buffer\<close> sets.\<close>

definition dict_base :: "lzma_dict \<Rightarrow> bool" where
  "dict_base d \<longleftrightarrow> dict_ok (d\<lparr>di_limit := di_size d\<rparr>)"

text \<open>One call of an LZ-based decoder: it keeps the dictionary, asks for a reset only when it has read something, and after a
  return code in \<open>resumes\<close> is good for the bytes the dictionary will hold then; it returns \<open>LZMA_OK\<close> only to have the dictionary
  reset, for more input, or for more room.\<close>

definition lz_result_ok :: "(nat \<Rightarrow> 'c \<Rightarrow> bool) \<Rightarrow> lzma_ret set \<Rightarrow> lzma_dict \<Rightarrow> nat \<Rightarrow> nat \<Rightarrow> lzma_ret \<Rightarrow> 'c \<Rightarrow> lzma_dict \<Rightarrow> nat \<Rightarrow> bool" where
  "lz_result_ok good resumes d in_pos in_size ret c' d' in_pos' \<longleftrightarrow>
     in_pos \<le> in_pos' \<and> in_pos' \<le> in_size \<and> dict_ok d' \<and> di_limit d' = di_limit d \<and> di_size d' = di_size d \<and> di_pos d \<le> di_pos d'
     \<and> (di_need_reset d' \<longrightarrow> in_pos < in_pos') \<and> ret \<in> {LZMA_OK, LZMA_STREAM_END, LZMA_DATA_ERROR}
     \<and> (ret \<in> resumes \<longrightarrow> good (if di_need_reset d' then 0 else di_full d') c')
     \<and> (ret = LZMA_OK \<longrightarrow> di_need_reset d' \<or> in_pos' = in_size \<or> di_pos d' = di_limit d')"

locale lz_based =
  fixes code :: "'c lz_code_function" and good :: "nat \<Rightarrow> 'c \<Rightarrow> bool" and resumes :: "lzma_ret set"
  assumes ok_resumes: "LZMA_OK \<in> resumes"
    and code_ok: "dict_ok d \<Longrightarrow> \<not> di_need_reset d \<Longrightarrow> good (di_full d) c \<Longrightarrow> in_pos \<le> in_size \<Longrightarrow> in_size \<le> length in_buf \<Longrightarrow>
    \<exists>ret c' d' in_pos'. code c d in_buf in_pos in_size = Some (ret, c', d', in_pos') \<and> lz_result_ok good resumes d in_pos in_size ret c' d' in_pos'"

text \<open>A decoder at the end of its chain between two calls.\<close>

definition lz_ok :: "'c lz_code_function \<Rightarrow> (nat \<Rightarrow> 'c \<Rightarrow> bool) \<Rightarrow> ('c, 'n) lz_decoder \<Rightarrow> bool" where
  "lz_ok code good coder \<longleftrightarrow>
     dict_base (lzd_dict coder) \<and> \<not> di_need_reset (lzd_dict coder) \<and> nc_code (lzd_next coder) = None \<and> lz_code (lzd_lz coder) = Some code
     \<and> (\<exists>c. lz_coder (lzd_lz coder) = Some c \<and> good (di_full (lzd_dict coder)) c)"

lemma dict_ok_base: "dict_ok d \<Longrightarrow> dict_base d"
  by (auto simp: dict_base_def dict_ok_def)

lemma dict_window_ok:
  assumes "dict_base d"
  shows "dict_ok (lz_dict_window d n)" "di_full (lz_dict_window d n) = di_full d" "di_size (lz_dict_window d n) = di_size d"
    "di_need_reset (lz_dict_window d n) = di_need_reset d" "di_pos (lz_dict_window d n) < di_size d"
    "di_limit (lz_dict_window d n) - di_pos (lz_dict_window d n) = min n (di_size d - di_pos (lz_dict_window d n))"
  using assms by (auto simp: dict_base_def dict_ok_def lz_dict_window_def Let_def)

lemma dict_reset_ok:
  assumes "dict_base d"
  shows "dict_base (lz_dict_reset d)" "di_full (lz_dict_reset d) = 0" "\<not> di_need_reset (lz_dict_reset d)"
  using assms by (auto simp: dict_base_def dict_ok_def lz_dict_reset_def)

definition lz_exit_ok ::
  "'c lz_code_function \<Rightarrow> (nat \<Rightarrow> 'c \<Rightarrow> bool) \<Rightarrow> lzma_ret set \<Rightarrow> nat \<Rightarrow> nat \<Rightarrow> u8 list \<Rightarrow> nat \<Rightarrow> nat \<Rightarrow> ('c, 'n) lz_decoder code_result \<Rightarrow> bool"
where
  "lz_exit_ok code good resumes in_pos in_size out out_pos out_size res =
     (case res of (ret, coder', in_pos', out', out_pos') \<Rightarrow>
        in_pos \<le> in_pos' \<and> in_pos' \<le> in_size \<and> out_pos \<le> out_pos' \<and> out_pos' \<le> out_size \<and> window_kept out out_pos out_size out'
        \<and> ret \<in> {LZMA_OK, LZMA_STREAM_END, LZMA_DATA_ERROR}
        \<and> (ret \<in> resumes \<longrightarrow> lz_ok code good coder') \<and> (ret = LZMA_OK \<longrightarrow> in_pos' = in_size \<or> out_pos' = out_size))"

lemma lz_exit_later:
  assumes "lz_exit_ok code good resumes in_pos' in_size out' out_pos' out_size res" "in_pos \<le> in_pos'" "out_pos \<le> out_pos'" "window_kept out out_pos out_size out'"
  shows "lz_exit_ok code good resumes in_pos in_size out out_pos out_size res"
  using assms by (cases res) (auto simp: lz_exit_ok_def intro: window_kept_trans)

text \<open>The call a turn of the loop makes: from the state of \<open>coder\<close> to that of \<open>coder'\<close>, with \<open>n\<close> new bytes.\<close>

definition lz_called ::
  "'c lz_code_function \<Rightarrow> (nat \<Rightarrow> 'c \<Rightarrow> bool) \<Rightarrow> u8 list \<Rightarrow> nat \<Rightarrow> ('c, 'n) lz_decoder \<Rightarrow> nat \<Rightarrow> ('c, 'n) lz_decoder \<Rightarrow> nat \<Rightarrow> nat \<Rightarrow> bool"
where
  "lz_called code good in_buf in_size coder in_pos coder' in_pos' n \<longleftrightarrow>
     (\<exists>c d ret c' d'. lz_coder (lzd_lz coder) = Some c \<and> dict_ok d \<and> \<not> di_need_reset d \<and> good (di_full d) c
        \<and> code c d in_buf in_pos in_size = Some (ret, c', d', in_pos') \<and> lz_coder (lzd_lz coder') = Some c' \<and> n = di_pos d' - di_pos d)"

context lz_based
begin

text \<open>One turn of the loop: it is the last one, or goes on with less input or less output.\<close>

lemma decode_buffer_turn:
  assumes "lz_ok code good coder" "in_pos \<le> in_size" "in_size \<le> length in_buf" "out_pos \<le> out_size" "out_size \<le> length out"
  obtains ret coder' in_pos' out' out_pos' where
      "lz_decode_buffer coder in_buf in_pos in_size out out_pos out_size = Some (ret, coder', in_pos', out', out_pos')"
      "lz_exit_ok code good resumes in_pos in_size out out_pos out_size (ret, coder', in_pos', out', out_pos')"
      "lz_called code good in_buf in_size coder in_pos coder' in_pos' (out_pos' - out_pos)"
  | coder' in_pos' out' out_pos' where
      "lz_decode_buffer coder in_buf in_pos in_size out out_pos out_size = lz_decode_buffer coder' in_buf in_pos' in_size out' out_pos' out_size"
      "lz_ok code good coder'" "in_pos \<le> in_pos'" "in_pos' \<le> in_size" "out_pos \<le> out_pos'" "out_pos' \<le> out_size" "window_kept out out_pos out_size out'"
      "in_pos < in_pos' \<or> out_pos < out_pos'" "lz_called code good in_buf in_size coder in_pos coder' in_pos' (out_pos' - out_pos)"
proof -
  let ?d = "lz_dict_window (lzd_dict coder) (out_size - out_pos)"
  obtain c where c: "lz_coder (lzd_lz coder) = Some c" "good (di_full (lzd_dict coder)) c" "lz_code (lzd_lz coder) = Some code"
    "dict_base (lzd_dict coder)" "\<not> di_need_reset (lzd_dict coder)" "nc_code (lzd_next coder) = None"
    using assms(1) by (auto simp: lz_ok_def)
  note w = dict_window_ok [OF c(4), of "out_size - out_pos"]
  obtain ret c' d' in_pos' where run: "code c ?d in_buf in_pos in_size = Some (ret, c', d', in_pos')"
    "lz_result_ok good resumes ?d in_pos in_size ret c' d' in_pos'"
    using code_ok [OF w(1), of c in_pos in_size in_buf] w(2,4) c(2,5) assms(2,3) by auto
  have r: "in_pos \<le> in_pos'" "in_pos' \<le> in_size" "dict_ok d'" "di_limit d' = di_limit ?d" "di_size d' = di_size (lzd_dict coder)"
    "di_pos ?d \<le> di_pos d'" "di_need_reset d' \<Longrightarrow> in_pos < in_pos'" "ret \<in> {LZMA_OK, LZMA_STREAM_END, LZMA_DATA_ERROR}"
    "ret \<in> resumes \<Longrightarrow> good (if di_need_reset d' then 0 else di_full d') c'"
    "ret = LZMA_OK \<Longrightarrow> di_need_reset d' \<or> in_pos' = in_size \<or> di_pos d' = di_limit ?d"
    using run(2) w(3) by (auto simp: lz_result_ok_def)
  define n where "n = di_pos d' - di_pos ?d"
  define out' where "out' = buf_write out_pos (take n (drop (di_pos ?d) (di_buf d'))) out"
  define coder' where "coder' = coder\<lparr>lzd_dict := d', lzd_lz := (lzd_lz coder)\<lparr>lz_coder := Some c'\<rparr>\<rparr>"
  have "di_pos d' \<le> di_limit ?d" using r(3,4) by (simp add: dict_ok_def)
  then have n: "n \<le> out_size - out_pos" using w(6) unfolding n_def by linarith
  have "length (take n (drop (di_pos ?d) (di_buf d'))) = n" using r(3,6) by (auto simp: n_def dict_ok_def)
  then have kept: "window_kept out out_pos out_size out'" unfolding out'_def using n assms(4,5) by (intro window_kept_write) auto
  have code: "lz_decode_buffer coder in_buf in_pos in_size out out_pos out_size =
      (if di_need_reset d'
       then if ret \<noteq> LZMA_OK \<or> out_pos + n = out_size then Some (ret, lz_decoder_reset coder', in_pos', out', out_pos + n)
            else lz_decode_buffer (lz_decoder_reset coder') in_buf in_pos' in_size out' (out_pos + n) out_size
       else if ret \<noteq> LZMA_OK \<or> out_pos + n = out_size \<or> di_pos d' < di_size d' then Some (ret, coder', in_pos', out', out_pos + n)
            else lz_decode_buffer coder' in_buf in_pos' in_size out' (out_pos + n) out_size)"
    using c run(1) by (subst lz_decode_buffer.simps) (simp add: Let_def n_def out'_def coder'_def)
  have ok: "ret \<in> resumes \<Longrightarrow> di_need_reset d' \<Longrightarrow> lz_ok code good (lz_decoder_reset coder')"
    "ret \<in> resumes \<Longrightarrow> \<not> di_need_reset d' \<Longrightarrow> lz_ok code good coder'"
    using r(3,9) c dict_reset_ok [OF dict_ok_base [OF r(3)]] dict_ok_base [OF r(3)] by (auto simp: lz_ok_def lz_decoder_reset_def coder'_def)
  have pos: "di_pos d' = di_size d' \<Longrightarrow> 0 < n" "di_pos d' \<le> di_size d'" using w(5) r(3,5) by (auto simp: n_def dict_ok_def)
  define coder'' where "coder'' = (if di_need_reset d' then lz_decoder_reset coder' else coder')"
  have ok': "ret \<in> resumes \<Longrightarrow> lz_ok code good coder''" using ok by (simp add: coder''_def)
  have full: "out_pos + n = out_size" if "di_pos d' = di_limit ?d" "di_pos d' < di_size d'"
    using that w(6) r(5,6) assms(4) by (simp add: n_def min_def split: if_splits)
  have called: "lz_called code good in_buf in_size coder in_pos coder'' in_pos' (out_pos + n - out_pos)"
    unfolding lz_called_def using w(1,2,4) c run(1)
    by (intro exI [of _ c] exI [of _ ?d] exI [of _ ret] exI [of _ c'] exI [of _ d'])
      (simp add: coder''_def coder'_def lz_decoder_reset_def n_def)
  show thesis
  proof (cases "ret = LZMA_OK \<and> out_pos + n \<noteq> out_size \<and> (di_need_reset d' \<or> di_pos d' = di_size d')")
    case True
    then have "lz_decode_buffer coder in_buf in_pos in_size out out_pos out_size = lz_decode_buffer coder'' in_buf in_pos' in_size out' (out_pos + n) out_size"
      unfolding code coder''_def by auto
    moreover have "in_pos < in_pos' \<or> out_pos < out_pos + n" using True r(7) pos(1) by auto
    moreover have "out_pos \<le> out_pos + n" "out_pos + n \<le> out_size" using n assms(4) by linarith+
    ultimately show thesis using that(2) ok' ok_resumes True r(1,2) kept called by blast
  next
    case False
    then have "lz_decode_buffer coder in_buf in_pos in_size out out_pos out_size = Some (ret, coder'', in_pos', out', out_pos + n)"
      unfolding code coder''_def using pos(2) by auto
    moreover have "lz_exit_ok code good resumes in_pos in_size out out_pos out_size (ret, coder'', in_pos', out', out_pos + n)"
      using ok' r(1,2,8,10) n kept full False pos(2) assms(4) by (auto simp: lz_exit_ok_def)
    ultimately show thesis using that(1) called by blast
  qed
qed

lemma decode_buffer_ok:
  assumes "lz_ok code good coder" "in_pos \<le> in_size" "in_size \<le> length in_buf" "out_pos \<le> out_size" "out_size \<le> length out"
  shows "\<exists>res. lz_decode_buffer coder in_buf in_pos in_size out out_pos out_size = Some res
    \<and> lz_exit_ok code good resumes in_pos in_size out out_pos out_size res"
  using assms(1,2,4,5)
proof (induction "(in_size - in_pos) + (out_size - out_pos)" arbitrary: coder in_pos out out_pos rule: less_induct)
  case less
  show ?case
  proof (rule decode_buffer_turn [OF less.prems(1,2) assms(3) less.prems(3,4)])
    fix coder' in_pos' out' out_pos'
    assume step: "lz_decode_buffer coder in_buf in_pos in_size out out_pos out_size = lz_decode_buffer coder' in_buf in_pos' in_size out' out_pos' out_size"
      "lz_ok code good coder'" "in_pos \<le> in_pos'" "in_pos' \<le> in_size" "out_pos \<le> out_pos'" "out_pos' \<le> out_size" "window_kept out out_pos out_size out'"
      "in_pos < in_pos' \<or> out_pos < out_pos'" "lz_called code good in_buf in_size coder in_pos coder' in_pos' (out_pos' - out_pos)"
    then have "length out' = length out" "(in_size - in_pos') + (out_size - out_pos') < (in_size - in_pos) + (out_size - out_pos)"
      by (auto simp: window_kept_def)
    from less.hyps [OF this(2) step(2,4,6)] this(1) less.prems(4) obtain res where
      "lz_decode_buffer coder' in_buf in_pos' in_size out' out_pos' out_size = Some res"
      "lz_exit_ok code good resumes in_pos' in_size out' out_pos' out_size res" by metis
    then show ?thesis using step(1) lz_exit_later [OF _ step(3,5,7)] by (metis (no_types, lifting))
  qed blast
qed

lemma lz_decode_ok:
  assumes "lz_ok code good coder" "in_pos \<le> in_size" "in_size \<le> length in_buf" "out_pos \<le> out_size" "out_size \<le> length out"
  shows "\<exists>res. lz_decode coder in_buf in_pos in_size out out_pos out_size action = Some res
    \<and> lz_exit_ok code good resumes in_pos in_size out out_pos out_size res"
  using decode_buffer_ok [OF assms] assms(1) by (simp add: lz_decode_def lz_ok_def)

end

text \<open>A decoder whose output is bounded by its input: \<open>pot\<close> is what a state can still write without input, each byte of input adds at
  most \<open>k\<close>. It can be used again after the end of its data.\<close>

definition lz_pot :: "('c \<Rightarrow> nat) \<Rightarrow> ('c, 'n) lz_decoder \<Rightarrow> nat" where
  "lz_pot pot coder = pot (the (lz_coder (lzd_lz coder)))"

locale lz_expanding = lz_based code good resumes
  for code :: "'c lz_code_function" and good :: "nat \<Rightarrow> 'c \<Rightarrow> bool" and resumes :: "lzma_ret set" +
  fixes pot :: "'c \<Rightarrow> nat" and k :: nat
  assumes end_resumes: "LZMA_STREAM_END \<in> resumes"
    and expands: "dict_ok d \<Longrightarrow> \<not> di_need_reset d \<Longrightarrow> good (di_full d) c \<Longrightarrow> in_pos \<le> in_size \<Longrightarrow> in_size \<le> length in_buf \<Longrightarrow>
      code c d in_buf in_pos in_size = Some (ret, c', d', in_pos') \<Longrightarrow> (di_pos d' - di_pos d) + pot c' \<le> pot c + k * (in_pos' - in_pos)"
begin

lemma called_expands:
  assumes "lz_called code good in_buf in_size coder in_pos coder' in_pos' n" "in_pos \<le> in_size" "in_size \<le> length in_buf"
  shows "n + lz_pot pot coder' \<le> lz_pot pot coder + k * (in_pos' - in_pos)"
  using assms expands by (force simp: lz_called_def lz_pot_def)

lemma decode_buffer_expands:
  assumes "lz_ok code good coder" "in_pos \<le> in_size" "in_size \<le> length in_buf" "out_pos \<le> out_size" "out_size \<le> length out"
    and "lz_decode_buffer coder in_buf in_pos in_size out out_pos out_size = Some (ret, coder', in_pos', out', out_pos')"
  shows "(out_pos' - out_pos) + lz_pot pot coder' \<le> lz_pot pot coder + k * (in_pos' - in_pos)"
  using assms(1,2,4-6)
proof (induction "(in_size - in_pos) + (out_size - out_pos)" arbitrary: coder in_pos out out_pos rule: less_induct)
  case less
  show ?case
  proof (rule decode_buffer_turn [OF less.prems(1,2) assms(3) less.prems(3,4)])
    fix ret0 coder0 in_pos0 out0 out_pos0
    assume "lz_decode_buffer coder in_buf in_pos in_size out out_pos out_size = Some (ret0, coder0, in_pos0, out0, out_pos0)"
      "lz_called code good in_buf in_size coder in_pos coder0 in_pos0 (out_pos0 - out_pos)"
    then show ?thesis using called_expands [OF _ less.prems(2) assms(3)] less.prems(5) by simp
  next
    fix coder1 in_pos1 out1 out_pos1
    assume step: "lz_decode_buffer coder in_buf in_pos in_size out out_pos out_size = lz_decode_buffer coder1 in_buf in_pos1 in_size out1 out_pos1 out_size"
      "lz_ok code good coder1" "in_pos \<le> in_pos1" "in_pos1 \<le> in_size" "out_pos \<le> out_pos1" "out_pos1 \<le> out_size" "window_kept out out_pos out_size out1"
      "in_pos < in_pos1 \<or> out_pos < out_pos1" "lz_called code good in_buf in_size coder in_pos coder1 in_pos1 (out_pos1 - out_pos)"
    then have len: "out_size \<le> length out1" "(in_size - in_pos1) + (out_size - out_pos1) < (in_size - in_pos) + (out_size - out_pos)"
      using less.prems(4) by (auto simp: window_kept_def)
    have run: "lz_decode_buffer coder1 in_buf in_pos1 in_size out1 out_pos1 out_size = Some (ret, coder', in_pos', out', out_pos')"
      using less.prems(5) step(1) by simp
    have IH: "(out_pos' - out_pos1) + lz_pot pot coder' \<le> lz_pot pot coder1 + k * (in_pos' - in_pos1)"
      using less.hyps [OF len(2) step(2,4,6) len(1) run] .
    have le: "in_pos1 \<le> in_pos'" "out_pos1 \<le> out_pos'"
      using decode_buffer_ok [OF step(2,4) assms(3) step(6) len(1)] run by (auto simp: lz_exit_ok_def)
    then have "k * (in_pos' - in_pos) = k * (in_pos1 - in_pos) + k * (in_pos' - in_pos1)" using step(3) by (simp flip: distrib_left)
    then show ?thesis using IH called_expands [OF step(9) less.prems(2) assms(3)] le step(5) by linarith
  qed
qed

text \<open>The whole decoder keeps the contract of a coder of a chain.\<close>

lemma lz_decode_bounded: "bounded_coder lz_decode (lz_ok code good)"
proof
  fix coder :: "('c, 'n) lz_decoder" and in_pos in_size out_pos out_size and in_buf out :: "u8 list" and action
  assume a: "lz_ok code good coder" "in_pos \<le> in_size" "in_size \<le> length in_buf" "out_pos \<le> out_size" "out_size \<le> length out"
  then show "code_ok (lz_ok code good) in_pos in_size out out_pos out_size (lz_decode coder in_buf in_pos in_size out out_pos out_size action)"
    using lz_decode_ok [OF a, of action] end_resumes ok_resumes by (auto simp: code_ok_def lz_exit_ok_def)
qed

lemma lz_decode_expands:
  assumes "lz_ok code good coder" "in_pos \<le> in_size" "in_size \<le> length in_buf" "out_pos \<le> out_size" "out_size \<le> length out"
    and "lz_decode coder in_buf in_pos in_size out out_pos out_size action = Some (ret, coder', in_pos', out', out_pos')"
  shows "ret \<noteq> LZMA_TIMED_OUT \<and> (out_pos' - out_pos) + lz_pot pot coder' \<le> lz_pot pot coder + k * (in_pos' - in_pos)"
proof -
  have "lz_decode_buffer coder in_buf in_pos in_size out out_pos out_size = Some (ret, coder', in_pos', out', out_pos')"
    using assms(1,6) by (simp add: lz_decode_def lz_ok_def)
  then show ?thesis using decode_buffer_expands [OF assms(1-5)] decode_buffer_ok [OF assms(1-5)] by (auto simp: lz_exit_ok_def)
qed

end

section \<open>Initialisation\<close>

lemma dict_size_rounded: "n < 2 ^ 32 \<Longrightarrow> 0 < (max 4096 n + 15) div 16 * 16 \<and> (max 4096 n + 15) div 16 * 16 \<le> (2 ^ 32 :: nat)"
  by (auto simp: max_def)

lemma preset_dict_ok:
  assumes "length (di_buf d) = di_size d" "0 < di_size d" "di_size d \<le> 2 ^ 32"
  shows "dict_base (lz_preset_dict lo (di_size d) (lz_dict_reset d))" "\<not> di_need_reset (lz_preset_dict lo (di_size d) (lz_dict_reset d))"
  using assms by (auto simp: dict_base_def dict_ok_def lz_preset_dict_def lz_dict_reset_def Let_def split: option.splits)

text \<open>What a call of \<open>lz_init\<close> finds, and what it has to leave.\<close>

definition lz_unused :: "'c lz_code_function \<Rightarrow> (nat \<Rightarrow> 'c \<Rightarrow> bool) \<Rightarrow> 'c lzma_lz_decoder \<Rightarrow> bool" where
  "lz_unused code good lz \<longleftrightarrow> lz = LZMA_LZ_DECODER_INIT \<or> lz_code lz = Some code \<and> (\<exists>c full. lz_coder lz = Some c \<and> good full c)"

definition lz_started :: "'c lz_code_function \<Rightarrow> (nat \<Rightarrow> 'c \<Rightarrow> bool) \<Rightarrow> 'c lzma_lz_decoder \<Rightarrow> lzma_lz_options \<Rightarrow> bool" where
  "lz_started code good lz lo \<longleftrightarrow>
     lz_code lz = Some code \<and> (\<exists>c. lz_coder lz = Some c \<and> (\<forall>full. good full c)) \<and> lo_dict_size lo < 2 ^ 32"

lemma lz_decoder_setup_ok:
  assumes alloc: "\<And>n buf. alloc n = Some buf \<Longrightarrow> length buf = n"
    and start: "\<And>lz lo. lz_init (lzd_lz base) (fi_options (filters ! 0)) = (LZMA_OK, lz, lo) \<Longrightarrow> lz_started code good lz lo"
    and base: "nc_code (lzd_next base) = None" "length (di_buf (lzd_dict base)) = di_size (lzd_dict base)"
    and last: "fi_init (tl filters ! 0) = None"
    and run: "lz_decoder_setup lz_init alloc inits base filters = (LZMA_OK, coder)"
  shows "lz_ok code good coder"
proof -
  obtain ret lz lo where init: "lz_init (lzd_lz base) (fi_options (filters ! 0)) = (ret, lz, lo)" by (metis prod_cases3)
  have ret: "ret = LZMA_OK" using run init by (auto simp: lz_decoder_setup_def Let_def split: if_splits)
  note lz = start [OF init [unfolded ret], unfolded lz_started_def]
  define size where "size = (max 4096 (lo_dict_size lo) + 15) div 16 * 16"
  have size: "0 < size" "size \<le> 2 ^ 32" using dict_size_rounded lz by (auto simp: size_def)
  have small: "\<not> max 4096 (lo_dict_size lo) > 2 ^ 64 - 1 - 15" using lz by auto
  obtain d where d: "lz_dict_alloc alloc (lzd_dict base) size = (True, d)"
    using run init ret small
    by (cases "lz_dict_alloc alloc (lzd_dict base) size") (auto simp: lz_decoder_setup_def Let_def simp flip: size_def split: if_splits)
  have buf: "length (di_buf d) = di_size d" "di_size d = size"
    using d alloc base(2) by (auto simp: lz_dict_alloc_def split: if_splits option.splits)
  note dict = preset_dict_ok [OF buf(1), of lo] size
  have "nc_code (lzma_next_coder_init None (lzd_next base)) = None"
    using base(1) by (simp add: lzma_next_coder_init_def lzma_next_end_def LZMA_NEXT_CODER_INIT_def Let_def)
  then show ?thesis
    using run init ret small d dict buf(2) lz last
    by (auto simp: lz_decoder_setup_def Let_def lzma_next_filter_init_def lz_ok_def lz_decoder_reset_def simp flip: size_def)
qed

text \<open>A decoder that is initialised as the last filter of its chain, in fresh memory or again, is ready.\<close>

lemma lz_decoder_init_ok:
  assumes alloc: "\<And>n buf. alloc n = Some buf \<Longrightarrow> length buf = n"
    and start: "\<And>lz lz' lo. lz_unused code good lz \<Longrightarrow> lz_init lz (fi_options (filters ! 0)) = (LZMA_OK, lz', lo) \<Longrightarrow> lz_started code good lz' lo"
    and nxt: "nc_coder nxt = None \<or> nc_code nxt = Some lz_decode \<and> lz_ok code good (the (nc_coder nxt))"
    and last: "fi_init (tl filters ! 0) = None"
    and run: "lzma_lz_decoder_init lz_init alloc inits mem nxt filters = (LZMA_OK, nxt')"
  shows "nc_code nxt' = Some lz_decode \<and> (\<exists>coder. nc_coder nxt' = Some coder \<and> lz_ok code good coder)"
proof (cases "nc_coder nxt")
  case None
  then obtain c where mem: "mem = Some c" using run by (cases mem) (auto simp: lzma_lz_decoder_init_def)
  let ?c = "c\<lparr>lzd_dict := (lzd_dict c)\<lparr>di_buf := [], di_size := 0\<rparr>, lzd_lz := LZMA_LZ_DECODER_INIT, lzd_next := LZMA_NEXT_CODER_INIT\<rparr>"
  have "lz_unused code good (lzd_lz ?c)" "nc_code (lzd_next ?c) = None" by (simp_all add: lz_unused_def LZMA_NEXT_CODER_INIT_def)
  then show ?thesis
    using run None mem lz_decoder_setup_ok [OF alloc start, where base = ?c] last by (auto simp: lzma_lz_decoder_init_def split: prod.splits)
next
  case (Some c)
  then have "lz_unused code good (lzd_lz c)" "nc_code (lzd_next c) = None" "length (di_buf (lzd_dict c)) = di_size (lzd_dict c)"
    using nxt by (auto simp: lz_ok_def lz_unused_def dict_base_def dict_ok_def)
  then show ?thesis
    using run Some nxt lz_decoder_setup_ok [OF alloc start, where base = c] last by (auto simp: lzma_lz_decoder_init_def split: prod.splits)
qed

end
