(* ===== verification/Range_Decoder.thy ===== *)
theory Range_Decoder
  imports Prelude
begin

text \<open>
  The range decoder, \<open>rangecoder/range_decoder.h\<close> and \<open>range_common.h\<close>. The macros of the header work on the local copy
  \<open>rc\<close> of the decoder and on \<open>rc_in_pos\<close>; here they are functions on both. A macro that normalises leaves the
  surrounding function when there is no input: this is the result \<open>RC_Input\<close>; \<open>RC_Undefined\<close> is an access outside of
  an array.

  Shown: adaptive probabilities stay between 31 and 2017, and with such a probability decoding a bit leaves a
  range that one byte of input brings back to 24 bits or more, so that one conditional shift is enough.
\<close>

section \<open>The code\<close>

type_synonym probability = u16

record lzma_range_decoder =
  rc_range :: u32
  rc_code :: u32
  rc_init_bytes_left :: u32

datatype 'a rc_result =
    RC_Undefined
  | RC_Input
  | RC_Done 'a

definition RC_SHIFT_BITS :: nat where "RC_SHIFT_BITS = 8"
definition RC_TOP_VALUE :: u32 where "RC_TOP_VALUE = push_bit 24 1"
definition RC_BIT_MODEL_TOTAL_BITS :: nat where "RC_BIT_MODEL_TOTAL_BITS = 11"
definition RC_BIT_MODEL_TOTAL :: u32 where "RC_BIT_MODEL_TOTAL = push_bit RC_BIT_MODEL_TOTAL_BITS 1"
definition RC_MOVE_BITS :: nat where "RC_MOVE_BITS = 5"

definition bit_reset :: probability where
  "bit_reset = ucast (drop_bit 1 RC_BIT_MODEL_TOTAL)"

definition rc_reset :: lzma_range_decoder where
  "rc_reset = \<lparr>rc_range = 0xFFFFFFFF, rc_code = 0, rc_init_bytes_left = 5\<rparr>"

definition rc_is_finished :: "lzma_range_decoder \<Rightarrow> bool" where
  "rc_is_finished rc \<longleftrightarrow> rc_code rc = 0"

function rc_read_init :: "lzma_range_decoder \<Rightarrow> u8 list \<Rightarrow> nat \<Rightarrow> nat \<Rightarrow> (lzma_ret \<times> lzma_range_decoder \<times> nat) option" where
  "rc_read_init rc in_buf in_pos in_size =
     (if 0 < rc_init_bytes_left rc
      then if in_pos = in_size then Some (LZMA_OK, rc, in_pos)
           else if length in_buf \<le> in_pos then None
           else if rc_init_bytes_left rc = 5 \<and> in_buf ! in_pos \<noteq> 0 then Some (LZMA_DATA_ERROR, rc, in_pos)
           else rc_read_init
                  (rc\<lparr>rc_code := push_bit 8 (rc_code rc) OR ucast (in_buf ! in_pos), rc_init_bytes_left := rc_init_bytes_left rc - 1\<rparr>)
                  in_buf (in_pos + 1) in_size
      else Some (LZMA_STREAM_END, rc, in_pos))"
  by pat_completeness auto
termination
  by (relation "measure (\<lambda>(rc, _). unat (rc_init_bytes_left rc))") (auto simp: measure_unat)

definition rc_normalize :: "u8 list \<Rightarrow> nat \<Rightarrow> lzma_range_decoder \<Rightarrow> nat \<Rightarrow> (lzma_range_decoder \<times> nat) rc_result" where
  "rc_normalize in_buf in_size rc rc_in_pos =
     (if rc_range rc < RC_TOP_VALUE
      then if rc_in_pos = in_size then RC_Input
           else if length in_buf \<le> rc_in_pos then RC_Undefined
           else RC_Done (rc\<lparr>rc_range := push_bit RC_SHIFT_BITS (rc_range rc),
                            rc_code := push_bit RC_SHIFT_BITS (rc_code rc) OR ucast (in_buf ! rc_in_pos)\<rparr>, rc_in_pos + 1)
      else RC_Done (rc, rc_in_pos))"

text \<open>The bound that \<open>rc_if_0\<close> computes; the bit is 0 if the code is below it.\<close>

definition rc_bound :: "lzma_range_decoder \<Rightarrow> probability \<Rightarrow> u32" where
  "rc_bound rc prob = drop_bit RC_BIT_MODEL_TOTAL_BITS (rc_range rc) * ucast prob"

definition rc_update_0 :: "lzma_range_decoder \<Rightarrow> probability \<Rightarrow> lzma_range_decoder \<times> probability" where
  "rc_update_0 rc prob =
     (rc\<lparr>rc_range := rc_bound rc prob\<rparr>, prob + ucast (drop_bit RC_MOVE_BITS (RC_BIT_MODEL_TOTAL - ucast prob)))"

definition rc_update_1 :: "lzma_range_decoder \<Rightarrow> probability \<Rightarrow> lzma_range_decoder \<times> probability" where
  "rc_update_1 rc prob =
     (rc\<lparr>rc_range := rc_range rc - rc_bound rc prob, rc_code := rc_code rc - rc_bound rc prob\<rparr>, prob - drop_bit RC_MOVE_BITS prob)"

text \<open>\<open>rc_if_0\<close> with the update of its branch (no use of the macro is without it): the bit, the decoder and the
  probability.\<close>

definition rc_if_0 :: "lzma_range_decoder \<Rightarrow> probability \<Rightarrow> bool \<times> lzma_range_decoder \<times> probability" where
  "rc_if_0 rc prob = (if rc_code rc < rc_bound rc prob then (False, rc_update_0 rc prob) else (True, rc_update_1 rc prob))"

text \<open>The decoder and the new value of \<open>dest\<close>.\<close>

definition rc_direct :: "lzma_range_decoder \<Rightarrow> u32 \<Rightarrow> lzma_range_decoder \<times> u32" where
  "rc_direct rc dest =
     (let range = drop_bit 1 (rc_range rc);
          code = rc_code rc - range;
          bound = 0 - drop_bit 31 code;
          code = code + (range AND bound)
      in (rc\<lparr>rc_range := range, rc_code := code\<rparr>, push_bit 1 dest + (bound + 1)))"

lemmas rc_const_defs = RC_SHIFT_BITS_def RC_TOP_VALUE_def RC_BIT_MODEL_TOTAL_BITS_def RC_BIT_MODEL_TOTAL_def RC_MOVE_BITS_def

section \<open>Bounds\<close>

definition prob_ok :: "probability \<Rightarrow> bool" where
  "prob_ok p \<longleftrightarrow> 31 \<le> unat p \<and> unat p \<le> 2017"

definition range_ok :: "lzma_range_decoder \<Rightarrow> bool" where
  "range_ok rc \<longleftrightarrow> 2 ^ 16 \<le> unat (rc_range rc)"

lemma prob_ok_reset: "prob_ok bit_reset"
  by (simp add: prob_ok_def bit_reset_def rc_const_defs)

lemma range_ok_reset: "range_ok rc_reset"
  by (simp add: range_ok_def rc_reset_def)

text \<open>Normalising reads at most one byte, and afterwards the range has more than 24 bits.\<close>

lemma rc_normalize_cases:
  assumes "in_pos \<le> in_size" "in_size \<le> length in_buf" "range_ok rc"
  obtains "rc_normalize in_buf in_size rc in_pos = RC_Input" "in_pos = in_size"
  | rc' in_pos' where "rc_normalize in_buf in_size rc in_pos = RC_Done (rc', in_pos')" "in_pos \<le> in_pos'" "in_pos' \<le> in_size"
      "2 ^ 24 \<le> unat (rc_range rc')"
proof -
  have top: "rc_range rc < RC_TOP_VALUE \<longleftrightarrow> unat (rc_range rc) < 2 ^ 24"
    by (simp add: rc_const_defs word_less_nat_alt)
  have "unat (rc_range rc) < 2 ^ 24 \<Longrightarrow> unat (push_bit 8 (rc_range rc)) = unat (rc_range rc) * 2 ^ 8"
    by (simp add: push_bit_eq_mult unat_word_ariths)
  then show ?thesis using assms top that
    by (cases "rc_range rc < RC_TOP_VALUE"; cases "in_pos = in_size") (auto simp: rc_normalize_def range_ok_def RC_SHIFT_BITS_def)
qed

lemma rc_bound_bounds:
  assumes "prob_ok p" "2 ^ 24 \<le> unat (rc_range rc)"
  shows "2 ^ 16 \<le> unat (rc_bound rc p)" "unat (rc_bound rc p) + 2 ^ 16 \<le> unat (rc_range rc)"
proof -
  define r where "r = unat (rc_range rc) div 2048"
  have r: "r * 2048 \<le> unat (rc_range rc)" "8192 \<le> r" using assms(2) by (simp_all add: r_def)
  have p: "31 \<le> unat p" "unat p \<le> 2017" using assms(1) by (simp_all add: prob_ok_def)
  have "r * unat p \<le> r * 2017" using p by simp
  moreover have "r * 2048 < 2 ^ 32" using r(1) unat_u32_less [of "rc_range rc"] by simp
  ultimately have "r * unat p < 2 ^ 32" by linarith
  moreover have "unat (drop_bit 11 (rc_range rc)) = r" "unat (ucast p :: u32) = unat p"
    using p by (simp_all add: r_def unat_drop_bit_div unat_ucast_mod)
  ultimately have b: "unat (rc_bound rc p) = r * unat p"
    by (simp add: rc_bound_def RC_BIT_MODEL_TOTAL_BITS_def unat_word_ariths)
  have "8192 * 31 \<le> r * unat p" using p(1) r(2) by (intro mult_le_mono) auto
  then show "2 ^ 16 \<le> unat (rc_bound rc p)" using b by simp
  have "r * 2017 + 2 ^ 16 \<le> r * 2048" using r(2) by simp
  then show "unat (rc_bound rc p) + 2 ^ 16 \<le> unat (rc_range rc)" using b r(1) \<open>r * unat p \<le> r * 2017\<close> by linarith
qed

lemma rc_update_prob:
  assumes "prob_ok p"
  shows "prob_ok (snd (rc_update_0 rc p))" "prob_ok (snd (rc_update_1 rc p))"
proof -
  define q where "q = (2048 - unat p) div 32"
  define q' where "q' = unat p div 32"
  have p: "31 \<le> unat p" "unat p \<le> 2017" using assms by (simp_all add: prob_ok_def)
  have "q * 32 \<le> 2048 - unat p" "q' * 32 \<le> unat p" by (simp_all add: q_def q'_def)
  then have q: "unat p + q \<le> 2017" "31 \<le> unat p - q'" using p by (cases "q = 0"; cases "q' = 0"; simp)+
  have "unat (2048 - ucast p :: u32) = 2048 - unat p"
    using p by (subst unat_sub) (simp_all add: word_le_nat_alt unat_ucast_mod)
  then have "unat (ucast (drop_bit 5 (2048 - ucast p :: u32)) :: u16) = q"
    using q(1) by (simp add: unat_ucast_mod unat_drop_bit_div q_def)
  then have "unat (snd (rc_update_0 rc p)) = unat p + q"
    using q(1) by (simp add: rc_update_0_def rc_const_defs unat_word_ariths)
  then show "prob_ok (snd (rc_update_0 rc p))" using p q(1) by (simp add: prob_ok_def)
  have "unat (drop_bit 5 p) = q'" by (simp add: unat_drop_bit_div q'_def)
  then have "unat (snd (rc_update_1 rc p)) = unat p - q'"
    by (simp add: rc_update_1_def RC_MOVE_BITS_def unat_sub word_le_nat_alt q'_def)
  then show "prob_ok (snd (rc_update_1 rc p))" using p q(2) by (simp add: prob_ok_def)
qed

lemma rc_if_0_bounds:
  assumes "prob_ok p" "2 ^ 24 \<le> unat (rc_range rc)" "rc_if_0 rc p = (b, rc', p')"
  shows "prob_ok p'" "range_ok rc'"
proof -
  show "prob_ok p'" using rc_update_prob [OF assms(1)] assms(3) by (auto simp: rc_if_0_def split: if_splits) (metis snd_conv)+
  have "unat (rc_range rc - rc_bound rc p) = unat (rc_range rc) - unat (rc_bound rc p)"
    using rc_bound_bounds [OF assms(1,2)] by (simp add: unat_sub word_le_nat_alt)
  then show "range_ok rc'"
    using rc_bound_bounds [OF assms(1,2)] assms(3)
    by (auto simp: rc_if_0_def rc_update_0_def rc_update_1_def range_ok_def split: if_splits)
qed

lemma rc_direct_bounds:
  assumes "2 ^ 24 \<le> unat (rc_range rc)"
  shows "range_ok (fst (rc_direct rc dest))"
  using assms by (simp add: rc_direct_def Let_def range_ok_def unat_drop_bit_div)

text \<open>The initial bytes: read one by one, over as many calls as needed.\<close>

lemma rc_read_init_ok:
  assumes "in_pos \<le> in_size" "in_size \<le> length in_buf"
  shows "\<exists>ret rc' in_pos'. rc_read_init rc in_buf in_pos in_size = Some (ret, rc', in_pos') \<and> in_pos \<le> in_pos' \<and> in_pos' \<le> in_size
    \<and> ret \<in> {LZMA_OK, LZMA_DATA_ERROR, LZMA_STREAM_END} \<and> rc_range rc' = rc_range rc
    \<and> (ret = LZMA_OK \<longrightarrow> in_pos' = in_size) \<and> (ret = LZMA_STREAM_END \<longrightarrow> rc_init_bytes_left rc' = 0)"
  using assms
proof (induction rc in_buf in_pos in_size rule: rc_read_init.induct)
  case (1 rc in_buf in_pos in_size)
  note code = rc_read_init.simps [of rc in_buf in_pos in_size]
  show ?case
  proof (cases "0 < rc_init_bytes_left rc \<and> in_pos \<noteq> in_size \<and> \<not> (rc_init_bytes_left rc = 5 \<and> in_buf ! in_pos \<noteq> 0)")
    case True
    let ?rc = "rc\<lparr>rc_code := push_bit 8 (rc_code rc) OR ucast (in_buf ! in_pos), rc_init_bytes_left := rc_init_bytes_left rc - 1\<rparr>"
    have "\<not> length in_buf \<le> in_pos" "in_pos + 1 \<le> in_size" using "1.prems" True by auto
    moreover from this have "rc_read_init rc in_buf in_pos in_size = rc_read_init ?rc in_buf (in_pos + 1) in_size"
      using True by (subst code) (auto simp del: rc_read_init.simps)
    ultimately show ?thesis using "1.IH" "1.prems"(2) True by (fastforce simp del: rc_read_init.simps)
  next
    case False
    then show ?thesis using "1.prems" by (subst code) (auto simp: word_gt_0 simp del: rc_read_init.simps)
  qed
qed

declare rc_read_init.simps [simp del]

end
