(* ===== verification/Lzma_Decoder.thy ===== *)
theory Lzma_Decoder
  imports Range_Decoder Lz_Dict Filters
begin

text \<open>
  The LZMA decoder, \<open>lzma/lzma_decoder.c\<close> (the version without \<open>HAVE_SMALL\<close>) with \<open>lzma_common.h\<close>.

  \<open>lzma_decode\<close> is one loop with a \<open>switch\<close> into its middle, so that it can go on where the input ran out. Every \<open>case\<close> label
  is a value of \<open>lzma_seq\<close>; \<open>lzma_step\<close> runs the code from a label to the next one, and \<open>lzma_loop\<close> iterates it. The local
  copies that the function makes of fields of the coder are written back at \<open>out\<close>, where every exit ends: here they are
  the fields themselves, extended by the locals that are not saved (\<open>lzma_run\<close>). The labels that differ in a digit only
  have it as an argument. \<open>None\<close> is undefined behaviour, that is an index outside of an array.
\<close>

section \<open>The code\<close>

subsection \<open>Probabilities\<close>

text \<open>The arrays of probabilities of \<open>lzma_coder_s\<close>.\<close>

record lzma_length_decoder =
  ld_choice :: probability
  ld_choice2 :: probability
  ld_low :: "probability list list"
  ld_mid :: "probability list list"
  ld_high :: "probability list"

record lzma_probs =
  pr_literal :: "probability list list"
  pr_is_match :: "probability list list"
  pr_is_rep :: "probability list"
  pr_is_rep0 :: "probability list"
  pr_is_rep1 :: "probability list"
  pr_is_rep2 :: "probability list"
  pr_is_rep0_long :: "probability list list"
  pr_dist_slot :: "probability list list"
  pr_pos_special :: "probability list"
  pr_pos_align :: "probability list"
  pr_match_len_decoder :: lzma_length_decoder
  pr_rep_len_decoder :: lzma_length_decoder

text \<open>An element of these arrays, as the macros of the range decoder take it.\<close>

datatype len_ref =
    L_choice
  | L_choice2
  | L_low nat nat
  | L_mid nat nat
  | L_high nat

datatype prob_ref =
    P_literal nat nat
  | P_is_match nat nat
  | P_is_rep nat
  | P_is_rep0 nat
  | P_is_rep1 nat
  | P_is_rep2 nat
  | P_is_rep0_long nat nat
  | P_dist_slot nat nat
  | P_pos_special nat
  | P_pos_align nat
  | P_match_len len_ref
  | P_rep_len len_ref

definition at1 :: "'a list \<Rightarrow> nat \<Rightarrow> 'a option" where
  "at1 xs i = (if i < length xs then Some (xs ! i) else None)"

definition at2 :: "'a list list \<Rightarrow> nat \<Rightarrow> nat \<Rightarrow> 'a option" where
  "at2 xs i j = Option.bind (at1 xs i) (\<lambda>row. at1 row j)"

definition upd2 :: "'a list list \<Rightarrow> nat \<Rightarrow> nat \<Rightarrow> 'a \<Rightarrow> 'a list list" where
  "upd2 xs i j x = xs[i := (xs ! i)[j := x]]"

fun len_get :: "lzma_length_decoder \<Rightarrow> len_ref \<Rightarrow> probability option" where
  "len_get ld L_choice = Some (ld_choice ld)"
| "len_get ld L_choice2 = Some (ld_choice2 ld)"
| "len_get ld (L_low i j) = at2 (ld_low ld) i j"
| "len_get ld (L_mid i j) = at2 (ld_mid ld) i j"
| "len_get ld (L_high j) = at1 (ld_high ld) j"

fun len_set :: "lzma_length_decoder \<Rightarrow> len_ref \<Rightarrow> probability \<Rightarrow> lzma_length_decoder" where
  "len_set ld L_choice p = ld\<lparr>ld_choice := p\<rparr>"
| "len_set ld L_choice2 p = ld\<lparr>ld_choice2 := p\<rparr>"
| "len_set ld (L_low i j) p = ld\<lparr>ld_low := upd2 (ld_low ld) i j p\<rparr>"
| "len_set ld (L_mid i j) p = ld\<lparr>ld_mid := upd2 (ld_mid ld) i j p\<rparr>"
| "len_set ld (L_high j) p = ld\<lparr>ld_high := (ld_high ld)[j := p]\<rparr>"

fun prob_get :: "lzma_probs \<Rightarrow> prob_ref \<Rightarrow> probability option" where
  "prob_get t (P_literal i j) = at2 (pr_literal t) i j"
| "prob_get t (P_is_match i j) = at2 (pr_is_match t) i j"
| "prob_get t (P_is_rep i) = at1 (pr_is_rep t) i"
| "prob_get t (P_is_rep0 i) = at1 (pr_is_rep0 t) i"
| "prob_get t (P_is_rep1 i) = at1 (pr_is_rep1 t) i"
| "prob_get t (P_is_rep2 i) = at1 (pr_is_rep2 t) i"
| "prob_get t (P_is_rep0_long i j) = at2 (pr_is_rep0_long t) i j"
| "prob_get t (P_dist_slot i j) = at2 (pr_dist_slot t) i j"
| "prob_get t (P_pos_special i) = at1 (pr_pos_special t) i"
| "prob_get t (P_pos_align i) = at1 (pr_pos_align t) i"
| "prob_get t (P_match_len r) = len_get (pr_match_len_decoder t) r"
| "prob_get t (P_rep_len r) = len_get (pr_rep_len_decoder t) r"

fun prob_set :: "lzma_probs \<Rightarrow> prob_ref \<Rightarrow> probability \<Rightarrow> lzma_probs" where
  "prob_set t (P_literal i j) p = t\<lparr>pr_literal := upd2 (pr_literal t) i j p\<rparr>"
| "prob_set t (P_is_match i j) p = t\<lparr>pr_is_match := upd2 (pr_is_match t) i j p\<rparr>"
| "prob_set t (P_is_rep i) p = t\<lparr>pr_is_rep := (pr_is_rep t)[i := p]\<rparr>"
| "prob_set t (P_is_rep0 i) p = t\<lparr>pr_is_rep0 := (pr_is_rep0 t)[i := p]\<rparr>"
| "prob_set t (P_is_rep1 i) p = t\<lparr>pr_is_rep1 := (pr_is_rep1 t)[i := p]\<rparr>"
| "prob_set t (P_is_rep2 i) p = t\<lparr>pr_is_rep2 := (pr_is_rep2 t)[i := p]\<rparr>"
| "prob_set t (P_is_rep0_long i j) p = t\<lparr>pr_is_rep0_long := upd2 (pr_is_rep0_long t) i j p\<rparr>"
| "prob_set t (P_dist_slot i j) p = t\<lparr>pr_dist_slot := upd2 (pr_dist_slot t) i j p\<rparr>"
| "prob_set t (P_pos_special i) p = t\<lparr>pr_pos_special := (pr_pos_special t)[i := p]\<rparr>"
| "prob_set t (P_pos_align i) p = t\<lparr>pr_pos_align := (pr_pos_align t)[i := p]\<rparr>"
| "prob_set t (P_match_len r) p = t\<lparr>pr_match_len_decoder := len_set (pr_match_len_decoder t) r p\<rparr>"
| "prob_set t (P_rep_len r) p = t\<lparr>pr_rep_len_decoder := len_set (pr_rep_len_decoder t) r p\<rparr>"

text \<open>The pointer \<open>probs\<close> to the current tree: a row of literal probabilities or of slots, or an address relative to
  \<open>pos_special\<close> (which begins one element before the array).\<close>

datatype probs_ptr =
    Probs_null
  | Probs_literal nat
  | Probs_dist_slot nat
  | Probs_pos_special int

fun probs_at :: "probs_ptr \<Rightarrow> nat \<Rightarrow> prob_ref option" where
  "probs_at Probs_null j = None"
| "probs_at (Probs_literal i) j = Some (P_literal i j)"
| "probs_at (Probs_dist_slot i) j = Some (P_dist_slot i j)"
| "probs_at (Probs_pos_special b) j = (if 0 \<le> b + int j then Some (P_pos_special (nat (b + int j))) else None)"

subsection \<open>Constants and macros\<close>

definition STATE_LIT_LIT :: nat where "STATE_LIT_LIT = 0"
definition STATE_MATCH_LIT_LIT :: nat where "STATE_MATCH_LIT_LIT = 1"
definition STATE_REP_LIT_LIT :: nat where "STATE_REP_LIT_LIT = 2"
definition STATE_SHORTREP_LIT_LIT :: nat where "STATE_SHORTREP_LIT_LIT = 3"
definition STATE_MATCH_LIT :: nat where "STATE_MATCH_LIT = 4"
definition STATE_REP_LIT :: nat where "STATE_REP_LIT = 5"
definition STATE_SHORTREP_LIT :: nat where "STATE_SHORTREP_LIT = 6"
definition STATE_LIT_MATCH :: nat where "STATE_LIT_MATCH = 7"
definition STATE_LIT_LONGREP :: nat where "STATE_LIT_LONGREP = 8"
definition STATE_LIT_SHORTREP :: nat where "STATE_LIT_SHORTREP = 9"
definition STATE_NONLIT_MATCH :: nat where "STATE_NONLIT_MATCH = 10"
definition STATE_NONLIT_REP :: nat where "STATE_NONLIT_REP = 11"
definition STATES :: nat where "STATES = 12"
definition LIT_STATES :: nat where "LIT_STATES = 7"

lemmas state_defs = STATE_LIT_LIT_def STATE_MATCH_LIT_LIT_def STATE_REP_LIT_LIT_def STATE_SHORTREP_LIT_LIT_def STATE_MATCH_LIT_def
  STATE_REP_LIT_def STATE_SHORTREP_LIT_def STATE_LIT_MATCH_def STATE_LIT_LONGREP_def STATE_LIT_SHORTREP_def STATE_NONLIT_MATCH_def
  STATE_NONLIT_REP_def STATES_def LIT_STATES_def

definition is_literal_state :: "nat \<Rightarrow> bool" where
  "is_literal_state state \<longleftrightarrow> state < LIT_STATES"

definition update_match :: "nat \<Rightarrow> nat" where
  "update_match state = (if state < LIT_STATES then STATE_LIT_MATCH else STATE_NONLIT_MATCH)"

definition update_long_rep :: "nat \<Rightarrow> nat" where
  "update_long_rep state = (if state < LIT_STATES then STATE_LIT_LONGREP else STATE_NONLIT_REP)"

definition update_short_rep :: "nat \<Rightarrow> nat" where
  "update_short_rep state = (if state < LIT_STATES then STATE_LIT_SHORTREP else STATE_NONLIT_REP)"

definition next_state :: "nat list" where
  "next_state = [STATE_LIT_LIT, STATE_LIT_LIT, STATE_LIT_LIT, STATE_LIT_LIT, STATE_MATCH_LIT_LIT, STATE_REP_LIT_LIT,
     STATE_SHORTREP_LIT_LIT, STATE_MATCH_LIT, STATE_REP_LIT, STATE_SHORTREP_LIT, STATE_MATCH_LIT, STATE_REP_LIT]"

definition POS_STATES_MAX :: nat where "POS_STATES_MAX = 2 ^ unat LZMA_PB_MAX"
definition LITERAL_CODER_SIZE :: nat where "LITERAL_CODER_SIZE = 0x300"
definition LITERAL_CODERS_MAX :: nat where "LITERAL_CODERS_MAX = 2 ^ unat LZMA_LCLP_MAX"
definition MATCH_LEN_MIN :: u32 where "MATCH_LEN_MIN = 2"
definition LEN_LOW_BITS :: nat where "LEN_LOW_BITS = 3"
definition LEN_LOW_SYMBOLS :: u32 where "LEN_LOW_SYMBOLS = push_bit LEN_LOW_BITS 1"
definition LEN_MID_BITS :: nat where "LEN_MID_BITS = 3"
definition LEN_MID_SYMBOLS :: u32 where "LEN_MID_SYMBOLS = push_bit LEN_MID_BITS 1"
definition LEN_HIGH_BITS :: nat where "LEN_HIGH_BITS = 8"
definition LEN_HIGH_SYMBOLS :: u32 where "LEN_HIGH_SYMBOLS = push_bit LEN_HIGH_BITS 1"
definition MATCH_LEN_MAX :: u32 where "MATCH_LEN_MAX = MATCH_LEN_MIN + (LEN_LOW_SYMBOLS + LEN_MID_SYMBOLS + LEN_HIGH_SYMBOLS) - 1"
definition DIST_STATES :: u32 where "DIST_STATES = 4"
definition DIST_SLOT_BITS :: nat where "DIST_SLOT_BITS = 6"
definition DIST_SLOTS :: u32 where "DIST_SLOTS = push_bit DIST_SLOT_BITS 1"
definition DIST_MODEL_START :: u32 where "DIST_MODEL_START = 4"
definition DIST_MODEL_END :: u32 where "DIST_MODEL_END = 14"
definition FULL_DISTANCES :: u32 where "FULL_DISTANCES = push_bit 7 1"
definition ALIGN_BITS :: nat where "ALIGN_BITS = 4"

lemmas lzma_const_defs = POS_STATES_MAX_def LITERAL_CODER_SIZE_def LITERAL_CODERS_MAX_def MATCH_LEN_MIN_def LEN_LOW_BITS_def
  LEN_LOW_SYMBOLS_def LEN_MID_BITS_def LEN_MID_SYMBOLS_def LEN_HIGH_BITS_def LEN_HIGH_SYMBOLS_def MATCH_LEN_MAX_def DIST_STATES_def
  DIST_SLOT_BITS_def DIST_SLOTS_def DIST_MODEL_START_def DIST_MODEL_END_def FULL_DISTANCES_def ALIGN_BITS_def LZMA_PB_MAX_def LZMA_LCLP_MAX_def

definition get_dist_state :: "u32 \<Rightarrow> u32" where
  "get_dist_state len = (if len < DIST_STATES + MATCH_LEN_MIN then len - MATCH_LEN_MIN else DIST_STATES - 1)"

text \<open>The row of \<open>literal\<close> for a position and the previous byte.\<close>

definition literal_subcoder :: "u32 \<Rightarrow> u32 \<Rightarrow> nat \<Rightarrow> u8 \<Rightarrow> nat" where
  "literal_subcoder lc lp_mask pos prev_byte =
     unat (push_bit (unat lc) (of_nat pos AND lp_mask) + drop_bit (8 - unat lc) (ucast prev_byte) :: u32)"

subsection \<open>The state\<close>

datatype len_seq =
    LEN_CHOICE
  | LEN_LOW nat
  | LEN_CHOICE2
  | LEN_MID nat
  | LEN_HIGH nat

datatype lzma_seq =
    SEQ_NORMALIZE
  | SEQ_IS_MATCH
  | SEQ_LITERAL nat
  | SEQ_LITERAL_MATCHED nat
  | SEQ_LITERAL_WRITE
  | SEQ_IS_REP
  | SEQ_MATCH_LEN len_seq
  | SEQ_DIST_SLOT nat
  | SEQ_DIST_MODEL
  | SEQ_DIRECT
  | SEQ_ALIGN nat
  | SEQ_EOPM
  | SEQ_IS_REP0
  | SEQ_SHORTREP
  | SEQ_IS_REP0_LONG
  | SEQ_IS_REP1
  | SEQ_IS_REP2
  | SEQ_REP_LEN len_seq
  | SEQ_COPY

record lzma1_coder =
  l1_tables :: lzma_probs
  l1_rc :: lzma_range_decoder
  l1_state :: nat
  l1_rep0 :: u32
  l1_rep1 :: u32
  l1_rep2 :: u32
  l1_rep3 :: u32
  l1_pos_mask :: u32
  l1_literal_context_bits :: u32
  l1_literal_pos_mask :: u32
  l1_uncompressed_size :: u64
  l1_sequence :: lzma_seq
  l1_probs :: probs_ptr
  l1_symbol :: u32
  l1_limit :: u32
  l1_offset :: u32
  l1_len :: u32

text \<open>The coder with the local variables \<open>dict\<close>, \<open>rc_in_pos\<close> and \<open>pos_state\<close>. A step ends at a label (\<open>Next\<close>) or at \<open>out\<close>
  (\<open>Leave\<close>).\<close>

record lzma_run = lzma1_coder +
  ru_dict :: lzma_dict
  ru_in_pos :: nat
  ru_pos_state :: u32

datatype lzma_turn =
    Next lzma_seq lzma_run
  | Leave lzma_ret lzma_run

subsection \<open>Bits\<close>

text \<open>\<open>rc_normalize\<close> on the locals, and what follows it.\<close>

definition run_normalize :: "u8 list \<Rightarrow> nat \<Rightarrow> lzma_seq \<Rightarrow> lzma_run \<Rightarrow> (lzma_run \<Rightarrow> lzma_turn option) \<Rightarrow> lzma_turn option" where
  "run_normalize in_buf in_size seq run k =
     (case rc_normalize in_buf in_size (l1_rc run) (ru_in_pos run) of
        RC_Undefined \<Rightarrow> None
      | RC_Input \<Rightarrow> Some (Leave LZMA_OK (run\<lparr>l1_sequence := seq\<rparr>))
      | RC_Done (rc, rc_in_pos) \<Rightarrow> k (run\<lparr>l1_rc := rc, ru_in_pos := rc_in_pos\<rparr>))"

text \<open>\<open>rc_if_0\<close> or \<open>rc_bit_last\<close>: the continuation gets the bit.\<close>

definition run_bit ::
  "u8 list \<Rightarrow> nat \<Rightarrow> lzma_seq \<Rightarrow> prob_ref option \<Rightarrow> lzma_run \<Rightarrow> (bool \<Rightarrow> lzma_run \<Rightarrow> lzma_turn option) \<Rightarrow> lzma_turn option" where
  "run_bit in_buf in_size seq ref run k =
     run_normalize in_buf in_size seq run (\<lambda>run.
       (case Option.bind ref (\<lambda>ref. map_option (Pair ref) (prob_get (l1_tables run) ref)) of
          None \<Rightarrow> None
        | Some (ref, prob) \<Rightarrow>
            (let (bit, rc, prob) = rc_if_0 (l1_rc run) prob
             in k bit (run\<lparr>l1_rc := rc, l1_tables := prob_set (l1_tables run) ref prob\<rparr>))))"

text \<open>\<open>rc_bit\<close>: the bit is also appended to \<open>symbol\<close>.\<close>

definition run_bit_symbol ::
  "u8 list \<Rightarrow> nat \<Rightarrow> lzma_seq \<Rightarrow> prob_ref option \<Rightarrow> lzma_run \<Rightarrow> (bool \<Rightarrow> lzma_run \<Rightarrow> lzma_turn option) \<Rightarrow> lzma_turn option" where
  "run_bit_symbol in_buf in_size seq ref run k =
     run_bit in_buf in_size seq ref run (\<lambda>bit run. k bit (run\<lparr>l1_symbol := push_bit 1 (l1_symbol run) + of_bool bit\<rparr>))"

subsection \<open>The parts of the loop\<close>

text \<open>The head of the loop, after \<open>continue\<close> or the end of the body.\<close>

definition lzma_continue :: "lzma_run \<Rightarrow> lzma_turn" where
  "lzma_continue run = Next SEQ_IS_MATCH (run\<lparr>ru_pos_state := of_nat (di_pos (ru_dict run)) AND l1_pos_mask run\<rparr>)"

definition lzma_is_match :: "u8 list \<Rightarrow> nat \<Rightarrow> bool \<Rightarrow> lzma_run \<Rightarrow> lzma_turn option" where
  "lzma_is_match in_buf in_size no_eopm run =
     (if no_eopm \<and> di_pos (ru_dict run) = di_limit (ru_dict run)
      then run_normalize in_buf in_size SEQ_NORMALIZE run (\<lambda>run. Some (Leave LZMA_OK (run\<lparr>l1_sequence := SEQ_IS_MATCH\<rparr>)))
      else
        run_bit in_buf in_size SEQ_IS_MATCH (Some (P_is_match (l1_state run) (unat (ru_pos_state run)))) run (\<lambda>bit run.
          if bit then Some (Next SEQ_IS_REP run)
          else
            (case dict_get (ru_dict run) 0 of
               None \<Rightarrow> None
             | Some prev_byte \<Rightarrow>
                 (let run = run\<lparr>l1_probs := Probs_literal (literal_subcoder (l1_literal_context_bits run) (l1_literal_pos_mask run)
                                  (di_pos (ru_dict run)) prev_byte), l1_symbol := 1\<rparr>
                  in if is_literal_state (l1_state run) then Some (Next (SEQ_LITERAL 0) run)
                     else
                       (case dict_get (ru_dict run) (l1_rep0 run) of
                          None \<Rightarrow> None
                        | Some match_byte \<Rightarrow>
                            Some (Next (SEQ_LITERAL_MATCHED 0) (run\<lparr>l1_len := push_bit 1 (ucast match_byte), l1_offset := 0x100\<rparr>)))))))"

text \<open>After the last bit of a literal.\<close>

definition lzma_literal_done :: "lzma_run \<Rightarrow> lzma_turn option" where
  "lzma_literal_done run =
     map_option (\<lambda>state. Next SEQ_LITERAL_WRITE (run\<lparr>l1_state := state\<rparr>)) (at1 next_state (l1_state run))"

definition lzma_literal :: "u8 list \<Rightarrow> nat \<Rightarrow> nat \<Rightarrow> lzma_run \<Rightarrow> lzma_turn option" where
  "lzma_literal in_buf in_size i run =
     run_bit_symbol in_buf in_size (SEQ_LITERAL i) (probs_at (l1_probs run) (unat (l1_symbol run))) run (\<lambda>bit run.
       if i < 7 then Some (Next (SEQ_LITERAL (i + 1)) run) else lzma_literal_done run)"

definition lzma_literal_matched :: "u8 list \<Rightarrow> nat \<Rightarrow> nat \<Rightarrow> lzma_run \<Rightarrow> lzma_turn option" where
  "lzma_literal_matched in_buf in_size i run =
     (let match_bit = l1_len run AND l1_offset run;
          subcoder_index = l1_offset run + match_bit + l1_symbol run
      in run_bit_symbol in_buf in_size (SEQ_LITERAL_MATCHED i) (probs_at (l1_probs run) (unat subcoder_index)) run (\<lambda>bit run.
           let run = run\<lparr>l1_offset := (if bit then l1_offset run AND match_bit else l1_offset run AND NOT match_bit)\<rparr>
           in if i < 7 then Some (Next (SEQ_LITERAL_MATCHED (i + 1)) (run\<lparr>l1_len := push_bit 1 (l1_len run)\<rparr>))
              else lzma_literal_done run))"

definition lzma_literal_write :: "lzma_run \<Rightarrow> lzma_turn option" where
  "lzma_literal_write run =
     (case dict_put (ru_dict run) (ucast (l1_symbol run)) of
        None \<Rightarrow> None
      | Some (True, dict) \<Rightarrow> Some (Leave LZMA_OK (run\<lparr>l1_sequence := SEQ_LITERAL_WRITE, ru_dict := dict\<rparr>))
      | Some (False, dict) \<Rightarrow> Some (lzma_continue (run\<lparr>ru_dict := dict\<rparr>)))"

definition lzma_is_rep :: "u8 list \<Rightarrow> nat \<Rightarrow> lzma_run \<Rightarrow> lzma_turn option" where
  "lzma_is_rep in_buf in_size run =
     run_bit in_buf in_size SEQ_IS_REP (Some (P_is_rep (l1_state run))) run (\<lambda>bit run.
       if \<not> bit
       then Some (Next (SEQ_MATCH_LEN LEN_CHOICE)
              (run\<lparr>l1_state := update_match (l1_state run), l1_rep3 := l1_rep2 run, l1_rep2 := l1_rep1 run, l1_rep1 := l1_rep0 run,
                  l1_symbol := 1\<rparr>))
       else if \<not> dict_is_distance_valid (ru_dict run) 0 then Some (Leave LZMA_DATA_ERROR run)
       else Some (Next SEQ_IS_REP0 run))"

text \<open>\<open>len_decode\<close> from one of its labels to the next one or to its end. The arguments \<open>ref\<close> and \<open>seq\<close> stand for the macro
  arguments \<open>ld\<close> and \<open>seq\<close>, \<open>k\<close> for the code after the macro.\<close>

fun len_decode ::
  "u8 list \<Rightarrow> nat \<Rightarrow> (len_ref \<Rightarrow> prob_ref) \<Rightarrow> (len_seq \<Rightarrow> lzma_seq) \<Rightarrow> (lzma_run \<Rightarrow> lzma_turn option) \<Rightarrow> len_seq \<Rightarrow> lzma_run
     \<Rightarrow> lzma_turn option" where
  "len_decode in_buf in_size ref seq k LEN_CHOICE run =
     run_bit in_buf in_size (seq LEN_CHOICE) (Some (ref L_choice)) run (\<lambda>bit run.
       Some (Next (seq (if bit then LEN_CHOICE2 else LEN_LOW 0)) run))"
| "len_decode in_buf in_size ref seq k (LEN_LOW i) run =
     run_bit_symbol in_buf in_size (seq (LEN_LOW i)) (Some (ref (L_low (unat (ru_pos_state run)) (unat (l1_symbol run))))) run (\<lambda>bit run.
       if i < 2 then Some (Next (seq (LEN_LOW (i + 1))) run)
       else k (run\<lparr>l1_len := l1_symbol run - LEN_LOW_SYMBOLS + MATCH_LEN_MIN\<rparr>))"
| "len_decode in_buf in_size ref seq k LEN_CHOICE2 run =
     run_bit in_buf in_size (seq LEN_CHOICE2) (Some (ref L_choice2)) run (\<lambda>bit run.
       Some (Next (seq (if bit then LEN_HIGH 0 else LEN_MID 0)) run))"
| "len_decode in_buf in_size ref seq k (LEN_MID i) run =
     run_bit_symbol in_buf in_size (seq (LEN_MID i)) (Some (ref (L_mid (unat (ru_pos_state run)) (unat (l1_symbol run))))) run (\<lambda>bit run.
       if i < 2 then Some (Next (seq (LEN_MID (i + 1))) run)
       else k (run\<lparr>l1_len := l1_symbol run - LEN_MID_SYMBOLS + MATCH_LEN_MIN + LEN_LOW_SYMBOLS\<rparr>))"
| "len_decode in_buf in_size ref seq k (LEN_HIGH i) run =
     run_bit_symbol in_buf in_size (seq (LEN_HIGH i)) (Some (ref (L_high (unat (l1_symbol run))))) run (\<lambda>bit run.
       if i < 7 then Some (Next (seq (LEN_HIGH (i + 1))) run)
       else k (run\<lparr>l1_len := l1_symbol run - LEN_HIGH_SYMBOLS + MATCH_LEN_MIN + LEN_LOW_SYMBOLS + LEN_MID_SYMBOLS\<rparr>))"

text \<open>After \<open>len_decode\<close> for the length of a match.\<close>

definition lzma_match_len_done :: "lzma_run \<Rightarrow> lzma_turn option" where
  "lzma_match_len_done run =
     Some (Next (SEQ_DIST_SLOT 0) (run\<lparr>l1_probs := Probs_dist_slot (unat (get_dist_state (l1_len run))), l1_symbol := 1\<rparr>))"

text \<open>The check of a distance that was decoded.\<close>

definition lzma_validate_distance :: "lzma_run \<Rightarrow> lzma_turn option" where
  "lzma_validate_distance run =
     Some (if \<not> dict_is_distance_valid (ru_dict run) (l1_rep0 run) then Leave LZMA_DATA_ERROR run else Next SEQ_COPY run)"

definition lzma_dist_slot_done :: "lzma_run \<Rightarrow> lzma_turn option" where
  "lzma_dist_slot_done run =
     (let symbol = l1_symbol run - DIST_SLOTS;
          run = run\<lparr>l1_symbol := symbol\<rparr>
      in if symbol < DIST_MODEL_START then lzma_validate_distance (run\<lparr>l1_rep0 := symbol\<rparr>)
         else
           (let limit = drop_bit 1 symbol - 1;
                rep0 = 2 + (symbol AND 1)
            in if symbol < DIST_MODEL_END
               then
                 (let rep0 = push_bit (unat limit) rep0
                  in Some (Next SEQ_DIST_MODEL (run\<lparr>l1_limit := limit, l1_rep0 := rep0,
                       l1_probs := Probs_pos_special (int (unat rep0) - int (unat symbol) - 1), l1_symbol := 1, l1_offset := 0\<rparr>)))
               else Some (Next SEQ_DIRECT (run\<lparr>l1_limit := limit - of_nat ALIGN_BITS, l1_rep0 := rep0\<rparr>))))"

definition lzma_dist_slot :: "u8 list \<Rightarrow> nat \<Rightarrow> nat \<Rightarrow> lzma_run \<Rightarrow> lzma_turn option" where
  "lzma_dist_slot in_buf in_size i run =
     run_bit_symbol in_buf in_size (SEQ_DIST_SLOT i) (probs_at (l1_probs run) (unat (l1_symbol run))) run (\<lambda>bit run.
       if i < 5 then Some (Next (SEQ_DIST_SLOT (i + 1)) run) else lzma_dist_slot_done run)"

text \<open>The \<open>switch (limit)\<close> at \<open>SEQ_DIST_MODEL\<close>: each of its cases falls through to the next one with \<open>limit\<close> reduced, so
  going back to the label is the same.\<close>

definition lzma_dist_model :: "u8 list \<Rightarrow> nat \<Rightarrow> lzma_run \<Rightarrow> lzma_turn option" where
  "lzma_dist_model in_buf in_size run =
     (let ref = probs_at (l1_probs run) (unat (l1_symbol run));
          add = (if l1_limit run = 5 then 1 else push_bit (unat (l1_offset run)) 1)
      in if l1_limit run \<in> {2, 3, 4, 5}
         then run_bit_symbol in_buf in_size SEQ_DIST_MODEL ref run (\<lambda>bit run.
                Some (Next SEQ_DIST_MODEL
                  (run\<lparr>l1_rep0 := l1_rep0 run + (if bit then add else 0), l1_offset := l1_offset run + 1, l1_limit := l1_limit run - 1\<rparr>)))
         else if l1_limit run = 1
         then run_bit in_buf in_size SEQ_DIST_MODEL ref run (\<lambda>bit run.
                lzma_validate_distance (run\<lparr>l1_rep0 := l1_rep0 run + (if bit then add else 0)\<rparr>))
         else lzma_validate_distance run)"

definition lzma_direct :: "u8 list \<Rightarrow> nat \<Rightarrow> lzma_run \<Rightarrow> lzma_turn option" where
  "lzma_direct in_buf in_size run =
     run_normalize in_buf in_size SEQ_DIRECT run (\<lambda>run.
       let (rc, rep0) = rc_direct (l1_rc run) (l1_rep0 run);
           limit = l1_limit run - 1;
           run = run\<lparr>l1_rc := rc, l1_rep0 := rep0, l1_limit := limit\<rparr>
       in if 0 < limit then Some (Next SEQ_DIRECT run)
          else Some (Next (SEQ_ALIGN 0) (run\<lparr>l1_rep0 := push_bit ALIGN_BITS rep0, l1_symbol := 1\<rparr>)))"

text \<open>After the last of the four bits.\<close>

definition lzma_align_done :: "lzma_run \<Rightarrow> lzma_turn option" where
  "lzma_align_done run =
     (if l1_rep0 run = 0xFFFFFFFF
      then if l1_uncompressed_size run \<noteq> LZMA_VLI_UNKNOWN then Some (Leave LZMA_DATA_ERROR run)
           else Some (Next SEQ_EOPM run)
      else lzma_validate_distance run)"

definition lzma_align :: "u8 list \<Rightarrow> nat \<Rightarrow> nat \<Rightarrow> lzma_run \<Rightarrow> lzma_turn option" where
  "lzma_align in_buf in_size i run =
     (let ref = Some (P_pos_align (unat (l1_symbol run)))
      in if i < 3
         then run_bit_symbol in_buf in_size (SEQ_ALIGN i) ref run (\<lambda>bit run.
                Some (Next (SEQ_ALIGN (i + 1)) (run\<lparr>l1_rep0 := l1_rep0 run + (if bit then push_bit i 1 else 0)\<rparr>)))
         else run_bit in_buf in_size (SEQ_ALIGN i) ref run (\<lambda>bit run.
                lzma_align_done (run\<lparr>l1_rep0 := l1_rep0 run + (if bit then 8 else 0)\<rparr>)))"

definition lzma_eopm :: "u8 list \<Rightarrow> nat \<Rightarrow> lzma_run \<Rightarrow> lzma_turn option" where
  "lzma_eopm in_buf in_size run = run_normalize in_buf in_size SEQ_EOPM run (\<lambda>run. Some (Leave LZMA_STREAM_END run))"

definition lzma_is_rep0 :: "u8 list \<Rightarrow> nat \<Rightarrow> lzma_run \<Rightarrow> lzma_turn option" where
  "lzma_is_rep0 in_buf in_size run =
     run_bit in_buf in_size SEQ_IS_REP0 (Some (P_is_rep0 (l1_state run))) run (\<lambda>bit run.
       Some (Next (if bit then SEQ_IS_REP1 else SEQ_IS_REP0_LONG) run))"

text \<open>Before \<open>len_decode\<close> for the length of a repeated match.\<close>

definition lzma_long_rep :: "lzma_run \<Rightarrow> lzma_turn option" where
  "lzma_long_rep run = Some (Next (SEQ_REP_LEN LEN_CHOICE) (run\<lparr>l1_state := update_long_rep (l1_state run), l1_symbol := 1\<rparr>))"

definition lzma_is_rep0_long :: "u8 list \<Rightarrow> nat \<Rightarrow> lzma_run \<Rightarrow> lzma_turn option" where
  "lzma_is_rep0_long in_buf in_size run =
     run_bit in_buf in_size SEQ_IS_REP0_LONG (Some (P_is_rep0_long (l1_state run) (unat (ru_pos_state run)))) run (\<lambda>bit run.
       if \<not> bit then Some (Next SEQ_SHORTREP (run\<lparr>l1_state := update_short_rep (l1_state run)\<rparr>)) else lzma_long_rep run)"

definition lzma_shortrep :: "lzma_run \<Rightarrow> lzma_turn option" where
  "lzma_shortrep run =
     (case Option.bind (dict_get (ru_dict run) (l1_rep0 run)) (dict_put (ru_dict run)) of
        None \<Rightarrow> None
      | Some (True, dict) \<Rightarrow> Some (Leave LZMA_OK (run\<lparr>l1_sequence := SEQ_SHORTREP, ru_dict := dict\<rparr>))
      | Some (False, dict) \<Rightarrow> Some (lzma_continue (run\<lparr>ru_dict := dict\<rparr>)))"

definition lzma_is_rep1 :: "u8 list \<Rightarrow> nat \<Rightarrow> lzma_run \<Rightarrow> lzma_turn option" where
  "lzma_is_rep1 in_buf in_size run =
     run_bit in_buf in_size SEQ_IS_REP1 (Some (P_is_rep1 (l1_state run))) run (\<lambda>bit run.
       if \<not> bit then lzma_long_rep (run\<lparr>l1_rep1 := l1_rep0 run, l1_rep0 := l1_rep1 run\<rparr>) else Some (Next SEQ_IS_REP2 run))"

definition lzma_is_rep2 :: "u8 list \<Rightarrow> nat \<Rightarrow> lzma_run \<Rightarrow> lzma_turn option" where
  "lzma_is_rep2 in_buf in_size run =
     run_bit in_buf in_size SEQ_IS_REP2 (Some (P_is_rep2 (l1_state run))) run (\<lambda>bit run.
       lzma_long_rep
         (if \<not> bit then run\<lparr>l1_rep2 := l1_rep1 run, l1_rep1 := l1_rep0 run, l1_rep0 := l1_rep2 run\<rparr>
          else run\<lparr>l1_rep3 := l1_rep2 run, l1_rep2 := l1_rep1 run, l1_rep1 := l1_rep0 run, l1_rep0 := l1_rep3 run\<rparr>))"

definition lzma_copy :: "lzma_run \<Rightarrow> lzma_turn option" where
  "lzma_copy run =
     (case dict_repeat (ru_dict run) (l1_rep0 run) (l1_len run) of
        None \<Rightarrow> None
      | Some (True, dict, len) \<Rightarrow> Some (Leave LZMA_OK (run\<lparr>l1_sequence := SEQ_COPY, ru_dict := dict, l1_len := len\<rparr>))
      | Some (False, dict, len) \<Rightarrow> Some (lzma_continue (run\<lparr>ru_dict := dict, l1_len := len\<rparr>)))"

fun lzma_step :: "u8 list \<Rightarrow> nat \<Rightarrow> bool \<Rightarrow> lzma_seq \<Rightarrow> lzma_run \<Rightarrow> lzma_turn option" where
  "lzma_step in_buf in_size no_eopm SEQ_NORMALIZE run = lzma_is_match in_buf in_size no_eopm run"
| "lzma_step in_buf in_size no_eopm SEQ_IS_MATCH run = lzma_is_match in_buf in_size no_eopm run"
| "lzma_step in_buf in_size no_eopm (SEQ_LITERAL i) run = lzma_literal in_buf in_size i run"
| "lzma_step in_buf in_size no_eopm (SEQ_LITERAL_MATCHED i) run = lzma_literal_matched in_buf in_size i run"
| "lzma_step in_buf in_size no_eopm SEQ_LITERAL_WRITE run = lzma_literal_write run"
| "lzma_step in_buf in_size no_eopm SEQ_IS_REP run = lzma_is_rep in_buf in_size run"
| "lzma_step in_buf in_size no_eopm (SEQ_MATCH_LEN l) run = len_decode in_buf in_size P_match_len SEQ_MATCH_LEN lzma_match_len_done l run"
| "lzma_step in_buf in_size no_eopm (SEQ_DIST_SLOT i) run = lzma_dist_slot in_buf in_size i run"
| "lzma_step in_buf in_size no_eopm SEQ_DIST_MODEL run = lzma_dist_model in_buf in_size run"
| "lzma_step in_buf in_size no_eopm SEQ_DIRECT run = lzma_direct in_buf in_size run"
| "lzma_step in_buf in_size no_eopm (SEQ_ALIGN i) run = lzma_align in_buf in_size i run"
| "lzma_step in_buf in_size no_eopm SEQ_EOPM run = lzma_eopm in_buf in_size run"
| "lzma_step in_buf in_size no_eopm SEQ_IS_REP0 run = lzma_is_rep0 in_buf in_size run"
| "lzma_step in_buf in_size no_eopm SEQ_SHORTREP run = lzma_shortrep run"
| "lzma_step in_buf in_size no_eopm SEQ_IS_REP0_LONG run = lzma_is_rep0_long in_buf in_size run"
| "lzma_step in_buf in_size no_eopm SEQ_IS_REP1 run = lzma_is_rep1 in_buf in_size run"
| "lzma_step in_buf in_size no_eopm SEQ_IS_REP2 run = lzma_is_rep2 in_buf in_size run"
| "lzma_step in_buf in_size no_eopm (SEQ_REP_LEN l) run = len_decode in_buf in_size P_rep_len SEQ_REP_LEN (\<lambda>run. Some (Next SEQ_COPY run)) l run"
| "lzma_step in_buf in_size no_eopm SEQ_COPY run = lzma_copy run"

partial_function (option) lzma_loop :: "u8 list \<Rightarrow> nat \<Rightarrow> bool \<Rightarrow> lzma_seq \<Rightarrow> lzma_run \<Rightarrow> (lzma_ret \<times> lzma_run) option" where
  "lzma_loop in_buf in_size no_eopm seq run =
     Option.bind (lzma_step in_buf in_size no_eopm seq run) (\<lambda>turn.
       case turn of
         Next seq run \<Rightarrow> lzma_loop in_buf in_size no_eopm seq run
       | Leave ret run \<Rightarrow> Some (ret, run))"

subsection \<open>The functions\<close>

text \<open>The code from \<open>out\<close> on.\<close>

definition lzma_out :: "lzma_dict \<Rightarrow> lzma_ret \<times> lzma_run \<Rightarrow> lzma_ret \<times> lzma1_coder \<times> lzma_dict \<times> nat" where
  "lzma_out dictptr res =
     (let (ret, run) = res;
          dict = ru_dict run;
          coder = lzma1_coder.truncate run;
          (ret, coder) =
            (if l1_uncompressed_size coder \<noteq> LZMA_VLI_UNKNOWN
             then
               (let size = l1_uncompressed_size coder - of_nat (di_pos dict - di_pos dictptr)
                in (if size = 0 \<and> ret = LZMA_OK \<and> l1_sequence coder \<noteq> SEQ_NORMALIZE
                    then if l1_sequence coder = SEQ_IS_MATCH then LZMA_STREAM_END else LZMA_DATA_ERROR
                    else ret, coder\<lparr>l1_uncompressed_size := size\<rparr>))
             else (ret, coder));
          (ret, coder) =
            (if ret = LZMA_STREAM_END
             then (if \<not> rc_is_finished (l1_rc coder) then LZMA_DATA_ERROR else ret, coder\<lparr>l1_rc := rc_reset\<rparr>)
             else (ret, coder))
      in (ret, coder, dictptr\<lparr>di_buf := di_buf dict, di_pos := di_pos dict, di_full := di_full dict\<rparr>, ru_in_pos run))"

definition lzma_decode :: "lzma1_coder \<Rightarrow> lzma_dict \<Rightarrow> u8 list \<Rightarrow> nat \<Rightarrow> nat \<Rightarrow> (lzma_ret \<times> lzma1_coder \<times> lzma_dict \<times> nat) option" where
  "lzma_decode coder dictptr in_buf in_pos in_size =
     (case rc_read_init (l1_rc coder) in_buf in_pos in_size of
        None \<Rightarrow> None
      | Some (ret, rc, in_pos) \<Rightarrow>
          (let coder = coder\<lparr>l1_rc := rc\<rparr>
           in if ret \<noteq> LZMA_STREAM_END then Some (ret, coder, dictptr, in_pos)
              else
                (let no_eopm = (l1_uncompressed_size coder \<noteq> LZMA_VLI_UNKNOWN);
                     dict = (if no_eopm \<and> unat (l1_uncompressed_size coder) < di_limit dictptr - di_pos dictptr
                             then dictptr\<lparr>di_limit := di_pos dictptr + unat (l1_uncompressed_size coder)\<rparr> else dictptr);
                     run = lzma1_coder.extend coder
                       \<lparr>ru_dict = dict, ru_in_pos = in_pos, ru_pos_state = of_nat (di_pos dict) AND l1_pos_mask coder\<rparr>
                 in map_option (lzma_out dictptr) (lzma_loop in_buf in_size no_eopm (l1_sequence coder) run))))"

definition lzma_decoder_uncompressed :: "lzma1_coder \<Rightarrow> u64 \<Rightarrow> lzma1_coder" where
  "lzma_decoder_uncompressed coder uncompressed_size = coder\<lparr>l1_uncompressed_size := uncompressed_size\<rparr>"

text \<open>\<open>bittree_reset\<close>, and the loops that reset a prefix of an array or of its rows.\<close>

definition reset_first :: "nat \<Rightarrow> probability list \<Rightarrow> probability list" where
  "reset_first n row = replicate n bit_reset @ drop n row"

definition bittree_reset :: "nat \<Rightarrow> probability list \<Rightarrow> probability list" where
  "bittree_reset bit_levels probs = reset_first (2 ^ bit_levels) probs"

definition map_first :: "nat \<Rightarrow> ('a \<Rightarrow> 'a) \<Rightarrow> 'a list \<Rightarrow> 'a list" where
  "map_first n f rows = map f (take n rows) @ drop n rows"

definition literal_init :: "probability list list \<Rightarrow> u32 \<Rightarrow> u32 \<Rightarrow> probability list list" where
  "literal_init probs lc lp = map_first (2 ^ unat (lc + lp)) (reset_first LITERAL_CODER_SIZE) probs"

definition length_reset :: "nat \<Rightarrow> lzma_length_decoder \<Rightarrow> lzma_length_decoder" where
  "length_reset num_pos_states ld =
     ld\<lparr>ld_choice := bit_reset, ld_choice2 := bit_reset,
        ld_low := map_first num_pos_states (bittree_reset LEN_LOW_BITS) (ld_low ld),
        ld_mid := map_first num_pos_states (bittree_reset LEN_MID_BITS) (ld_mid ld),
        ld_high := bittree_reset LEN_HIGH_BITS (ld_high ld)\<rparr>"

definition tables_reset :: "lzma_probs \<Rightarrow> u32 \<Rightarrow> u32 \<Rightarrow> u32 \<Rightarrow> lzma_probs" where
  "tables_reset t lc lp pb =
     (let num_pos_states = 2 ^ unat pb
      in \<lparr>pr_literal = literal_init (pr_literal t) lc lp,
          pr_is_match = map_first STATES (reset_first num_pos_states) (pr_is_match t),
          pr_is_rep = reset_first STATES (pr_is_rep t),
          pr_is_rep0 = reset_first STATES (pr_is_rep0 t),
          pr_is_rep1 = reset_first STATES (pr_is_rep1 t),
          pr_is_rep2 = reset_first STATES (pr_is_rep2 t),
          pr_is_rep0_long = map_first STATES (reset_first num_pos_states) (pr_is_rep0_long t),
          pr_dist_slot = map_first (unat DIST_STATES) (bittree_reset DIST_SLOT_BITS) (pr_dist_slot t),
          pr_pos_special = reset_first (unat (FULL_DISTANCES - DIST_MODEL_END)) (pr_pos_special t),
          pr_pos_align = bittree_reset ALIGN_BITS (pr_pos_align t),
          pr_match_len_decoder = length_reset num_pos_states (pr_match_len_decoder t),
          pr_rep_len_decoder = length_reset num_pos_states (pr_rep_len_decoder t)\<rparr>)"

definition lzma_decoder_reset :: "lzma1_coder \<Rightarrow> lzma_options_lzma \<Rightarrow> lzma1_coder" where
  "lzma_decoder_reset coder options =
     coder\<lparr>l1_tables := tables_reset (l1_tables coder) (ol_lc options) (ol_lp options) (ol_pb options),
           l1_rc := rc_reset,
           l1_state := STATE_LIT_LIT, l1_rep0 := 0, l1_rep1 := 0, l1_rep2 := 0, l1_rep3 := 0,
           l1_pos_mask := push_bit (unat (ol_pb options)) 1 - 1,
           l1_literal_context_bits := ol_lc options,
           l1_literal_pos_mask := push_bit (unat (ol_lp options)) 1 - 1,
           l1_sequence := SEQ_IS_MATCH, l1_probs := Probs_null, l1_symbol := 0, l1_limit := 0, l1_offset := 0, l1_len := 0\<rparr>"

end
