(* ===== verification/Lzma_Safety.thy ===== *)
theory Lzma_Safety
  imports Lzma_Decoder
begin

text \<open>
  The LZMA decoder on arbitrary input. The invariant says for every label of the loop what holds of the variables there;
  every step keeps it, and none leaves an array, the dictionary or the input. From a label the step makes progress in
  the dictionary or moves to a label with a smaller rank: the loop ends.
\<close>

section \<open>The probabilities\<close>

text \<open>The elements that a coder with \<open>npos\<close> position states and \<open>nlit\<close> literal coders uses. Only these are set by
  \<open>lzma_decoder_reset\<close>.\<close>

fun len_used :: "nat \<Rightarrow> len_ref \<Rightarrow> bool" where
  "len_used npos L_choice \<longleftrightarrow> True"
| "len_used npos L_choice2 \<longleftrightarrow> True"
| "len_used npos (L_low i j) \<longleftrightarrow> i < npos \<and> j < 8"
| "len_used npos (L_mid i j) \<longleftrightarrow> i < npos \<and> j < 8"
| "len_used npos (L_high j) \<longleftrightarrow> j < 256"

fun ref_used :: "nat \<Rightarrow> nat \<Rightarrow> prob_ref \<Rightarrow> bool" where
  "ref_used npos nlit (P_literal i j) \<longleftrightarrow> i < nlit \<and> j < LITERAL_CODER_SIZE"
| "ref_used npos nlit (P_is_match i j) \<longleftrightarrow> i < STATES \<and> j < npos"
| "ref_used npos nlit (P_is_rep i) \<longleftrightarrow> i < STATES"
| "ref_used npos nlit (P_is_rep0 i) \<longleftrightarrow> i < STATES"
| "ref_used npos nlit (P_is_rep1 i) \<longleftrightarrow> i < STATES"
| "ref_used npos nlit (P_is_rep2 i) \<longleftrightarrow> i < STATES"
| "ref_used npos nlit (P_is_rep0_long i j) \<longleftrightarrow> i < STATES \<and> j < npos"
| "ref_used npos nlit (P_dist_slot i j) \<longleftrightarrow> i < 4 \<and> j < 64"
| "ref_used npos nlit (P_pos_special i) \<longleftrightarrow> i < 114"
| "ref_used npos nlit (P_pos_align i) \<longleftrightarrow> i < 16"
| "ref_used npos nlit (P_match_len r) \<longleftrightarrow> len_used npos r"
| "ref_used npos nlit (P_rep_len r) \<longleftrightarrow> len_used npos r"

text \<open>The sizes of the arrays, which their C types fix.\<close>

definition sized2 :: "nat \<Rightarrow> nat \<Rightarrow> 'a list list \<Rightarrow> bool" where
  "sized2 m n t \<longleftrightarrow> map length t = replicate m n"

definition length_sized :: "lzma_length_decoder \<Rightarrow> bool" where
  "length_sized ld \<longleftrightarrow> sized2 POS_STATES_MAX 8 (ld_low ld) \<and> sized2 POS_STATES_MAX 8 (ld_mid ld) \<and> length (ld_high ld) = 256"

definition tables_sized :: "lzma_probs \<Rightarrow> bool" where
  "tables_sized t \<longleftrightarrow>
     sized2 LITERAL_CODERS_MAX LITERAL_CODER_SIZE (pr_literal t) \<and> sized2 STATES POS_STATES_MAX (pr_is_match t)
     \<and> length (pr_is_rep t) = STATES \<and> length (pr_is_rep0 t) = STATES \<and> length (pr_is_rep1 t) = STATES
     \<and> length (pr_is_rep2 t) = STATES \<and> sized2 STATES POS_STATES_MAX (pr_is_rep0_long t) \<and> sized2 4 64 (pr_dist_slot t)
     \<and> length (pr_pos_special t) = 114 \<and> length (pr_pos_align t) = 16
     \<and> length_sized (pr_match_len_decoder t) \<and> length_sized (pr_rep_len_decoder t)"

definition probs_ok :: "nat \<Rightarrow> nat \<Rightarrow> lzma_probs \<Rightarrow> bool" where
  "probs_ok npos nlit t \<longleftrightarrow>
     tables_sized t \<and> (\<forall>ref. ref_used npos nlit ref \<longrightarrow> (\<exists>p. prob_get t ref = Some p \<and> prob_ok p))"

lemma at1_update: "at1 (xs[i := x]) j = (if i = j \<and> j < length xs then Some x else at1 xs j)"
  by (simp add: at1_def)

lemma at2_upd2: "at2 (upd2 t i j x) a b = at2 t a b \<or> at2 (upd2 t i j x) a b = Some x"
  by (cases "i = a"; cases "j = b") (auto simp: at2_def upd2_def at1_def)

lemma at1_update_or: "at1 (xs[i := x]) j = at1 xs j \<or> at1 (xs[i := x]) j = Some x"
  by (simp add: at1_update)

lemma len_get_set: "len_get (len_set ld r p) r' = len_get ld r' \<or> len_get (len_set ld r p) r' = Some p"
  by (cases r; cases r') (simp_all add: at1_update at2_upd2)

lemma prob_get_set: "prob_get (prob_set t r p) r' = prob_get t r' \<or> prob_get (prob_set t r p) r' = Some p"
  by (cases r; cases r') (simp_all add: at1_update at2_upd2 len_get_set)

lemma sized2_upd2: "sized2 m n (upd2 t i j x) = sized2 m n t"
proof -
  have "map length (upd2 t i j x) = (map length t)[i := length (t ! i)]" by (simp add: upd2_def map_update)
  also have "\<dots> = map length t" using list_update_id [of "map length t" i] by (cases "i < length t") (simp_all add: not_less list_update_beyond)
  finally show ?thesis by (simp add: sized2_def)
qed

lemma length_sized_set: "length_sized (len_set ld r p) = length_sized ld"
  by (cases r) (auto simp: length_sized_def sized2_upd2)

lemma tables_sized_set: "tables_sized (prob_set t r p) = tables_sized t"
  by (cases r) (auto simp: tables_sized_def sized2_upd2 length_sized_set)

lemma probs_ok_set: "probs_ok npos nlit t \<Longrightarrow> prob_ok p \<Longrightarrow> probs_ok npos nlit (prob_set t r p)"
  unfolding probs_ok_def using prob_get_set [of t r p] by (metis tables_sized_set)

lemma probs_okE:
  assumes "probs_ok npos nlit t" "ref_used npos nlit r"
  obtains p where "prob_get t r = Some p" "prob_ok p"
  using assms by (auto simp: probs_ok_def)

section \<open>The invariant\<close>

definition lzma_static :: "'a lzma1_coder_scheme \<Rightarrow> bool" where
  "lzma_static c \<longleftrightarrow>
     unat (l1_pos_mask c) < POS_STATES_MAX \<and> unat (l1_literal_context_bits c) \<le> 4 \<and> unat (l1_literal_pos_mask c) \<le> 15
     \<and> (unat (l1_literal_pos_mask c) + 1) * 2 ^ unat (l1_literal_context_bits c) \<le> LITERAL_CODERS_MAX"

abbreviation num_pos :: "'a lzma1_coder_scheme \<Rightarrow> nat" where
  "num_pos c \<equiv> unat (l1_pos_mask c) + 1"

abbreviation num_lit :: "'a lzma1_coder_scheme \<Rightarrow> nat" where
  "num_lit c \<equiv> (unat (l1_literal_pos_mask c) + 1) * 2 ^ unat (l1_literal_context_bits c)"

definition rep_ok :: "nat \<Rightarrow> u32 \<Rightarrow> bool" where
  "rep_ok full r \<longleftrightarrow> r = 0 \<or> (unat r < full \<and> r \<noteq> 0xFFFFFFFF)"

text \<open>What holds of the coder at every label, when the dictionary holds \<open>full\<close> bytes.\<close>

definition coder_ok :: "nat \<Rightarrow> 'a lzma1_coder_scheme \<Rightarrow> bool" where
  "coder_ok full c \<longleftrightarrow>
     lzma_static c \<and> l1_state c < STATES \<and> probs_ok (num_pos c) (num_lit c) (l1_tables c) \<and> range_ok (l1_rc c)
     \<and> rep_ok full (l1_rep1 c) \<and> rep_ok full (l1_rep2 c) \<and> rep_ok full (l1_rep3 c)"

definition symbol_ok :: "nat \<Rightarrow> u32 \<Rightarrow> bool" where
  "symbol_ok i symbol \<longleftrightarrow> 2 ^ i \<le> unat symbol \<and> unat symbol < 2 ^ Suc i"

fun len_seq_ok :: "len_seq \<Rightarrow> u32 \<Rightarrow> bool" where
  "len_seq_ok LEN_CHOICE symbol \<longleftrightarrow> symbol = 1"
| "len_seq_ok LEN_CHOICE2 symbol \<longleftrightarrow> symbol = 1"
| "len_seq_ok (LEN_LOW i) symbol \<longleftrightarrow> i < 3 \<and> symbol_ok i symbol"
| "len_seq_ok (LEN_MID i) symbol \<longleftrightarrow> i < 3 \<and> symbol_ok i symbol"
| "len_seq_ok (LEN_HIGH i) symbol \<longleftrightarrow> i < 8 \<and> symbol_ok i symbol"

definition len_ok :: "u32 \<Rightarrow> bool" where
  "len_ok len \<longleftrightarrow> 1 \<le> unat len \<and> unat len \<le> unat MATCH_LEN_MAX"

text \<open>The low bits of a distance with a slot from 4 to 13: \<open>limit\<close> bits are missing.\<close>

definition dist_model_ok :: "'a lzma1_coder_scheme \<Rightarrow> bool" where
  "dist_model_ok c \<longleftrightarrow>
     (\<exists>slot. 4 \<le> slot \<and> slot < 14 \<and> 1 \<le> unat (l1_limit c) \<and> unat (l1_offset c) + unat (l1_limit c) = slot div 2 - 1
        \<and> l1_probs c = Probs_pos_special (int ((2 + slot mod 2) * 2 ^ (slot div 2 - 1)) - int slot - 1)
        \<and> symbol_ok (unat (l1_offset c)) (l1_symbol c) \<and> unat (l1_rep0 c) < 96 + 2 ^ unat (l1_offset c))"

fun seq_ok :: "nat \<Rightarrow> lzma_seq \<Rightarrow> 'a lzma1_coder_scheme \<Rightarrow> bool" where
  "seq_ok full SEQ_NORMALIZE c \<longleftrightarrow> rep_ok full (l1_rep0 c)"
| "seq_ok full SEQ_IS_MATCH c \<longleftrightarrow> rep_ok full (l1_rep0 c)"
| "seq_ok full (SEQ_LITERAL i) c \<longleftrightarrow>
     i < 8 \<and> rep_ok full (l1_rep0 c) \<and> symbol_ok i (l1_symbol c) \<and> (\<exists>n<num_lit c. l1_probs c = Probs_literal n)"
| "seq_ok full (SEQ_LITERAL_MATCHED i) c \<longleftrightarrow>
     i < 8 \<and> rep_ok full (l1_rep0 c) \<and> symbol_ok i (l1_symbol c) \<and> (\<exists>n<num_lit c. l1_probs c = Probs_literal n) \<and> l1_offset c \<in> {0, 0x100}"
| "seq_ok full SEQ_LITERAL_WRITE c \<longleftrightarrow> rep_ok full (l1_rep0 c)"
| "seq_ok full SEQ_IS_REP c \<longleftrightarrow> rep_ok full (l1_rep0 c)"
| "seq_ok full (SEQ_MATCH_LEN l) c \<longleftrightarrow> rep_ok full (l1_rep0 c) \<and> len_seq_ok l (l1_symbol c)"
| "seq_ok full (SEQ_DIST_SLOT i) c \<longleftrightarrow>
     i < 6 \<and> symbol_ok i (l1_symbol c) \<and> (\<exists>n<4. l1_probs c = Probs_dist_slot n) \<and> len_ok (l1_len c)"
| "seq_ok full SEQ_DIST_MODEL c \<longleftrightarrow> dist_model_ok c \<and> len_ok (l1_len c)"
| "seq_ok full SEQ_DIRECT c \<longleftrightarrow> 1 \<le> unat (l1_limit c) \<and> unat (l1_limit c) \<le> 26 \<and> len_ok (l1_len c)"
| "seq_ok full (SEQ_ALIGN i) c \<longleftrightarrow> i < 4 \<and> symbol_ok i (l1_symbol c) \<and> len_ok (l1_len c)"
| "seq_ok full SEQ_EOPM c \<longleftrightarrow> l1_uncompressed_size c = LZMA_VLI_UNKNOWN"
| "seq_ok full SEQ_IS_REP0 c \<longleftrightarrow> rep_ok full (l1_rep0 c) \<and> 0 < full"
| "seq_ok full SEQ_SHORTREP c \<longleftrightarrow> rep_ok full (l1_rep0 c) \<and> 0 < full"
| "seq_ok full SEQ_IS_REP0_LONG c \<longleftrightarrow> rep_ok full (l1_rep0 c) \<and> 0 < full"
| "seq_ok full SEQ_IS_REP1 c \<longleftrightarrow> rep_ok full (l1_rep0 c) \<and> 0 < full"
| "seq_ok full SEQ_IS_REP2 c \<longleftrightarrow> rep_ok full (l1_rep0 c) \<and> 0 < full"
| "seq_ok full (SEQ_REP_LEN l) c \<longleftrightarrow> rep_ok full (l1_rep0 c) \<and> 0 < full \<and> len_seq_ok l (l1_symbol c)"
| "seq_ok full SEQ_COPY c \<longleftrightarrow> unat (l1_rep0 c) < full \<and> l1_rep0 c \<noteq> 0xFFFFFFFF \<and> len_ok (l1_len c)"

text \<open>The rank of a label: the labels that can still come before a byte is written.\<close>

fun len_rank :: "len_seq \<Rightarrow> nat" where
  "len_rank LEN_CHOICE = 12"
| "len_rank LEN_CHOICE2 = 11"
| "len_rank (LEN_LOW i) = 10 - i"
| "len_rank (LEN_MID i) = 10 - i"
| "len_rank (LEN_HIGH i) = 10 - i"

fun seq_rank :: "lzma_seq \<Rightarrow> 'a lzma1_coder_scheme \<Rightarrow> nat" where
  "seq_rank SEQ_NORMALIZE c = 71"
| "seq_rank SEQ_IS_MATCH c = 71"
| "seq_rank (SEQ_LITERAL i) c = 10 - i"
| "seq_rank (SEQ_LITERAL_MATCHED i) c = 10 - i"
| "seq_rank SEQ_LITERAL_WRITE c = 0"
| "seq_rank SEQ_IS_REP c = 70"
| "seq_rank (SEQ_MATCH_LEN l) c = 50 + len_rank l"
| "seq_rank (SEQ_DIST_SLOT i) c = 50 - i"
| "seq_rank SEQ_DIST_MODEL c = unat (l1_limit c)"
| "seq_rank SEQ_DIRECT c = 10 + unat (l1_limit c)"
| "seq_rank (SEQ_ALIGN i) c = 10 - i"
| "seq_rank SEQ_EOPM c = 0"
| "seq_rank SEQ_IS_REP0 c = 24"
| "seq_rank SEQ_SHORTREP c = 0"
| "seq_rank SEQ_IS_REP0_LONG c = 23"
| "seq_rank SEQ_IS_REP1 c = 23"
| "seq_rank SEQ_IS_REP2 c = 22"
| "seq_rank (SEQ_REP_LEN l) c = len_rank l"
| "seq_rank SEQ_COPY c = 0"

definition run_frame :: "nat \<Rightarrow> lzma_run \<Rightarrow> lzma_run \<Rightarrow> bool" where
  "run_frame in_size run run' \<longleftrightarrow>
     dict_ok (ru_dict run') \<and> dict_frame (ru_dict run) (ru_dict run') \<and> di_pos (ru_dict run) \<le> di_pos (ru_dict run')
     \<and> di_full (ru_dict run) \<le> di_full (ru_dict run') \<and> ru_in_pos run \<le> ru_in_pos run' \<and> ru_in_pos run' \<le> in_size
     \<and> l1_pos_mask run' = l1_pos_mask run \<and> l1_literal_context_bits run' = l1_literal_context_bits run
     \<and> l1_literal_pos_mask run' = l1_literal_pos_mask run \<and> l1_uncompressed_size run' = l1_uncompressed_size run"

definition run_ok :: "nat \<Rightarrow> lzma_run \<Rightarrow> bool" where
  "run_ok in_size run \<longleftrightarrow>
     dict_ok (ru_dict run) \<and> ru_in_pos run \<le> in_size \<and> coder_ok (di_full (ru_dict run)) run \<and> unat (ru_pos_state run) < num_pos run"

text \<open>A step that ends at a label keeps the invariant and makes progress. One that ends with \<open>LZMA_OK\<close> has saved a label at
  which the invariant holds, and has used up the input or filled the dictionary up to its limit.\<close>

definition turn_ok :: "nat \<Rightarrow> lzma_seq \<Rightarrow> lzma_run \<Rightarrow> lzma_turn option \<Rightarrow> bool" where
  "turn_ok in_size seq run turn =
     (case turn of
        None \<Rightarrow> False
      | Some (Next seq' run') \<Rightarrow>
          run_frame in_size run run' \<and> run_ok in_size run' \<and> seq_ok (di_full (ru_dict run')) seq' run' \<and> l1_sequence run' = l1_sequence run
          \<and> (di_pos (ru_dict run) < di_pos (ru_dict run')
             \<or> di_pos (ru_dict run') = di_pos (ru_dict run) \<and> seq_rank seq' run' < seq_rank seq run)
      | Some (Leave ret run') \<Rightarrow>
          run_frame in_size run run' \<and> ret \<in> {LZMA_OK, LZMA_STREAM_END, LZMA_DATA_ERROR}
          \<and> (ret = LZMA_OK \<longrightarrow> coder_ok (di_full (ru_dict run')) run' \<and> seq_ok (di_full (ru_dict run')) (l1_sequence run') run'
               \<and> (ru_in_pos run' = in_size \<or> di_pos (ru_dict run') = di_limit (ru_dict run') \<and> l1_sequence run' \<noteq> SEQ_NORMALIZE))
          \<and> (ret = LZMA_STREAM_END \<longrightarrow> l1_uncompressed_size run = LZMA_VLI_UNKNOWN))"

lemma seq_ok_sequence [simp]: "seq_ok d s (run\<lparr>l1_sequence := x\<rparr>) = seq_ok d s run"
  by (cases s) (simp_all add: dist_model_ok_def)

lemma dict_frame_refl [simp]: "dict_frame d d"
  by (simp add: dict_frame_def)

lemma run_normalize_ok:
  assumes "run_ok in_size run" "in_size \<le> length in_buf" "seq_ok (di_full (ru_dict run)) seq run"
    and "\<And>rc p. 2 ^ 24 \<le> unat (rc_range rc) \<Longrightarrow> ru_in_pos run \<le> p \<Longrightarrow> p \<le> in_size
      \<Longrightarrow> turn_ok in_size s run (k (run\<lparr>l1_rc := rc, ru_in_pos := p\<rparr>))"
  shows "turn_ok in_size s run (run_normalize in_buf in_size seq run k)"
proof -
  have ok: "ru_in_pos run \<le> in_size" "range_ok (l1_rc run)" using assms(1) by (auto simp: run_ok_def coder_ok_def)
  from rc_normalize_cases [OF ok(1) assms(2) ok(2)] show ?thesis
    using assms(1,3,4) by cases (auto simp: run_normalize_def turn_ok_def run_frame_def run_ok_def coder_ok_def lzma_static_def)
qed

lemma run_bit_ok:
  assumes "run_ok in_size run" "in_size \<le> length in_buf" "seq_ok (di_full (ru_dict run)) seq run"
    and "ref = Some r" "ref_used (num_pos run) (num_lit run) r"
    and "\<And>b rc t p. range_ok rc \<Longrightarrow> probs_ok (num_pos run) (num_lit run) t \<Longrightarrow> ru_in_pos run \<le> p \<Longrightarrow> p \<le> in_size
      \<Longrightarrow> turn_ok in_size s run (k b (run\<lparr>ru_in_pos := p, l1_rc := rc, l1_tables := t\<rparr>))"
  shows "turn_ok in_size s run (run_bit in_buf in_size seq ref run k)"
  unfolding run_bit_def
proof (rule run_normalize_ok [OF assms(1-3)])
  fix rc :: lzma_range_decoder and p assume rc: "2 ^ 24 \<le> unat (rc_range rc)" "ru_in_pos run \<le> p" "p \<le> in_size"
  have probs: "probs_ok (num_pos run) (num_lit run) (l1_tables run)" using assms(1) by (simp add: run_ok_def coder_ok_def)
  obtain q where q: "prob_get (l1_tables run) r = Some q" "prob_ok q" using probs_okE [OF probs assms(5)] .
  obtain b rc' q' where bit: "rc_if_0 rc q = (b, rc', q')" by (metis prod_cases3)
  note new = rc_if_0_bounds [OF q(2) rc(1) bit]
  show "turn_ok in_size s run
     (case Option.bind ref (\<lambda>ref. map_option (Pair ref) (prob_get (l1_tables (run\<lparr>l1_rc := rc, ru_in_pos := p\<rparr>)) ref)) of
        None \<Rightarrow> None
      | Some (ref, prob) \<Rightarrow>
          let (b, rc', prob) = rc_if_0 (l1_rc (run\<lparr>l1_rc := rc, ru_in_pos := p\<rparr>)) prob
          in k b (run\<lparr>l1_rc := rc, ru_in_pos := p, l1_rc := rc',
                 l1_tables := prob_set (l1_tables (run\<lparr>l1_rc := rc, ru_in_pos := p\<rparr>)) ref prob\<rparr>))"
    using assms(6) [OF new(2) probs_ok_set [OF probs new(1)] rc(2,3)] by (simp add: assms(4) q(1) bit)
qed

lemma run_bit_symbol_ok:
  assumes "run_ok in_size run" "in_size \<le> length in_buf" "seq_ok (di_full (ru_dict run)) seq run"
    and "ref = Some r" "ref_used (num_pos run) (num_lit run) r" "symbol_ok i (l1_symbol run)" "i < 30"
    and "\<And>b rc t p symbol. range_ok rc \<Longrightarrow> probs_ok (num_pos run) (num_lit run) t \<Longrightarrow> ru_in_pos run \<le> p \<Longrightarrow> p \<le> in_size
      \<Longrightarrow> symbol_ok (Suc i) symbol
      \<Longrightarrow> turn_ok in_size s run (k b (run\<lparr>ru_in_pos := p, l1_rc := rc, l1_tables := t, l1_symbol := symbol\<rparr>))"
  shows "turn_ok in_size s run (run_bit_symbol in_buf in_size seq ref run k)"
  unfolding run_bit_symbol_def
proof (rule run_bit_ok [OF assms(1-5)])
  fix b rc t p
  assume a: "range_ok rc" "probs_ok (num_pos run) (num_lit run) t" "ru_in_pos run \<le> p" "p \<le> in_size"
  let ?s = "push_bit 1 (l1_symbol run) + of_bool b"
  have "unat (l1_symbol run) * 2 + 1 < 2 ^ 32"
  proof -
    have "(2 :: nat) ^ Suc i \<le> 2 ^ 30" using assms(7) by (intro power_increasing) auto
    then show ?thesis using assms(6) by (simp add: symbol_ok_def)
  qed
  then have "unat ?s = unat (l1_symbol run) * 2 + of_bool b"
    by (cases b) (simp_all add: push_bit_eq_mult unat_word_ariths)
  then have "symbol_ok (Suc i) ?s" using assms(6) by (auto simp: symbol_ok_def)
  from assms(8) [OF a this]
  show "turn_ok in_size s run
      (k b (run\<lparr>ru_in_pos := p, l1_rc := rc, l1_tables := t,
        l1_symbol := push_bit 1 (l1_symbol (run\<lparr>ru_in_pos := p, l1_rc := rc, l1_tables := t\<rparr>)) + of_bool b\<rparr>))"
    by simp
qed

lemmas run_defs = run_ok_def coder_ok_def lzma_static_def turn_ok_def run_frame_def

section \<open>The steps\<close>

lemma next_state_ok:
  assumes "state < STATES"
  shows "\<exists>state'. at1 next_state state = Some state' \<and> state' < STATES"
proof -
  have "length next_state = STATES" "list_all (\<lambda>x. x < STATES) next_state" by (simp_all add: next_state_def state_defs)
  then show ?thesis using assms by (simp add: at1_def list_all_length)
qed

lemma dict_get_in:
  assumes "dict_ok d" "unat n < di_size d"
  obtains b where "dict_get d n = Some b"
proof -
  have "dict_get d n \<noteq> None" using assms by (auto simp: dict_get_def dict_ok_def Let_def)
  then show thesis using that by auto
qed

lemma rep_ok_size: "dict_ok d \<Longrightarrow> rep_ok (di_full d) r \<Longrightarrow> unat r < di_size d"
  by (auto simp: rep_ok_def dict_ok_def)

lemma rep_ok_full: "rep_ok full r \<Longrightarrow> 0 < full \<Longrightarrow> unat r < full \<and> r \<noteq> 0xFFFFFFFF"
  by (auto simp: rep_ok_def)

lemma literal_subcoder_ok:
  assumes "lzma_static run"
  shows "literal_subcoder (l1_literal_context_bits run) (l1_literal_pos_mask run) pos b < num_lit run"
proof -
  let ?lc = "unat (l1_literal_context_bits run)" and ?m = "l1_literal_pos_mask run"
  let ?p = "of_nat pos AND ?m" and ?b = "drop_bit (8 - ?lc) (ucast b :: u32)"
  have lc: "?lc \<le> 4" "unat ?m \<le> 15" using assms by (simp_all add: lzma_static_def)
  have p: "unat ?p \<le> unat ?m" by (metis word_and_le1 word_le_nat_alt)
  have "(2 :: nat) ^ ?lc \<le> 2 ^ 4" using lc(1) by (intro power_increasing) auto
  then have le: "unat ?p * 2 ^ ?lc \<le> unat ?m * 2 ^ ?lc" "unat ?m * 2 ^ ?lc \<le> 15 * 16"
    using p lc(2) mult_le_mono [of "unat ?m" 15 "2 ^ ?lc" 16] by auto
  have "unat (ucast b :: u32) < 2 ^ 8" using unsigned_less [of b, where 'a = nat] by (simp add: unat_ucast_mod)
  also have "(2 :: nat) ^ 8 = 2 ^ ?lc * 2 ^ (8 - ?lc)" using lc(1) by (simp flip: power_add)
  finally have b: "unat ?b < 2 ^ ?lc" by (simp add: unat_drop_bit_div less_mult_imp_div_less)
  have "?lc \<in> {0, 1, 2, 3, 4}" using lc(1) by auto
  then have "unat (2 ^ ?lc :: u32) = 2 ^ ?lc" by auto
  moreover have "unat ?p * 2 ^ ?lc < 2 ^ 32" by (rule order.strict_trans1 [OF order_trans [OF le]]) simp
  ultimately have "unat (push_bit ?lc ?p) = unat ?p * 2 ^ ?lc"
    by (simp add: push_bit_eq_mult unat_word_ariths)
  moreover have "unat ?p * 2 ^ ?lc + unat ?b < 2 ^ 32"
    using order_trans [OF le] b \<open>(2 :: nat) ^ ?lc \<le> 2 ^ 4\<close> by simp
  ultimately have "unat (push_bit ?lc ?p + ?b) = unat ?p * 2 ^ ?lc + unat ?b" by (simp add: unat_word_ariths del: push_bit_and)
  then show ?thesis using le(1) b unfolding literal_subcoder_def add_mult_distrib mult_1 by linarith
qed

lemma lzma_is_match_ok:
  assumes "run_ok in_size run" "in_size \<le> length in_buf" "seq_ok (di_full (ru_dict run)) s run" "s \<in> {SEQ_NORMALIZE, SEQ_IS_MATCH}"
  shows "turn_ok in_size s run (lzma_is_match in_buf in_size no_eopm run)"
proof (cases "no_eopm \<and> di_pos (ru_dict run) = di_limit (ru_dict run)")
  case True
  have "turn_ok in_size s run (run_normalize in_buf in_size SEQ_NORMALIZE run (\<lambda>run. Some (Leave LZMA_OK (run\<lparr>l1_sequence := SEQ_IS_MATCH\<rparr>))))"
    using assms True by (intro run_normalize_ok) (auto simp: run_defs range_ok_def)
  then show ?thesis using True by (simp add: lzma_is_match_def)
next
  case False
  have dict: "dict_ok (ru_dict run)" "lzma_static run" using assms(1) by (simp_all add: run_ok_def coder_ok_def)
  obtain b0 where b0: "dict_get (ru_dict run) 0 = Some b0" using dict_get_in [OF dict(1), of 0] dict(1) by (auto simp: dict_ok_def)
  have "rep_ok (di_full (ru_dict run)) (l1_rep0 run)" using assms(3,4) by auto
  then obtain b1 where b1: "dict_get (ru_dict run) (l1_rep0 run) = Some b1" using dict_get_in [OF dict(1) rep_ok_size [OF dict(1)]] by blast
  note lit = literal_subcoder_ok [OF dict(2), of "di_pos (ru_dict run)" b0]
  show ?thesis
    unfolding lzma_is_match_def if_not_P [OF False] using assms lit
    by (intro run_bit_ok [OF _ _ _ refl]) (auto simp: run_defs b0 b1 Let_def symbol_ok_def)
qed

lemma lzma_literal_ok:
  assumes "run_ok in_size run" "in_size \<le> length in_buf" "seq_ok (di_full (ru_dict run)) (SEQ_LITERAL i) run"
  shows "turn_ok in_size (SEQ_LITERAL i) run (lzma_literal in_buf in_size i run)"
proof -
  from assms(3) obtain n where n: "l1_probs run = Probs_literal n" "n < num_lit run" and i: "i < 8" "symbol_ok i (l1_symbol run)" by auto
  have "(2 :: nat) ^ Suc i \<le> 2 ^ 8" using i(1) by (intro power_increasing) auto
  then have used: "ref_used (num_pos run) (num_lit run) (P_literal n (unat (l1_symbol run)))"
    using n(2) i(2) by (simp add: symbol_ok_def LITERAL_CODER_SIZE_def)
  obtain state where "at1 next_state (l1_state run) = Some state" "state < STATES"
    using next_state_ok [of "l1_state run"] assms(1) by (auto simp: run_ok_def coder_ok_def)
  then show ?thesis
    unfolding lzma_literal_def using assms i n used
    by (intro run_bit_symbol_ok [where i = i]) (auto simp: run_defs lzma_literal_done_def)
qed

lemma and_256: "0x100 AND x = (if bit x 8 then 0x100 else 0)" for x :: u32
proof -
  have "2 ^ n AND x = (if bit x n then 2 ^ n else 0)" for n by (rule bit_word_eqI) (auto simp: bit_and_iff bit_exp_iff)
  from this [of 8] show ?thesis by simp
qed

lemma lzma_literal_matched_ok:
  assumes "run_ok in_size run" "in_size \<le> length in_buf" "seq_ok (di_full (ru_dict run)) (SEQ_LITERAL_MATCHED i) run"
  shows "turn_ok in_size (SEQ_LITERAL_MATCHED i) run (lzma_literal_matched in_buf in_size i run)"
proof -
  let ?mb = "l1_len run AND l1_offset run"
  from assms(3) obtain n where n: "l1_probs run = Probs_literal n" "n < num_lit run" and i: "i < 8" "symbol_ok i (l1_symbol run)"
    and off: "l1_offset run \<in> {0, 0x100}" by auto
  have "(2 :: nat) ^ Suc i \<le> 2 ^ 8" using i(1) by (intro power_increasing) auto
  then have sym: "unat (l1_symbol run) < 256" using i(2) by (simp add: symbol_ok_def)
  have le: "unat ?mb \<le> unat (l1_offset run)" "unat (l1_offset run) \<le> 256" using off by (auto simp: word_and_le1 simp flip: word_le_nat_alt)
  then have "unat (l1_offset run + ?mb + l1_symbol run) < LITERAL_CODER_SIZE"
    using sym by (simp add: unat_word_ariths LITERAL_CODER_SIZE_def)
  then have used: "ref_used (num_pos run) (num_lit run) (P_literal n (unat (l1_offset run + ?mb + l1_symbol run)))" using n(2) by simp
  have off': "l1_offset run AND x \<in> {0, 0x100}" for x using off and_256 [of x] by auto
  obtain state where "at1 next_state (l1_state run) = Some state" "state < STATES"
    using next_state_ok [of "l1_state run"] assms(1) by (auto simp: run_ok_def coder_ok_def)
  then show ?thesis
    unfolding lzma_literal_matched_def Let_def using assms i n used off'
    by (intro run_bit_symbol_ok [where i = i]) (auto simp: run_defs lzma_literal_done_def)
qed

lemma dict_ok_holds: "dict_ok d \<Longrightarrow> dict_holds d (dict_bytes d)"
  by (simp add: dict_holds_def length_dict_bytes) (simp add: dict_ok_def)

lemma dict_holds_ok: "dict_holds d h \<Longrightarrow> dict_ok d"
  by (simp add: dict_holds_def)

lemma dict_append_full: "di_full d \<le> di_full (dict_append d bs)"
  by (simp add: dict_append_def dict_fill_def)

lemma dict_put_ok:
  assumes "dict_ok d"
  shows "dict_put d b = Some (True, d) \<and> di_pos d = di_limit d
    \<or> (\<exists>d'. dict_put d b = Some (False, d') \<and> dict_ok d' \<and> dict_frame d d' \<and> di_pos d' = di_pos d + 1 \<and> di_full d \<le> di_full d')"
proof (cases "di_pos d = di_limit d")
  case False
  then have "di_pos d < length (di_buf d)" "di_pos d + length [b] \<le> di_limit d" using assms by (auto simp: dict_ok_def)
  moreover from this have "dict_put d b = Some (False, dict_append d [b])" using False by (simp add: dict_put_def dict_append_one)
  ultimately show ?thesis
    using dict_append_holds [OF dict_ok_holds [OF assms], of "[b]"] dict_append_full [of d "[b]"]
    by (auto simp: dict_frame_def dict_holds_ok)
qed (simp add: dict_put_def)

lemma rep_ok_mono: "rep_ok m r \<Longrightarrow> m \<le> n \<Longrightarrow> rep_ok n r"
  by (auto simp: rep_ok_def)

lemma pos_state_ok: "unat (x AND m) < Suc (unat m)" for x m :: u32
  using word_and_le1 [of x m] by (simp add: word_le_nat_alt less_Suc_eq_le)

text \<open>A byte or a match has been written and the loop goes on.\<close>

lemma lzma_continue_ok:
  assumes "run_ok in_size run" "dict_ok d'" "dict_frame (ru_dict run) d'" "di_pos (ru_dict run) < di_pos d'"
    "di_full (ru_dict run) \<le> di_full d'" "rep_ok (di_full d') (l1_rep0 run)"
  shows "turn_ok in_size s run (Some (lzma_continue (run\<lparr>ru_dict := d', l1_len := len\<rparr>)))"
    "turn_ok in_size s run (Some (lzma_continue (run\<lparr>ru_dict := d'\<rparr>)))"
  using assms by (auto simp: run_defs lzma_continue_def pos_state_ok intro: rep_ok_mono)

text \<open>The dictionary is full up to its limit.\<close>

lemma lzma_stop_ok:
  assumes "run_ok in_size run" "dict_ok d'" "dict_frame (ru_dict run) d'" "di_pos (ru_dict run) \<le> di_pos d'"
    "di_full (ru_dict run) \<le> di_full d'" "seq_ok (di_full d') seq (run\<lparr>ru_dict := d', l1_len := len\<rparr>)"
    "di_pos d' = di_limit d'" "seq \<noteq> SEQ_NORMALIZE"
  shows "turn_ok in_size s run (Some (Leave LZMA_OK (run\<lparr>l1_sequence := seq, ru_dict := d', l1_len := len\<rparr>)))"
proof -
  have "seq_ok (di_full d') seq (run\<lparr>l1_sequence := seq, ru_dict := d', l1_len := len\<rparr>) = seq_ok (di_full d') seq (run\<lparr>ru_dict := d', l1_len := len\<rparr>)"
    by (cases seq) (simp_all add: dist_model_ok_def)
  then show ?thesis using assms by (auto simp: run_defs intro: rep_ok_mono)
qed

lemma lzma_put_ok:
  assumes "run_ok in_size run" "seq \<in> {SEQ_LITERAL_WRITE, SEQ_SHORTREP}" "seq_ok (di_full (ru_dict run)) seq run" 
  shows "turn_ok in_size s run
     (case dict_put (ru_dict run) b of
        None \<Rightarrow> None
      | Some (True, dict) \<Rightarrow> Some (Leave LZMA_OK (run\<lparr>l1_sequence := seq, ru_dict := dict\<rparr>))
      | Some (False, dict) \<Rightarrow> Some (lzma_continue (run\<lparr>ru_dict := dict\<rparr>)))"
proof -
  have dict: "dict_ok (ru_dict run)" and rep0: "rep_ok (di_full (ru_dict run)) (l1_rep0 run)" using assms by (auto simp: run_ok_def)
  from dict_put_ok [OF dict, of b] show ?thesis
  proof (elim disjE exE conjE)
    assume "dict_put (ru_dict run) b = Some (True, ru_dict run)" "di_pos (ru_dict run) = di_limit (ru_dict run)"
    then show ?thesis using lzma_stop_ok [OF assms(1) dict, of seq "l1_len run" s] assms(2,3) by auto
  next
    fix d'
    assume "dict_put (ru_dict run) b = Some (False, d')" "dict_ok d'" "dict_frame (ru_dict run) d'"
      "di_pos d' = di_pos (ru_dict run) + 1" "di_full (ru_dict run) \<le> di_full d'"
    then show ?thesis using lzma_continue_ok(2) [OF assms(1), of d' s] rep_ok_mono [OF rep0] by simp
  qed
qed

lemma lzma_literal_write_ok:
  assumes "run_ok in_size run" "seq_ok (di_full (ru_dict run)) SEQ_LITERAL_WRITE run"
  shows "turn_ok in_size s run (lzma_literal_write run)"
  unfolding lzma_literal_write_def using assms by (intro lzma_put_ok) auto

lemma lzma_shortrep_ok:
  assumes "run_ok in_size run" "seq_ok (di_full (ru_dict run)) SEQ_SHORTREP run"
  shows "turn_ok in_size s run (lzma_shortrep run)"
proof -
  have dict: "dict_ok (ru_dict run)" using assms by (simp add: run_ok_def)
  obtain b where "dict_get (ru_dict run) (l1_rep0 run) = Some b"
    using dict_get_in [OF dict rep_ok_size [OF dict]] assms(2) by auto
  then show ?thesis using lzma_put_ok [OF assms(1) _ assms(2), of s b] by (simp add: lzma_shortrep_def)
qed

lemma dict_repeat_ok:
  assumes "dict_ok d" "unat distance < di_full d" "distance \<noteq> 0xFFFFFFFF" "len_ok len"
  shows "\<exists>d' len' m. dict_repeat d distance len = Some (m, d', len') \<and> dict_ok d' \<and> dict_frame d d' \<and> di_full d \<le> di_full d'
    \<and> (if m then len_ok len' \<and> di_pos d \<le> di_pos d' \<and> di_pos d' = di_limit d' else di_pos d < di_pos d')"
proof -
  let ?left = "min (di_limit d - di_pos d) (unat len)"
  obtain d' where d': "dict_repeat d distance len = Some (unat len \<noteq> ?left, d', of_nat (unat len - ?left))"
    "dict_holds d' (lz_copy (dict_bytes d) (unat distance) ?left)" "di_pos d' = di_pos d + ?left" "dict_frame d d'"
    using dict_repeat_holds [OF dict_ok_holds [OF assms(1)] assms(2,3), of len] by blast
  have "length (lz_copy h n k) = length h + k" for h :: "u8 list" and n k by (induction k arbitrary: h) simp_all
  then have "di_full d \<le> di_full d'"
    using d'(2,4) assms(1) length_dict_bytes [OF assms(1)] by (auto simp: dict_holds_def dict_frame_def dict_ok_def)
  moreover have "unat (of_nat (unat len - ?left) :: u32) = unat len - ?left"
    using unat_u32_less [of len] by (subst unat_of_nat) (simp add: take_bit_nat_eq_self)
  moreover have "di_pos d \<le> di_pos d'" "unat len \<noteq> ?left \<Longrightarrow> di_pos d' = di_limit d'"
    using d'(3,4) assms(1) by (auto simp: dict_frame_def dict_ok_def min_def split: if_splits)
  moreover have "unat len = ?left \<Longrightarrow> di_pos d < di_pos d'" using d'(3) assms(4) by (simp add: len_ok_def)
  ultimately show ?thesis using d'(1,2,4) assms(4) dict_holds_ok by (auto simp: len_ok_def)
qed

lemma lzma_copy_ok:
  assumes "run_ok in_size run" "seq_ok (di_full (ru_dict run)) SEQ_COPY run"
  shows "turn_ok in_size s run (lzma_copy run)"
proof -
  have dict: "dict_ok (ru_dict run)" using assms by (simp add: run_ok_def)
  obtain d' len' m where d': "dict_repeat (ru_dict run) (l1_rep0 run) (l1_len run) = Some (m, d', len')" "dict_ok d'"
    "dict_frame (ru_dict run) d'" "di_full (ru_dict run) \<le> di_full d'"
    "if m then len_ok len' \<and> di_pos (ru_dict run) \<le> di_pos d' \<and> di_pos d' = di_limit d' else di_pos (ru_dict run) < di_pos d'"
    using dict_repeat_ok [OF dict, of "l1_rep0 run" "l1_len run"] assms(2) by auto
  show ?thesis
    using lzma_stop_ok [OF assms(1) d'(2,3) _ d'(4), of SEQ_COPY len' s] lzma_continue_ok(1) [OF assms(1) d'(2,3) _ d'(4), of s len']
      d' assms(2) by (cases m) (auto simp: lzma_copy_def rep_ok_def)
qed

lemma lzma_is_rep_ok:
  assumes "run_ok in_size run" "in_size \<le> length in_buf" "seq_ok (di_full (ru_dict run)) SEQ_IS_REP run"
  shows "turn_ok in_size SEQ_IS_REP run (lzma_is_rep in_buf in_size run)"
  unfolding lzma_is_rep_def using assms
  by (intro run_bit_ok [OF _ _ _ refl])
    (auto simp: run_defs update_match_def state_defs dict_is_distance_valid_def)

text \<open>The code after \<open>len_decode\<close> gets a length between 2 and 273.\<close>

lemma len_values:
  "symbol_ok 3 s \<Longrightarrow> 2 \<le> unat (s - LEN_LOW_SYMBOLS + MATCH_LEN_MIN) \<and> unat (s - LEN_LOW_SYMBOLS + MATCH_LEN_MIN) \<le> 273"
  "symbol_ok 3 s \<Longrightarrow> 2 \<le> unat (s - LEN_MID_SYMBOLS + MATCH_LEN_MIN + LEN_LOW_SYMBOLS)
     \<and> unat (s - LEN_MID_SYMBOLS + MATCH_LEN_MIN + LEN_LOW_SYMBOLS) \<le> 273"
  "symbol_ok 8 s \<Longrightarrow> 2 \<le> unat (s - LEN_HIGH_SYMBOLS + MATCH_LEN_MIN + LEN_LOW_SYMBOLS + LEN_MID_SYMBOLS)
     \<and> unat (s - LEN_HIGH_SYMBOLS + MATCH_LEN_MIN + LEN_LOW_SYMBOLS + LEN_MID_SYMBOLS) \<le> 273"
proof -
  have sub: "n \<le> s \<Longrightarrow> unat (s - n) = unat s - unat n" for n by (simp add: unat_sub)
  show "symbol_ok 3 s \<Longrightarrow> 2 \<le> unat (s - LEN_LOW_SYMBOLS + MATCH_LEN_MIN) \<and> unat (s - LEN_LOW_SYMBOLS + MATCH_LEN_MIN) \<le> 273"
    "symbol_ok 3 s \<Longrightarrow> 2 \<le> unat (s - LEN_MID_SYMBOLS + MATCH_LEN_MIN + LEN_LOW_SYMBOLS)
     \<and> unat (s - LEN_MID_SYMBOLS + MATCH_LEN_MIN + LEN_LOW_SYMBOLS) \<le> 273"
    using sub [of 6] by (auto simp: symbol_ok_def lzma_const_defs unat_word_ariths word_le_nat_alt)
  show "symbol_ok 8 s \<Longrightarrow> 2 \<le> unat (s - LEN_HIGH_SYMBOLS + MATCH_LEN_MIN + LEN_LOW_SYMBOLS + LEN_MID_SYMBOLS)
     \<and> unat (s - LEN_HIGH_SYMBOLS + MATCH_LEN_MIN + LEN_LOW_SYMBOLS + LEN_MID_SYMBOLS) \<le> 273"
    using sub [of 238] by (auto simp: symbol_ok_def lzma_const_defs unat_word_ariths word_le_nat_alt)
qed

lemma symbol_ok_less: "symbol_ok i s \<Longrightarrow> i < n \<Longrightarrow> unat s < 2 ^ n"
  using power_increasing [of "Suc i" n "2 :: nat"] by (simp add: symbol_ok_def)

lemma len_decode_ok:
  assumes "run_ok in_size run" "in_size \<le> length in_buf" "seq_ok (di_full (ru_dict run)) (seq l) run" "len_seq_ok l (l1_symbol run)"
    and "(ref, seq) \<in> {(P_match_len, SEQ_MATCH_LEN), (P_rep_len, SEQ_REP_LEN)}"
    and "\<And>rc t p symbol len. range_ok rc \<Longrightarrow> probs_ok (num_pos run) (num_lit run) t \<Longrightarrow> ru_in_pos run \<le> p \<Longrightarrow> p \<le> in_size
      \<Longrightarrow> 2 \<le> unat len \<Longrightarrow> unat len \<le> 273
      \<Longrightarrow> turn_ok in_size (seq l) run (k (run\<lparr>ru_in_pos := p, l1_rc := rc, l1_tables := t, l1_symbol := symbol, l1_len := len\<rparr>))"
  shows "turn_ok in_size (seq l) run (len_decode in_buf in_size ref seq k l run)"
proof (cases l)
  case LEN_CHOICE
  then show ?thesis using assms(1-5)
    by (auto simp: symbol_ok_def simp flip: One_nat_def intro!: run_bit_ok [OF _ _ _ refl]) (auto simp: run_defs symbol_ok_def)
next
  case LEN_CHOICE2
  then show ?thesis using assms(1-5)
    by (auto simp: symbol_ok_def simp flip: One_nat_def intro!: run_bit_ok [OF _ _ _ refl]) (auto simp: run_defs symbol_ok_def)
next
  case (LEN_LOW i)
  then have i: "i < 3" "symbol_ok i (l1_symbol run)" using assms(4) by auto
  show ?thesis unfolding LEN_LOW len_decode.simps
  proof (rule run_bit_symbol_ok [OF assms(1,2) _ refl _ i(2)], goal_cases)
    case (4 b rc t p symbol)
    then show ?case
    proof (cases "i < 2")
      case True
      then show ?thesis using 4 assms(1,3,5) LEN_LOW by (auto simp: run_defs)
    next
      case False
      then have "symbol_ok 3 symbol" using 4(5) i(1) by (simp add: less_Suc_eq numeral_eq_Suc)
      then show ?thesis using False assms(6) [OF 4(1-4)] len_values(1) [of symbol] LEN_LOW by simp
    qed
  qed (use assms(1,3,5) LEN_LOW i symbol_ok_less [OF i(2,1)] in \<open>auto simp: run_ok_def\<close>)
next
  case (LEN_MID i)
  then have i: "i < 3" "symbol_ok i (l1_symbol run)" using assms(4) by auto
  show ?thesis unfolding LEN_MID len_decode.simps
  proof (rule run_bit_symbol_ok [OF assms(1,2) _ refl _ i(2)], goal_cases)
    case (4 b rc t p symbol)
    then show ?case
    proof (cases "i < 2")
      case True
      then show ?thesis using 4 assms(1,3,5) LEN_MID by (auto simp: run_defs)
    next
      case False
      then have "symbol_ok 3 symbol" using 4(5) i(1) by (simp add: less_Suc_eq numeral_eq_Suc)
      then show ?thesis using False assms(6) [OF 4(1-4)] len_values(2) [of symbol] LEN_MID by simp
    qed
  qed (use assms(1,3,5) LEN_MID i symbol_ok_less [OF i(2,1)] in \<open>auto simp: run_ok_def\<close>)
next
  case (LEN_HIGH i)
  then have i: "i < 8" "symbol_ok i (l1_symbol run)" using assms(4) by auto
  show ?thesis unfolding LEN_HIGH len_decode.simps
  proof (rule run_bit_symbol_ok [OF assms(1,2) _ refl _ i(2)], goal_cases)
    case (4 b rc t p symbol)
    then show ?case
    proof (cases "i < 7")
      case True
      then show ?thesis using 4 assms(1,3,5) LEN_HIGH by (auto simp: run_defs)
    next
      case False
      then have "symbol_ok 8 symbol" using 4(5) i(1) by (simp add: less_Suc_eq numeral_eq_Suc)
      then show ?thesis using False assms(6) [OF 4(1-4)] len_values(3) [of symbol] LEN_HIGH by simp
    qed
  qed (use assms(1,3,5) LEN_HIGH i symbol_ok_less [OF i(2,1)] in \<open>auto simp: run_ok_def\<close>)
qed

lemma lzma_is_rep0_ok:
  assumes "run_ok in_size run" "in_size \<le> length in_buf" "seq_ok (di_full (ru_dict run)) SEQ_IS_REP0 run"
  shows "turn_ok in_size SEQ_IS_REP0 run (lzma_is_rep0 in_buf in_size run)"
  unfolding lzma_is_rep0_def using assms by (intro run_bit_ok [OF _ _ _ refl]) (auto simp: run_defs)

lemma lzma_is_rep0_long_ok:
  assumes "run_ok in_size run" "in_size \<le> length in_buf" "seq_ok (di_full (ru_dict run)) SEQ_IS_REP0_LONG run"
  shows "turn_ok in_size SEQ_IS_REP0_LONG run (lzma_is_rep0_long in_buf in_size run)"
  unfolding lzma_is_rep0_long_def using assms
  by (intro run_bit_ok [OF _ _ _ refl]) (auto simp: run_defs lzma_long_rep_def update_short_rep_def update_long_rep_def state_defs)

lemma lzma_is_rep1_ok:
  assumes "run_ok in_size run" "in_size \<le> length in_buf" "seq_ok (di_full (ru_dict run)) SEQ_IS_REP1 run"
  shows "turn_ok in_size SEQ_IS_REP1 run (lzma_is_rep1 in_buf in_size run)"
  unfolding lzma_is_rep1_def using assms
  by (intro run_bit_ok [OF _ _ _ refl]) (auto simp: run_defs lzma_long_rep_def update_long_rep_def state_defs)

lemma lzma_is_rep2_ok:
  assumes "run_ok in_size run" "in_size \<le> length in_buf" "seq_ok (di_full (ru_dict run)) SEQ_IS_REP2 run"
  shows "turn_ok in_size SEQ_IS_REP2 run (lzma_is_rep2 in_buf in_size run)"
  unfolding lzma_is_rep2_def using assms
  by (intro run_bit_ok [OF _ _ _ refl]) (auto simp: run_defs lzma_long_rep_def update_long_rep_def state_defs)

lemma lzma_eopm_ok:
  assumes "run_ok in_size run" "in_size \<le> length in_buf" "seq_ok (di_full (ru_dict run)) SEQ_EOPM run"
  shows "turn_ok in_size SEQ_EOPM run (lzma_eopm in_buf in_size run)"
  unfolding lzma_eopm_def using assms by (intro run_normalize_ok) (auto simp: run_defs)

lemma get_dist_state_ok: "2 \<le> unat len \<Longrightarrow> unat (get_dist_state len) < 4"
proof -
  assume "2 \<le> unat len"
  then have "len < 6 \<Longrightarrow> unat (len - 2) < 4" by (subst unat_sub) (simp_all add: word_le_nat_alt word_less_nat_alt)
  then show "unat (get_dist_state len) < 4" by (simp add: get_dist_state_def lzma_const_defs)
qed

lemma len_ok_decoded: "2 \<le> unat len \<Longrightarrow> unat len \<le> 273 \<Longrightarrow> len_ok len"
  by (simp add: len_ok_def lzma_const_defs)

lemma lzma_match_len_ok:
  assumes "run_ok in_size run" "in_size \<le> length in_buf" "seq_ok (di_full (ru_dict run)) (SEQ_MATCH_LEN l) run"
  shows "turn_ok in_size (SEQ_MATCH_LEN l) run (len_decode in_buf in_size P_match_len SEQ_MATCH_LEN lzma_match_len_done l run)"
proof (rule len_decode_ok [OF assms(1,2), where seq = SEQ_MATCH_LEN])
  have rank: "3 \<le> len_rank l" using assms(3) by (cases l) auto
  fix rc t p symbol len
  assume "range_ok rc" "probs_ok (num_pos run) (num_lit run) t" "ru_in_pos run \<le> p" "p \<le> in_size" "2 \<le> unat (len :: u32)" "unat len \<le> 273"
  then show "turn_ok in_size (SEQ_MATCH_LEN l) run
      (lzma_match_len_done (run\<lparr>ru_in_pos := p, l1_rc := rc, l1_tables := t, l1_symbol := symbol, l1_len := len\<rparr>))"
    using assms(1,3) rank by (auto simp: run_defs lzma_match_len_done_def get_dist_state_ok symbol_ok_def len_ok_decoded)
qed (use assms(3) in auto)

lemma lzma_rep_len_ok:
  assumes "run_ok in_size run" "in_size \<le> length in_buf" "seq_ok (di_full (ru_dict run)) (SEQ_REP_LEN l) run"
  shows "turn_ok in_size (SEQ_REP_LEN l) run (len_decode in_buf in_size P_rep_len SEQ_REP_LEN (\<lambda>run. Some (Next SEQ_COPY run)) l run)"
proof (rule len_decode_ok [OF assms(1,2), where seq = SEQ_REP_LEN])
  have rank: "3 \<le> len_rank l" using assms(3) by (cases l) auto
  fix rc t p symbol len
  assume "range_ok rc" "probs_ok (num_pos run) (num_lit run) t" "ru_in_pos run \<le> p" "p \<le> in_size" "2 \<le> unat (len :: u32)" "unat len \<le> 273"
  then show "turn_ok in_size (SEQ_REP_LEN l) run
      (Some (Next SEQ_COPY (run\<lparr>ru_in_pos := p, l1_rc := rc, l1_tables := t, l1_symbol := symbol, l1_len := len\<rparr>)))"
    using assms(1,3) rank rep_ok_full by (auto simp: run_defs len_ok_decoded)
qed (use assms(3) in auto)

text \<open>The end of every decoded distance.\<close>

lemma lzma_validate_distance_ok:
  assumes "run_frame in_size run run'" "run_ok in_size run'" "l1_sequence run' = l1_sequence run" "ru_dict run' = ru_dict run"
    "l1_rep0 run' \<noteq> 0xFFFFFFFF" "len_ok (l1_len run')" "0 < seq_rank s run"
  shows "turn_ok in_size s run (lzma_validate_distance run')"
  using assms by (auto simp: turn_ok_def lzma_validate_distance_def dict_is_distance_valid_def)

lemma lzma_direct_ok:
  assumes "run_ok in_size run" "in_size \<le> length in_buf" "seq_ok (di_full (ru_dict run)) SEQ_DIRECT run"
  shows "turn_ok in_size SEQ_DIRECT run (lzma_direct in_buf in_size run)"
  unfolding lzma_direct_def
proof (rule run_normalize_ok [OF assms], goal_cases)
  case (1 rc p)
  obtain rc' rep0 where d: "rc_direct rc (l1_rep0 run) = (rc', rep0)" by fastforce
  have "range_ok rc'" using rc_direct_bounds [OF 1(1), of "l1_rep0 run"] d by simp
  moreover have "unat (l1_limit run - 1) = unat (l1_limit run) - 1" "0 < l1_limit run - 1 \<longleftrightarrow> 1 < unat (l1_limit run)"
    using assms(3) by (auto simp: unat_sub word_le_nat_alt word_less_nat_alt)
  ultimately show ?case using 1 assms(1,3) d by (auto simp: run_defs Let_def symbol_ok_def)
qed

lemma lzma_align_ok:
  assumes "run_ok in_size run" "in_size \<le> length in_buf" "seq_ok (di_full (ru_dict run)) (SEQ_ALIGN i) run"
  shows "turn_ok in_size (SEQ_ALIGN i) run (lzma_align in_buf in_size i run)"
proof -
  have i: "i < 4" "symbol_ok i (l1_symbol run)" using assms(3) by auto
  have used: "ref_used (num_pos run) (num_lit run) (P_pos_align (unat (l1_symbol run)))" using symbol_ok_less [OF i(2,1)] by simp
  show ?thesis
  proof (cases "i < 3")
    case True
    then show ?thesis unfolding lzma_align_def Let_def using assms i used
      by (auto intro!: run_bit_symbol_ok [OF _ _ _ refl _ i(2)]) (auto simp: run_defs)
  next
    case False
    then show ?thesis unfolding lzma_align_def Let_def using assms i used
      by (auto intro!: run_bit_ok [OF _ _ _ refl] lzma_validate_distance_ok simp: lzma_align_done_def) (auto simp: run_defs)
  qed
qed

lemma lzma_dist_slot_done_ok:
  assumes "run_frame in_size run run'" "run_ok in_size run'" "l1_sequence run' = l1_sequence run" "ru_dict run' = ru_dict run"
    "symbol_ok 6 (l1_symbol run')" "len_ok (l1_len run')" "40 \<le> seq_rank s run"
  shows "turn_ok in_size s run (lzma_dist_slot_done run')"
proof -
  define symbol where "symbol = l1_symbol run' - DIST_SLOTS"
  define slot where "slot = unat symbol"
  define limit where "limit = drop_bit 1 symbol - 1"
  have slot: "slot < 64"
    using assms(5) by (auto simp: slot_def symbol_def symbol_ok_def lzma_const_defs unat_sub word_le_nat_alt)
  have less: "symbol < DIST_MODEL_START \<longleftrightarrow> slot < 4" "symbol < DIST_MODEL_END \<longleftrightarrow> slot < 14"
    by (simp_all add: lzma_const_defs word_less_nat_alt slot_def)
  have drop: "unat (drop_bit 1 symbol) = slot div 2" by (simp add: unat_drop_bit_div slot_def)
  have bit0: "unat (symbol AND 1) = slot mod 2" by (simp add: and_one_eq slot_def unat_mod)
  then have two: "unat (2 + (symbol AND 1)) = 2 + slot mod 2" by (simp add: unat_word_ariths)
  have limit: "4 \<le> slot \<Longrightarrow> unat limit = slot div 2 - 1" using drop by (simp add: limit_def unat_sub word_le_nat_alt)
  consider "slot < 4" | "4 \<le> slot" "slot < 14" | "14 \<le> slot" by linarith
  then show ?thesis
  proof cases
    case 1
    then have "lzma_dist_slot_done run' = lzma_validate_distance (run'\<lparr>l1_symbol := symbol, l1_rep0 := symbol\<rparr>)"
      using less by (simp add: lzma_dist_slot_done_def flip: symbol_def)
    moreover have "symbol \<noteq> 0xFFFFFFFF" using 1 by (auto simp: slot_def)
    ultimately show ?thesis using assms by (auto intro!: lzma_validate_distance_ok) (auto simp: run_defs)
  next
    case 2
    let ?rep0 = "push_bit (unat limit) (2 + (symbol AND 1))"
    have "slot \<in> {4, 5, 6, 7, 8, 9, 10, 11, 12, 13}" using 2 by (simp, presburger)
    then have "(2 + slot mod 2) * 2 ^ (slot div 2 - 1) \<le> 96" by auto
    moreover have "unat (2 ^ (slot div 2 - 1) :: u32) = 2 ^ (slot div 2 - 1)" using \<open>slot \<in> _\<close> by auto
    ultimately have rep0: "unat ?rep0 = (2 + slot mod 2) * 2 ^ (slot div 2 - 1)" "unat ?rep0 \<le> 96"
      using two limit 2 by (simp_all add: push_bit_eq_mult unat_word_ariths)
    have "Suc 0 \<le> slot div 2 - Suc 0" using 2(1) by linarith
    then have "dist_model_ok (run'\<lparr>l1_limit := limit, l1_rep0 := ?rep0,
        l1_probs := Probs_pos_special (int (unat ?rep0) - int slot - 1), l1_symbol := 1, l1_offset := 0\<rparr>)"
      unfolding dist_model_ok_def using 2 limit rep0 by (intro exI [of _ slot]) (auto simp: symbol_ok_def)
    moreover have "unat limit < 40" using limit 2 by linarith
    ultimately show ?thesis using 2 assms
      unfolding lzma_dist_slot_done_def Let_def symbol_def [symmetric] limit_def [symmetric] less by (simp add: run_defs slot_def)
  next
    case 3
    have "unat (limit - 4) = slot div 2 - 5" using limit 3 by (simp add: unat_sub word_le_nat_alt)
    moreover have "Suc 0 \<le> slot div 2 - 5" "slot div 2 \<le> 31" using 3 slot by linarith+
    ultimately show ?thesis using 3 assms
      unfolding lzma_dist_slot_done_def Let_def symbol_def [symmetric] limit_def [symmetric] less by (simp add: run_defs ALIGN_BITS_def)
  qed
qed

lemma lzma_dist_slot_ok:
  assumes "run_ok in_size run" "in_size \<le> length in_buf" "seq_ok (di_full (ru_dict run)) (SEQ_DIST_SLOT i) run"
  shows "turn_ok in_size (SEQ_DIST_SLOT i) run (lzma_dist_slot in_buf in_size i run)"
proof -
  from assms(3) obtain n where n: "l1_probs run = Probs_dist_slot n" "n < 4" and i: "i < 6" "symbol_ok i (l1_symbol run)" by auto
  show ?thesis unfolding lzma_dist_slot_def
  proof (rule run_bit_symbol_ok [OF assms _ _ i(2), where r = "P_dist_slot n (unat (l1_symbol run))"], goal_cases)
    case (4 b rc t p symbol)
    show ?case
    proof (cases "i < 5")
      case True
      then show ?thesis using 4 assms(1,3) n by (auto simp: run_defs)
    next
      case False
      then have "symbol_ok 6 symbol" using 4(5) i(1) by (simp add: less_Suc_eq numeral_eq_Suc)
      then show ?thesis using False 4 assms(1,3) by (auto intro!: lzma_dist_slot_done_ok) (auto simp: run_defs)
    qed
  qed (use n i symbol_ok_less [OF i(2,1)] in auto)
qed

lemma pos_special_index:
  assumes "4 \<le> slot" "slot < 14" "1 \<le> y" "y < 2 ^ (slot div 2 - 1)"
  shows "\<exists>n<114. probs_at (Probs_pos_special (int ((2 + slot mod 2) * 2 ^ (slot div 2 - 1)) - int slot - 1)) y = Some (P_pos_special n)"
proof -
  have "slot \<in> {4, 5, 6, 7, 8, 9, 10, 11, 12, 13}" using assms(1,2) by (simp, presburger)
  then show ?thesis using assms(3,4) by (elim insertE) auto
qed

lemma lzma_dist_model_ok:
  assumes "run_ok in_size run" "in_size \<le> length in_buf" "seq_ok (di_full (ru_dict run)) SEQ_DIST_MODEL run"
  shows "turn_ok in_size SEQ_DIST_MODEL run (lzma_dist_model in_buf in_size run)"
proof -
  let ?o = "unat (l1_offset run)" and ?l = "unat (l1_limit run)"
  define add where "add = (if l1_limit run = 5 then 1 else push_bit (unat (l1_offset run)) 1 :: u32)"
  from assms(3) obtain slot where slot: "4 \<le> slot" "slot < 14" and l: "1 \<le> ?l" "?o + ?l = slot div 2 - 1"
    and probs: "l1_probs run = Probs_pos_special (int ((2 + slot mod 2) * 2 ^ (slot div 2 - 1)) - int slot - 1)"
    and sym: "symbol_ok ?o (l1_symbol run)" and rep0: "unat (l1_rep0 run) < 96 + 2 ^ ?o"
    by (auto simp: dist_model_ok_def)
  have le: "?o + ?l \<le> 5" using slot l by linarith
  have bound: "unat (l1_symbol run) < 2 ^ (slot div 2 - 1)" using symbol_ok_less [OF sym] l by simp
  have "1 \<le> unat (l1_symbol run)" using sym one_le_power [of "2 :: nat" ?o] by (simp add: symbol_ok_def)
  then obtain n where n: "probs_at (l1_probs run) (unat (l1_symbol run)) = Some (P_pos_special n)" "n < 114"
    using pos_special_index [OF slot _ bound] probs by auto
  have "?o \<in> {0, 1, 2, 3, 4}" "l1_limit run = 5 \<Longrightarrow> ?o = 0" using le l by auto
  then have add: "unat add = 2 ^ ?o" by (auto simp: add_def)
  have rep0': "unat (l1_rep0 run + (if b then add else 0)) < 96 + 2 ^ Suc ?o" for b
    using rep0 add power_increasing [of ?o 4 "2 :: nat"] le l(1) by (simp add: unat_word_ariths)
  show ?thesis
  proof (cases "?l = 1")
    case True
    then have limit: "l1_limit run = 1" by (simp add: unat_eqI)
    have "unat (l1_rep0 run + (if b then add else 0)) < 128" for b
      using rep0' [of b] power_increasing [of "Suc ?o" 5 "2 :: nat"] le True by simp
    moreover have "unat x < 128 \<Longrightarrow> x \<noteq> 0xFFFFFFFF" for x :: u32 by auto
    ultimately have "l1_rep0 run + (if b then add else 0) \<noteq> 0xFFFFFFFF" for b by blast
    moreover have "lzma_dist_model in_buf in_size run
        = run_bit in_buf in_size SEQ_DIST_MODEL (Some (P_pos_special n)) run (\<lambda>b run'.
            lzma_validate_distance (run'\<lparr>l1_rep0 := l1_rep0 run' + (if b then add else 0)\<rparr>))"
      using limit n(1) by (simp add: lzma_dist_model_def add_def cong: if_cong)
    ultimately show ?thesis using assms n True
      by (auto intro!: run_bit_ok [OF _ _ _ refl] lzma_validate_distance_ok) (auto simp: run_defs)
  next
    case False
    then have "l1_limit run \<in> {2, 3, 4, 5}" using l(1) le by (auto simp: word_unat_eq_iff)
    then have "lzma_dist_model in_buf in_size run
        = run_bit_symbol in_buf in_size SEQ_DIST_MODEL (Some (P_pos_special n)) run (\<lambda>b run'.
            Some (Next SEQ_DIST_MODEL
              (run'\<lparr>l1_rep0 := l1_rep0 run' + (if b then add else 0), l1_offset := l1_offset run' + 1, l1_limit := l1_limit run' - 1\<rparr>)))"
      using n(1) by (simp add: lzma_dist_model_def Let_def add_def cong: if_cong)
    moreover have "turn_ok in_size SEQ_DIST_MODEL run (run_bit_symbol in_buf in_size SEQ_DIST_MODEL (Some (P_pos_special n)) run (\<lambda>b run'.
            Some (Next SEQ_DIST_MODEL
              (run'\<lparr>l1_rep0 := l1_rep0 run' + (if b then add else 0), l1_offset := l1_offset run' + 1, l1_limit := l1_limit run' - 1\<rparr>))))"
    proof (rule run_bit_symbol_ok [OF assms refl _ sym], goal_cases)
      case (3 b rc t p symbol)
      have words: "unat (l1_offset run + 1) = ?o + 1" "unat (l1_limit run - 1) = ?l - 1"
        using le l(1) by (simp_all add: unat_word_ariths unat_sub word_le_nat_alt)
      have "dist_model_ok (run\<lparr>ru_in_pos := p, l1_rc := rc, l1_tables := t, l1_symbol := symbol,
          l1_rep0 := l1_rep0 run + (if b then add else 0), l1_offset := l1_offset run + 1, l1_limit := l1_limit run - 1\<rparr>)"
        unfolding dist_model_ok_def using slot l probs 3(5) rep0' [of b] words False by (intro exI [of _ slot]) auto
      then show ?case using 3 assms(1,3) words l(1) by (auto simp: run_defs)
    qed (use n le in auto)
    ultimately show ?thesis by simp
  qed
qed

section \<open>The loop\<close>

lemma lzma_step_ok:
  assumes "run_ok in_size run" "in_size \<le> length in_buf" "seq_ok (di_full (ru_dict run)) seq run"
  shows "turn_ok in_size seq run (lzma_step in_buf in_size no_eopm seq run)"
  using assms
  by (cases seq)
    (simp_all only: lzma_step.simps lzma_literal_ok lzma_literal_matched_ok lzma_literal_write_ok lzma_is_rep_ok lzma_match_len_ok
      lzma_dist_slot_ok lzma_dist_model_ok lzma_direct_ok lzma_align_ok lzma_eopm_ok lzma_is_rep0_ok lzma_shortrep_ok lzma_is_rep0_long_ok
      lzma_is_rep1_ok lzma_is_rep2_ok lzma_rep_len_ok lzma_copy_ok lzma_is_match_ok insert_iff simp_thms)

text \<open>How the loop ends, and that it does.\<close>

definition exit_ok :: "nat \<Rightarrow> lzma_run \<Rightarrow> lzma_ret \<Rightarrow> lzma_run \<Rightarrow> bool" where
  "exit_ok in_size run ret run' \<longleftrightarrow>
     run_frame in_size run run' \<and> ret \<in> {LZMA_OK, LZMA_STREAM_END, LZMA_DATA_ERROR}
     \<and> (ret = LZMA_OK \<longrightarrow> coder_ok (di_full (ru_dict run')) run' \<and> seq_ok (di_full (ru_dict run')) (l1_sequence run') run'
          \<and> (ru_in_pos run' = in_size \<or> di_pos (ru_dict run') = di_limit (ru_dict run') \<and> l1_sequence run' \<noteq> SEQ_NORMALIZE))
     \<and> (ret = LZMA_STREAM_END \<longrightarrow> l1_uncompressed_size run = LZMA_VLI_UNKNOWN)"

lemma run_frame_trans: "run_frame in_size a b \<Longrightarrow> run_frame in_size b c \<Longrightarrow> run_frame in_size a c"
  by (auto simp: run_frame_def dict_frame_def)

lemma lzma_loop_ok:
  assumes "run_ok in_size run" "in_size \<le> length in_buf" "seq_ok (di_full (ru_dict run)) seq run"
  shows "\<exists>ret run'. lzma_loop in_buf in_size no_eopm seq run = Some (ret, run') \<and> exit_ok in_size run ret run'"
  using assms(1,3)
proof (induction "(di_limit (ru_dict run) - di_pos (ru_dict run), seq_rank seq run)" arbitrary: seq run
    rule: wf_induct_rule [OF wf_lex_prod [OF wf_less_than wf_less_than]])
  case 1
  note step = lzma_step_ok [OF "1.prems"(1) assms(2) "1.prems"(2), of no_eopm]
  then obtain turn where turn: "lzma_step in_buf in_size no_eopm seq run = Some turn" by (auto simp: turn_ok_def split: option.splits)
  show ?case
  proof (cases turn)
    case (Leave ret run')
    then show ?thesis using turn step by (subst lzma_loop.simps) (auto simp: turn_ok_def exit_ok_def)
  next
    case (Next seq' run')
    then have nxt: "run_frame in_size run run'" "run_ok in_size run'" "seq_ok (di_full (ru_dict run')) seq' run'"
      "di_pos (ru_dict run) < di_pos (ru_dict run') \<or> di_pos (ru_dict run') = di_pos (ru_dict run) \<and> seq_rank seq' run' < seq_rank seq run"
      using turn step by (auto simp: turn_ok_def)
    then have "((di_limit (ru_dict run') - di_pos (ru_dict run'), seq_rank seq' run'), (di_limit (ru_dict run) - di_pos (ru_dict run), seq_rank seq run))
        \<in> less_than <*lex*> less_than"
      by (auto simp: run_frame_def dict_frame_def dict_ok_def)
    from "1.hyps" [OF this nxt(2,3)] obtain ret run'' where
      "lzma_loop in_buf in_size no_eopm seq' run' = Some (ret, run'')" "exit_ok in_size run' ret run''" by blast
    moreover have "lzma_loop in_buf in_size no_eopm seq run = lzma_loop in_buf in_size no_eopm seq' run'"
      using turn Next by (subst lzma_loop.simps) simp
    ultimately show ?thesis using nxt(1) by (auto simp: exit_ok_def run_frame_def dict_frame_def)
  qed
qed

section \<open>A call of the decoder\<close>

text \<open>The state between two calls.\<close>

definition lzma_good :: "nat \<Rightarrow> lzma1_coder \<Rightarrow> bool" where
  "lzma_good full c \<longleftrightarrow> coder_ok full c \<and> seq_ok full (l1_sequence c) c"

lemma extend_simps [simp]:
  "coder_ok d (lzma1_coder.extend c m) = coder_ok d c" "seq_ok d seq (lzma1_coder.extend c m) = seq_ok d seq c"
  "coder_ok d (lzma1_coder.truncate run) = coder_ok d run" "seq_ok d seq (lzma1_coder.truncate run) = seq_ok d seq run"
  by (simp_all add: coder_ok_def lzma_static_def lzma1_coder.defs) (cases seq; simp add: dist_model_ok_def lzma1_coder.defs)+

text \<open>The result of a call. After \<open>LZMA_OK\<close> the decoder can be called again; after \<open>LZMA_STREAM_END\<close> too when the size was known, for
  the next chunk.\<close>

definition lzma_result_ok :: "lzma1_coder \<Rightarrow> lzma_dict \<Rightarrow> nat \<Rightarrow> nat \<Rightarrow> lzma_ret \<Rightarrow> lzma1_coder \<Rightarrow> lzma_dict \<Rightarrow> nat \<Rightarrow> bool" where
  "lzma_result_ok c d in_pos in_size ret c' d' in_pos' \<longleftrightarrow>
     in_pos \<le> in_pos' \<and> in_pos' \<le> in_size \<and> dict_ok d' \<and> dict_frame d d' \<and> di_pos d \<le> di_pos d' \<and> di_full d \<le> di_full d'
     \<and> ret \<in> {LZMA_OK, LZMA_STREAM_END, LZMA_DATA_ERROR} \<and> (ret = LZMA_OK \<longrightarrow> lzma_good (di_full d') c' \<and> (in_pos' = in_size \<or> di_pos d' = di_limit d'))
     \<and> (if l1_uncompressed_size c = LZMA_VLI_UNKNOWN then l1_uncompressed_size c' = LZMA_VLI_UNKNOWN
        else di_pos d' - di_pos d \<le> unat (l1_uncompressed_size c)
          \<and> unat (l1_uncompressed_size c') = unat (l1_uncompressed_size c) - (di_pos d' - di_pos d)
          \<and> (ret = LZMA_STREAM_END \<longrightarrow> lzma_good (di_full d') c' \<and> l1_sequence c' = SEQ_IS_MATCH \<and> l1_uncompressed_size c' = 0 \<and> l1_rc c' = rc_reset))"

lemma coder_ok_update [simp]:
  "coder_ok d (c\<lparr>l1_uncompressed_size := x\<rparr>) = coder_ok d c" "range_ok rc \<Longrightarrow> coder_ok d c \<Longrightarrow> coder_ok d (c\<lparr>l1_rc := rc\<rparr>)"
  by (simp_all add: coder_ok_def lzma_static_def)

lemma seq_ok_update:
  "seq_ok d seq c \<Longrightarrow> seq \<noteq> SEQ_EOPM \<Longrightarrow> seq_ok d seq (c\<lparr>l1_uncompressed_size := x\<rparr>)" "seq_ok d seq (c\<lparr>l1_rc := rc\<rparr>) = seq_ok d seq c"
  by (cases seq; simp add: dist_model_ok_def)+

lemma truncate_simps [simp]:
  "l1_uncompressed_size (lzma1_coder.truncate run) = l1_uncompressed_size run" "l1_sequence (lzma1_coder.truncate run) = l1_sequence run"
  "l1_rc (lzma1_coder.truncate run) = l1_rc run"
  by (simp_all add: lzma1_coder.defs)

lemma lzma_out_ok:
  assumes "exit_ok in_size run ret run'" "lzma_out d (ret, run') = (ret', c', d', in_pos')"
    and "dict_ok d" "ru_dict run = d\<lparr>di_limit := limit\<rparr>" "di_pos d \<le> limit" "limit \<le> di_limit d"
    and "ru_in_pos run = in_pos" "l1_uncompressed_size run = l1_uncompressed_size c"
    and "l1_uncompressed_size c \<noteq> LZMA_VLI_UNKNOWN \<Longrightarrow> limit - di_pos d \<le> unat (l1_uncompressed_size c)"
    and "limit \<noteq> di_limit d \<Longrightarrow> l1_uncompressed_size c \<noteq> LZMA_VLI_UNKNOWN \<and> limit = di_pos d + unat (l1_uncompressed_size c)"
  shows "lzma_result_ok c d in_pos in_size ret' c' d' in_pos'"
proof -
  let ?e = "ru_dict run'" and ?us = "l1_uncompressed_size c" and ?n = "di_pos (ru_dict run') - di_pos d"
  have e: "dict_ok ?e" "di_limit ?e = limit" "di_size ?e = di_size d" "di_need_reset ?e = di_need_reset d" "di_pos d \<le> di_pos ?e"
    "di_full d \<le> di_full ?e" "in_pos \<le> ru_in_pos run'" "ru_in_pos run' \<le> in_size" "l1_uncompressed_size run' = ?us"
    using assms(1,4,7,8) by (auto simp: exit_ok_def run_frame_def dict_frame_def)
  have ret: "ret \<in> {LZMA_OK, LZMA_STREAM_END, LZMA_DATA_ERROR}" "ret = LZMA_STREAM_END \<Longrightarrow> ?us = LZMA_VLI_UNKNOWN"
    "ret = LZMA_OK \<Longrightarrow> coder_ok (di_full ?e) run' \<and> seq_ok (di_full ?e) (l1_sequence run') run'"
    using assms(1,8) by (auto simp: exit_ok_def)
  have d': "d' = d\<lparr>di_buf := di_buf ?e, di_pos := di_pos ?e, di_full := di_full ?e\<rparr>" "in_pos' = ru_in_pos run'"
    using assms(2) by (auto simp: lzma_out_def Let_def split: if_splits prod.splits)
  have dict: "dict_ok d'" "dict_frame d d'" "di_full d' = di_full ?e" using e assms(3,6) d'
    by (auto simp: dict_ok_def dict_frame_def)
  have n: "?us \<noteq> LZMA_VLI_UNKNOWN \<Longrightarrow> ?n \<le> unat ?us \<and> unat (?us - of_nat ?n) = unat ?us - ?n"
    using assms(9) e(1,2) unsigned_less [of ?us, where 'a = nat]
    by (auto simp: dict_ok_def unat_sub word_le_nat_alt unat_of_nat take_bit_nat_eq_self)
  have stop: "ret = LZMA_OK \<Longrightarrow> ru_in_pos run' = in_size \<or> di_pos ?e = limit \<and> l1_sequence run' \<noteq> SEQ_NORMALIZE"
    using assms(1) e(2) by (simp add: exit_ok_def)
  have "ret' = LZMA_OK \<Longrightarrow> ret = LZMA_OK" using assms(2) by (simp add: lzma_out_def Let_def split: if_splits)
  moreover have "ret' \<noteq> LZMA_OK" if "ret = LZMA_OK" "di_pos ?e = limit" "limit \<noteq> di_limit d" "l1_sequence run' \<noteq> SEQ_NORMALIZE"
    using assms(2) assms(10) [OF that(3)] that(1,2,4) e(9) by (auto simp: lzma_out_def Let_def split: if_splits)
  ultimately have used: "ret' = LZMA_OK \<Longrightarrow> in_pos' = in_size \<or> di_pos d' = di_limit d'" using stop d' by auto
  have eopm: "ret = LZMA_OK \<Longrightarrow> ?us \<noteq> LZMA_VLI_UNKNOWN \<Longrightarrow> l1_sequence run' \<noteq> SEQ_EOPM" using ret(3) e(9) by auto
  show ?thesis
  proof (cases "?us = LZMA_VLI_UNKNOWN")
    case True
    then have "ret' = LZMA_OK \<Longrightarrow> ret = LZMA_OK \<and> c' = lzma1_coder.truncate run'" "l1_uncompressed_size c' = LZMA_VLI_UNKNOWN"
      "ret' \<in> {LZMA_OK, LZMA_STREAM_END, LZMA_DATA_ERROR}"
      using assms(2) e(9) ret(1) by (auto simp: lzma_out_def Let_def split: if_splits)
    then show ?thesis using True e dict d' ret(3) used by (auto simp: lzma_result_ok_def lzma_good_def)
  next
    case False
    note n = n [OF False]
    define size where "size = ?us - of_nat ?n"
    let ?c = "lzma1_coder.truncate run'\<lparr>l1_uncompressed_size := size\<rparr>"
    have cases: "ret' \<in> {LZMA_OK, LZMA_STREAM_END, LZMA_DATA_ERROR}" "l1_uncompressed_size c' = size"
      "ret' = LZMA_OK \<Longrightarrow> ret = LZMA_OK \<and> c' = ?c"
      "ret' = LZMA_STREAM_END \<Longrightarrow> ret = LZMA_OK \<and> size = 0 \<and> l1_sequence run' = SEQ_IS_MATCH \<and> c' = ?c\<lparr>l1_rc := rc_reset\<rparr>"
      using assms(2) e(9) ret(1,2) False by (auto simp: lzma_out_def Let_def split: if_splits simp flip: size_def)
    have "ret = LZMA_OK \<Longrightarrow> lzma_good (di_full d') ?c" using ret(3) eopm False dict(3) by (auto simp: lzma_good_def intro: seq_ok_update)
    moreover from this have "ret = LZMA_OK \<Longrightarrow> lzma_good (di_full d') (?c\<lparr>l1_rc := rc_reset\<rparr>)"
      by (auto simp: lzma_good_def seq_ok_update range_ok_reset)
    ultimately show ?thesis using False e dict d' n cases used by (auto simp: lzma_result_ok_def size_def)
  qed
qed

text \<open>The locals at the start of the loop.\<close>

definition decode_limit :: "lzma1_coder \<Rightarrow> lzma_dict \<Rightarrow> nat" where
  "decode_limit c d =
     (if l1_uncompressed_size c \<noteq> LZMA_VLI_UNKNOWN \<and> unat (l1_uncompressed_size c) < di_limit d - di_pos d
      then di_pos d + unat (l1_uncompressed_size c) else di_limit d)"

definition run_start :: "lzma1_coder \<Rightarrow> lzma_dict \<Rightarrow> lzma_range_decoder \<Rightarrow> nat \<Rightarrow> lzma_run" where
  "run_start c d rc in_pos = lzma1_coder.extend (c\<lparr>l1_rc := rc\<rparr>)
     \<lparr>ru_dict = d\<lparr>di_limit := decode_limit c d\<rparr>, ru_in_pos = in_pos, ru_pos_state = of_nat (di_pos d) AND l1_pos_mask c\<rparr>"

lemma lzma_decode_run:
  assumes "rc_read_init (l1_rc c) in_buf in_pos in_size = Some (LZMA_STREAM_END, rc, in_pos1)"
  shows "lzma_decode c d in_buf in_pos in_size
    = map_option (lzma_out d) (lzma_loop in_buf in_size (l1_uncompressed_size c \<noteq> LZMA_VLI_UNKNOWN) (l1_sequence c) (run_start c d rc in_pos1))"
  using assms
  by (cases "l1_uncompressed_size c \<noteq> LZMA_VLI_UNKNOWN \<and> unat (l1_uncompressed_size c) < di_limit d - di_pos d")
    (auto simp: lzma_decode_def Let_def run_start_def decode_limit_def)

lemma lzma_decode_ok:
  assumes "dict_ok d" "lzma_good (di_full d) c" "in_pos \<le> in_size" "in_size \<le> length in_buf"
  shows "\<exists>ret c' d' in_pos'. lzma_decode c d in_buf in_pos in_size = Some (ret, c', d', in_pos')
    \<and> lzma_result_ok c d in_pos in_size ret c' d' in_pos'"
proof -
  obtain ret rc in_pos1 where init: "rc_read_init (l1_rc c) in_buf in_pos in_size = Some (ret, rc, in_pos1)" "in_pos \<le> in_pos1"
    "in_pos1 \<le> in_size" "ret \<in> {LZMA_OK, LZMA_DATA_ERROR, LZMA_STREAM_END}" "rc_range rc = rc_range (l1_rc c)" "ret = LZMA_OK \<Longrightarrow> in_pos1 = in_size"
    using rc_read_init_ok [OF assms(3,4), of "l1_rc c"] by blast
  let ?us = "l1_uncompressed_size c"
  have rc: "range_ok rc" using init(5) assms(2) by (simp add: lzma_good_def coder_ok_def range_ok_def)
  show ?thesis
  proof (cases "ret = LZMA_STREAM_END")
    case False
    then show ?thesis using init assms rc by (auto simp: lzma_decode_def lzma_result_ok_def lzma_good_def seq_ok_update)
  next
    case True
    define limit where "limit = decode_limit c d"
    define run where "run = run_start c d rc in_pos1"
    have limit: "di_pos d \<le> limit" "limit \<le> di_limit d" "?us \<noteq> LZMA_VLI_UNKNOWN \<Longrightarrow> limit - di_pos d \<le> unat ?us"
      "limit \<noteq> di_limit d \<Longrightarrow> ?us \<noteq> LZMA_VLI_UNKNOWN \<and> limit = di_pos d + unat ?us"
      using assms(1) by (auto simp: limit_def decode_limit_def dict_ok_def split: if_splits)
    have fields: "ru_dict run = d\<lparr>di_limit := limit\<rparr>" "ru_in_pos run = in_pos1" "l1_uncompressed_size run = ?us"
      "ru_pos_state run = of_nat (di_pos d) AND l1_pos_mask c" "l1_pos_mask run = l1_pos_mask c"
      by (simp_all add: run_def run_start_def limit_def lzma1_coder.defs)
    have "coder_ok (di_full d) (c\<lparr>l1_rc := rc\<rparr>)" "seq_ok (di_full d) (l1_sequence c) (c\<lparr>l1_rc := rc\<rparr>)"
      using assms(2) rc by (simp_all add: lzma_good_def seq_ok_update)
    then have good: "coder_ok (di_full d) run" "seq_ok (di_full d) (l1_sequence c) run"
      unfolding run_def run_start_def extend_simps .
    moreover have "dict_ok (d\<lparr>di_limit := limit\<rparr>)" using assms(1) limit by (auto simp: dict_ok_def)
    ultimately have ok: "run_ok in_size run" "seq_ok (di_full (ru_dict run)) (l1_sequence c) run" using init(3) fields pos_state_ok [of "of_nat (di_pos d)" "l1_pos_mask c"] by (simp_all add: run_ok_def)
    obtain ret1 run' where loop: "lzma_loop in_buf in_size (?us \<noteq> LZMA_VLI_UNKNOWN) (l1_sequence c) run = Some (ret1, run')"
      "exit_ok in_size run ret1 run'"
      using lzma_loop_ok [OF ok(1) assms(4) ok(2)] by blast
    obtain ret' c' d' in_pos' where out: "lzma_out d (ret1, run') = (ret', c', d', in_pos')" by (metis prod_cases4)
    have "lzma_decode c d in_buf in_pos in_size = Some (ret', c', d', in_pos')"
      using lzma_decode_run [of c in_buf in_pos in_size rc in_pos1 d] init(1) True loop(1) out by (simp add: run_def)
    moreover have "lzma_result_ok c d in_pos1 in_size ret' c' d' in_pos'"
      using lzma_out_ok [OF loop(2) out assms(1) fields(1) limit(1,2) fields(2,3) limit(3,4)] .
    ultimately show ?thesis using init(2) by (auto simp: lzma_result_ok_def)
  qed
qed

section \<open>Reset\<close>

lemma at1_reset_first: "j < n \<Longrightarrow> at1 (reset_first n row) j = Some bit_reset"
  by (simp add: at1_def reset_first_def nth_append)

lemma at2_map_first:
  assumes "sized2 m k rows" "i < n" "n \<le> m" "j < l"
  shows "at2 (map_first n (reset_first l) rows) i j = Some bit_reset"
proof -
  have "length rows = m" using assms(1) by (metis length_map length_replicate sized2_def)
  then show ?thesis using assms(2-4) by (simp add: at2_def at1_def map_first_def nth_append reset_first_def)
qed

lemma sized2_map_first:
  assumes "sized2 m k rows" "l \<le> k"
  shows "sized2 m k (map_first n (reset_first l) rows)"
proof -
  have rows: "\<forall>row\<in>set rows. length row = k" "length rows = m"
    using assms(1) unfolding sized2_def by (metis in_set_replicate list.set_map image_eqI, metis length_map length_replicate)
  have "map length (map_first n (reset_first l) rows) = map length (take n rows @ drop n rows)"
    unfolding map_first_def map_append map_map using rows(1) assms(2)
    by (intro arg_cong2 [where f = "(@)"] map_cong) (auto simp: reset_first_def dest: in_set_takeD)
  then show ?thesis using assms(1) by (simp add: sized2_def)
qed

lemma bittree_reset_first: "bittree_reset n = reset_first (2 ^ n)"
  by (rule ext) (simp add: bittree_reset_def)

lemma length_reset_first: "n \<le> length row \<Longrightarrow> length (reset_first n row) = length row"
  by (simp add: reset_first_def)

lemma length_reset_sized: "length_sized ld \<Longrightarrow> length_sized (length_reset n ld)"
  by (auto simp: length_sized_def length_reset_def bittree_reset_first length_reset_first LEN_LOW_BITS_def LEN_MID_BITS_def LEN_HIGH_BITS_def
      intro!: sized2_map_first)

lemma length_reset_get:
  assumes "length_sized ld" "len_used n r" "n \<le> POS_STATES_MAX"
  shows "len_get (length_reset n ld) r = Some bit_reset"
  using assms at2_map_first [of POS_STATES_MAX 8 "ld_low ld" _ n _ 8] at2_map_first [of POS_STATES_MAX 8 "ld_mid ld" _ n _ 8]
  by (cases r) (auto simp: length_sized_def length_reset_def bittree_reset_first at1_reset_first LEN_LOW_BITS_def LEN_MID_BITS_def LEN_HIGH_BITS_def)

lemma tables_reset_ok:
  assumes "tables_sized t" "2 ^ unat pb \<le> POS_STATES_MAX" "2 ^ unat (lc + lp) \<le> LITERAL_CODERS_MAX"
  shows "probs_ok (2 ^ unat pb) (2 ^ unat (lc + lp)) (tables_reset t lc lp pb)"
proof -
  have "tables_sized (tables_reset t lc lp pb)"
    using assms(1,2) unfolding tables_sized_def tables_reset_def Let_def literal_init_def bittree_reset_first
    by (auto simp: length_reset_first length_reset_sized DIST_SLOT_BITS_def ALIGN_BITS_def FULL_DISTANCES_def DIST_MODEL_END_def intro!: sized2_map_first)
  moreover have "prob_get (tables_reset t lc lp pb) ref = Some bit_reset" if "ref_used (2 ^ unat pb) (2 ^ unat (lc + lp)) ref" for ref
    using that assms
    by (cases ref)
      (auto simp: tables_sized_def tables_reset_def Let_def literal_init_def bittree_reset_first at1_reset_first length_reset_get
        DIST_SLOT_BITS_def ALIGN_BITS_def FULL_DISTANCES_def DIST_MODEL_END_def DIST_STATES_def intro!: at2_map_first)
  ultimately show ?thesis by (simp add: probs_ok_def prob_ok_reset)
qed

lemma lzma_decoder_reset_ok:
  assumes "tables_sized (l1_tables c)" "is_lclppb_valid options"
  shows "lzma_good full (lzma_decoder_reset c options)" "l1_sequence (lzma_decoder_reset c options) = SEQ_IS_MATCH"
    "l1_rc (lzma_decoder_reset c options) = rc_reset" "l1_uncompressed_size (lzma_decoder_reset c options) = l1_uncompressed_size c"
proof -
  let ?lc = "ol_lc options" and ?lp = "ol_lp options" and ?pb = "ol_pb options"
  have le: "unat ?lc \<le> 4" "unat ?lp \<le> 4" "unat (?lc + ?lp) \<le> 4" "unat ?pb \<le> 4"
    using assms(2) by (simp_all add: is_lclppb_valid_def lzma_const_defs word_le_nat_alt)
  then have sum: "unat (?lc + ?lp) = unat ?lc + unat ?lp" by (simp add: unat_word_ariths)
  have pow: "(2 :: nat) ^ n \<le> 16" if "n \<le> 4" for n using that power_increasing [of n 4 "2 :: nat"] by simp
  have small: "(2 :: nat) ^ n - Suc 0 < 16" "(2 :: nat) ^ n - Suc 0 \<le> 15" if "n \<le> 4" for n using pow [OF that] by linarith+
  have mask: "unat (push_bit n 1 - 1 :: u32) = 2 ^ n - 1" if "n \<le> 4" for n
  proof -
    have "n \<in> {0, 1, 2, 3, 4}" using that by auto
    then show ?thesis by auto
  qed
  have max: "POS_STATES_MAX = 16" "LITERAL_CODERS_MAX = 16" by (simp_all add: lzma_const_defs)
  have "probs_ok (2 ^ unat ?pb) (2 ^ unat (?lc + ?lp)) (tables_reset (l1_tables c) ?lc ?lp ?pb)"
    using assms(1) pow le by (intro tables_reset_ok) (simp_all add: max)
  moreover have "(2 :: nat) ^ unat (?lc + ?lp) = 2 ^ unat ?lp * 2 ^ unat ?lc" by (simp add: sum power_add)
  ultimately show "lzma_good full (lzma_decoder_reset c options)"
    using le mask pow [OF le(3)] small
    by (simp add: lzma_good_def coder_ok_def lzma_decoder_reset_def lzma_static_def rep_ok_def range_ok_reset state_defs max)
qed (simp_all add: lzma_decoder_reset_def)

section \<open>The property\<close>

text \<open>C8. The LZMA decoder is well-formed on every input. \<open>lzma_good\<close> is its invariant: the arrays have their sizes, every
  probability that is used lies between 31 and 2017, the range has at least 16 bits, the state is one of the twelve, the
  stored distances point into the dictionary, and the variables fit the label where decoding goes on. \<open>lzma_decoder_reset\<close>
  with valid options establishes it. From such a state, and for any bytes of input, \<open>lzma_decode\<close> returns; it never
  leaves an array, the dictionary or the input; it moves its positions forward and inside of their limits, and
  decodes no more bytes than the known size. After \<open>LZMA_OK\<close> the invariant holds again, and all the input is used or the
  dictionary is full up to its limit; after the end of a chunk of
  known size it holds too, and the range decoder is ready for the next chunk.\<close>

theorem lzma_decode_wellformed:
  assumes "dict_ok d" "in_pos \<le> in_size" "in_size \<le> length in_buf"
    and "lzma_good (di_full d) c \<or> (\<exists>c0 options. tables_sized (l1_tables c0) \<and> is_lclppb_valid options \<and> c = lzma_decoder_reset c0 options)"
  shows "\<exists>ret c' d' in_pos'. lzma_decode c d in_buf in_pos in_size = Some (ret, c', d', in_pos')
    \<and> lzma_result_ok c d in_pos in_size ret c' d' in_pos'"
proof -
  have "lzma_good (di_full d) c" using assms(4) lzma_decoder_reset_ok(1) by blast
  then show ?thesis using lzma_decode_ok assms(1-3) by blast
qed

definition sample_length :: lzma_length_decoder where
  "sample_length = \<lparr>ld_choice = 0, ld_choice2 = 0, ld_low = replicate 16 (replicate 8 0), ld_mid = replicate 16 (replicate 8 0),
     ld_high = replicate 256 0\<rparr>"

definition sample_tables :: lzma_probs where
  "sample_tables = \<lparr>pr_literal = replicate 16 (replicate 768 0), pr_is_match = replicate 12 (replicate 16 0),
     pr_is_rep = replicate 12 0, pr_is_rep0 = replicate 12 0, pr_is_rep1 = replicate 12 0, pr_is_rep2 = replicate 12 0,
     pr_is_rep0_long = replicate 12 (replicate 16 0), pr_dist_slot = replicate 4 (replicate 64 0), pr_pos_special = replicate 114 0,
     pr_pos_align = replicate 16 0, pr_match_len_decoder = sample_length, pr_rep_len_decoder = sample_length\<rparr>"

text \<open>A coder in fresh memory.\<close>

definition sample_lzma1 :: lzma1_coder where
  "sample_lzma1 = \<lparr>l1_tables = sample_tables, l1_rc = rc_reset, l1_state = 0, l1_rep0 = 0, l1_rep1 = 0, l1_rep2 = 0, l1_rep3 = 0,
     l1_pos_mask = 0, l1_literal_context_bits = 0, l1_literal_pos_mask = 0, l1_uncompressed_size = 3, l1_sequence = SEQ_IS_MATCH,
     l1_probs = Probs_null, l1_symbol = 0, l1_limit = 0, l1_offset = 0, l1_len = 0\<rparr>"

lemma sample_tables_sized: "tables_sized (l1_tables sample_lzma1)"
  by (simp add: sample_lzma1_def sample_tables_def tables_sized_def length_sized_def sample_length_def sized2_def state_defs lzma_const_defs)

lemma sample_lzma_valid: "is_lclppb_valid sample_lzma"
  by (simp add: sample_lzma_def is_lclppb_valid_def lzma_const_defs)

theorem lzma_decode_wellformed_witness:
  "dict_ok wrapped_dict \<and> (\<exists>ret c' d' in_pos'. lzma_decode (lzma_decoder_reset sample_lzma1 sample_lzma) wrapped_dict [0, 1, 2, 3, 4, 5] 0 6
     = Some (ret, c', d', in_pos')
   \<and> lzma_result_ok (lzma_decoder_reset sample_lzma1 sample_lzma) wrapped_dict 0 6 ret c' d' in_pos')"
proof -
  have dict: "dict_ok wrapped_dict" using wrapped_dict_holds by (rule dict_holds_ok)
  then show ?thesis
    using lzma_decode_wellformed [OF dict, of 0 6 "[0, 1, 2, 3, 4, 5]" "lzma_decoder_reset sample_lzma1 sample_lzma"]
      sample_tables_sized sample_lzma_valid by (auto simp del: One_nat_def)
qed

end
