(* ===== verification/Lzma2_Decoder.thy ===== *)
theory Lzma2_Decoder
  imports Lz_Decoder Lzma_Safety
begin

text \<open>
  The LZMA2 decoder, \<open>lzma/lzma2_decoder.c\<close>, with the functions of \<open>lzma_decoder.c\<close> that create an LZMA decoder. LZMA2 data is a
  sequence of chunks: uncompressed ones, and LZMA ones that keep or reset the state of the LZMA decoder below.

  LZMA2 is shown to use that decoder only in states where its invariant holds: in particular a reset of the dictionary is
  always followed by a reset of the LZMA state before the next LZMA chunk, so that no stored distance points outside of the
  new dictionary. Both decoders are LZ-based decoders in the sense of the locale \<open>lz_based\<close>.
\<close>

section \<open>The code\<close>

subsection \<open>Creating an LZMA decoder\<close>

text \<open>\<open>mem\<close> is the content of the allocated coder. When the allocation fails \<open>*lz_options\<close> is not written, and not read either.\<close>

definition no_lz_options :: lzma_lz_options where
  "no_lz_options = \<lparr>lo_dict_size = 0, lo_preset_dict = None, lo_preset_dict_size = 0\<rparr>"

definition lzma_lzma_decoder_create ::
  "lzma1_coder option \<Rightarrow> lzma1_coder lzma_lz_decoder \<Rightarrow> lzma_options_lzma \<Rightarrow> lzma_ret \<times> lzma1_coder lzma_lz_decoder \<times> lzma_lz_options"
where
  "lzma_lzma_decoder_create mem lz options =
     (case (if lz_coder lz = None
            then map_option (\<lambda>c. \<lparr>lz_coder = Some c, lz_code = Some lzma_decode, lz_reset = Some lzma_decoder_reset,
                   lz_set_uncompressed = Some lzma_decoder_uncompressed\<rparr>) mem
            else Some lz) of
        None \<Rightarrow> (LZMA_MEM_ERROR, lz, no_lz_options)
      | Some lz \<Rightarrow>
          (LZMA_OK, lz, \<lparr>lo_dict_size = unat (ol_dict_size options), lo_preset_dict = ol_preset_dict options,
             lo_preset_dict_size = unat (ol_preset_dict_size options)\<rparr>))"

definition lzma_decoder_init ::
  "lzma1_coder option \<Rightarrow> lzma1_coder lzma_lz_decoder \<Rightarrow> filter_options option \<Rightarrow> lzma_ret \<times> lzma1_coder lzma_lz_decoder \<times> lzma_lz_options"
where
  "lzma_decoder_init mem lz options =
     (let opt = opt_lzma options
      in if \<not> is_lclppb_valid opt then (LZMA_PROG_ERROR, lz, no_lz_options)
         else
           (let (ret, lz, lz_options) = lzma_lzma_decoder_create mem lz opt
            in if ret \<noteq> LZMA_OK then (ret, lz, lz_options)
               else (LZMA_OK, lz\<lparr>lz_coder := map_option (\<lambda>c. lzma_decoder_uncompressed (lzma_decoder_reset c opt) LZMA_VLI_UNKNOWN) (lz_coder lz)\<rparr>,
                     lz_options)))"

definition lzma_lzma_decoder_init ::
  "lzma1_coder option \<Rightarrow> (nat \<Rightarrow> u8 list option) \<Rightarrow> 'n filter_inits \<Rightarrow> (lzma1_coder, 'n) lz_decoder option
     \<Rightarrow> (lzma1_coder, 'n) lz_decoder lzma_next_coder \<Rightarrow> lzma_filter_info list \<Rightarrow> lzma_ret \<times> (lzma1_coder, 'n) lz_decoder lzma_next_coder"
where
  "lzma_lzma_decoder_init mem1 = lzma_lz_decoder_init (lzma_decoder_init mem1)"

subsection \<open>The LZMA2 decoder\<close>

datatype lzma2_seq =
    SEQ_CONTROL
  | SEQ_UNCOMPRESSED_1
  | SEQ_UNCOMPRESSED_2
  | SEQ_COMPRESSED_0
  | SEQ_COMPRESSED_1
  | SEQ_PROPERTIES
  | SEQ_LZMA
  | SEQ_COPY

record lzma2_coder =
  l2_sequence :: lzma2_seq
  l2_next_sequence :: lzma2_seq
  l2_lzma :: "lzma1_coder lzma_lz_decoder"
  l2_uncompressed_size :: nat
  l2_compressed_size :: nat
  l2_need_properties :: bool
  l2_need_dictionary_reset :: bool
  l2_options :: lzma_options_lzma

text \<open>The turns of the loop. \<open>Inl\<close> is a \<open>return\<close>, \<open>Inr\<close> a \<open>break\<close> of the \<open>switch\<close>.\<close>

type_synonym lzma2_turn = "(lzma_ret \<times> lzma2_coder \<times> lzma_dict \<times> nat) + (lzma2_coder \<times> lzma_dict \<times> nat)"

definition lzma2_call_reset :: "lzma2_coder \<Rightarrow> lzma2_coder" where
  "lzma2_call_reset coder =
     (let lz = l2_lzma coder
      in coder\<lparr>l2_lzma := lz\<lparr>lz_coder := Some (the (lz_reset lz) (the (lz_coder lz)) (l2_options coder))\<rparr>\<rparr>)"

text \<open>The end of the case \<open>SEQ_CONTROL\<close>.\<close>

definition lzma2_finish_reset :: "lzma2_coder \<Rightarrow> lzma_dict \<Rightarrow> nat \<Rightarrow> lzma2_turn" where
  "lzma2_finish_reset coder dict in_pos =
     (if l2_need_dictionary_reset coder
      then Inl (LZMA_OK, coder\<lparr>l2_need_dictionary_reset := False\<rparr>, dict_reset dict, in_pos)
      else Inr (coder, dict, in_pos))"

definition lzma2_control :: "lzma2_coder \<Rightarrow> lzma_dict \<Rightarrow> u8 \<Rightarrow> nat \<Rightarrow> lzma2_turn" where
  "lzma2_control coder dict byte in_pos =
     (let control = ucast byte :: u32
      in if control = 0 then Inl (LZMA_STREAM_END, coder, dict, in_pos)
         else
           (let reset = (control \<ge> 0xE0 \<or> control = 1);
                coder = (if reset then coder\<lparr>l2_need_properties := True, l2_need_dictionary_reset := True\<rparr> else coder)
            in if \<not> reset \<and> l2_need_dictionary_reset coder then Inl (LZMA_DATA_ERROR, coder, dict, in_pos)
               else if control \<ge> 0x80
               then
                 (let coder = coder\<lparr>l2_uncompressed_size := unat (push_bit 16 (control AND 0x1F)), l2_sequence := SEQ_UNCOMPRESSED_1\<rparr>
                  in if control \<ge> 0xC0
                     then lzma2_finish_reset (coder\<lparr>l2_need_properties := False, l2_next_sequence := SEQ_PROPERTIES\<rparr>) dict in_pos
                     else if l2_need_properties coder then Inl (LZMA_DATA_ERROR, coder, dict, in_pos)
                     else
                       (let coder = coder\<lparr>l2_next_sequence := SEQ_LZMA\<rparr>
                        in lzma2_finish_reset (if control \<ge> 0xA0 then lzma2_call_reset coder else coder) dict in_pos))
               else if control > 2 then Inl (LZMA_DATA_ERROR, coder, dict, in_pos)
               else lzma2_finish_reset (coder\<lparr>l2_sequence := SEQ_COMPRESSED_0, l2_next_sequence := SEQ_COPY\<rparr>) dict in_pos))"

definition lzma2_uncompressed_2 :: "lzma2_coder \<Rightarrow> u8 \<Rightarrow> lzma2_coder" where
  "lzma2_uncompressed_2 coder byte =
     (let coder = coder\<lparr>l2_uncompressed_size := l2_uncompressed_size coder + unat byte + 1, l2_sequence := SEQ_COMPRESSED_0\<rparr>;
          lz = l2_lzma coder
      in coder\<lparr>l2_lzma := lz\<lparr>lz_coder := Some (the (lz_set_uncompressed lz) (the (lz_coder lz)) (of_nat (l2_uncompressed_size coder)))\<rparr>\<rparr>)"

definition lzma2_properties :: "lzma2_coder \<Rightarrow> lzma_dict \<Rightarrow> u8 \<Rightarrow> nat \<Rightarrow> lzma2_turn" where
  "lzma2_properties coder dict byte in_pos =
     (case lzma_lzma_lclppb_decode (l2_options coder) byte of
        (err, options) \<Rightarrow>
          (let coder = coder\<lparr>l2_options := options\<rparr>
           in if err then Inl (LZMA_DATA_ERROR, coder, dict, in_pos)
              else Inr ((lzma2_call_reset coder)\<lparr>l2_sequence := SEQ_LZMA\<rparr>, dict, in_pos)))"

definition lzma2_lzma :: "lzma2_coder \<Rightarrow> lzma_dict \<Rightarrow> u8 list \<Rightarrow> nat \<Rightarrow> nat \<Rightarrow> lzma2_turn option" where
  "lzma2_lzma coder dict in_buf in_pos in_size =
     (let in_start = in_pos;
          lz = l2_lzma coder
      in case the (lz_code lz) (the (lz_coder lz)) dict in_buf in_pos in_size of
           None \<Rightarrow> None
         | Some (ret, c, dict, in_pos) \<Rightarrow>
             Some
               (let coder = coder\<lparr>l2_lzma := lz\<lparr>lz_coder := Some c\<rparr>\<rparr>;
                    in_used = in_pos - in_start
                in if in_used > l2_compressed_size coder then Inl (LZMA_DATA_ERROR, coder, dict, in_pos)
                   else
                     (let coder = coder\<lparr>l2_compressed_size := l2_compressed_size coder - in_used\<rparr>
                      in if ret \<noteq> LZMA_STREAM_END then Inl (ret, coder, dict, in_pos)
                         else if l2_compressed_size coder \<noteq> 0 then Inl (LZMA_DATA_ERROR, coder, dict, in_pos)
                         else Inr (coder\<lparr>l2_sequence := SEQ_CONTROL\<rparr>, dict, in_pos))))"

definition lzma2_copy :: "lzma2_coder \<Rightarrow> lzma_dict \<Rightarrow> u8 list \<Rightarrow> nat \<Rightarrow> nat \<Rightarrow> lzma2_turn" where
  "lzma2_copy coder dict in_buf in_pos in_size =
     (case dict_write dict in_buf in_pos in_size (l2_compressed_size coder) of
        (in_pos, dict, left) \<Rightarrow>
          (let coder = coder\<lparr>l2_compressed_size := left\<rparr>
           in if left \<noteq> 0 then Inl (LZMA_OK, coder, dict, in_pos)
              else Inr (coder\<lparr>l2_sequence := SEQ_CONTROL\<rparr>, dict, in_pos)))"

text \<open>One turn; \<open>next_byte\<close> reads \<open>in[(*in_pos)++]\<close>.\<close>

definition next_byte :: "u8 list \<Rightarrow> nat \<Rightarrow> (u8 \<Rightarrow> nat \<Rightarrow> lzma2_turn) \<Rightarrow> lzma2_turn option" where
  "next_byte in_buf in_pos k = (if in_pos < length in_buf then Some (k (in_buf ! in_pos) (in_pos + 1)) else None)"

fun lzma2_step :: "lzma2_seq \<Rightarrow> lzma2_coder \<Rightarrow> lzma_dict \<Rightarrow> u8 list \<Rightarrow> nat \<Rightarrow> nat \<Rightarrow> lzma2_turn option" where
  "lzma2_step SEQ_CONTROL coder dict in_buf in_pos in_size = next_byte in_buf in_pos (lzma2_control coder dict)"
| "lzma2_step SEQ_UNCOMPRESSED_1 coder dict in_buf in_pos in_size = next_byte in_buf in_pos (\<lambda>byte in_pos.
     Inr (coder\<lparr>l2_uncompressed_size := l2_uncompressed_size coder + unat (push_bit 8 (ucast byte :: u32)), l2_sequence := SEQ_UNCOMPRESSED_2\<rparr>,
          dict, in_pos))"
| "lzma2_step SEQ_UNCOMPRESSED_2 coder dict in_buf in_pos in_size = next_byte in_buf in_pos (\<lambda>byte in_pos.
     Inr (lzma2_uncompressed_2 coder byte, dict, in_pos))"
| "lzma2_step SEQ_COMPRESSED_0 coder dict in_buf in_pos in_size = next_byte in_buf in_pos (\<lambda>byte in_pos.
     Inr (coder\<lparr>l2_compressed_size := unat (push_bit 8 (ucast byte :: u32)), l2_sequence := SEQ_COMPRESSED_1\<rparr>, dict, in_pos))"
| "lzma2_step SEQ_COMPRESSED_1 coder dict in_buf in_pos in_size = next_byte in_buf in_pos (\<lambda>byte in_pos.
     Inr (coder\<lparr>l2_compressed_size := l2_compressed_size coder + unat byte + 1, l2_sequence := l2_next_sequence coder\<rparr>, dict, in_pos))"
| "lzma2_step SEQ_PROPERTIES coder dict in_buf in_pos in_size = next_byte in_buf in_pos (lzma2_properties coder dict)"
| "lzma2_step SEQ_LZMA coder dict in_buf in_pos in_size = lzma2_lzma coder dict in_buf in_pos in_size"
| "lzma2_step SEQ_COPY coder dict in_buf in_pos in_size = Some (lzma2_copy coder dict in_buf in_pos in_size)"

partial_function (option) lzma2_decode ::
  "lzma2_coder \<Rightarrow> lzma_dict \<Rightarrow> u8 list \<Rightarrow> nat \<Rightarrow> nat \<Rightarrow> (lzma_ret \<times> lzma2_coder \<times> lzma_dict \<times> nat) option" where
  "lzma2_decode coder dict in_buf in_pos in_size =
     (if in_pos < in_size \<or> l2_sequence coder = SEQ_LZMA
      then
        Option.bind (lzma2_step (l2_sequence coder) coder dict in_buf in_pos in_size) (\<lambda>turn.
          case turn of
            Inl res \<Rightarrow> Some res
          | Inr (coder, dict, in_pos) \<Rightarrow> lzma2_decode coder dict in_buf in_pos in_size)
      else Some (LZMA_OK, coder, dict, in_pos))"

definition lzma2_decoder_init ::
  "lzma1_coder option \<Rightarrow> lzma2_coder option \<Rightarrow> lzma2_coder lzma_lz_decoder \<Rightarrow> filter_options option
     \<Rightarrow> lzma_ret \<times> lzma2_coder lzma_lz_decoder \<times> lzma_lz_options"
where
  "lzma2_decoder_init mem1 mem2 lz opt =
     (case (if lz_coder lz = None
            then map_option (\<lambda>c. lz\<lparr>lz_coder := Some (c\<lparr>l2_lzma := LZMA_LZ_DECODER_INIT\<rparr>), lz_code := Some lzma2_decode\<rparr>) mem2
            else Some lz) of
        None \<Rightarrow> (LZMA_MEM_ERROR, lz, no_lz_options)
      | Some lz \<Rightarrow>
          (let options = opt_lzma opt;
               coder = (the (lz_coder lz))\<lparr>l2_sequence := SEQ_CONTROL, l2_need_properties := True,
                 l2_need_dictionary_reset := (ol_preset_dict options = None \<or> ol_preset_dict_size options = 0)\<rparr>;
               (ret, lzma, lz_options) = lzma_lzma_decoder_create mem1 (l2_lzma coder) options
           in (ret, lz\<lparr>lz_coder := Some (coder\<lparr>l2_lzma := lzma\<rparr>)\<rparr>, lz_options)))"

definition lzma_lzma2_decoder_init ::
  "lzma1_coder option \<Rightarrow> lzma2_coder option \<Rightarrow> (nat \<Rightarrow> u8 list option) \<Rightarrow> 'n filter_inits \<Rightarrow> (lzma2_coder, 'n) lz_decoder option
     \<Rightarrow> (lzma2_coder, 'n) lz_decoder lzma_next_coder \<Rightarrow> lzma_filter_info list \<Rightarrow> lzma_ret \<times> (lzma2_coder, 'n) lz_decoder lzma_next_coder"
where
  "lzma_lzma2_decoder_init mem1 mem2 = lzma_lz_decoder_init (lzma2_decoder_init mem1 mem2)"

section \<open>The LZMA decoder as an LZ-based decoder\<close>

interpretation lzma1: lz_based lzma_decode lzma_good "{LZMA_OK}"
proof
  fix d c in_pos in_size and in_buf :: "u8 list"
  assume a: "dict_ok d" "\<not> di_need_reset d" "lzma_good (di_full d) c" "in_pos \<le> in_size" "in_size \<le> length in_buf"
  obtain ret c' d' in_pos' where run: "lzma_decode c d in_buf in_pos in_size = Some (ret, c', d', in_pos')"
    "lzma_result_ok c d in_pos in_size ret c' d' in_pos'"
    using lzma_decode_ok [OF a(1,3,4,5)] by blast
  moreover have "\<not> di_need_reset d'" using run(2) a(2) by (simp add: lzma_result_ok_def dict_frame_def)
  ultimately show "\<exists>ret c' d' in_pos'. lzma_decode c d in_buf in_pos in_size = Some (ret, c', d', in_pos')
      \<and> lz_result_ok lzma_good {LZMA_OK} d in_pos in_size ret c' d' in_pos'"
    by (auto simp: lz_result_ok_def lzma_result_ok_def dict_frame_def)
qed simp

section \<open>The invariant of LZMA2\<close>

text \<open>The LZMA decoder between two chunks, with options that can be used again.\<close>

definition lzma2_idle :: "nat \<Rightarrow> lzma2_coder \<Rightarrow> lzma1_coder \<Rightarrow> bool" where
  "lzma2_idle full c lz \<longleftrightarrow> is_lclppb_valid (l2_options c) \<and> lzma_good full lz \<and> l1_sequence lz = SEQ_IS_MATCH"

definition lzma2_pending :: "nat \<Rightarrow> lzma2_coder \<Rightarrow> lzma1_coder \<Rightarrow> bool" where
  "lzma2_pending full c lz \<longleftrightarrow> \<not> l2_need_properties c \<longrightarrow> lzma2_idle full c lz"

abbreviation size_known :: "lzma1_coder \<Rightarrow> bool" where
  "size_known lz \<equiv> l1_uncompressed_size lz \<noteq> LZMA_VLI_UNKNOWN"

fun lzma2_seq_ok :: "lzma2_seq \<Rightarrow> nat \<Rightarrow> lzma2_coder \<Rightarrow> lzma1_coder \<Rightarrow> bool" where
  "lzma2_seq_ok SEQ_CONTROL full c lz \<longleftrightarrow> lzma2_pending full c lz"
| "lzma2_seq_ok SEQ_UNCOMPRESSED_1 full c lz \<longleftrightarrow>
     l2_uncompressed_size c \<le> 0x1F0000 \<and> (l2_next_sequence c = SEQ_PROPERTIES \<or> l2_next_sequence c = SEQ_LZMA \<and> lzma2_idle full c lz)"
| "lzma2_seq_ok SEQ_UNCOMPRESSED_2 full c lz \<longleftrightarrow>
     l2_uncompressed_size c \<le> 0x1FFF00 \<and> (l2_next_sequence c = SEQ_PROPERTIES \<or> l2_next_sequence c = SEQ_LZMA \<and> lzma2_idle full c lz)"
| "lzma2_seq_ok SEQ_COMPRESSED_0 full c lz \<longleftrightarrow>
     l2_next_sequence c = SEQ_PROPERTIES \<and> size_known lz \<or> l2_next_sequence c = SEQ_LZMA \<and> size_known lz \<and> lzma2_idle full c lz
     \<or> l2_next_sequence c = SEQ_COPY \<and> lzma2_pending full c lz"
| "lzma2_seq_ok SEQ_COMPRESSED_1 full c lz \<longleftrightarrow>
     l2_compressed_size c \<le> 0xFF00
     \<and> (l2_next_sequence c = SEQ_PROPERTIES \<and> size_known lz \<or> l2_next_sequence c = SEQ_LZMA \<and> size_known lz \<and> lzma2_idle full c lz
        \<or> l2_next_sequence c = SEQ_COPY \<and> lzma2_pending full c lz)"
| "lzma2_seq_ok SEQ_PROPERTIES full c lz \<longleftrightarrow> size_known lz"
| "lzma2_seq_ok SEQ_LZMA full c lz \<longleftrightarrow> is_lclppb_valid (l2_options c) \<and> lzma_good full lz \<and> size_known lz"
| "lzma2_seq_ok SEQ_COPY full c lz \<longleftrightarrow> 0 < l2_compressed_size c \<and> lzma2_pending full c lz"

definition lzma_lz :: "lzma1_coder \<Rightarrow> lzma1_coder lzma_lz_decoder" where
  "lzma_lz lz = \<lparr>lz_coder = Some lz, lz_code = Some lzma_decode, lz_reset = Some lzma_decoder_reset,
     lz_set_uncompressed = Some lzma_decoder_uncompressed\<rparr>"

lemma lzma_lz_simps [simp]:
  "lz_coder (lzma_lz lz) = Some lz" "lz_code (lzma_lz lz) = Some lzma_decode" "lz_reset (lzma_lz lz) = Some lzma_decoder_reset"
  "lz_set_uncompressed (lzma_lz lz) = Some lzma_decoder_uncompressed" "(lzma_lz lz)\<lparr>lz_coder := Some lz'\<rparr> = lzma_lz lz'"
  "lzma_lz lz = lzma_lz lz' \<longleftrightarrow> lz = lz'"
  by (simp_all add: lzma_lz_def)

definition lzma2_good :: "nat \<Rightarrow> lzma2_coder \<Rightarrow> bool" where
  "lzma2_good full c \<longleftrightarrow>
     (\<exists>lz. l2_lzma c = lzma_lz lz \<and> tables_sized (l1_tables lz) \<and> lzma2_seq_ok (l2_sequence c) full c lz)"

lemma lclppb_decode_valid:
  assumes "lzma_lzma_lclppb_decode options byte = (False, options')"
  shows "is_lclppb_valid options'"
proof -
  define pb :: u32 where "pb = ucast byte div (9 * 5)"
  define b' where "b' = byte - ucast (pb * 9 * 5)"
  define lp :: u32 where "lp = ucast b' div 9"
  define lc :: u32 where "lc = ucast b' - lp * 9"
  have dec: "byte \<le> 224" "lc + lp \<le> LZMA_LCLP_MAX" "options' = options\<lparr>ol_pb := pb, ol_lp := lp, ol_lc := lc\<rparr>"
    using assms unfolding lzma_lzma_lclppb_decode_def Let_def pb_def [symmetric] b'_def [symmetric] lp_def [symmetric] lc_def [symmetric]
    by (auto simp: not_less split: if_splits)
  have uc: "unat (ucast x :: u32) = unat x" for x :: u8
    using unat_u8_less [of x] by (simp only: unat_ucast_mod) simp
  have b: "unat byte \<le> 224" using dec(1) by (simp add: word_le_nat_alt)
  have pb: "unat pb = unat byte div 45" by (simp add: pb_def unat_div uc)
  then have pb4: "unat pb \<le> 4" using b by simp
  have lp: "unat lp = unat b' div 9" by (simp add: lp_def unat_div uc)
  have "unat (pb * 9 * 5) = unat pb * 45" using pb4 by (simp add: unat_word_ariths)
  then have sub: "unat (ucast (pb * 9 * 5) :: u8) = unat pb * 45" using pb4 by (simp only: unat_ucast_mod) simp
  have "unat b' = unat byte - unat pb * 45"
    unfolding b'_def sub [symmetric] by (rule unat_sub) (unfold word_le_nat_alt sub pb, simp)
  also have "\<dots> = unat byte mod 45" by (simp add: pb minus_div_mult_eq_mod)
  finally have b': "unat b' = unat byte mod 45" .
  have lp4: "unat lp \<le> 4" using lp b' by simp
  then have "unat (lp * 9) = unat lp * 9" by (simp add: unat_word_ariths)
  then have "unat lc = unat b' - unat lp * 9"
    unfolding lc_def uc [symmetric] by (metis lp div_times_less_eq_dividend unat_sub uc word_le_nat_alt)
  then have lc: "unat lc < 9" using lp by (simp add: minus_div_mult_eq_mod)
  have "unat lc + unat lp \<le> 4"
    using dec(2) lc lp4 by (simp add: LZMA_LCLP_MAX_def word_le_nat_alt unat_word_ariths)
  then show ?thesis using dec pb4 by (simp add: is_lclppb_valid_def LZMA_LCLP_MAX_def LZMA_PB_MAX_def word_le_nat_alt unat_word_ariths)
qed

lemma coder_ok_mono: "coder_ok m c \<Longrightarrow> m \<le> n \<Longrightarrow> coder_ok n c"
  by (auto simp: coder_ok_def intro: rep_ok_mono)

lemma lzma_good_mono: "lzma_good m c \<Longrightarrow> m \<le> n \<Longrightarrow> l1_sequence c = SEQ_IS_MATCH \<Longrightarrow> lzma_good n c"
  by (auto simp: lzma_good_def intro: rep_ok_mono coder_ok_mono)

lemma lzma2_idle_mono: "lzma2_idle m c lz \<Longrightarrow> m \<le> n \<Longrightarrow> lzma2_idle n c lz"
  by (auto simp: lzma2_idle_def intro: lzma_good_mono)

lemma good_tables_sized: "lzma_good full c \<Longrightarrow> tables_sized (l1_tables c)"
  by (simp add: lzma_good_def coder_ok_def probs_ok_def)

lemma uncompressed_ok:
  assumes "lzma2_idle full c lz"
  shows "lzma2_idle full c (lzma_decoder_uncompressed lz n)"
  using assms by (auto simp: lzma2_idle_def lzma_decoder_uncompressed_def lzma_good_def)

text \<open>What every result keeps of the dictionary and the input.\<close>

definition lz_kept :: "lzma_dict \<Rightarrow> nat \<Rightarrow> nat \<Rightarrow> lzma_dict \<Rightarrow> nat \<Rightarrow> bool" where
  "lz_kept d in_pos in_size d' in_pos' \<longleftrightarrow>
     in_pos \<le> in_pos' \<and> in_pos' \<le> in_size \<and> dict_ok d' \<and> di_limit d' = di_limit d \<and> di_size d' = di_size d \<and> di_pos d \<le> di_pos d'"

text \<open>What a state can still write without reading a new chunk header. A header announces at most 2 MiB.\<close>

definition lzma2_pot :: "lzma2_coder \<Rightarrow> nat" where
  "lzma2_pot c =
     (let left = unat (l1_uncompressed_size (the (lz_coder (l2_lzma c))))
      in case l2_sequence c of
           SEQ_COMPRESSED_0 \<Rightarrow> if l2_next_sequence c = SEQ_COPY then 0 else left
         | SEQ_COMPRESSED_1 \<Rightarrow> if l2_next_sequence c = SEQ_COPY then 0 else left
         | SEQ_PROPERTIES \<Rightarrow> left
         | SEQ_LZMA \<Rightarrow> left
         | SEQ_COPY \<Rightarrow> l2_compressed_size c
         | _ \<Rightarrow> 0)"

definition lzma2_spends :: "lzma2_coder \<Rightarrow> lzma_dict \<Rightarrow> nat \<Rightarrow> lzma2_coder \<Rightarrow> lzma_dict \<Rightarrow> nat \<Rightarrow> bool" where
  "lzma2_spends c d in_pos c' d' in_pos' \<longleftrightarrow> (di_pos d' - di_pos d) + lzma2_pot c' \<le> lzma2_pot c + 0x200000 * (in_pos' - in_pos)"

abbreviation lzma2_resumes :: "lzma_ret set" where
  "lzma2_resumes \<equiv> {LZMA_OK, LZMA_STREAM_END}"

text \<open>The result of one turn, like that of a call; when the loop goes on, it has read a byte or left the state \<open>SEQ_LZMA\<close>.\<close>

definition lzma2_turn_ok :: "lzma2_coder \<Rightarrow> lzma_dict \<Rightarrow> nat \<Rightarrow> nat \<Rightarrow> lzma2_turn option \<Rightarrow> bool" where
  "lzma2_turn_ok c d in_pos in_size turn =
     (case turn of
        None \<Rightarrow> False
      | Some (Inl (ret, c', d', in_pos')) \<Rightarrow>
          lz_result_ok lzma2_good lzma2_resumes d in_pos in_size ret c' d' in_pos' \<and> lzma2_spends c d in_pos c' d' in_pos'
      | Some (Inr (c', d', in_pos')) \<Rightarrow>
          lz_kept d in_pos in_size d' in_pos' \<and> \<not> di_need_reset d' \<and> lzma2_good (di_full d') c' \<and> lzma2_spends c d in_pos c' d' in_pos'
          \<and> (in_pos < in_pos' \<or> l2_sequence c = SEQ_LZMA \<and> l2_sequence c' \<noteq> SEQ_LZMA))"

lemma dict_write_ok:
  assumes "dict_ok d" "in_pos \<le> in_size" "in_size \<le> length in_buf"
  shows "\<exists>d' n. dict_write d in_buf in_pos in_size left = (in_pos + n, d', left - n) \<and> dict_ok d' \<and> dict_frame d d'
    \<and> di_pos d' = di_pos d + n \<and> di_full d \<le> di_full d' \<and> n \<le> left \<and> n \<le> in_size - in_pos
    \<and> (n = left \<or> in_pos + n = in_size \<or> di_pos d' = di_limit d')"
proof -
  define e where "e = (if in_size - in_pos > left then in_pos + left else in_size)"
  define n where "n = min (e - in_pos) (di_limit d - di_pos d)"
  define d' where "d' = dict_append d (take n (drop in_pos in_buf))"
  have lim: "di_pos d \<le> di_limit d" using assms(1) by (simp add: dict_ok_def)
  have e: "e \<le> in_size" "in_pos \<le> e" "e - in_pos \<le> left" "e = in_size \<or> e - in_pos = left" using assms(2) by (auto simp: e_def)
  have n: "n \<le> e - in_pos" "di_pos d + n \<le> di_limit d" "n = e - in_pos \<or> di_pos d + n = di_limit d" using lim by (auto simp: n_def)
  have len: "length (take n (drop in_pos in_buf)) = n" using n(1) e(1) assms(3) by simp
  have "lzma_bufcpy in_buf in_pos e (di_buf d) (di_pos d) (di_limit d)
      = (n, in_pos + n, buf_write (di_pos d) (take n (drop in_pos in_buf)) (di_buf d), di_pos d + n)"
    by (simp only: lzma_bufcpy_def Let_def n_def)
  then have "dict_write d in_buf in_pos in_size left = (in_pos + n, d', left - n)"
    by (simp only: dict_write_def Let_def e_def [symmetric] prod.case d'_def dict_append_def len)
  moreover have "dict_ok d'" unfolding d'_def using dict_append_holds [OF dict_ok_holds [OF assms(1)]] len n(2) dict_holds_ok by metis
  moreover have "dict_frame d d'" "di_pos d' = di_pos d + n" "di_full d \<le> di_full d'"
    using dict_append_full len by (auto simp: d'_def dict_frame_def)
  moreover from this have "n = left \<or> in_pos + n = in_size \<or> di_pos d' = di_limit d'" using n(3) e by (auto simp: dict_frame_def)
  ultimately show ?thesis using n(1) e(1,3) by (intro exI [of _ d'] exI [of _ n]) simp
qed

section \<open>The turns\<close>

text \<open>A turn that reads a byte and keeps the dictionary.\<close>

lemma lzma2_turn_byte:
  assumes "dict_ok d" "\<not> di_need_reset d" "in_pos < in_size" "in_size \<le> length in_buf" "lzma2_good (di_full d) (f (in_buf ! in_pos))"
    and "lzma2_pot (f (in_buf ! in_pos)) \<le> lzma2_pot c + 0x200000"
  shows "lzma2_turn_ok c d in_pos in_size (next_byte in_buf in_pos (\<lambda>byte in_pos. Inr (f byte, d, in_pos)))"
  using assms by (auto simp: lzma2_turn_ok_def next_byte_def lz_kept_def lzma2_spends_def)

lemma lzma2_turn_error:
  assumes "dict_ok d" "\<not> di_need_reset d" "in_pos < in_size" "lzma2_pot c' \<le> lzma2_pot c"
    and "ret = LZMA_DATA_ERROR \<or> ret = LZMA_STREAM_END \<and> lzma2_good (di_full d) c'"
  shows "lzma2_turn_ok c d in_pos in_size (Some (Inl (ret, c', d, Suc in_pos)))"
  using assms by (auto simp: lzma2_turn_ok_def lz_result_ok_def lzma2_spends_def)

lemma lzma2_finish_reset_ok:
  assumes "dict_ok d" "\<not> di_need_reset d" "in_pos < in_size"
    and "lzma2_good (if l2_need_dictionary_reset c' then 0 else di_full d) (c'\<lparr>l2_need_dictionary_reset := False\<rparr>)" "lzma2_pot c' \<le> lzma2_pot c"
  shows "lzma2_turn_ok c d in_pos in_size (Some (lzma2_finish_reset c' d (Suc in_pos)))"
proof (cases "l2_need_dictionary_reset c'")
  case True
  moreover have "lzma2_pot (c'\<lparr>l2_need_dictionary_reset := False\<rparr>) = lzma2_pot c'"
    by (cases "l2_sequence c'") (simp_all add: lzma2_pot_def)
  ultimately show ?thesis
    using assms by (simp add: lzma2_turn_ok_def lzma2_finish_reset_def lz_result_ok_def dict_reset_def dict_ok_def lzma2_spends_def)
next
  case False
  then have "c'\<lparr>l2_need_dictionary_reset := False\<rparr> = c'" by (cases c') simp
  then have "lzma2_good (di_full d) c'" using assms(4) False by (metis (full_types))
  then show ?thesis using False assms(1-3,5) by (simp add: lzma2_turn_ok_def lzma2_finish_reset_def lz_kept_def lzma2_spends_def)
qed

lemma control_size: "unat (push_bit 16 (control AND 0x1F :: u32)) \<le> 0x1F0000"
proof -
  have "unat (control AND 0x1F) = unat control mod 32" using unat_and_mask [of control 5] by (simp add: mask_eq_exp_minus_1)
  then have "unat (control AND 0x1F) \<le> 31" by simp
  then show ?thesis by (simp add: push_bit_eq_mult unat_word_ariths)
qed

lemma lzma2_call_reset_lz:
  "l2_lzma c = lzma_lz lz \<Longrightarrow> lzma2_call_reset c = c\<lparr>l2_lzma := lzma_lz (lzma_decoder_reset lz (l2_options c))\<rparr>"
  by (simp add: lzma2_call_reset_def Let_def)

text \<open>The cases of the control byte, each with the whole change of the coder.\<close>

lemma lzma2_control_cases:
  fixes byte :: u8
  defines "k \<equiv> unat byte" and "n \<equiv> unat (push_bit 16 ((ucast byte :: u32) AND 0x1F))"
  shows "lzma2_control c d byte p =
    (if k = 0 then Inl (LZMA_STREAM_END, c, d, p)
     else if 0xE0 \<le> k
     then lzma2_finish_reset (c\<lparr>l2_need_dictionary_reset := True, l2_uncompressed_size := n, l2_sequence := SEQ_UNCOMPRESSED_1,
            l2_need_properties := False, l2_next_sequence := SEQ_PROPERTIES\<rparr>) d p
     else if k = 1
     then lzma2_finish_reset (c\<lparr>l2_need_properties := True, l2_need_dictionary_reset := True, l2_sequence := SEQ_COMPRESSED_0,
            l2_next_sequence := SEQ_COPY\<rparr>) d p
     else if l2_need_dictionary_reset c then Inl (LZMA_DATA_ERROR, c, d, p)
     else if 0xC0 \<le> k
     then lzma2_finish_reset (c\<lparr>l2_uncompressed_size := n, l2_sequence := SEQ_UNCOMPRESSED_1, l2_need_properties := False,
            l2_next_sequence := SEQ_PROPERTIES\<rparr>) d p
     else if 0x80 \<le> k
     then let c = c\<lparr>l2_uncompressed_size := n, l2_sequence := SEQ_UNCOMPRESSED_1\<rparr>; c' = c\<lparr>l2_next_sequence := SEQ_LZMA\<rparr>
          in if l2_need_properties c then Inl (LZMA_DATA_ERROR, c, d, p)
             else lzma2_finish_reset (if 0xA0 \<le> k then lzma2_call_reset c' else c') d p
     else if 2 < k then Inl (LZMA_DATA_ERROR, c, d, p)
     else lzma2_finish_reset (c\<lparr>l2_sequence := SEQ_COMPRESSED_0, l2_next_sequence := SEQ_COPY\<rparr>) d p)"
proof -
  define control :: u32 where "control = ucast byte"
  have uc: "unat control = k" unfolding control_def k_def using unat_u8_less [of byte] by (simp only: unat_ucast_mod) simp
  have "control = 0 \<longleftrightarrow> k = 0" "control = 1 \<longleftrightarrow> k = 1" "control > 2 \<longleftrightarrow> k > 2" "control \<ge> 0x80 \<longleftrightarrow> k \<ge> 0x80"
    "control \<ge> 0xA0 \<longleftrightarrow> k \<ge> 0xA0" "control \<ge> 0xC0 \<longleftrightarrow> k \<ge> 0xC0" "control \<ge> 0xE0 \<longleftrightarrow> k \<ge> 0xE0"
    by (simp_all add: uc word_le_nat_alt word_less_nat_alt word_unat_eq_iff)
  then show ?thesis unfolding lzma2_control_def n_def Let_def control_def [symmetric] by simp
qed

lemma lzma2_control_ok:
  assumes "lzma2_good (di_full d) c" "l2_sequence c = SEQ_CONTROL" "dict_ok d" "\<not> di_need_reset d" "in_pos < in_size"
  shows "lzma2_turn_ok c d in_pos in_size (Some (lzma2_control c d byte (Suc in_pos)))"
proof -
  from assms(1) obtain lz where lz: "l2_lzma c = lzma_lz lz" "tables_sized (l1_tables lz)" "lzma2_pending (di_full d) c lz"
    by (auto simp: lzma2_good_def assms(2))
  define n where "n = unat (push_bit 16 ((ucast byte :: u32) AND 0x1F))"
  have n: "n \<le> 0x1F0000" unfolding n_def by (rule control_size)
  note err = lzma2_turn_error [OF assms(3-5), where c = c]
  note fin = lzma2_finish_reset_ok [OF assms(3-5)]
  note run = lzma2_control_cases [of c d byte "Suc in_pos", folded n_def]
  note inv = lzma2_good_def lzma2_pending_def lzma2_idle_def
  have pot: "lzma2_pot c' = 0" if "l2_sequence c' \<in> {SEQ_CONTROL, SEQ_UNCOMPRESSED_1} \<or> l2_sequence c' = SEQ_COMPRESSED_0 \<and> l2_next_sequence c' = SEQ_COPY" for c'
    using that by (auto simp: lzma2_pot_def)
  have props: "lzma2_turn_ok c d in_pos in_size (Some (lzma2_finish_reset c' d (Suc in_pos)))"
    if "l2_lzma c' = lzma_lz lz" "l2_sequence c' = SEQ_UNCOMPRESSED_1" "l2_uncompressed_size c' = n" "l2_next_sequence c' = SEQ_PROPERTIES" for c'
    using that lz n by (intro fin) (auto simp: lzma2_good_def pot)
  have copy: "lzma2_turn_ok c d in_pos in_size (Some (lzma2_finish_reset c' d (Suc in_pos)))"
    if "l2_lzma c' = lzma_lz lz" "l2_sequence c' = SEQ_COMPRESSED_0" "l2_next_sequence c' = SEQ_COPY"
      "l2_need_properties c' \<or> l2_options c' = l2_options c \<and> l2_need_properties c' = l2_need_properties c \<and> \<not> l2_need_dictionary_reset c'" for c'
    using that lz by (intro fin) (auto simp: inv pot)
  have lzma: "lzma2_turn_ok c d in_pos in_size (Some (lzma2_finish_reset c' d (Suc in_pos)))"
    if "l2_lzma c' = lzma_lz lz'" "lz' = lz \<or> lz' = lzma_decoder_reset lz (l2_options c)" "l2_sequence c' = SEQ_UNCOMPRESSED_1"
      "l2_uncompressed_size c' = n" "l2_next_sequence c' = SEQ_LZMA" "l2_options c' = l2_options c" "\<not> l2_need_dictionary_reset c'"
      "\<not> l2_need_properties c" for c' lz'
    using that lz n lzma_decoder_reset_ok [of lz "l2_options c"] by (intro fin) (auto simp: inv good_tables_sized pot)
  show ?thesis
    using lz(1) assms(1,2) by (simp add: run Let_def lzma2_call_reset_lz [of _ lz] err props copy lzma pot)
qed

lemma lzma2_properties_ok:
  assumes "lzma2_good (di_full d) c" "l2_sequence c = SEQ_PROPERTIES" "dict_ok d" "\<not> di_need_reset d" "in_pos < in_size"
  shows "lzma2_turn_ok c d in_pos in_size (Some (lzma2_properties c d byte (Suc in_pos)))"
proof -
  from assms(1) obtain lz where lz: "l2_lzma c = lzma_lz lz" "tables_sized (l1_tables lz)" "size_known lz"
    by (auto simp: lzma2_good_def assms(2))
  obtain err options where dec: "lzma_lzma_lclppb_decode (l2_options c) byte = (err, options)" by fastforce
  show ?thesis
  proof (cases err)
    case True
    then show ?thesis using dec assms by (simp add: lzma2_properties_def lzma2_turn_error lzma2_pot_def)
  next
    case False
    let ?c = "c\<lparr>l2_options := options, l2_lzma := lzma_lz (lzma_decoder_reset lz options), l2_sequence := SEQ_LZMA\<rparr>"
    have valid: "is_lclppb_valid options" using dec False by (auto intro: lclppb_decode_valid)
    note reset = lzma_decoder_reset_ok [OF lz(2) valid]
    have "lzma2_properties c d byte (Suc in_pos) = Inr (?c, d, Suc in_pos)"
      using dec False lz(1) by (simp add: lzma2_properties_def lzma2_call_reset_lz [of _ lz])
    moreover have "lzma2_good (di_full d) ?c" using valid lz reset by (auto simp: lzma2_good_def good_tables_sized)
    moreover have "lzma2_pot ?c = lzma2_pot c" using lz(1) reset(4) assms(2) by (simp add: lzma2_pot_def)
    ultimately show ?thesis using assms by (simp add: lzma2_turn_ok_def lz_kept_def lzma2_spends_def)
  qed
qed

lemma lzma2_lzma_ok:
  assumes "lzma2_good (di_full d) c" "l2_sequence c = SEQ_LZMA" "dict_ok d" "\<not> di_need_reset d" "in_pos \<le> in_size" "in_size \<le> length in_buf"
  shows "lzma2_turn_ok c d in_pos in_size (lzma2_lzma c d in_buf in_pos in_size)"
proof -
  from assms(1) obtain lz where lz: "l2_lzma c = lzma_lz lz" "is_lclppb_valid (l2_options c)" "lzma_good (di_full d) lz" "size_known lz"
    by (auto simp: lzma2_good_def assms(2))
  obtain ret lz' d' in_pos' where run: "lzma_decode lz d in_buf in_pos in_size = Some (ret, lz', d', in_pos')"
    "lzma_result_ok lz d in_pos in_size ret lz' d' in_pos'"
    using lzma_decode_ok [OF assms(3) lz(3) assms(5,6)] by blast
  have r: "lz_result_ok lzma_good {LZMA_OK} d in_pos in_size ret lz' d' in_pos'" "\<not> di_need_reset d'"
    using run(2) assms(4) by (auto simp: lz_result_ok_def lzma_result_ok_def dict_frame_def)
  have left: "(di_pos d' - di_pos d) + unat (l1_uncompressed_size lz') = unat (l1_uncompressed_size lz)"
    using run(2) lz(4) unfolding lzma_result_ok_def by auto
  then have known: "size_known lz'"
    using lz(4) unsigned_less [of "l1_uncompressed_size lz", where 'a = nat] by (auto simp: LZMA_VLI_UNKNOWN_def word_unat_eq_iff)
  have spend: "lzma2_spends c d in_pos c' d' p" if "l2_lzma c' = lzma_lz lz'" "l2_sequence c' \<in> {SEQ_LZMA, SEQ_CONTROL}" for c' p
    using left that lz(1) assms(2) by (auto simp: lzma2_pot_def lzma2_spends_def)
  have fin: "ret = LZMA_STREAM_END \<Longrightarrow> lzma_good (di_full d') lz' \<and> l1_sequence lz' = SEQ_IS_MATCH"
    using run(2) lz(4) by (simp add: lzma_result_ok_def)
  show ?thesis
    using lz r known fin run(1) assms(2)
    by (auto simp: lzma2_lzma_def Let_def lzma2_turn_ok_def lz_result_ok_def lz_kept_def lzma2_good_def lzma2_pending_def lzma2_idle_def good_tables_sized
        intro!: spend)
qed

lemma lzma2_copy_ok:
  assumes "lzma2_good (di_full d) c" "l2_sequence c = SEQ_COPY" "dict_ok d" "\<not> di_need_reset d" "in_pos \<le> in_size" "in_size \<le> length in_buf"
  shows "lzma2_turn_ok c d in_pos in_size (Some (lzma2_copy c d in_buf in_pos in_size))"
proof -
  from assms(1) obtain lz where lz: "l2_lzma c = lzma_lz lz" "tables_sized (l1_tables lz)" "lzma2_pending (di_full d) c lz" "0 < l2_compressed_size c"
    by (auto simp: lzma2_good_def assms(2))
  obtain d' n where run: "dict_write d in_buf in_pos in_size (l2_compressed_size c) = (in_pos + n, d', l2_compressed_size c - n)"
    "dict_ok d'" "dict_frame d d'" "di_pos d' = di_pos d + n" "di_full d \<le> di_full d'" "n \<le> l2_compressed_size c" "n \<le> in_size - in_pos"
    "n = l2_compressed_size c \<or> in_pos + n = in_size \<or> di_pos d' = di_limit d'"
    using dict_write_ok [OF assms(3,5,6), of "l2_compressed_size c"] by blast
  have pend: "lzma2_pending (di_full d') c' lz" if "l2_options c' = l2_options c" "l2_need_properties c' = l2_need_properties c" for c'
    using lz(3) run(5) that lzma2_idle_mono [of "di_full d" c lz "di_full d'"] by (auto simp: lzma2_pending_def lzma2_idle_def)
  show ?thesis
    using lz run assms(2,4,5)
    by (auto simp: lzma2_copy_def Let_def lzma2_turn_ok_def lz_result_ok_def lz_kept_def lzma2_good_def dict_frame_def lzma2_spends_def
        lzma2_pot_def intro: pend)
qed

lemma byte_shifted: "unat (push_bit 8 (ucast (b :: u8) :: u32)) \<le> 0xFF00"
proof -
  have "unat (ucast b :: u32) \<le> 255" using unat_u8_less [of b] by (simp only: unat_ucast_mod) simp
  then show ?thesis by (simp add: push_bit_eq_mult unat_word_ariths)
qed

lemma lzma2_uncompressed_2_ok:
  assumes "lzma2_good full c" "l2_sequence c = SEQ_UNCOMPRESSED_2"
  shows "lzma2_good full (lzma2_uncompressed_2 c byte) \<and> lzma2_pot (lzma2_uncompressed_2 c byte) \<le> 0x200000"
proof -
  from assms obtain lz where lz: "l2_lzma c = lzma_lz lz" "tables_sized (l1_tables lz)" "l2_uncompressed_size c \<le> 0x1FFF00"
    "l2_next_sequence c = SEQ_PROPERTIES \<or> l2_next_sequence c = SEQ_LZMA \<and> lzma2_idle full c lz"
    by (auto simp: lzma2_good_def)
  define n where "n = l2_uncompressed_size c + unat byte + 1"
  have n: "n \<le> 0x200000" using lz(3) unat_u8_less [of byte] by (simp add: n_def)
  then have un: "unat (of_nat n :: u64) = n" by (subst unat_of_nat) (simp add: take_bit_nat_eq_self)
  then have "(of_nat n :: u64) \<noteq> LZMA_VLI_UNKNOWN" using n by (auto simp: LZMA_VLI_UNKNOWN_def)
  moreover have "lzma2_uncompressed_2 c byte = c\<lparr>l2_uncompressed_size := n, l2_sequence := SEQ_COMPRESSED_0,
      l2_lzma := lzma_lz (lzma_decoder_uncompressed lz (of_nat n))\<rparr>"
    using lz(1) by (simp add: lzma2_uncompressed_2_def Let_def n_def)
  ultimately show ?thesis
    using lz uncompressed_ok [of full c lz "of_nat n"] un n
    by (auto simp: lzma2_good_def lzma2_idle_def lzma_decoder_uncompressed_def lzma2_pot_def)
qed

lemma lzma2_step_ok:
  assumes "lzma2_good (di_full d) c" "dict_ok d" "\<not> di_need_reset d" "in_pos \<le> in_size" "in_size \<le> length in_buf"
    and "in_pos < in_size \<or> l2_sequence c = SEQ_LZMA"
  shows "lzma2_turn_ok c d in_pos in_size (lzma2_step (l2_sequence c) c d in_buf in_pos in_size)"
proof -
  note byte = lzma2_turn_byte [OF assms(2,3) _ assms(5)]
  have nextb: "next_byte in_buf in_pos k = Some (k (in_buf ! in_pos) (Suc in_pos))" if "in_pos < in_size" for k
    using that assms(5) by (simp add: next_byte_def)
  show ?thesis
  proof (cases "l2_sequence c")
    case SEQ_CONTROL
    then show ?thesis using lzma2_control_ok [OF assms(1)] assms by (simp add: nextb)
  next
    case SEQ_UNCOMPRESSED_1
    then show ?thesis using assms(1,6) byte_shifted [of "in_buf ! in_pos"]
      by (auto intro!: byte simp: lzma2_good_def lzma2_idle_def lzma2_pot_def)
  next
    case SEQ_UNCOMPRESSED_2
    then show ?thesis using assms(1,6) lzma2_uncompressed_2_ok by (auto intro!: byte intro: trans_le_add2)
  next
    case SEQ_COMPRESSED_0
    then show ?thesis using assms(1,6) byte_shifted [of "in_buf ! in_pos"] unat_u8_less [of "in_buf ! in_pos"]
      by (auto intro!: byte simp: lzma2_good_def lzma2_idle_def lzma2_pending_def lzma2_pot_def)
  next
    case SEQ_COMPRESSED_1
    then show ?thesis using assms(1,6) byte_shifted [of "in_buf ! in_pos"] unat_u8_less [of "in_buf ! in_pos"]
      by (auto intro!: byte simp: lzma2_good_def lzma2_idle_def lzma2_pending_def lzma2_pot_def)
  next
    case SEQ_PROPERTIES
    then show ?thesis using lzma2_properties_ok [OF assms(1)] assms by (simp add: nextb)
  next
    case SEQ_LZMA
    then show ?thesis using lzma2_lzma_ok [OF assms(1)] assms by simp
  next
    case SEQ_COPY
    then show ?thesis using lzma2_copy_ok [OF assms(1)] assms by simp
  qed
qed

section \<open>The loop\<close>

lemma lz_result_later:
  assumes "lz_kept d in_pos in_size d1 in_pos1" "lz_result_ok good resumes d1 in_pos1 in_size ret c' d' in_pos'"
  shows "lz_result_ok good resumes d in_pos in_size ret c' d' in_pos'"
  using assms by (auto simp: lz_result_ok_def lz_kept_def)

lemma lzma2_spends_trans:
  assumes "lzma2_spends c d in_pos c1 d1 in_pos1" "lzma2_spends c1 d1 in_pos1 c' d' in_pos'"
    and "in_pos \<le> in_pos1" "in_pos1 \<le> in_pos'" "di_pos d \<le> di_pos d1" "di_pos d1 \<le> di_pos d'"
  shows "lzma2_spends c d in_pos c' d' in_pos'"
  using assms by (simp add: lzma2_spends_def)

lemma lzma2_decode_ok:
  assumes "dict_ok d" "\<not> di_need_reset d" "lzma2_good (di_full d) c" "in_pos \<le> in_size" "in_size \<le> length in_buf"
  shows "\<exists>ret c' d' in_pos'. lzma2_decode c d in_buf in_pos in_size = Some (ret, c', d', in_pos')
    \<and> lz_result_ok lzma2_good lzma2_resumes d in_pos in_size ret c' d' in_pos' \<and> lzma2_spends c d in_pos c' d' in_pos'"
  using assms(1-4)
proof (induction "2 * (in_size - in_pos) + (if l2_sequence c = SEQ_LZMA then 1 else 0)" arbitrary: c d in_pos rule: less_induct)
  case less
  show ?case
  proof (cases "in_pos < in_size \<or> l2_sequence c = SEQ_LZMA")
    case True
    let ?turn = "lzma2_step (l2_sequence c) c d in_buf in_pos in_size"
    have ok: "lzma2_turn_ok c d in_pos in_size ?turn" using lzma2_step_ok [OF less.prems(3,1,2,4) assms(5) True] .
    then obtain turn where turn: "?turn = Some turn" by (auto simp: lzma2_turn_ok_def split: option.splits)
    show ?thesis
    proof (cases turn)
      case (Inl res)
      then show ?thesis using ok turn True by (cases res) (simp add: lzma2_decode.simps [of c] lzma2_turn_ok_def)
    next
      case (Inr res)
      then obtain c1 d1 in_pos1 where res: "turn = Inr (c1, d1, in_pos1)" by (cases res) simp
      have ok1: "lz_kept d in_pos in_size d1 in_pos1" "\<not> di_need_reset d1" "lzma2_good (di_full d1) c1" "lzma2_spends c d in_pos c1 d1 in_pos1"
        "in_pos < in_pos1 \<or> l2_sequence c = SEQ_LZMA \<and> l2_sequence c1 \<noteq> SEQ_LZMA"
        using ok turn res by (simp_all add: lzma2_turn_ok_def)
      then have kept: "dict_ok d1" "in_pos1 \<le> in_size" "in_pos \<le> in_pos1" "di_pos d \<le> di_pos d1" by (simp_all add: lz_kept_def)
      moreover have "2 * (in_size - in_pos1) + (if l2_sequence c1 = SEQ_LZMA then 1 else 0)
          < 2 * (in_size - in_pos) + (if l2_sequence c = SEQ_LZMA then 1 else 0)"
        using ok1(5) kept(2,3) by (auto split: if_splits)
      ultimately obtain ret c' d' in_pos' where go: "lzma2_decode c1 d1 in_buf in_pos1 in_size = Some (ret, c', d', in_pos')"
        "lz_result_ok lzma2_good lzma2_resumes d1 in_pos1 in_size ret c' d' in_pos'" "lzma2_spends c1 d1 in_pos1 c' d' in_pos'"
        using less.hyps ok1(2,3) by blast
      then have "lzma2_spends c d in_pos c' d' in_pos'"
        using kept by (intro lzma2_spends_trans [OF ok1(4)]) (auto simp: lz_result_ok_def)
      then show ?thesis using turn res True go lz_result_later [OF ok1(1)] by (simp add: lzma2_decode.simps [of c])
    qed
  next
    case False
    then show ?thesis using less.prems by (simp add: lzma2_decode.simps [of c] lz_result_ok_def lzma2_spends_def)
  qed
qed

interpretation lzma2: lz_expanding lzma2_decode lzma2_good lzma2_resumes lzma2_pot "0x200000"
proof
  fix d c in_pos in_size and in_buf :: "u8 list" and ret c' d' in_pos'
  assume a: "dict_ok d" "\<not> di_need_reset d" "lzma2_good (di_full d) c" "in_pos \<le> in_size" "in_size \<le> length in_buf"
  from lzma2_decode_ok [OF a] show "\<exists>ret c' d' in_pos'. lzma2_decode c d in_buf in_pos in_size = Some (ret, c', d', in_pos')
      \<and> lz_result_ok lzma2_good lzma2_resumes d in_pos in_size ret c' d' in_pos'" by blast
  assume "lzma2_decode c d in_buf in_pos in_size = Some (ret, c', d', in_pos')"
  then show "(di_pos d' - di_pos d) + lzma2_pot c' \<le> lzma2_pot c + 0x200000 * (in_pos' - in_pos)"
    using lzma2_decode_ok [OF a] by (simp add: lzma2_spends_def)
qed simp_all

section \<open>Initialisation\<close>

text \<open>The memory of a coder has room for all tables.\<close>

abbreviation mem_sized :: "lzma1_coder option \<Rightarrow> bool" where
  "mem_sized mem \<equiv> (case mem of None \<Rightarrow> True | Some c \<Rightarrow> tables_sized (l1_tables c))"

lemma lzma_decoder_create_ok:
  assumes "lz = LZMA_LZ_DECODER_INIT \<or> (\<exists>l. lz = lzma_lz l \<and> tables_sized (l1_tables l))" "mem_sized mem"
    and "lzma_lzma_decoder_create mem lz options = (LZMA_OK, lz', lo)"
  obtains c where "lz' = lzma_lz c" "tables_sized (l1_tables c)" "lo_dict_size lo < 2 ^ 32"
  using assms unat_u32_less [of "ol_dict_size options"]
  by (auto simp: lzma_lzma_decoder_create_def LZMA_LZ_DECODER_INIT_def lzma_lz_def split: option.splits)

lemma lzma2_decoder_init_ok:
  assumes "lz_unused lzma2_decode lzma2_good lz" "lzma2_decoder_init mem1 mem2 lz opt = (LZMA_OK, lz', lo)" "mem_sized mem1"
  shows "lz_started lzma2_decode lzma2_good lz' lo"
proof -
  define c where "c = (if lz_coder lz = None then (the mem2)\<lparr>l2_lzma := LZMA_LZ_DECODER_INIT\<rparr> else the (lz_coder lz))"
  define c1 where "c1 = c\<lparr>l2_sequence := SEQ_CONTROL, l2_need_properties := True,
    l2_need_dictionary_reset := (ol_preset_dict (opt_lzma opt) = None \<or> ol_preset_dict_size (opt_lzma opt) = 0)\<rparr>"
  obtain ret lzma lo' where create: "lzma_lzma_decoder_create mem1 (l2_lzma c1) (opt_lzma opt) = (ret, lzma, lo')" by (metis prod_cases3)
  have lz: "lz_coder lz = None \<Longrightarrow> mem2 \<noteq> None" using assms(2) by (auto simp: lzma2_decoder_init_def split: option.splits)
  then have run: "ret = LZMA_OK" "lo = lo'" "lz_code lz' = Some lzma2_decode" "lz_coder lz' = Some (c1\<lparr>l2_lzma := lzma\<rparr>)"
    using assms(1,2) create
    by (auto simp: lzma2_decoder_init_def lz_unused_def LZMA_LZ_DECODER_INIT_def Let_def c1_def c_def split: prod.splits)
  have "l2_lzma c1 = LZMA_LZ_DECODER_INIT \<or> (\<exists>l. l2_lzma c1 = lzma_lz l \<and> tables_sized (l1_tables l))"
    using assms(1) by (auto simp: c1_def c_def lz_unused_def LZMA_LZ_DECODER_INIT_def lzma2_good_def)
  then obtain l where l: "lzma = lzma_lz l" "tables_sized (l1_tables l)" "lo_dict_size lo' < 2 ^ 32"
    using lzma_decoder_create_ok [OF _ assms(3)] create run(1) by blast
  then have "lzma2_good full (c1\<lparr>l2_lzma := lzma\<rparr>)" for full by (simp add: lzma2_good_def lzma2_pending_def c1_def)
  then show ?thesis using run l(3) by (simp add: lz_started_def)
qed

lemma lzma_decoder_init_ok:
  assumes "lz_unused lzma_decode lzma_good lz" "lzma_decoder_init mem lz opt = (LZMA_OK, lz', lo)" "mem_sized mem"
  shows "lz_started lzma_decode lzma_good lz' lo"
proof -
  obtain ret lz1 lo1 where create: "lzma_lzma_decoder_create mem lz (opt_lzma opt) = (ret, lz1, lo1)" by (metis prod_cases3)
  have valid: "is_lclppb_valid (opt_lzma opt)" and ret: "ret = LZMA_OK" "lo = lo1"
    and lz': "lz' = lz1\<lparr>lz_coder := map_option (\<lambda>c. lzma_decoder_uncompressed (lzma_decoder_reset c (opt_lzma opt)) LZMA_VLI_UNKNOWN) (lz_coder lz1)\<rparr>"
    using assms(2) create by (auto simp: lzma_decoder_init_def Let_def split: if_splits)
  obtain c where c: "lz_code lz1 = Some lzma_decode" "lz_coder lz1 = Some c" "tables_sized (l1_tables c)" "lo_dict_size lo1 < 2 ^ 32"
    using assms(1,3) create ret(1) unat_u32_less [of "ol_dict_size (opt_lzma opt)"]
    by (auto simp: lz_unused_def LZMA_LZ_DECODER_INIT_def lzma_lzma_decoder_create_def good_tables_sized split: option.splits if_splits)
  have "lzma_good full (lzma_decoder_uncompressed (lzma_decoder_reset c (opt_lzma opt)) LZMA_VLI_UNKNOWN)" for full
    using lzma_decoder_reset_ok [OF c(3) valid] by (simp add: lzma_decoder_uncompressed_def lzma_good_def)
  then show ?thesis using lz' c ret by (simp add: lz_started_def)
qed

section \<open>The property\<close>

text \<open>What the callers guarantee of the options: a preset dictionary has the size that is given with it.\<close>

definition preset_ok :: "lzma_options_lzma \<Rightarrow> bool" where
  "preset_ok options = (case ol_preset_dict options of None \<Rightarrow> True | Some preset \<Rightarrow> unat (ol_preset_dict_size options) \<le> length preset)"

text \<open>The states of an LZMA2 decoder: after its initialisation in fresh memory, at the end of its chain, and between calls that
  return \<open>LZMA_OK\<close>. The assumptions of the first rule are about memory only: an allocated buffer has the size asked for, a coder has
  room for its tables, and a preset dictionary has the size given with it.\<close>

inductive lzma2_state :: "(lzma2_coder, 'n) lz_decoder \<Rightarrow> bool" where
  init: "(\<And>n buf. alloc n = Some buf \<Longrightarrow> length buf = n) \<Longrightarrow> mem_sized mem1 \<Longrightarrow> preset_ok (opt_lzma (fi_options (filters ! 0)))
    \<Longrightarrow> fi_init (tl filters ! 0) = None
    \<Longrightarrow> lzma_lzma2_decoder_init mem1 mem2 alloc inits mem LZMA_NEXT_CODER_INIT filters = (LZMA_OK, nxt) \<Longrightarrow> nc_coder nxt = Some coder
    \<Longrightarrow> lzma2_state coder"
| code: "lzma2_state coder \<Longrightarrow> in_pos \<le> in_size \<Longrightarrow> in_size \<le> length in_buf \<Longrightarrow> out_pos \<le> out_size \<Longrightarrow> out_size \<le> length out
    \<Longrightarrow> lz_decode coder in_buf in_pos in_size out out_pos out_size action = Some (LZMA_OK, coder', in_pos', out', out_pos')
    \<Longrightarrow> lzma2_state coder'"

lemma lzma2_state_ok: "lzma2_state coder \<Longrightarrow> lz_ok lzma2_decode lzma2_good coder"
proof (induction rule: lzma2_state.induct)
  case (init alloc mem1 filters mem2 inits mem nxt coder)
  have "\<exists>coder. nc_coder nxt = Some coder \<and> lz_ok lzma2_decode lzma2_good coder"
    using lz_decoder_init_ok [OF init(1) lzma2_decoder_init_ok [OF _ _ init(2)] _ init(4) init(5) [unfolded lzma_lzma2_decoder_init_def]]
    by (simp add: LZMA_NEXT_CODER_INIT_def)
  then show ?case using init(6) by simp
next
  case (code coder in_pos in_size in_buf out_pos out_size out action coder' in_pos' out' out_pos')
  from lzma2.lz_decode_ok [OF code.IH code(2-5), of action] code(6) show ?case by (simp add: lz_exit_ok_def)
qed

text \<open>C6. An LZMA2 decoder is live on every input, valid or not. In every state it can reach by calls that returned \<open>LZMA_OK\<close>, the
  next call with any bytes and any windows returns \<open>LZMA_OK\<close>, \<open>LZMA_STREAM_END\<close> or \<open>LZMA_DATA_ERROR\<close>: no loop of the LZ, LZMA2
  and LZMA decoders runs forever, and no access leaves an array, the dictionary, the input or the output. Its positions move
  forward inside of their windows, the output outside of its window is kept, and it stops with \<open>LZMA_OK\<close> only when all the
  input is used or all the output is filled, so that a caller who offers more of both is never stuck.\<close>

theorem lzma2_decode_live:
  assumes "lzma2_state coder" "in_pos \<le> in_size" "in_size \<le> length in_buf" "out_pos \<le> out_size" "out_size \<le> length out"
  shows "\<exists>ret coder' in_pos' out' out_pos'.
    lz_decode coder in_buf in_pos in_size out out_pos out_size action = Some (ret, coder', in_pos', out', out_pos')
    \<and> ret \<in> {LZMA_OK, LZMA_STREAM_END, LZMA_DATA_ERROR}
    \<and> in_pos \<le> in_pos' \<and> in_pos' \<le> in_size \<and> out_pos \<le> out_pos' \<and> out_pos' \<le> out_size \<and> window_kept out out_pos out_size out'
    \<and> (ret = LZMA_OK \<longrightarrow> in_pos' = in_size \<or> out_pos' = out_size)"
  using lzma2.lz_decode_ok [OF lzma2_state_ok [OF assms(1)] assms(2-5), of action] by (auto simp: lz_exit_ok_def)

text \<open>A decoder in fresh memory that gets an uncompressed chunk with the byte 65.\<close>

definition sample_lzma2_memory :: lzma2_coder where
  "sample_lzma2_memory = \<lparr>l2_sequence = SEQ_CONTROL, l2_next_sequence = SEQ_CONTROL, l2_lzma = LZMA_LZ_DECODER_INIT, l2_uncompressed_size = 0,
     l2_compressed_size = 0, l2_need_properties = False, l2_need_dictionary_reset = False, l2_options = sample_lzma\<rparr>"

definition sample_lz_memory :: "(lzma2_coder, unit) lz_decoder" where
  "sample_lz_memory = \<lparr>lzd_dict = wrapped_dict, lzd_lz = LZMA_LZ_DECODER_INIT, lzd_next = LZMA_NEXT_CODER_INIT, lzd_next_finished = False,
     lzd_this_finished = False, lzd_temp_pos = 0, lzd_temp_size = 0, lzd_temp_buffer = []\<rparr>"

definition sample_dict_memory :: "nat \<Rightarrow> u8 list option" where
  "sample_dict_memory n = Some (replicate n 0)"

definition sample_lzma2_filters :: "lzma_filter_info list" where
  "sample_lzma2_filters = [\<lparr>fi_id = 0x21, fi_init = Some ''lzma_lzma2_decoder_init'', fi_options = Some (Opt_lzma sample_lzma)\<rparr>,
     \<lparr>fi_id = LZMA_VLI_UNKNOWN, fi_init = None, fi_options = None\<rparr>]"

definition sample_lzma2_init :: "lzma_ret \<times> (lzma2_coder, unit) lz_decoder lzma_next_coder" where
  "sample_lzma2_init = lzma_lzma2_decoder_init (Some sample_lzma1) (Some sample_lzma2_memory) sample_dict_memory (\<lambda>_ nxt _. (LZMA_OK, nxt))
     (Some sample_lz_memory) LZMA_NEXT_CODER_INIT sample_lzma2_filters"

definition sample_lzma2_decoder :: "(lzma2_coder, unit) lz_decoder" where
  "sample_lzma2_decoder = the (nc_coder (snd sample_lzma2_init))"

lemma sample_lzma2_state: "lzma2_state sample_lzma2_decoder"
proof -
  have "\<exists>nxt. sample_lzma2_init = (LZMA_OK, nxt) \<and> nc_coder nxt \<noteq> None"
    by (simp add: sample_lzma2_init_def lzma_lzma2_decoder_init_def lzma_lz_decoder_init_def lz_decoder_setup_def LZMA_NEXT_CODER_INIT_def LZMA_LZ_DECODER_INIT_def
        sample_lz_memory_def sample_lzma2_filters_def lzma2_decoder_init_def lzma_lzma_decoder_create_def lz_dict_alloc_def
        sample_dict_memory_def lzma_next_filter_init_def lzma_next_coder_init_def Let_def sample_lzma_def wrapped_dict_def)
  then obtain nxt coder where init: "sample_lzma2_init = (LZMA_OK, nxt)" "nc_coder nxt = Some coder" by auto
  have "lzma2_state coder"
    by (rule lzma2_state.init [OF _ _ _ _ init(1) [unfolded sample_lzma2_init_def] init(2)])
      (auto simp: sample_dict_memory_def sample_tables_sized sample_lzma2_filters_def preset_ok_def sample_lzma_def)
  then show ?thesis unfolding sample_lzma2_decoder_def init(1) by (simp add: init(2))
qed

theorem lzma2_decode_live_witness:
  "lzma2_state sample_lzma2_decoder \<and> (\<exists>ret coder' in_pos' out' out_pos'.
     lz_decode sample_lzma2_decoder [1, 0, 0, 65, 0] 0 5 [7, 7] 0 1 LZMA_RUN = Some (ret, coder', in_pos', out', out_pos')
     \<and> ret \<in> {LZMA_OK, LZMA_STREAM_END, LZMA_DATA_ERROR} \<and> in_pos' \<le> 5 \<and> out_pos' \<le> 1 \<and> window_kept [7, 7] 0 1 out'
     \<and> (ret = LZMA_OK \<longrightarrow> in_pos' = 5 \<or> out_pos' = 1))"
  using lzma2_decode_live [OF sample_lzma2_state, of 0 5 "[1, 0, 0, 65, 0]" 0 1 "[7, 7]" LZMA_RUN] sample_lzma2_state by auto

end
