(* ===== verification/Lzma2_Chain.thy ===== *)
theory Lzma2_Chain
  imports Stream_Decoder Lzma2_Decoder
begin

text \<open>
  The Stream decoder over the LZMA2 decoder. The initialisation of LZMA2 in a chain, in fresh memory or in that of the
  previous Block, and the calls that follow fulfil what the Stream decoder relies on (\<open>raw_chain_ok\<close>, \<open>chain_expands\<close>).
\<close>

section \<open>LZMA2 as a filter chain\<close>

text \<open>A decoder table in which only LZMA2 is enabled. Its coder, and the dictionary, go to the memory given; an LZMA2 decoder is
  the last filter of its chain, so that no further filter is initialised below it.\<close>

type_synonym lzma2_chain = "(lzma2_coder, unit) lz_decoder"

record lzma2_memory =
  zm_lzma :: "lzma1_coder option"
  zm_lzma2 :: "lzma2_coder option"
  zm_dict :: "nat \<Rightarrow> u8 list option"
  zm_lz :: "lzma2_chain option"

definition lzma2_memory_ok :: "lzma2_memory \<Rightarrow> bool" where
  "lzma2_memory_ok m \<longleftrightarrow> mem_sized (zm_lzma m) \<and> (\<forall>n buf. zm_dict m n = Some buf \<longrightarrow> length buf = n)"

definition lzma2_inits :: "lzma2_memory \<Rightarrow> lzma2_chain filter_inits" where
  "lzma2_inits m name nxt filters =
     (if name = ''lzma_lzma2_decoder_init''
      then lzma_lzma2_decoder_init (zm_lzma m) (zm_lzma2 m) (zm_dict m) (\<lambda>_ nxt _. (LZMA_OK, nxt)) (zm_lz m) nxt filters
      else (LZMA_OPTIONS_ERROR, nxt))"

abbreviation lzma2_chain_good :: "lzma2_chain \<Rightarrow> bool" where
  "lzma2_chain_good \<equiv> lz_ok lzma2_decode lzma2_good"

lemma lzma2_decoder_init_ret: "fst (lzma2_decoder_init mem1 mem2 lz opt) \<in> {LZMA_OK, LZMA_MEM_ERROR}"
  by (auto simp: lzma2_decoder_init_def lzma_lzma_decoder_create_def Let_def split: option.splits)

lemma lzma2_inits_ret: "fst (lzma2_inits m name nxt filters) \<in> {LZMA_OK, LZMA_MEM_ERROR, LZMA_OPTIONS_ERROR}"
  using lzma2_decoder_init_ret [of "zm_lzma m" "zm_lzma2 m"]
  by (auto simp: lzma2_inits_def lzma_lzma2_decoder_init_def lzma_lz_decoder_init_def lz_decoder_setup_def lzma_next_filter_init_def
      Let_def split_beta split: option.splits)

lemma lzma2_inits_keep_init: "nc_init (snd (lzma2_inits m name nxt filters)) = nc_init nxt"
  by (auto simp: lzma2_inits_def lzma_lzma2_decoder_init_def lzma_lz_decoder_init_def split: option.splits prod.splits)

lemma lzma2_name: "decoder_init_name i = Some ''lzma_lzma2_decoder_init'' \<longleftrightarrow> i = LZMA_FILTER_LZMA2"
  by (auto simp: decoder_init_name_def filter_ids split: if_splits)

lemma lzma2_inits_ok:
  assumes "lzma2_memory_ok m" "raw_next_ok lz_decode lzma2_chain_good nxt" "lzma_raw_decoder_init (lzma2_inits m) nxt filters = (ret, nxt')"
  shows "raw_next_ok lz_decode lzma2_chain_good nxt' \<and> (ret = LZMA_OK \<longrightarrow> nc_coder nxt' \<noteq> None)"
  using assms(3)
proof (cases rule: raw_decoder_init_cases)
  case early
  then show ?thesis using assms(2) by simp
next
  case (init f rest name infos n)
  let ?nxt = "(lzma_next_coder_init (Some name) nxt)\<lparr>nc_id := f_id f\<rparr>"
  have nxt: "nc_coder ?nxt = None \<or> nc_code ?nxt = Some lz_decode \<and> lzma2_chain_good (the (nc_coder ?nxt))"
    using assms(2) by (auto simp: lzma_next_coder_init_def lzma_next_end_def LZMA_NEXT_CODER_INIT_def Let_def raw_next_ok_def)
  show ?thesis
  proof (cases "ret = LZMA_OK")
    case True
    then have name: "name = ''lzma_lzma2_decoder_init''" using init(4) by (auto simp: lzma2_inits_def split: if_splits)
    then have "f_id f = LZMA_FILTER_LZMA2" using init(1) lzma2_name by simp
    then have "infos = []" using init(2,3) by simp
    then have run: "lzma_lz_decoder_init (lzma2_decoder_init (zm_lzma m) (zm_lzma2 m)) (zm_dict m) (\<lambda>_ nxt _. (LZMA_OK, nxt)) (zm_lz m) ?nxt
        [\<lparr>fi_id = f_id f, fi_init = Some name, fi_options = f_options f\<rparr>, \<lparr>fi_id = LZMA_VLI_UNKNOWN, fi_init = None, fi_options = None\<rparr>]
        = (LZMA_OK, n)"
      using init(4) name True by (simp add: lzma2_inits_def lzma_lzma2_decoder_init_def)
    have mem: "\<And>n buf. zm_dict m n = Some buf \<Longrightarrow> length buf = n" "mem_sized (zm_lzma m)" using assms(1) by (simp_all add: lzma2_memory_ok_def)
    have "nc_code n = Some lz_decode \<and> (\<exists>coder. nc_coder n = Some coder \<and> lzma2_chain_good coder)"
      using lz_decoder_init_ok [OF mem(1) lzma2_decoder_init_ok [OF _ _ mem(2)] nxt _ run] by simp
    then show ?thesis using init(5) True by (auto simp: raw_next_ok_def)
  next
    case False
    have "nc_init n = nc_init ?nxt" using lzma2_inits_keep_init [of m name ?nxt] init(4) by (metis snd_conv)
    then have "nc_init n \<noteq> None" by (simp add: lzma_next_coder_init_def Let_def)
    then show ?thesis using False init(5) by (simp add: lzma_next_end_def)
  qed
qed

lemma lzma2_raw_chain_ok:
  assumes "lzma2_memory_ok m"
  shows "raw_chain_ok lz_decode lzma2_chain_good (lzma2_inits m)"
proof -
  have "fst (lzma2_inits m name nxt filters) \<notin> {LZMA_STREAM_END, LZMA_TIMED_OUT}" for name nxt filters
    using lzma2_inits_ret [of m name nxt filters] by auto
  then show ?thesis using lzma2.lz_decode_bounded lzma2_inits_ok [OF assms] unfolding raw_chain_ok_def by blast
qed

text \<open>At the start there is nothing to write.\<close>

lemma lzma2_init_pot: "lzma2_decoder_init mem1 mem2 lz opt = (LZMA_OK, lz', lo) \<Longrightarrow> lzma2_pot (the (lz_coder lz')) = 0"
  by (auto simp: lzma2_decoder_init_def lzma2_pot_def Let_def split: option.splits prod.splits if_splits)

lemma lz_setup_lz:
  assumes "lz_decoder_setup lz_init alloc inits coder filters = (LZMA_OK, coder')"
  obtains lo where "lz_init (lzd_lz coder) (fi_options (filters ! 0)) = (LZMA_OK, lzd_lz coder', lo)"
  using assms by (auto simp: lz_decoder_setup_def lz_decoder_reset_def Let_def split: prod.splits if_splits)

lemma lzma2_inits_pot:
  assumes "lzma_raw_decoder_init (lzma2_inits m) nxt filters = (LZMA_OK, nxt')" "nc_coder nxt' = Some c"
  shows "lz_pot lzma2_pot c = 0"
  using assms(1)
proof (cases rule: raw_decoder_init_cases)
  case (init f rest name infos n)
  then have "fst (lzma2_inits m name ((lzma_next_coder_init (Some name) nxt)\<lparr>nc_id := f_id f\<rparr>)
      (\<lparr>fi_id = f_id f, fi_init = Some name, fi_options = f_options f\<rparr> # infos
         @ [\<lparr>fi_id = LZMA_VLI_UNKNOWN, fi_init = None, fi_options = None\<rparr>])) = LZMA_OK" by simp
  then obtain coder filters where "lz_decoder_setup (lzma2_decoder_init (zm_lzma m) (zm_lzma2 m)) (zm_dict m) (\<lambda>_ nxt _. (LZMA_OK, nxt)) coder filters
      = (LZMA_OK, c)"
    using init(4,5) assms(2)
    by (auto simp: lzma2_inits_def lzma_lzma2_decoder_init_def lzma_lz_decoder_init_def split: if_splits option.splits prod.splits)
  then show ?thesis by (elim lz_setup_lz) (auto simp: lz_pot_def dest: lzma2_init_pot)
qed simp

lemma lzma2_chain_expands: "chain_expands lz_decode lzma2_chain_good (lzma2_inits m) (lz_pot lzma2_pot) 0x200000 0"
  using lzma2.lz_decode_expands lzma2_inits_pot [of m] unfolding chain_expands_def by blast

section \<open>The property\<close>

text \<open>C7. The LZMA2 decoder is what the Stream decoder needs below it. Whatever the chain of filters asked for, its
  initialisation in fresh memory, or in that of an earlier LZMA2 decoder, reports an error or leaves a decoder in a good state;
  from then on every call, with any bytes, returns, moves its positions forward inside of the windows, and keeps the
  state good unless it reports an error after which it is not called again. Its output is bounded by its input: what
  has been written, and can still be written without input, grows by at most 2 MiB for each byte read. The
  hypothesis is on memory: an allocated buffer has the size asked for, a coder has room for its tables.\<close>

theorem lzma2_keeps_contract:
  assumes "lzma2_memory_ok m"
  shows "raw_chain_ok lz_decode (lz_ok lzma2_decode lzma2_good) (lzma2_inits m)
    \<and> chain_expands lz_decode (lz_ok lzma2_decode lzma2_good) (lzma2_inits m) (lz_pot lzma2_pot) 0x200000 0"
  using lzma2_raw_chain_ok [OF assms] lzma2_chain_expands by blast

definition sample_lzma2_mem :: lzma2_memory where
  "sample_lzma2_mem = \<lparr>zm_lzma = Some sample_lzma1, zm_lzma2 = Some sample_lzma2_memory, zm_dict = sample_dict_memory, zm_lz = Some sample_lz_memory\<rparr>"

lemma sample_lzma2_mem_ok: "lzma2_memory_ok sample_lzma2_mem"
  by (auto simp: lzma2_memory_ok_def sample_lzma2_mem_def sample_dict_memory_def sample_tables_sized)

theorem lzma2_keeps_contract_witness:
  "lzma2_memory_ok sample_lzma2_mem \<and> raw_chain_ok lz_decode (lz_ok lzma2_decode lzma2_good) (lzma2_inits sample_lzma2_mem)"
  using lzma2_keeps_contract [OF sample_lzma2_mem_ok] sample_lzma2_mem_ok by blast

text \<open>An environment of the Stream decoder with LZMA2.\<close>

definition sample_xz_block :: "lzma2_chain block_coder" where
  "sample_xz_block = \<lparr>bd_sequence = SEQ_CODE, bd_next = LZMA_NEXT_CODER_INIT, bd_block = sample_block, bd_compressed_size = 0,
     bd_uncompressed_size = 0, bd_compressed_limit = 0, bd_check_pos = 0, bd_check = bd_check sample_block_mem, bd_ignore_check = False\<rparr>"

definition sample_xz_env :: "lzma2_chain stream_env" where
  "sample_xz_env = \<lparr>se_sizes = sample_sizes, se_alloc = (\<lambda>_. sample_alloc), se_filters = replicate 5 unknown_filter,
     se_inits = lzma2_inits sample_lzma2_mem, se_block_mem = Some sample_xz_block, se_index_mem = Some zero_index_hash,
     se_footer_flags = zero_flags\<rparr>"

lemma sample_xz_chain:
  "raw_chain_ok lz_decode lzma2_chain_good (se_inits sample_xz_env)"
  "chain_expands lz_decode lzma2_chain_good (se_inits sample_xz_env) (lz_pot lzma2_pot) 0x200000 0"
  using lzma2_raw_chain_ok [OF sample_lzma2_mem_ok] lzma2_chain_expands by (simp_all add: sample_xz_env_def)

end
