(* ===== verification/Dht_Compression.thy ===== *)
theory Dht_Compression
  imports Lzma2_Chain Dht_Base
begin

text \<open>
  \<open>core/compression\<close>: the two functions that call liblzma, \<open>compressXZ\<close> and \<open>decompressXZ\<close>. Both run \<open>lzma_code\<close> in a
  loop over an output buffer of 8192 bytes until it returns something other than \<open>LZMA_OK\<close>. The loops are partial
  functions; \<open>None\<close> is a call that does not return. Exceptions of the allocations of \<open>std::vector\<close> are not modelled.
\<close>

section \<open>The code\<close>

definition bytes_of_string :: "string \<Rightarrow> u8 list" where
  "bytes_of_string s = map (\<lambda>c. of_nat (of_char c)) s"

definition string_of_bytes :: "u8 list \<Rightarrow> string" where
  "string_of_bytes bs = map (\<lambda>b. char_of (unat b)) bs"

definition LZMA_STREAM_INIT :: "'c lzma_stream" where
  "LZMA_STREAM_INIT =
     \<lparr>st_next_in = None, st_avail_in = 0, st_total_in = 0, st_next_out = None, st_avail_out = 0, st_total_out = 0,
       st_internal = None, st_reserved = False\<rparr>"

text \<open>One turn of either loop: the output buffer is handed over whole, and what \<open>lzma_code\<close> has written of it is
  appended to \<open>output\<close>.\<close>

definition xz_turn ::
  "'c lzma_stream \<Rightarrow> lzma_action \<Rightarrow> u8 list \<Rightarrow> u8 list \<Rightarrow> (lzma_ret \<times> 'c lzma_stream \<times> u8 list \<times> u8 list) option"
where
  "xz_turn stream action outBuffer output =
     map_option (\<lambda>(ret, stream).
         (let outBuffer = fst (the (st_next_out stream));
              bytesWritten = length outBuffer - st_avail_out stream
          in (ret, stream, outBuffer, output @ take bytesWritten outBuffer)))
       (lzma_code (stream\<lparr>st_next_out := Some (outBuffer, 0), st_avail_out := length outBuffer\<rparr>) action)"

partial_function (option) decompress_loop ::
  "lzma_ret \<Rightarrow> 'c lzma_stream \<Rightarrow> u8 list \<Rightarrow> u8 list \<Rightarrow> (u8 list res) option"
where
  "decompress_loop ret stream outBuffer output =
     (if ret = LZMA_STREAM_END then Some (Inr output)
      else
        Option.bind (xz_turn stream LZMA_RUN outBuffer output)
          (\<lambda>(ret, stream, outBuffer, output).
             if ret \<noteq> LZMA_OK \<and> ret \<noteq> LZMA_STREAM_END then Some (Inl (DhtError ''XZ decompression failed''))
             else decompress_loop ret stream outBuffer output))"

definition decompressXZ ::
  "'r stream_env \<Rightarrow> 'r stream_coder option \<Rightarrow> 'r stream_coder lzma_internal option \<Rightarrow> u8 list \<Rightarrow> (string res) option"
where
  "decompressXZ env mem imem data =
     (if data = [] then Some (Inr [])
      else
        (case lzma_stream_decoder env mem imem (Some LZMA_STREAM_INIT) UINT64_MAX LZMA_CONCATENATED of
           (ret, stream) \<Rightarrow>
             if ret \<noteq> LZMA_OK then Some (Inl (DhtError ''Failed to initialize XZ decoder''))
             else
               map_option (map_sum id string_of_bytes)
                 (decompress_loop ret ((the stream)\<lparr>st_next_in := Some (data, 0), st_avail_in := length data\<rparr>)
                    (replicate 8192 0) [])))"

text \<open>The encoder behind \<open>lzma_easy_encoder\<close> is the argument \<open>easy_encoder\<close>, which initialises the stream.\<close>

partial_function (option) compress_loop ::
  "lzma_ret \<Rightarrow> 'c lzma_stream \<Rightarrow> u8 list \<Rightarrow> u8 list \<Rightarrow> (u8 list res) option"
where
  "compress_loop ret stream outBuffer output =
     (if ret = LZMA_STREAM_END then Some (Inr output)
      else
        Option.bind (xz_turn stream (if st_avail_in stream = 0 then LZMA_FINISH else LZMA_RUN) outBuffer output)
          (\<lambda>(ret, stream, outBuffer, output).
             if ret \<noteq> LZMA_OK \<and> ret \<noteq> LZMA_STREAM_END then Some (Inl (DhtError ''XZ compression failed''))
             else compress_loop ret stream outBuffer output))"

definition compressXZ ::
  "('c lzma_stream \<Rightarrow> u32 \<Rightarrow> u32 \<Rightarrow> lzma_ret \<times> 'c lzma_stream) \<Rightarrow> string \<Rightarrow> (u8 list res) option"
where
  "compressXZ easy_encoder data =
     (if data = [] then Some (Inr [])
      else
        (case easy_encoder LZMA_STREAM_INIT 9 LZMA_CHECK_CRC64 of
           (ret, stream) \<Rightarrow>
             if ret \<noteq> LZMA_OK then Some (Inl (DhtError ''Failed to initialize XZ encoder''))
             else
               (let input = bytes_of_string data
                in compress_loop ret (stream\<lparr>st_next_in := Some (input, 0), st_avail_in := length input\<rparr>)
                     (replicate 8192 0) [])))"

section \<open>Decompression\<close>

text \<open>A stream in the loop of \<open>decompressXZ\<close>.\<close>

definition decompressing :: "'r stream_env \<Rightarrow> 'r lzma_code_function \<Rightarrow> ('r \<Rightarrow> bool) \<Rightarrow> 'r stream_coder lzma_stream \<Rightarrow> bool" where
  "decompressing env code good stream \<longleftrightarrow>
     (\<exists>i c buf off. st_internal stream = Some i \<and> nc_code (in_next i) = Some (stream_decode env) \<and> nc_coder (in_next i) = Some c
        \<and> stream_good code good c \<and> sd_concatenated c \<and> in_sequence i = ISEQ_RUN \<and> in_supported_actions i ! 0
        \<and> \<not> st_reserved stream \<and> st_next_in stream = Some (buf, off) \<and> off + st_avail_in stream \<le> length buf)"

text \<open>What the loop can still do: bytes to consume, bytes to produce, and one call without progress.\<close>

definition decompress_left :: "('r \<Rightarrow> nat) \<Rightarrow> nat \<Rightarrow> 'r stream_coder lzma_stream \<Rightarrow> nat" where
  "decompress_left pot kk stream =
     2 * ((kk + 1) * st_avail_in stream + stream_pot pot (the (nc_coder (in_next (the (st_internal stream))))))
     + (if in_allow_buf_error (the (st_internal stream)) then 0 else 1)"

lemma left_arith:
  fixes a n b p p' kk :: nat
  assumes "b + p' \<le> p + kk * n" "n \<le> a"
  shows "(kk + 1) * (a - n) + p' + n + b \<le> (kk + 1) * a + p"
proof -
  have "(kk + 1) * a = (kk + 1) * (a - n) + (kk + 1) * n" using assms(2) by (simp flip: distrib_left)
  then show ?thesis using assms(1) by (simp add: algebra_simps)
qed

lemma decompress_turn:
  assumes raw: "raw_chain_ok code good (se_inits env)" and ex: "chain_expands code good (se_inits env) pot k p0"
    and st: "decompressing env code good stream"
  obtains ret stream' outBuffer' output' where "xz_turn stream LZMA_RUN outBuffer output = Some (ret, stream', outBuffer', output')"
    "ret \<noteq> LZMA_STREAM_END"
    "ret = LZMA_OK \<longrightarrow> decompressing env code good stream' \<and> decompress_left pot (k + p0) stream' < decompress_left pot (k + p0) stream"
proof -
  obtain i c buf off where i: "st_internal stream = Some i" "nc_code (in_next i) = Some (stream_decode env)" "nc_coder (in_next i) = Some c"
      "stream_good code good c" "sd_concatenated c" "in_sequence i = ISEQ_RUN" "in_supported_actions i ! 0" "\<not> st_reserved stream"
      "st_next_in stream = Some (buf, off)" "off + st_avail_in stream \<le> length buf"
    using st unfolding decompressing_def by blast
  define s where "s = stream\<lparr>st_next_out := Some (outBuffer, 0), st_avail_out := length outBuffer\<rparr>"
  have s: "st_internal s = Some i" "\<not> st_reserved s" "st_avail_in s = st_avail_in stream" "st_avail_out s = length outBuffer"
    "at_ptr (st_next_in s) = drop off buf" "at_ptr (st_next_out s) = outBuffer"
    using i(1,8,9) by (simp_all add: s_def at_ptr_def)
  have args: "code_args_ok s i LZMA_RUN" using i(7,9) by (simp add: code_args_ok_def s_def action_index_def)
  have chk: "iseq_check (in_sequence i) LZMA_RUN (in_avail_in i = st_avail_in s) = Inr ISEQ_RUN" by (simp add: i(6) iseq_check_def)
  have len: "st_avail_in stream \<le> length (drop off buf)" using i(10) by simp
  obtain ret c' n out m where run: "stream_decode env c (at_ptr (st_next_in s)) 0 (st_avail_in s) (at_ptr (st_next_out s)) 0 (st_avail_out s) LZMA_RUN
      = Some (ret, c', n, out, m)"
    and ok: "\<not> fatal ret \<longrightarrow> stream_good code good c'" "sd_concatenated c'" "n \<le> st_avail_in s" "ret \<noteq> LZMA_STREAM_END"
    using stream_loop_ok [OF raw i(4) _ len, of 0 0 "length outBuffer" outBuffer LZMA_RUN] i(5) unfolding stream_decode_def s
    by (auto simp: io_ok_def)
  have "ret \<noteq> LZMA_TIMED_OUT \<and> (m - 0) + stream_pot pot c' \<le> stream_pot pot c + (k + p0) * (n - 0)"
    using run unfolding stream_decode_def s
    by (intro stream_loop_budget [OF raw ex i(4) _ len, of 0 0 "length outBuffer" outBuffer LZMA_RUN]) simp_all
  then have t: "ret \<noteq> LZMA_TIMED_OUT" and bud: "m + stream_pot pot c' \<le> stream_pot pot c + (k + p0) * n" by simp_all
  obtain r sq allow where v: "code_verdict ret ISEQ_RUN (in_allow_buf_error i) (m = 0 \<and> n = 0) = (r, sq, allow)" by (metis prod_cases3)
  let ?s' = "strm_after s i c' n out m sq allow"
  have code: "lzma_code s LZMA_RUN = Some (r, ?s')" by (rule lzma_code_run [OF s(1) i(2,3) args s(2) chk run v])
  have r: "r \<noteq> LZMA_STREAM_END" "r = LZMA_OK \<Longrightarrow> ret = LZMA_OK"
    using v ok(4) t by (auto simp: code_verdict_def split: lzma_ret.splits if_splits)
  have step: "decompressing env code good ?s' \<and> decompress_left pot (k + p0) ?s' < decompress_left pot (k + p0) stream" if "r = LZMA_OK"
  proof -
    have v': "sq = ISEQ_RUN" "m = 0 \<and> n = 0 \<Longrightarrow> \<not> in_allow_buf_error i \<and> allow" "\<not> (m = 0 \<and> n = 0) \<Longrightarrow> \<not> allow"
      using v that r(2) by (auto simp: code_verdict_def split: if_splits)
    have "decompressing env code good ?s'"
      unfolding decompressing_def using i ok r(2) [OF that] v'(1) s(3) by (auto simp: strm_after_def s_def ptr_add_def)
    moreover have "decompress_left pot (k + p0) ?s' < decompress_left pot (k + p0) stream"
      using left_arith [OF bud, of "st_avail_in stream"] ok(3) s(3) v'(2,3) i(1,3)
      by (cases "m = 0 \<and> n = 0") (auto simp: decompress_left_def strm_after_def s_def)
    ultimately show ?thesis ..
  qed
  have "xz_turn stream LZMA_RUN outBuffer output = Some (r, ?s', fst (the (st_next_out ?s')),
      output @ take (length (fst (the (st_next_out ?s'))) - st_avail_out ?s') (fst (the (st_next_out ?s'))))"
    by (simp add: xz_turn_def s_def [symmetric] code Let_def)
  from that [OF this r(1)] step show thesis by blast
qed

lemma decompress_loop_throws:
  assumes raw: "raw_chain_ok code good (se_inits env)" and ex: "chain_expands code good (se_inits env) pot k p0"
    and "decompressing env code good stream"
  shows "decompress_loop LZMA_OK stream outBuffer acc = Some (Inl (DhtError ''XZ decompression failed''))"
  using assms(3)
proof (induction "decompress_left pot (k + p0) stream" arbitrary: stream outBuffer acc rule: less_induct)
  case less
  obtain ret stream' outBuffer' output' where t: "xz_turn stream LZMA_RUN outBuffer acc = Some (ret, stream', outBuffer', output')"
    "ret \<noteq> LZMA_STREAM_END"
    "ret = LZMA_OK \<longrightarrow> decompressing env code good stream' \<and> decompress_left pot (k + p0) stream' < decompress_left pot (k + p0) stream"
    by (rule decompress_turn [OF raw ex less.prems, of outBuffer acc])
  show ?case
  proof (cases "ret = LZMA_OK")
    case True
    then show ?thesis using t less.hyps [of stream'] by (subst decompress_loop.simps) simp
  next
    case False
    then show ?thesis using t(1,2) by (subst decompress_loop.simps) simp
  qed
qed

lemma stream_decoder_decompressing:
  assumes "lzma_stream_decoder env mem imem (Some LZMA_STREAM_INIT) UINT64_MAX LZMA_CONCATENATED = (LZMA_OK, stream)"
    and "\<And>c. mem = Some c \<Longrightarrow> length (sd_buffer c) = 1024"
  shows "decompressing env code good ((the stream)\<lparr>st_next_in := Some (data, 0), st_avail_in := length data\<rparr>)"
proof -
  obtain im where im: "imem = Some im"
    using assms(1) by (cases imem) (auto simp: lzma_stream_decoder_def lzma_next_strm_init_def lzma_strm_init_def LZMA_STREAM_INIT_def)
  obtain nxt where init: "lzma_stream_decoder_init env mem LZMA_NEXT_CODER_INIT UINT64_MAX LZMA_CONCATENATED = (LZMA_OK, nxt)"
    and strm: "stream = support_action LZMA_FINISH (support_action LZMA_RUN (Some (LZMA_STREAM_INIT\<lparr>st_internal :=
      Some (im\<lparr>in_supported_actions := replicate (LZMA_ACTION_MAX + 1) False, in_sequence := ISEQ_RUN, in_allow_buf_error := False,
        in_next := nxt\<rparr>),
      st_total_in := 0, st_total_out := 0\<rparr>)))"
    using assms(1) by (auto simp: lzma_stream_decoder_def lzma_next_strm_init_def lzma_strm_init_def LZMA_STREAM_INIT_def im Let_def
        split: prod.splits if_splits)
  have no: "nc_coder (LZMA_NEXT_CODER_INIT :: 'a stream_coder lzma_next_coder) = None" by (simp add: LZMA_NEXT_CODER_INIT_def)
  obtain c where c: "nc_coder nxt = Some c" "nc_code nxt = Some (stream_decode env)" "stream_good code good c" "sd_concatenated c"
    using stream_decoder_init_good [OF init, of code good] assms(2) no by (auto simp: LZMA_CONCATENATED_def)
  show ?thesis
    using c unfolding decompressing_def strm
    by (simp add: support_action_def LZMA_STREAM_INIT_def action_index_def LZMA_ACTION_MAX_def)
qed

lemma decompressXZ_fails:
  assumes "raw_chain_ok code good (se_inits env)" "chain_expands code good (se_inits env) pot k p0"
    and "\<And>c. mem = Some c \<Longrightarrow> length (sd_buffer c) = 1024" "data \<noteq> []"
  shows "\<exists>msg \<in> {''Failed to initialize XZ decoder'', ''XZ decompression failed''}.
    decompressXZ env mem imem data = Some (Inl (DhtError msg))"
proof -
  obtain ret stream where i: "lzma_stream_decoder env mem imem (Some LZMA_STREAM_INIT) UINT64_MAX LZMA_CONCATENATED = (ret, stream)"
    by fastforce
  show ?thesis
  proof (cases "ret = LZMA_OK")
    case True
    have "decompressing env code good ((the stream)\<lparr>st_next_in := Some (data, 0), st_avail_in := length data\<rparr>)"
      using stream_decoder_decompressing [OF i [unfolded True] assms(3)] by simp
    from decompress_loop_throws [OF assms(1,2) this] show ?thesis using assms(4) i True by (simp add: decompressXZ_def)
  next
    case False
    then show ?thesis using assms(4) i by (simp add: decompressXZ_def)
  qed
qed

section \<open>Properties\<close>

text \<open>C1. \<open>decompressXZ\<close> never succeeds: on every non-empty input, valid XZ data included, it throws a \<open>DhtError\<close>. It asks
  for a decoder of concatenated Streams, which reports the end only when \<open>lzma_code\<close> is called with \<open>LZMA_FINISH\<close>, but
  always calls it with \<open>LZMA_RUN\<close>; when all input is used up and all output produced, the second call without
  progress returns \<open>LZMA_BUF_ERROR\<close>. The filter decoders below the Stream decoder are any that stay within their
  buffers, whose initialisation reports an error or leaves them in a good state, and whose output is bounded by what
  they consume; the witness has the LZMA2 decoder there.\<close>

theorem decompressXZ_throws:
  assumes "raw_chain_ok code good (se_inits env)" "chain_expands code good (se_inits env) pot k p0"
    and "\<And>c. mem = Some c \<Longrightarrow> length (sd_buffer c) = 1024" "data \<noteq> []"
  shows "\<exists>msg \<in> {''Failed to initialize XZ decoder'', ''XZ decompression failed''}.
    decompressXZ env mem imem data = Some (Inl (DhtError msg))"
  by (rule decompressXZ_fails [OF assms])

text \<open>An XZ file with no Blocks: it stands for the empty string.\<close>

definition empty_xz :: "u8 list" where
  "empty_xz = stream_header_bytes LZMA_CHECK_CRC64 @ index_field [] @ stream_footer_bytes 1 LZMA_CHECK_CRC64"

definition sample_stream_internal :: "'r stream_coder lzma_internal" where
  "sample_stream_internal = \<lparr>in_next = LZMA_NEXT_CODER_INIT, in_sequence = ISEQ_RUN, in_avail_in = 0, in_supported_actions = [],
     in_allow_buf_error = False\<rparr>"

lemma sample_decoder_ok:
  "fst (lzma_stream_decoder sample_xz_env (Some sample_stream_mem) (Some sample_stream_internal) (Some LZMA_STREAM_INIT) UINT64_MAX LZMA_CONCATENATED)
     = LZMA_OK"
  by (simp add: lzma_stream_decoder_def lzma_next_strm_init_def lzma_strm_init_def LZMA_STREAM_INIT_def sample_stream_internal_def
      lzma_stream_decoder_init_def lzma_next_coder_init_def LZMA_NEXT_CODER_INIT_def lzma_next_end_def UINT64_MAX_def
      stream_decoder_reset_def sample_xz_env_def sample_stream_mem_def lzma_index_hash_init_def stream_flag_defs Let_def)

theorem decompressXZ_throws_witness:
  "fst (lzma_stream_decoder sample_xz_env (Some sample_stream_mem) (Some sample_stream_internal) (Some LZMA_STREAM_INIT) UINT64_MAX LZMA_CONCATENATED)
     = LZMA_OK
   \<and> (\<exists>msg. decompressXZ sample_xz_env (Some sample_stream_mem) (Some sample_stream_internal) empty_xz = Some (Inl (DhtError msg)))"
proof -
  have ne: "empty_xz \<noteq> []" by (simp add: empty_xz_def stream_header_bytes_def lzma_header_magic_def)
  have "\<And>c. Some sample_stream_mem = Some c \<Longrightarrow> length (sd_buffer c) = 1024" by (auto simp: sample_stream_mem_def)
  from decompressXZ_throws [OF sample_xz_chain this ne, where imem = "Some sample_stream_internal"] show ?thesis using sample_decoder_ok by blast
qed

end
