(* ===== verification/Dht_Crypto.thy ===== *)
theory Dht_Crypto
  imports Dht_Base Dht_Compression
begin

text \<open>
  \<open>core/crypto\<close>: \<open>encryptData\<close> and \<open>decryptData\<close>, AES-256-GCM through the EVP interface of OpenSSL. The EVP functions are
  the argument of type \<open>evp\<close>; a call that does not return 1 is \<open>None\<close>. The lengths handed to them are of type \<open>int\<close>.
\<close>

section \<open>The code\<close>

record 'x evp =
  RAND_bytes :: "nat \<Rightarrow> u8 list option"
  EVP_CIPHER_CTX_new :: bool
  EVP_EncryptInit_ex :: "u8 list \<Rightarrow> u8 list \<Rightarrow> 'x option"
  EVP_EncryptUpdate :: "'x \<Rightarrow> u8 list \<Rightarrow> int \<Rightarrow> ('x \<times> u8 list) option"
  EVP_EncryptFinal_ex :: "'x \<Rightarrow> ('x \<times> u8 list) option"
  EVP_CTRL_GCM_GET_TAG :: "'x \<Rightarrow> nat \<Rightarrow> u8 list option"
  EVP_DecryptInit_ex :: "u8 list \<Rightarrow> u8 list \<Rightarrow> 'x option"
  EVP_DecryptUpdate :: "'x \<Rightarrow> u8 list \<Rightarrow> int \<Rightarrow> ('x \<times> u8 list) option"
  EVP_CTRL_GCM_SET_TAG :: "'x \<Rightarrow> u8 list \<Rightarrow> 'x option"
  EVP_DecryptFinal_ex :: "'x \<Rightarrow> ('x \<times> u8 list) option"

definition validatePassword :: "string \<Rightarrow> unit res" where
  "validatePassword password = (if length password < MIN_PASSWORD_LENGTH then Inl WeakPasswordError else Inr ())"

text \<open>The key: a vector of zero bytes into which the beginning of the password is copied.\<close>

definition password_key :: "string \<Rightarrow> u8 list" where
  "password_key password =
     (let copyLen = min (length password) AES_KEY_LENGTH
      in buf_write 0 (take copyLen (bytes_of_string password)) (replicate AES_KEY_LENGTH 0))"

definition encryptData :: "'x evp \<Rightarrow> u8 list \<Rightarrow> string \<Rightarrow> u8 list res" where
  "encryptData E data password =
     res_bind (validatePassword password) (\<lambda>_.
     (let key = password_key password
      in case RAND_bytes E AES_IV_LENGTH of
           None \<Rightarrow> Inl (DhtError ''Failed to generate IV'')
         | Some iv \<Rightarrow>
         if \<not> EVP_CIPHER_CTX_new E then Inl (DhtError ''Failed to create cipher context'')
         else
           (case EVP_EncryptInit_ex E key iv of
              None \<Rightarrow> Inl (DhtError ''Failed to initialize encryption'')
            | Some ctx \<Rightarrow>
                (case EVP_EncryptUpdate E ctx data (size_to_int (length data)) of
                   None \<Rightarrow> Inl (DhtError ''Encryption failed'')
                 | Some (ctx, part1) \<Rightarrow>
                     (case EVP_EncryptFinal_ex E ctx of
                        None \<Rightarrow> Inl (DhtError ''Encryption finalization failed'')
                      | Some (ctx, part2) \<Rightarrow>
                          (let ciphertext = part1 @ part2
                           in case EVP_CTRL_GCM_GET_TAG E ctx AES_TAG_LENGTH of
                                None \<Rightarrow> Inl (DhtError ''Failed to get GCM tag'')
                              | Some tag \<Rightarrow> Inr (iv @ tag @ ciphertext)))))))"

definition decryptData :: "'x evp \<Rightarrow> u8 list \<Rightarrow> string \<Rightarrow> u8 list res" where
  "decryptData E encryptedData password =
     (if length password < MIN_PASSWORD_LENGTH then Inl WeakPasswordError
      else if length encryptedData < AES_IV_LENGTH + AES_TAG_LENGTH then Inl CorruptedFileError
      else
        (let iv = take AES_IV_LENGTH encryptedData;
             tag = take AES_TAG_LENGTH (drop AES_IV_LENGTH encryptedData);
             ciphertext = drop (AES_IV_LENGTH + AES_TAG_LENGTH) encryptedData;
             key = password_key password
         in if \<not> EVP_CIPHER_CTX_new E then Inl (DhtError ''Failed to create cipher context'')
            else
              (case EVP_DecryptInit_ex E key iv of
                 None \<Rightarrow> Inl DecryptionFailedError
               | Some ctx \<Rightarrow>
                   (case EVP_DecryptUpdate E ctx ciphertext (size_to_int (length ciphertext)) of
                      None \<Rightarrow> Inl DecryptionFailedError
                    | Some (ctx, part1) \<Rightarrow>
                        (case EVP_CTRL_GCM_SET_TAG E ctx tag of
                           None \<Rightarrow> Inl DecryptionFailedError
                         | Some ctx \<Rightarrow>
                             (case EVP_DecryptFinal_ex E ctx of
                                None \<Rightarrow> Inl InvalidPasswordError
                              | Some (ctx, part2) \<Rightarrow> Inr (part1 @ part2)))))))"

section \<open>What is documented of EVP\<close>

text \<open>\<open>seal\<close> is AES-256-GCM without additional data: ciphertext and tag for a key, an initialisation vector and a message.
  Encryption of the first \<open>n\<close> bytes of a buffer yields them, and the final call adds nothing; decryption recovers the
  message if the tag belongs to the ciphertext, and the final call fails otherwise.\<close>

definition evp_gcm :: "'x evp \<Rightarrow> (u8 list \<Rightarrow> u8 list \<Rightarrow> u8 list \<Rightarrow> u8 list \<times> u8 list) \<Rightarrow> bool" where
  "evp_gcm E seal \<longleftrightarrow>
     EVP_CIPHER_CTX_new E
     \<and> (\<forall>iv. RAND_bytes E AES_IV_LENGTH = Some iv \<longrightarrow> length iv = AES_IV_LENGTH)
     \<and> (\<forall>key iv m. length (fst (seal key iv m)) = length m \<and> length (snd (seal key iv m)) = AES_TAG_LENGTH)
     \<and> (\<forall>key iv buf n. length key = AES_KEY_LENGTH \<and> length iv = AES_IV_LENGTH \<and> 0 \<le> n \<and> nat n \<le> length buf \<longrightarrow>
          (\<exists>c c1 c2. EVP_EncryptInit_ex E key iv = Some c
             \<and> EVP_EncryptUpdate E c buf n = Some (c1, fst (seal key iv (take (nat n) buf)))
             \<and> EVP_EncryptFinal_ex E c1 = Some (c2, [])
             \<and> EVP_CTRL_GCM_GET_TAG E c2 AES_TAG_LENGTH = Some (snd (seal key iv (take (nat n) buf))))
          \<and> (\<exists>c c1 m. EVP_DecryptInit_ex E key iv = Some c \<and> EVP_DecryptUpdate E c buf n = Some (c1, m)
             \<and> fst (seal key iv m) = take (nat n) buf
             \<and> (\<forall>tag. length tag = AES_TAG_LENGTH \<longrightarrow>
                  (\<exists>c2. EVP_CTRL_GCM_SET_TAG E c1 tag = Some c2
                     \<and> (if snd (seal key iv m) = tag then \<exists>c3. EVP_DecryptFinal_ex E c2 = Some (c3, [])
                        else EVP_DecryptFinal_ex E c2 = None)))))
     \<and> (\<forall>key iv m m'. fst (seal key iv m) = fst (seal key iv m') \<longrightarrow> m = m')"

text \<open>A negative length is an error (\<open>EVP_R_INVALID_LENGTH\<close>, \<open>crypto/evp/evp_enc.c\<close> of OpenSSL).\<close>

definition evp_length_checked :: "'x evp \<Rightarrow> bool" where
  "evp_length_checked E \<longleftrightarrow> (\<forall>c buf n. n < 0 \<longrightarrow> EVP_EncryptUpdate E c buf n = None)"

section \<open>Lemmas\<close>

lemma length_bytes_of_string [simp]: "length (bytes_of_string s) = length s"
  by (simp add: bytes_of_string_def)

lemma password_key_eq: "AES_KEY_LENGTH \<le> length password \<Longrightarrow> password_key password = bytes_of_string (take AES_KEY_LENGTH password)"
  by (simp add: password_key_def Let_def buf_write_def bytes_of_string_def take_map min_def)

lemma length_password_key: "AES_KEY_LENGTH \<le> length password \<Longrightarrow> length (password_key password) = AES_KEY_LENGTH"
  by (simp add: password_key_eq)

lemmas aes_lengths = MIN_PASSWORD_LENGTH_def AES_KEY_LENGTH_def AES_IV_LENGTH_def AES_TAG_LENGTH_def

lemma evp_encryptD:
  assumes "evp_gcm E seal" "length key = AES_KEY_LENGTH" "length iv = AES_IV_LENGTH" "0 \<le> n" "nat n \<le> length buf"
  shows "\<exists>c c1 c2. EVP_EncryptInit_ex E key iv = Some c \<and> EVP_EncryptUpdate E c buf n = Some (c1, fst (seal key iv (take (nat n) buf)))
    \<and> EVP_EncryptFinal_ex E c1 = Some (c2, []) \<and> EVP_CTRL_GCM_GET_TAG E c2 AES_TAG_LENGTH = Some (snd (seal key iv (take (nat n) buf)))"
  using assms unfolding evp_gcm_def by blast

lemma evp_decryptD:
  assumes "evp_gcm E seal" "length key = AES_KEY_LENGTH" "length iv = AES_IV_LENGTH" "0 \<le> n" "nat n \<le> length buf" "length tag = AES_TAG_LENGTH"
  shows "\<exists>c c1 m c2. EVP_DecryptInit_ex E key iv = Some c \<and> EVP_DecryptUpdate E c buf n = Some (c1, m)
    \<and> fst (seal key iv m) = take (nat n) buf \<and> EVP_CTRL_GCM_SET_TAG E c1 tag = Some c2
    \<and> (if snd (seal key iv m) = tag then \<exists>c3. EVP_DecryptFinal_ex E c2 = Some (c3, []) else EVP_DecryptFinal_ex E c2 = None)"
proof -
  have "\<exists>c c1 m. EVP_DecryptInit_ex E key iv = Some c \<and> EVP_DecryptUpdate E c buf n = Some (c1, m)
     \<and> fst (seal key iv m) = take (nat n) buf
     \<and> (\<forall>tag. length tag = AES_TAG_LENGTH \<longrightarrow> (\<exists>c2. EVP_CTRL_GCM_SET_TAG E c1 tag = Some c2
           \<and> (if snd (seal key iv m) = tag then \<exists>c3. EVP_DecryptFinal_ex E c2 = Some (c3, []) else EVP_DecryptFinal_ex E c2 = None)))"
    using assms(1-5) unfolding evp_gcm_def by blast
  then show ?thesis using assms(6) by blast
qed

lemma encryptData_seals:
  assumes "evp_gcm E seal" "MIN_PASSWORD_LENGTH \<le> length password" "RAND_bytes E AES_IV_LENGTH = Some iv"
    and "n < 2 ^ 31" "size_to_int (length data) = int n" "n \<le> length data"
  shows "encryptData E data password = Inr (iv @ snd (seal (password_key password) iv (take n data)) @ fst (seal (password_key password) iv (take n data)))"
proof -
  have iv: "length iv = AES_IV_LENGTH" and new: "EVP_CIPHER_CTX_new E" using assms(1,3) unfolding evp_gcm_def by blast+
  have key: "length (password_key password) = AES_KEY_LENGTH" using assms(2) by (simp add: length_password_key aes_lengths)
  show ?thesis
    using evp_encryptD [OF assms(1) key iv, of "int n" data] assms(2,3,5,6) new
    by (auto simp: encryptData_def validatePassword_def)
qed

lemma decryptData_opens:
  assumes "evp_gcm E seal" "MIN_PASSWORD_LENGTH \<le> length password" "length iv = AES_IV_LENGTH" "length tag = AES_TAG_LENGTH"
    and "length ct < 2 ^ 31"
  shows "decryptData E (iv @ tag @ ct) password
    = (if \<exists>m. seal (password_key password) iv m = (ct, tag) then Inr (THE m. seal (password_key password) iv m = (ct, tag))
       else Inl InvalidPasswordError)"
proof -
  let ?key = "password_key password"
  have new: "EVP_CIPHER_CTX_new E" and inj: "\<And>m m'. fst (seal ?key iv m) = fst (seal ?key iv m') \<Longrightarrow> m = m'"
    using assms(1) unfolding evp_gcm_def by blast+
  have key: "length ?key = AES_KEY_LENGTH" using assms(2) by (simp add: length_password_key aes_lengths)
  obtain c c1 m c2 where e: "EVP_DecryptInit_ex E ?key iv = Some c" "EVP_DecryptUpdate E c ct (int (length ct)) = Some (c1, m)"
    "fst (seal ?key iv m) = ct" "EVP_CTRL_GCM_SET_TAG E c1 tag = Some c2"
    "if snd (seal ?key iv m) = tag then \<exists>c3. EVP_DecryptFinal_ex E c2 = Some (c3, []) else EVP_DecryptFinal_ex E c2 = None"
    using evp_decryptD [OF assms(1) key assms(3) _ _ assms(4), of "int (length ct)" ct] by auto
  have run: "decryptData E (iv @ tag @ ct) password = (if snd (seal ?key iv m) = tag then Inr m else Inl InvalidPasswordError)"
    using e new assms(2-5) by (auto simp: decryptData_def Let_def size_to_int_small)
  show ?thesis
  proof (cases "snd (seal ?key iv m) = tag")
    case True
    then have "seal ?key iv m = (ct, tag)" using e(3) by (metis prod.collapse)
    moreover from this have "(THE m. seal ?key iv m = (ct, tag)) = m" by (intro the_equality) (use inj in \<open>force+\<close>)
    ultimately show ?thesis using run True by auto
  next
    case False
    have "seal ?key iv m' \<noteq> (ct, tag)" for m'
    proof
      assume a: "seal ?key iv m' = (ct, tag)"
      then have "m' = m" using inj [of m' m] e(3) by simp
      then show False using a False by simp
    qed
    then show ?thesis using run False by simp
  qed
qed

lemma encrypt_then_decrypt:
  assumes "evp_gcm E seal" "RAND_bytes E AES_IV_LENGTH = Some iv" "n < 2 ^ 31" "size_to_int (length data) = int n" "n \<le> length data"
    and "32 \<le> length password" "32 \<le> length password'" "take 32 password' = take 32 password"
  shows "\<exists>out. encryptData E data password = Inr out \<and> take 12 out = iv \<and> length out = 28 + n
    \<and> decryptData E out password' = Inr (take n data)"
proof -
  let ?key = "password_key password" and ?s = "seal (password_key password) iv (take n data)"
  have iv: "length iv = AES_IV_LENGTH" using assms(1,2) unfolding evp_gcm_def by blast
  have len: "length (fst ?s) = n" "length (snd ?s) = AES_TAG_LENGTH"
    and inj: "\<And>m m'. fst (seal ?key iv m) = fst (seal ?key iv m') \<Longrightarrow> m = m'"
    using assms(1,5) unfolding evp_gcm_def by auto
  have key: "password_key password' = ?key" using assms(6-8) by (simp add: password_key_eq aes_lengths)
  have enc: "encryptData E data password = Inr (iv @ snd ?s @ fst ?s)"
    using assms(4-6) by (intro encryptData_seals [OF assms(1) _ assms(2,3)]) (simp_all add: aes_lengths)
  have "(THE m. seal ?key iv m = (fst ?s, snd ?s)) = take n data" by (rule the_equality) (use inj in \<open>force+\<close>)
  moreover have "\<exists>m. seal ?key iv m = (fst ?s, snd ?s)" by (rule exI [of _ "take n data"]) simp
  ultimately have "decryptData E (iv @ snd ?s @ fst ?s) password' = Inr (take n data)"
    using decryptData_opens [OF assms(1) _ iv len(2), of password' "fst ?s"] assms(3,7) len(1) key by (simp add: aes_lengths)
  then show ?thesis using enc iv len by (simp add: aes_lengths)
qed

section \<open>Properties\<close>

text \<open>C10. Encryption and decryption are inverse, and only the first 32 characters of the password count. With a password of at
  least 32 characters and fewer than 2 GiB of data, \<open>encryptData\<close> yields the initialisation vector, the tag and the
  ciphertext, 28 bytes more than the data, and \<open>decryptData\<close> recovers the data with every password that begins with the
  same 32 characters.\<close>

theorem encrypt_decrypt_roundtrip:
  assumes "evp_gcm E seal" "RAND_bytes E AES_IV_LENGTH = Some iv" "length data < 2 ^ 31"
    and "32 \<le> length password" "32 \<le> length password'" "take 32 password' = take 32 password"
  shows "\<exists>out. encryptData E data password = Inr out \<and> take 12 out = iv \<and> length out = 28 + length data
    \<and> decryptData E out password' = Inr data"
  using encrypt_then_decrypt [OF assms(1,2,3) _ _ assms(4-6), of data] size_to_int_small [OF assms(3)] by simp

text \<open>C11. \<open>decryptData\<close> fails closed, on every branch. A password of fewer than 32 characters is rejected as weak whatever the
  file; a file shorter than initialisation vector and tag is corrupted; and otherwise (below 2 GiB) it either returns the
  one message that \<open>seal\<close> maps to exactly the ciphertext and tag of the file, under the key and the initialisation vector
  of the file, or throws \<open>InvalidPasswordError\<close>, also when it is the file that was altered.\<close>

theorem decrypt_fails_closed:
  assumes "evp_gcm E seal" "length file < 2 ^ 31"
  shows "(length password < 32 \<longrightarrow> decryptData E file password = Inl WeakPasswordError)
    \<and> (32 \<le> length password \<and> length file < 28 \<longrightarrow> decryptData E file password = Inl CorruptedFileError)
    \<and> (32 \<le> length password \<and> 28 \<le> length file \<longrightarrow>
         (\<forall>m. decryptData E file password = Inr m \<longleftrightarrow>
            seal (password_key password) (take 12 file) m = (drop 28 file, take 16 (drop 12 file)))
         \<and> (decryptData E file password = Inl InvalidPasswordError \<or> (\<exists>m. decryptData E file password = Inr m)))"
proof (intro conjI impI)
  assume "length password < 32"
  then show "decryptData E file password = Inl WeakPasswordError" by (simp add: decryptData_def aes_lengths)
next
  assume "32 \<le> length password \<and> length file < 28"
  then show "decryptData E file password = Inl CorruptedFileError" by (simp add: decryptData_def aes_lengths)
next
  let ?key = "password_key password" and ?iv = "take 12 file" and ?tag = "take 16 (drop 12 file)" and ?ct = "drop 28 file"
  assume a: "32 \<le> length password \<and> 28 \<le> length file"
  have "?ct = drop 16 (drop 12 file)" by simp
  then have split: "file = ?iv @ ?tag @ ?ct" by (metis append_take_drop_id)
  have len: "length ?iv = AES_IV_LENGTH" "length ?tag = AES_TAG_LENGTH" "MIN_PASSWORD_LENGTH \<le> length password" "length ?ct < 2 ^ 31"
    using a assms(2) by (auto simp: aes_lengths min_def)
  have inj: "\<And>m m'. fst (seal ?key ?iv m) = fst (seal ?key ?iv m') \<Longrightarrow> m = m'" using assms(1) unfolding evp_gcm_def by blast
  have the: "(THE m. seal ?key ?iv m = (?ct, ?tag)) = m" if "seal ?key ?iv m = (?ct, ?tag)" for m
    using that by (intro the_equality) (use inj in \<open>force+\<close>)
  have run: "decryptData E file password
      = (if \<exists>m. seal ?key ?iv m = (?ct, ?tag) then Inr (THE m. seal ?key ?iv m = (?ct, ?tag)) else Inl InvalidPasswordError)"
    using decryptData_opens [OF assms(1) len(3,1,2,4)] split by metis
  show "\<forall>m. decryptData E file password = Inr m \<longleftrightarrow> seal ?key ?iv m = (?ct, ?tag)"
    using run the by (auto split: if_splits)
  show "decryptData E file password = Inl InvalidPasswordError \<or> (\<exists>m. decryptData E file password = Inr m)"
    using run by auto
qed

text \<open>C34. The size of the data is passed to \<open>EVP_EncryptUpdate\<close> as an \<open>int\<close>, so data of 2 GiB and more is never encrypted as it is.
  Let \<open>n\<close> be the size modulo \<open>2 ^ 32\<close>. If \<open>n\<close> is \<open>2 ^ 31\<close> or more the length is negative and \<open>encryptData\<close> throws. If
  it is less, only the first \<open>n\<close> bytes are encrypted, no exception is thrown, and decryption gives back only these: from
  4 GiB on, half of the sizes are silently cut.\<close>

theorem encrypt_truncates:
  assumes "evp_gcm E seal" "evp_length_checked E" "RAND_bytes E AES_IV_LENGTH = Some iv" "32 \<le> length password"
    and n: "n = length data mod 2 ^ 32"
  shows "(n < 2 ^ 31 \<longrightarrow>
           (\<exists>out. encryptData E data password = Inr out \<and> length out = 28 + n \<and> decryptData E out password = Inr (take n data)))
    \<and> (2 ^ 31 \<le> n \<longrightarrow> encryptData E data password = Inl (DhtError ''Encryption failed''))"
proof (intro conjI impI)
  have le: "n \<le> length data" unfolding n by (rule mod_less_eq_dividend)
  show "\<exists>out. encryptData E data password = Inr out \<and> length out = 28 + n \<and> decryptData E out password = Inr (take n data)" if "n < 2 ^ 31"
    using encrypt_then_decrypt [OF assms(1,3) that _ le assms(4,4) refl] size_to_int_reduce [of "length data"] size_to_int_small [OF that] n
    by metis
  assume big: "2 ^ 31 \<le> n"
  have "n < 2 ^ 32" unfolding n by simp
  then have neg: "size_to_int (length data) < 0" using size_to_int_negative [of "length data"] big unfolding n [symmetric] by simp
  have iv: "length iv = AES_IV_LENGTH" and new: "EVP_CIPHER_CTX_new E" using assms(1,3) unfolding evp_gcm_def by blast+
  have key: "length (password_key password) = AES_KEY_LENGTH" using assms(4) by (simp add: length_password_key aes_lengths)
  obtain c where c: "EVP_EncryptInit_ex E (password_key password) iv = Some c"
    using evp_encryptD [OF assms(1) key iv, of 0 "[]"] by auto
  have "EVP_EncryptUpdate E c data (size_to_int (length data)) = None" using assms(2) neg by (simp add: evp_length_checked_def)
  then show "encryptData E data password = Inl (DhtError ''Encryption failed'')"
    using c new assms(3,4) by (simp add: encryptData_def validatePassword_def aes_lengths)
qed

text \<open>An instance of the EVP interface, with the identity for ciphertexts and a sum of the key, the vector and the message for
  tags.\<close>

definition toy_tag :: "u8 list \<Rightarrow> u8 list \<Rightarrow> u8 list \<Rightarrow> u8 list" where
  "toy_tag key iv m = replicate 16 (sum_list key + sum_list iv + sum_list m)"

definition toy_evp :: "(u8 list \<times> u8 list \<times> u8 list \<times> u8 list) evp" where
  "toy_evp = \<lparr>RAND_bytes = (\<lambda>n. Some (replicate n 7)), EVP_CIPHER_CTX_new = True,
     EVP_EncryptInit_ex = (\<lambda>key iv. Some (key, iv, [], [])),
     EVP_EncryptUpdate = (\<lambda>(key, iv, m, t) buf n.
        if n < 0 then None else Some ((key, iv, take (nat n) buf, t), take (nat n) buf)),
     EVP_EncryptFinal_ex = (\<lambda>c. Some (c, [])),
     EVP_CTRL_GCM_GET_TAG = (\<lambda>(key, iv, m, t) n. Some (toy_tag key iv m)),
     EVP_DecryptInit_ex = (\<lambda>key iv. Some (key, iv, [], [])),
     EVP_DecryptUpdate = (\<lambda>(key, iv, m, t) buf n. Some ((key, iv, take (nat n) buf, t), take (nat n) buf)),
     EVP_CTRL_GCM_SET_TAG = (\<lambda>(key, iv, m, t) tag. Some (key, iv, m, tag)),
     EVP_DecryptFinal_ex = (\<lambda>(key, iv, m, t). if toy_tag key iv m = t then Some ((key, iv, m, t), []) else None)\<rparr>"

lemma toy_evp_gcm: "evp_gcm toy_evp (\<lambda>key iv m. (m, toy_tag key iv m))"
  by (auto simp: evp_gcm_def toy_evp_def toy_tag_def aes_lengths)

lemma toy_evp_checked: "evp_length_checked toy_evp"
  by (simp add: evp_length_checked_def toy_evp_def split: prod.splits)

theorem encrypt_decrypt_roundtrip_witness:
  "\<exists>out. encryptData toy_evp [1, 2, 3] (replicate 32 CHR ''k'' @ ''x'') = Inr out \<and> length out = 31
    \<and> decryptData toy_evp out (replicate 32 CHR ''k'' @ ''other'') = Inr [1, 2, 3]"
  using encrypt_decrypt_roundtrip [OF toy_evp_gcm, of "replicate 12 7" "[1, 2, 3]" "replicate 32 CHR ''k'' @ ''x''" "replicate 32 CHR ''k'' @ ''other''"]
  by (auto simp: toy_evp_def aes_lengths)

theorem decrypt_fails_closed_witness:
  "decryptData toy_evp (replicate 27 0) (replicate 32 CHR ''k'') = Inl CorruptedFileError
    \<and> decryptData toy_evp (replicate 99 0) ''short'' = Inl WeakPasswordError
    \<and> decryptData toy_evp (replicate 28 0 @ [5]) (replicate 32 CHR ''k'') = Inl InvalidPasswordError"
proof -
  have "sum_list (password_key (replicate 32 CHR ''k'')) = 96" by code_simp
  then have "toy_tag (password_key (replicate 32 CHR ''k'')) (replicate 12 0) [5] \<noteq> replicate 16 0" by (simp add: toy_tag_def sum_list_replicate)
  then have "decryptData toy_evp (replicate 28 0 @ [5]) (replicate 32 CHR ''k'') \<noteq> Inr m" for m
    using decrypt_fails_closed [OF toy_evp_gcm, of "replicate 28 0 @ [5]" "replicate 32 CHR ''k''", THEN conjunct2, THEN conjunct2] by auto
  then have "decryptData toy_evp (replicate 28 0 @ [5]) (replicate 32 CHR ''k'') = Inl InvalidPasswordError"
    using decrypt_fails_closed [OF toy_evp_gcm, of "replicate 28 0 @ [5]" "replicate 32 CHR ''k''", THEN conjunct2, THEN conjunct2, THEN mp, THEN conjunct2]
    by auto
  then show ?thesis
    using decrypt_fails_closed [OF toy_evp_gcm, of "replicate 27 0" "replicate 32 CHR ''k''"]
      decrypt_fails_closed [OF toy_evp_gcm, of "replicate 99 0" "''short''"] by simp
qed

theorem encrypt_truncates_witness:
  "\<exists>data out. length data = 2 ^ 32 + 1 \<and> encryptData toy_evp data (replicate 32 CHR ''k'') = Inr out \<and> length out = 29
    \<and> decryptData toy_evp out (replicate 32 CHR ''k'') = Inr [5]
    \<and> encryptData toy_evp (replicate (2 ^ 31) 0) (replicate 32 CHR ''k'') = Inl (DhtError ''Encryption failed'')"
proof -
  have len: "length (5 # replicate (2 ^ 32) 6 :: u8 list) = 2 ^ 32 + 1" by (simp only: length_Cons length_replicate)
  then have m: "1 = length (5 # replicate (2 ^ 32) 6 :: u8 list) mod 2 ^ 32" by (simp only: mod_add_self1) simp
  have m': "2 ^ 31 = length (replicate (2 ^ 31) 0 :: u8 list) mod 2 ^ 32" by (simp only: length_replicate) simp
  have rand: "RAND_bytes toy_evp AES_IV_LENGTH = Some (replicate 12 7)" by (simp add: toy_evp_def aes_lengths)
  have pw: "32 \<le> length (replicate 32 CHR ''k'')" by simp
  obtain out where "encryptData toy_evp (5 # replicate (2 ^ 32) 6) (replicate 32 CHR ''k'') = Inr out" "length out = 29"
    "decryptData toy_evp out (replicate 32 CHR ''k'') = Inr (take 1 (5 # replicate (2 ^ 32) 6))"
    using encrypt_truncates [OF toy_evp_gcm toy_evp_checked rand pw m] by auto
  moreover have "take 1 (5 # replicate (2 ^ 32) 6) = [5 :: u8]" by (simp only: take_Suc_Cons One_nat_def take_0)
  moreover have "encryptData toy_evp (replicate (2 ^ 31) 0) (replicate 32 CHR ''k'') = Inl (DhtError ''Encryption failed'')"
    using encrypt_truncates [OF toy_evp_gcm toy_evp_checked rand pw m'] by blast
  ultimately show ?thesis using len by metis
qed

end
