(* ===== verification/Dht_Io.thy ===== *)
theory Dht_Io
  imports Dht_Base Dht_Color "HOL-Library.Signed_Division"
begin

text \<open>
  \<open>core/io\<close> (files, file extensions, the class \<open>MemoryStream\<close>) and the BMP reader and writer, \<open>encoder/bmp_reader.cpp\<close> and
  \<open>decoder/bmp_writer.cpp\<close>.

  The file system maps paths to contents and says which paths can be opened for writing. A result \<open>None\<close> is undefined
  behaviour: an access outside of a vector. C integers in the BMP code are mathematical integers with the division of C;
  the properties keep to sizes where no intermediate result leaves the type.
\<close>

section \<open>Files\<close>

record file_system =
  fs_files :: "string \<rightharpoonup> u8 list"
  fs_writable :: "string \<Rightarrow> bool"

definition readFile :: "file_system \<Rightarrow> string \<Rightarrow> u8 list res" where
  "readFile fs path = (case fs_files fs path of None \<Rightarrow> Inl (FileNotFoundError path) | Some data \<Rightarrow> Inr data)"

definition writeFile :: "file_system \<Rightarrow> string \<Rightarrow> u8 list \<Rightarrow> file_system res" where
  "writeFile fs path data =
     (if \<not> fs_writable fs path then Inl (DhtError (''Cannot write file: '' @ path))
      else Inr (fs\<lparr>fs_files := (fs_files fs)(path \<mapsto> data)\<rparr>))"

definition fileExists :: "file_system \<Rightarrow> string \<Rightarrow> bool" where
  "fileExists fs path \<longleftrightarrow> fs_files fs path \<noteq> None"

text \<open>\<open>std::string::find_last_of\<close> of a character; \<open>None\<close> stands for \<open>npos\<close>.\<close>

fun find_last_of :: "char \<Rightarrow> string \<Rightarrow> nat option" where
  "find_last_of c [] = None"
| "find_last_of c (x # xs) =
     (case find_last_of c xs of Some n \<Rightarrow> Some (Suc n) | None \<Rightarrow> if x = c then Some 0 else None)"

definition tolower :: "char \<Rightarrow> char" where
  "tolower c = (if 65 \<le> (of_char c :: nat) \<and> (of_char c :: nat) \<le> 90 then char_of ((of_char c :: nat) + 32) else c)"

definition getFileExtension :: "string \<Rightarrow> string" where
  "getFileExtension path =
     (case find_last_of CHR ''.'' path of None \<Rightarrow> [] | Some pos \<Rightarrow> map tolower (drop (pos + 1) path))"

section \<open>Memory streams\<close>

record MemoryStream =
  ms_data :: "u8 list"
  ms_position :: u64

definition ms_new :: "u8 list \<Rightarrow> MemoryStream" where
  "ms_new data = \<lparr>ms_data = data, ms_position = 0\<rparr>"

definition ms_write :: "MemoryStream \<Rightarrow> u8 list \<Rightarrow> MemoryStream" where
  "ms_write ms buffer = ms\<lparr>ms_data := ms_data ms @ buffer\<rparr>"

text \<open>The sum in the range check is of type \<open>size_t\<close> and wraps.\<close>

definition ms_read :: "MemoryStream \<Rightarrow> u64 \<Rightarrow> (MemoryStream \<times> u8 list) res option" where
  "ms_read ms n =
     (if ms_position ms + n > of_nat (length (ms_data ms)) then Some (Inl StdOutOfRange)
      else if unat (ms_position ms) + unat n > length (ms_data ms) then None
      else Some (Inr (ms\<lparr>ms_position := ms_position ms + n\<rparr>, take (unat n) (drop (unat (ms_position ms)) (ms_data ms)))))"

definition ms_seek :: "MemoryStream \<Rightarrow> u64 \<Rightarrow> MemoryStream" where
  "ms_seek ms pos = ms\<lparr>ms_position := pos\<rparr>"

definition ms_size :: "MemoryStream \<Rightarrow> nat" where "ms_size ms = length (ms_data ms)"

section \<open>BMP images\<close>

text \<open>Stores and loads of \<open>int\<close> and \<open>short\<close> objects at an address in a byte array (little endian).\<close>

definition store_int :: "u8 list \<Rightarrow> nat \<Rightarrow> int \<Rightarrow> u8 list" where
  "store_int buf pos v = buf_write pos (bytes32le (of_int v)) buf"

definition store_short :: "u8 list \<Rightarrow> nat \<Rightarrow> int \<Rightarrow> u8 list" where
  "store_short buf pos v = buf_write pos [of_int v, of_int (v div 256)] buf"

definition load_int :: "u8 list \<Rightarrow> nat \<Rightarrow> int" where
  "load_int buf pos = sint (load32 (buf ! pos) (buf ! (pos + 1)) (buf ! (pos + 2)) (buf ! (pos + 3)))"

definition load_short :: "u8 list \<Rightarrow> nat \<Rightarrow> int" where
  "load_short buf pos = sint (ucast (buf ! pos) OR push_bit 8 (ucast (buf ! (pos + 1))) :: 16 word)"

definition bmp_row_size :: "int \<Rightarrow> int \<Rightarrow> int" where
  "bmp_row_size bitsPerPixel width = ((bitsPerPixel * width + 31) sdiv 32) * 4"

text \<open>The body of the inner loop of \<open>writeBMP\<close>, the loop, and the rows from the last to the first.\<close>

definition bmp_put :: "RGB list \<Rightarrow> nat \<Rightarrow> nat \<Rightarrow> nat \<Rightarrow> u8 list \<Rightarrow> u8 list option" where
  "bmp_put pixels width y x row_data =
     (if y * width + x < length pixels \<and> x * 3 + 2 < length row_data
      then (let color = pixels ! (y * width + x)
            in Some (row_data[x * 3 := rgb_b color, x * 3 + 1 := rgb_g color, x * 3 + 2 := rgb_r color]))
      else None)"

fun bmp_put_row :: "RGB list \<Rightarrow> nat \<Rightarrow> nat \<Rightarrow> nat list \<Rightarrow> u8 list \<Rightarrow> u8 list option" where
  "bmp_put_row pixels width y [] row_data = Some row_data"
| "bmp_put_row pixels width y (x # xs) row_data = Option.bind (bmp_put pixels width y x row_data) (bmp_put_row pixels width y xs)"

fun bmp_put_rows :: "RGB list \<Rightarrow> nat \<Rightarrow> nat list \<Rightarrow> u8 list \<Rightarrow> u8 list \<Rightarrow> u8 list option" where
  "bmp_put_rows pixels width [] row_data out = Some out"
| "bmp_put_rows pixels width (y # ys) row_data out =
     Option.bind (bmp_put_row pixels width y [0..<width] row_data)
       (\<lambda>row_data. bmp_put_rows pixels width ys row_data (out @ row_data))"

definition bmp_header :: "int \<Rightarrow> int \<Rightarrow> u8 list" where
  "bmp_header width height =
     (let rowSize = bmp_row_size 24 width;
          imageSize = rowSize * height;
          fileSize = 54 + imageSize;
          header = replicate 54 0;
          header = header[0 := 0x42, 1 := 0x4D];
          header = store_int header 2 fileSize;
          header = store_int header 10 54;
          header = store_int header 14 40;
          header = store_int header 18 width;
          header = store_int header 22 height;
          header = store_short header 26 1;
          header = store_short header 28 24
      in store_int header 34 imageSize)"

definition writeBMP :: "file_system \<Rightarrow> string \<Rightarrow> RGB list \<Rightarrow> int \<Rightarrow> int \<Rightarrow> file_system res option" where
  "writeBMP fs path pixels width height =
     (if \<not> fs_writable fs path then Some (Inl (DhtError (''Cannot create BMP file: '' @ path)))
      else if bmp_row_size 24 width < 0 then Some (Inl StdLengthError)
      else
        map_option (\<lambda>image. Inr (fs\<lparr>fs_files := (fs_files fs)(path \<mapsto> bmp_header width height @ image)\<rparr>))
          (bmp_put_rows pixels (nat width) (rev [0..<nat height]) (replicate (nat (bmp_row_size 24 width)) 0) []))"

text \<open>\<open>readBMP\<close>: \<open>stack\<close> is the uninitialised content of \<open>header\<close>, of 54 bytes. The position after a failing \<open>fseek\<close> is the
  one after the header.\<close>

definition bmp_pixel :: "u8 list \<Rightarrow> int \<Rightarrow> int \<Rightarrow> nat \<Rightarrow> nat \<Rightarrow> RGB option" where
  "bmp_pixel image_data bitsPerPixel rowSize y x =
     (let offset = int y * rowSize + int x * (bitsPerPixel sdiv 8);
          idx = nat offset
      in if offset < 0 then None
         else if bitsPerPixel \<ge> 24
         then (if idx + 2 < length image_data then Some (mkRGB (image_data ! (idx + 2)) (image_data ! (idx + 1)) (image_data ! idx)) else None)
         else (if idx < length image_data then Some (mkRGB (image_data ! idx) (image_data ! idx) (image_data ! idx)) else None))"

definition readBMP :: "u8 list \<Rightarrow> file_system \<Rightarrow> string \<Rightarrow> (RGB list \<times> int \<times> int) res option" where
  "readBMP stack fs path =
     (case fs_files fs path of
        None \<Rightarrow> Some (Inl (FileNotFoundError path))
      | Some content \<Rightarrow>
          (let header = buf_write 0 (take 54 content) stack;
               width = load_int header 18;
               height = load_int header 22;
               bitsPerPixel = load_short header 28;
               rowSize = bmp_row_size bitsPerPixel width;
               dataOffset = load_int header 10;
               position = (if dataOffset < 0 then min 54 (length content) else nat dataOffset)
           in if height * rowSize < 0 \<or> width * height < 0 then Some (Inl StdLengthError)
              else
                (let n = nat (height * rowSize);
                     image_data = buf_write 0 (take n (drop position content)) (replicate n 0)
                 in if width \<le> 0 \<or> height \<le> 0
                    then Some (Inr (replicate (nat (width * height)) (mkRGB 0 0 0), width, height))
                    else
                      map_option (\<lambda>pixels. Inr (pixels, width, height))
                        (those (concat (map (\<lambda>row. map (\<lambda>x. bmp_pixel image_data bitsPerPixel rowSize (nat height - 1 - row) x)
                             [0..<nat width]) [0..<nat height]))))))"

section \<open>Lemmas on stores, loads and lists of equal rows\<close>

lemma length_stores [simp]:
  "length (store_int buf pos v) = length buf" "length (store_short buf pos v) = length buf"
  by (simp_all add: store_int_def store_short_def)

lemma nth_store_int:
  "pos + 4 \<le> length buf \<Longrightarrow> i < length buf \<Longrightarrow>
     store_int buf pos v ! i = (if pos \<le> i \<and> i < pos + 4 then bytes32le (of_int v) ! (i - pos) else buf ! i)"
  by (simp add: store_int_def nth_buf_write)

lemma nth_store_short:
  "pos + 2 \<le> length buf \<Longrightarrow> i < length buf \<Longrightarrow>
     store_short buf pos v ! i = (if pos \<le> i \<and> i < pos + 2 then [of_int v, of_int (v div 256)] ! (i - pos) else buf ! i)"
  by (simp add: store_short_def nth_buf_write)

lemma load_int_store_int:
  "pos + 4 \<le> length buf \<Longrightarrow> - (2 ^ 31) \<le> v \<Longrightarrow> v < 2 ^ 31 \<Longrightarrow> load_int (store_int buf pos v) pos = v"
  by (simp add: load_int_def nth_store_int bytes32le_def signed_of_int signed_take_bit_int_eq_self)

lemma load_int_store_other [simp]:
  "pos + 4 \<le> length buf \<Longrightarrow> i + 4 \<le> length buf \<Longrightarrow> i + 4 \<le> pos \<or> pos + 4 \<le> i \<Longrightarrow> load_int (store_int buf pos v) i = load_int buf i"
  "pos + 2 \<le> length buf \<Longrightarrow> i + 4 \<le> length buf \<Longrightarrow> i + 4 \<le> pos \<or> pos + 2 \<le> i \<Longrightarrow> load_int (store_short buf pos v) i = load_int buf i"
  by (auto simp: load_int_def nth_store_int nth_store_short)

lemma load_short_store_other [simp]:
  "pos + 4 \<le> length buf \<Longrightarrow> i + 2 \<le> length buf \<Longrightarrow> i + 2 \<le> pos \<or> pos + 4 \<le> i \<Longrightarrow> load_short (store_int buf pos v) i = load_short buf i"
  "pos + 2 \<le> length buf \<Longrightarrow> i + 2 \<le> length buf \<Longrightarrow> i + 2 \<le> pos \<or> pos + 2 \<le> i \<Longrightarrow> load_short (store_short buf pos v) i = load_short buf i"
  by (auto simp: load_short_def nth_store_int nth_store_short)

lemma load_short_24: "pos + 2 \<le> length buf \<Longrightarrow> load_short (store_short buf pos 24) pos = 24"
  by (simp add: load_short_def nth_store_short)

lemma nth_concat_equal:
  assumes "\<And>y. y \<in> set ys \<Longrightarrow> length (f y) = n" "i < length ys" "j < n"
  shows "concat (map f ys) ! (i * n + j) = f (ys ! i) ! j"
  using assms
proof (induction ys arbitrary: i)
  case (Cons y ys)
  then show ?case by (cases i) (auto simp: nth_append)
qed simp

lemma those_map_Some [simp]: "those (map (\<lambda>x. Some (f x)) xs) = Some (map f xs)"
  by (induction xs) auto

section \<open>The rows of a BMP file\<close>

definition bgr :: "RGB \<Rightarrow> u8 list" where "bgr color = [rgb_b color, rgb_g color, rgb_r color]"

definition bgr_row :: "RGB list \<Rightarrow> nat \<Rightarrow> nat \<Rightarrow> u8 list" where
  "bgr_row pixels w y = concat (map (\<lambda>x. bgr (pixels ! (y * w + x))) [0..<w])"

lemma length_bgrs [simp]: "length (concat (map (\<lambda>x. bgr (f x)) xs)) = 3 * length xs"
  by (induction xs) (auto simp: bgr_def)

lemma bmp_put_row_append:
  "bmp_put_row pixels w y (xs @ ys) row = Option.bind (bmp_put_row pixels w y xs row) (bmp_put_row pixels w y ys)"
proof (induction xs arbitrary: row)
  case (Cons x xs)
  then show ?case by (cases "bmp_put pixels w y x row") auto
qed simp

lemma bmp_put_next:
  assumes "3 * n + 3 \<le> length (xs @ row)" "length xs = 3 * n" "y * w + n < length pixels"
  shows "bmp_put pixels w y n (xs @ row) = Some (xs @ bgr (pixels ! (y * w + n)) @ drop 3 row)"
proof -
  obtain a b c rest where "row = a # b # c # rest"
    using assms(1,2) by (cases row; cases "tl row"; cases "tl (tl row)") auto
  then show ?thesis
    using assms by (simp add: bmp_put_def Let_def bgr_def list_update_append mult.commute [of n])
qed

lemma bmp_put_row_prefix:
  assumes "n \<le> w" "3 * w \<le> length row" "y * w + w \<le> length pixels"
  shows "bmp_put_row pixels w y [0..<n] row
    = Some (concat (map (\<lambda>x. bgr (pixels ! (y * w + x))) [0..<n]) @ drop (3 * n) row)"
  using assms(1)
proof (induction n)
  case (Suc n)
  let ?xs = "concat (map (\<lambda>x. bgr (pixels ! (y * w + x))) [0..<n])"
  have "bmp_put pixels w y n (?xs @ drop (3 * n) row)
      = Some (?xs @ bgr (pixels ! (y * w + n)) @ drop 3 (drop (3 * n) row))"
    using Suc.prems assms by (intro bmp_put_next) auto
  then show ?case
    using Suc by (simp add: bmp_put_row_append add.commute)
qed simp

lemma bmp_put_rows_eq:
  assumes "3 * w \<le> length row" "\<forall>y \<in> set ys. y * w + w \<le> length pixels"
  shows "bmp_put_rows pixels w ys row out
    = Some (out @ concat (map (\<lambda>y. bgr_row pixels w y @ drop (3 * w) row) ys))"
  using assms
proof (induction ys arbitrary: row out)
  case (Cons y ys)
  have "bmp_put_row pixels w y [0..<w] row = Some (bgr_row pixels w y @ drop (3 * w) row)"
    using Cons.prems by (simp add: bmp_put_row_prefix bgr_row_def)
  then show ?case using Cons by (simp add: bgr_row_def)
qed simp

lemma row_size_pos:
  assumes "0 < w"
  shows "bmp_row_size 24 (int w) = int (4 * ((24 * w + 31) div 32))" "3 * w \<le> 4 * ((24 * w + 31) div 32)"
proof -
  have "(24 * int w + 31) sdiv 32 = (24 * int w + 31) div 32"
    by (simp add: signed_divide_int_def sgn_if)
  then show "bmp_row_size 24 (int w) = int (4 * ((24 * w + 31) div 32))"
    by (simp add: bmp_row_size_def zdiv_int)
qed presburger

section \<open>Reading a BMP file back\<close>

lemma bmp_header_fields:
  assumes "- (2 ^ 31) \<le> w" "w < 2 ^ 31" "- (2 ^ 31) \<le> h" "h < 2 ^ 31"
  shows "length (bmp_header w h) = 54" "load_int (bmp_header w h) 18 = w" "load_int (bmp_header w h) 22 = h"
    "load_int (bmp_header w h) 10 = 54" "load_short (bmp_header w h) 28 = 24"
  using assms by (simp_all add: bmp_header_def Let_def load_int_store_int load_short_24)

definition bmp_image :: "RGB list \<Rightarrow> nat \<Rightarrow> nat \<Rightarrow> u8 list \<Rightarrow> u8 list" where
  "bmp_image pixels w h pad = concat (map (\<lambda>y. bgr_row pixels w y @ pad) (rev [0..<h]))"

lemma length_bmp_image: "length (bmp_image pixels w h pad) = h * (3 * w + length pad)"
  unfolding bmp_image_def by (induction h) (simp_all add: bgr_row_def)

lemma bmp_image_nth:
  assumes "y < h" "x < w" "k < 3"
  shows "bmp_image pixels w h pad ! ((h - 1 - y) * (3 * w + length pad) + (3 * x + k)) = bgr (pixels ! (y * w + x)) ! k"
proof -
  have row: "length (bgr_row pixels w z @ pad) = 3 * w + length pad" for z by (simp add: bgr_row_def)
  have "3 * x + k < 3 * w" using assms(2,3) by linarith
  then have "bmp_image pixels w h pad ! ((h - 1 - y) * (3 * w + length pad) + (3 * x + k)) = (bgr_row pixels w y @ pad) ! (3 * x + k)"
    unfolding bmp_image_def using assms(1) by (subst nth_concat_equal [OF row]) (simp_all add: rev_nth)
  also have "\<dots> = bgr_row pixels w y ! (x * 3 + k)"
    using \<open>3 * x + k < 3 * w\<close> by (simp add: nth_append bgr_row_def mult.commute)
  also have "\<dots> = bgr (pixels ! (y * w + x)) ! k"
    unfolding bgr_row_def using assms(2,3) by (subst nth_concat_equal) (auto simp: bgr_def)
  finally show ?thesis .
qed

lemma bmp_pixel_image:
  assumes "y < h" "x < w" and rs: "rs = 3 * w + length pad"
  shows "bmp_pixel (bmp_image pixels w h pad) 24 (int rs) (h - 1 - y) x = Some (pixels ! (y * w + x))"
proof -
  let ?i = "(h - 1 - y) * rs + 3 * x" and ?c = "pixels ! (y * w + x)"
  have off: "nat (int (h - 1 - y) * int rs + int x * (24 sdiv 8)) = ?i" "\<not> int (h - 1 - y) * int rs + int x * (24 sdiv 8) < 0"
  proof -
    have "int (h - 1 - y) * int rs + int x * (24 sdiv 8) = int ?i" by (simp add: signed_divide_int_def)
    then show "nat (int (h - 1 - y) * int rs + int x * (24 sdiv 8)) = ?i" "\<not> int (h - 1 - y) * int rs + int x * (24 sdiv 8) < 0"
      by (simp_all only: nat_int of_nat_less_0_iff not_False_eq_True)
  qed
  have "?i + 2 < Suc (h - 1 - y) * rs" using assms(2) rs by simp
  also have "\<dots> \<le> h * rs" using assms(1) by (intro mult_le_mono1) simp
  finally have len: "?i + 2 < length (bmp_image pixels w h pad)" by (simp add: length_bmp_image rs)
  have "bmp_image pixels w h pad ! (?i + k) = bgr ?c ! k" if "k < 3" for k
    using bmp_image_nth [OF assms(1,2) that, of pixels pad] rs by (simp add: add.assoc)
  from this [of 0] this [of 1] this [of 2]
  have "bmp_image pixels w h pad ! ?i = rgb_b ?c" "bmp_image pixels w h pad ! (?i + 1) = rgb_g ?c" "bmp_image pixels w h pad ! (?i + 2) = rgb_r ?c"
    by (simp_all add: bgr_def numeral_2_eq_2)
  then show ?thesis
    unfolding bmp_pixel_def Let_def off(1) using off(2) len by (simp add: mkRGB_def)
qed

lemma bmp_rows_read:
  assumes "length pixels = w * h" "rs = 3 * w + length pad"
  shows "those (concat (map (\<lambda>row. map (\<lambda>x. bmp_pixel (bmp_image pixels w h pad) 24 (int rs) (h - 1 - row) x) [0..<w]) [0..<h]))
    = Some pixels"
proof -
  have "concat (map (\<lambda>row. map (\<lambda>x. bmp_pixel (bmp_image pixels w h pad) 24 (int rs) (h - 1 - row) x) [0..<w]) [0..<h])
      = concat (map (\<lambda>y. map (\<lambda>x. Some (pixels ! (y * w + x))) [0..<w]) [0..<h])"
    by (intro arg_cong [where f = concat] map_cong refl) (rule bmp_pixel_image [OF _ _ assms(2)]; simp)
  then show ?thesis by (simp add: concat_rows [OF assms(1), of Some])
qed

lemma writeBMP_ok:
  assumes "fs_writable fs path" "0 < w" "length pixels = w * h" and rs: "rs = 4 * ((24 * w + 31) div 32)"
  shows "writeBMP fs path pixels (int w) (int h)
    = Some (Inr (fs\<lparr>fs_files := (fs_files fs)(path \<mapsto> bmp_header (int w) (int h) @ bmp_image pixels w h (replicate (rs - 3 * w) 0))\<rparr>))"
proof -
  have "y * w + w \<le> length pixels" if "y < h" for y
  proof -
    have "y * w + w = Suc y * w" by simp
    also have "\<dots> \<le> h * w" using that by (intro mult_le_mono1) simp
    finally show ?thesis using assms(3) by (simp add: mult.commute)
  qed
  then have "bmp_put_rows pixels w (rev [0..<h]) (replicate rs 0) [] = Some (bmp_image pixels w h (replicate (rs - 3 * w) 0))"
    using bmp_put_rows_eq [of w "replicate rs 0" "rev [0..<h]" pixels "[]"] row_size_pos(2) [OF assms(2)] rs
    by (simp add: bmp_image_def)
  moreover have "bmp_row_size 24 (int w) = int rs" using row_size_pos(1) [OF assms(2)] rs by simp
  ultimately show ?thesis using assms(1) by (simp add: writeBMP_def)
qed

lemma readBMP_ok:
  assumes content: "fs_files fs path = Some (bmp_header (int w) (int h) @ bmp_image pixels w h pad)"
    and size: "0 < w" "0 < h" "length pixels = w * h" "rs = 4 * ((24 * w + 31) div 32)" "rs = 3 * w + length pad"
    and range: "w < 2 ^ 31" "h < 2 ^ 31" "length stack = 54"
  shows "readBMP stack fs path = Some (Inr (pixels, int w, int h))"
proof -
  have "int w < 2 ^ 31" "int h < 2 ^ 31" using range by simp_all
  then have hdr: "length (bmp_header (int w) (int h)) = 54" "load_int (bmp_header (int w) (int h)) 18 = int w"
      "load_int (bmp_header (int w) (int h)) 22 = int h" "load_int (bmp_header (int w) (int h)) 10 = 54"
      "load_short (bmp_header (int w) (int h)) 28 = 24"
    using bmp_header_fields [of "int w" "int h"] by simp_all
  have buf: "buf_write 0 (take 54 (bmp_header (int w) (int h) @ bmp_image pixels w h pad)) stack = bmp_header (int w) (int h)"
    using range(3) hdr(1) by (simp add: buf_write_in)
  have n: "length (bmp_image pixels w h pad) = h * rs" using size(5) by (simp add: length_bmp_image)
  have nat: "nat (int h * int rs) = h * rs" "\<not> int h * int rs < 0" "\<not> int w * int h < 0" by (simp_all flip: of_nat_mult)
  have row: "bmp_row_size 24 (int w) = int rs" using row_size_pos(1) [OF size(1)] size(4) by simp
  have dat: "buf_write 0 (take (h * rs) (drop 54 (bmp_header (int w) (int h) @ bmp_image pixels w h pad))) (replicate (h * rs) 0)
      = bmp_image pixels w h pad"
    using n hdr(1) by (simp add: buf_write_in)
  show ?thesis
    unfolding readBMP_def content option.case Let_def buf hdr row
    using nat dat size(1,2) bmp_rows_read [OF size(3,5)] by simp
qed

section \<open>Memory streams and extensions\<close>

text \<open>The abstract stream: a sequence of bytes and a position in it, as mathematical numbers.\<close>

definition ms_abs :: "MemoryStream \<Rightarrow> u8 list \<times> nat" where
  "ms_abs ms = (ms_data ms, unat (ms_position ms))"

lemma u64_sum: "unat ((x :: u64) + y) = (if unat x + unat y < 2 ^ 64 then unat x + unat y else unat x + unat y - 2 ^ 64)"
proof -
  have "unat x < 2 ^ 64" "unat y < 2 ^ 64" using unsigned_less [of x] unsigned_less [of y] by simp_all
  then show ?thesis by (simp add: unat_word_ariths mod_if)
qed

lemma ms_read_cases:
  assumes "length (ms_data ms) < 2 ^ 64"
  shows "ms_read ms n =
    (let k = unat (ms_position ms) + unat n in
     if k \<le> length (ms_data ms)
     then Some (Inr (ms\<lparr>ms_position := ms_position ms + n\<rparr>, take (unat n) (drop (unat (ms_position ms)) (ms_data ms))))
     else if k < 2 ^ 64 \<or> length (ms_data ms) < k - 2 ^ 64 then Some (Inl StdOutOfRange) else None)"
proof -
  have "ms_position ms + n > of_nat (length (ms_data ms)) \<longleftrightarrow> unat (ms_position ms + n) > length (ms_data ms)"
    using assms by (simp add: word_less_nat_alt unsigned_of_nat take_bit_nat_eq_self)
  then show ?thesis using assms by (auto simp: ms_read_def Let_def u64_sum)
qed

lemma find_last_of_append:
  "c \<notin> set ys \<Longrightarrow> find_last_of c (xs @ c # ys) = Some (length xs)"
proof (induction xs)
  case Nil
  then have "find_last_of c ys = None" by (induction ys) auto
  then show ?case by simp
qed simp

lemma find_last_of_None: "find_last_of c xs = None \<longleftrightarrow> c \<notin> set xs"
  by (induction xs) (auto split: option.splits)

lemma file_extension:
  "CHR ''.'' \<notin> set ext \<Longrightarrow> getFileExtension (stem @ ''.'' @ ext) = map tolower ext"
  "CHR ''.'' \<notin> set path \<Longrightarrow> getFileExtension path = []"
  using find_last_of_append [of "CHR ''.''" ext stem] by (simp_all add: getFileExtension_def find_last_of_None [THEN iffD2])

section \<open>Properties\<close>

text \<open>C35. What \<open>writeBMP\<close> writes, \<open>readBMP\<close> reads back: the same width and height and, pixel by pixel, the same colours, although
  the rows are stored from the last to the first and padded to four bytes. No other file changes. The image is not
  empty, the vector of pixels has the size of the image, and the row and file sizes fit in an \<open>int\<close>; what the header
  buffer of \<open>readBMP\<close> held before plays no role.\<close>

theorem bmp_roundtrip:
  assumes "fs_writable fs path" "0 < w" "0 < h" "length pixels = w * h"
    and "24 * w + 31 < 2 ^ 31" "54 + 4 * ((24 * w + 31) div 32) * h < 2 ^ 31" "length stack = 54"
  shows "\<exists>fs'. writeBMP fs path pixels (int w) (int h) = Some (Inr fs')
    \<and> readBMP stack fs' path = Some (Inr (pixels, int w, int h))
    \<and> (\<forall>p. p \<noteq> path \<longrightarrow> fs_files fs' p = fs_files fs p)"
proof -
  define rs where "rs = 4 * ((24 * w + 31) div 32)"
  let ?pad = "replicate (rs - 3 * w) (0 :: u8)"
  let ?fs = "fs\<lparr>fs_files := (fs_files fs)(path \<mapsto> bmp_header (int w) (int h) @ bmp_image pixels w h ?pad)\<rparr>"
  have len: "rs = 3 * w + length ?pad" "0 < rs" using row_size_pos(2) [OF assms(2)] assms(2) by (simp_all add: rs_def)
  have "h \<le> rs * h" using len(2) by simp
  then have "h < 2 ^ 31" "w < 2 ^ 31" using assms(5,6) unfolding rs_def [symmetric] by linarith+
  from readBMP_ok [OF _ assms(2-4) rs_def len(1) this(2,1) assms(7), of ?fs path]
  have "readBMP stack ?fs path = Some (Inr (pixels, int w, int h))" by simp
  with writeBMP_ok [OF assms(1,2,4) rs_def] show ?thesis by auto
qed

definition sample_fs :: file_system where
  "sample_fs = \<lparr>fs_files = Map.empty, fs_writable = (\<lambda>_. True)\<rparr>"

theorem bmp_roundtrip_witness:
  "\<exists>fs'. writeBMP sample_fs ''a.bmp'' [mkRGB 1 2 3, mkRGB 4 5 6, mkRGB 7 8 9, mkRGB 10 11 12, mkRGB 13 14 15, mkRGB 16 17 18] 3 2 = Some (Inr fs')
    \<and> readBMP (replicate 54 7) fs' ''a.bmp''
      = Some (Inr ([mkRGB 1 2 3, mkRGB 4 5 6, mkRGB 7 8 9, mkRGB 10 11 12, mkRGB 13 14 15, mkRGB 16 17 18], 3, 2))
    \<and> (\<forall>p. p \<noteq> ''a.bmp'' \<longrightarrow> fs_files fs' p = None)"
  using bmp_roundtrip [of sample_fs "''a.bmp''" 3 2
      "[mkRGB 1 2 3, mkRGB 4 5 6, mkRGB 7 8 9, mkRGB 10 11 12, mkRGB 13 14 15, mkRGB 16 17 18]" "replicate 54 7"]
  by (simp add: sample_fs_def)

text \<open>The specification of \<open>MemoryStream::read\<close>, over mathematical positions.\<close>

definition stream_read :: "u8 list \<times> nat \<Rightarrow> nat \<Rightarrow> ((u8 list \<times> nat) \<times> u8 list) res" where
  "stream_read st n =
     (case st of (bytes, pos) \<Rightarrow>
        if pos + n \<le> length bytes then Inr ((bytes, pos + n), take n (drop pos bytes)) else Inl StdOutOfRange)"

text \<open>C37. \<open>MemoryStream\<close> implements a sequence of bytes with a position, except where its range check wraps. Every call of
  \<open>read\<close> that the check handles returns the bytes at the position and moves it, or throws \<open>std::out_of_range\<close>; but
  when position plus size reach \<open>2 ^ 64\<close> and the wrapped sum does not exceed the size of the data, the check passes
  and \<open>memcpy\<close> reads outside of the vector.\<close>

theorem memory_stream_refines:
  assumes "length (ms_data ms) < 2 ^ 64"
  shows "ms_abs (ms_new bytes) = (bytes, 0) \<and> ms_abs (ms_write ms bytes) = (fst (ms_abs ms) @ bytes, snd (ms_abs ms))
    \<and> ms_abs (ms_seek ms pos) = (fst (ms_abs ms), unat pos)
    \<and> (\<forall>r. ms_read ms n = Some r \<longrightarrow> map_sum id (apfst ms_abs) r = stream_read (ms_abs ms) (unat n))
    \<and> (ms_read ms n = None \<longleftrightarrow>
         2 ^ 64 \<le> snd (ms_abs ms) + unat n \<and> snd (ms_abs ms) + unat n - 2 ^ 64 \<le> length (fst (ms_abs ms)))"
proof -
  have "ms_abs (ms\<lparr>ms_position := ms_position ms + n\<rparr>) = (ms_data ms, unat (ms_position ms) + unat n)"
    if "unat (ms_position ms) + unat n \<le> length (ms_data ms)"
    using that assms by (simp add: ms_abs_def u64_sum)
  then have "\<forall>r. ms_read ms n = Some r \<longrightarrow> map_sum id (apfst ms_abs) r = stream_read (ms_abs ms) (unat n)"
    unfolding ms_read_cases [OF assms] Let_def by (auto simp: stream_read_def ms_abs_def split: if_splits)
  moreover have "ms_read ms n = None \<longleftrightarrow>
      2 ^ 64 \<le> unat (ms_position ms) + unat n \<and> unat (ms_position ms) + unat n - 2 ^ 64 \<le> length (ms_data ms)"
    using assms unfolding ms_read_cases [OF assms] Let_def by auto
  ultimately show ?thesis by (simp add: ms_abs_def ms_new_def ms_write_def ms_seek_def)
qed

theorem memory_stream_refines_witness:
  "ms_read (ms_new [1, 2, 3]) 2 = Some (Inr (\<lparr>ms_data = [1, 2, 3], ms_position = 2\<rparr>, [1, 2]))
    \<and> ms_read (ms_new [1, 2, 3]) 4 = Some (Inl StdOutOfRange)
    \<and> ms_read (ms_seek (ms_new [1, 2, 3]) 0xFFFFFFFFFFFFFFFF) 2 = None"
proof -
  have "ms_read (ms_seek (ms_new [1, 2, 3]) 0xFFFFFFFFFFFFFFFF) 2 = None"
    using memory_stream_refines [of "ms_seek (ms_new [1, 2, 3]) 0xFFFFFFFFFFFFFFFF" "[]" 0 2]
    by (simp add: ms_abs_def ms_seek_def ms_new_def)
  then show ?thesis by (simp add: ms_read_def ms_new_def)
qed

end
