(* ===== verification/Dht_Png.thy ===== *)
theory Dht_Png
  imports Dht_Io
begin

text \<open>
  \<open>encoder/png_reader.cpp\<close> and \<open>decoder/png_writer.cpp\<close> over libpng, which is not part of the repository: its functions are
  the fields of the record \<open>png_lib\<close>. A field of an option type is \<open>None\<close> where libpng would jump to the \<open>setjmp\<close> of its
  caller. \<open>png_read_image\<close> gives the bytes libpng stores through each of the row pointers.

  As in \<open>Dht_Io\<close> a result \<open>None\<close> is an access outside of a vector, and products of dimensions are mathematical integers.
\<close>

section \<open>The code\<close>

record png_info =
  png_width :: u32
  png_height :: u32
  png_color_type :: u8
  png_bit_depth :: u8
  png_tRNS :: bool

record png_transforms =
  png_strip_16 :: bool
  png_palette_to_rgb :: bool
  png_expand_gray :: bool
  png_tRNS_to_alpha :: bool
  png_strip_alpha :: bool

record png_lib =
  png_create_read_struct :: bool
  png_create_write_struct :: bool
  png_create_info_struct :: bool
  png_read_info :: "u8 list \<Rightarrow> png_info option"
  png_read_image :: "u8 list \<Rightarrow> png_transforms \<Rightarrow> u8 list list option"
  png_write_image :: "int \<Rightarrow> int \<Rightarrow> u8 list list \<Rightarrow> u8 list option"

text \<open>The calls of \<open>readPNG\<close> that set up transformations.\<close>

definition png_setup :: "png_info \<Rightarrow> png_transforms" where
  "png_setup info =
     \<lparr>png_strip_16 = (png_bit_depth info = 16),
       png_palette_to_rgb = (png_color_type info = 3),
       png_expand_gray = (png_color_type info = 0 \<and> png_bit_depth info < 8),
       png_tRNS_to_alpha = png_tRNS info,
       png_strip_alpha = (png_color_type info = 6)\<rparr>"

text \<open>The row pointers are \<open>3 * width\<close> bytes apart.\<close>

fun png_store_rows :: "nat \<Rightarrow> nat \<Rightarrow> u8 list list \<Rightarrow> u8 list \<Rightarrow> u8 list option" where
  "png_store_rows width y [] image_data = Some image_data"
| "png_store_rows width y (row # rows) image_data =
     (if y * width * 3 + length row \<le> length image_data
      then png_store_rows width (y + 1) rows (buf_write (y * width * 3) row image_data)
      else None)"

definition png_pixels :: "nat \<Rightarrow> nat \<Rightarrow> u8 list \<Rightarrow> RGB list" where
  "png_pixels width height image_data =
     concat (map (\<lambda>y. map (\<lambda>x. let idx = (y * width + x) * 3
                               in mkRGB (image_data ! idx) (image_data ! (idx + 1)) (image_data ! (idx + 2))) [0..<width]) [0..<height])"

definition readPNG :: "png_lib \<Rightarrow> file_system \<Rightarrow> string \<Rightarrow> (RGB list \<times> int \<times> int) res option" where
  "readPNG png fs path =
     (case fs_files fs path of
        None \<Rightarrow> Some (Inl (FileNotFoundError path))
      | Some content \<Rightarrow>
          if \<not> png_create_read_struct png then Some (Inl (DhtError ''Failed to create PNG read struct''))
          else if \<not> png_create_info_struct png then Some (Inl (DhtError ''Failed to create PNG info struct''))
          else
            (case png_read_info png content of
               None \<Rightarrow> Some (Inl (DhtError ''PNG read error''))
             | Some info \<Rightarrow>
                 (let width = sint (png_width info);
                      height = sint (png_height info)
                  in if width * height < 0 \<or> height < 0 then Some (Inl StdLengthError)
                     else
                       (case png_read_image png content (png_setup info) of
                          None \<Rightarrow> Some (Inl (DhtError ''PNG read error''))
                        | Some rows \<Rightarrow>
                            map_option (\<lambda>image_data. Inr (png_pixels (nat width) (nat height) image_data, width, height))
                              (png_store_rows (nat width) 0 rows (replicate (nat height * nat width * 3) 0))))))"

definition png_rows :: "RGB list \<Rightarrow> nat \<Rightarrow> nat \<Rightarrow> u8 list list option" where
  "png_rows pixels width height =
     (if height * width \<le> length pixels
      then Some (map (\<lambda>y. concat (map (\<lambda>x. let color = pixels ! (y * width + x) in [rgb_r color, rgb_g color, rgb_b color])
             [0..<width])) [0..<height])
      else None)"

definition writePNG :: "png_lib \<Rightarrow> file_system \<Rightarrow> string \<Rightarrow> RGB list \<Rightarrow> int \<Rightarrow> int \<Rightarrow> file_system res option" where
  "writePNG png fs path pixels width height =
     (if \<not> fs_writable fs path then Some (Inl (DhtError (''Cannot create PNG file: '' @ path)))
      else if \<not> png_create_write_struct png then Some (Inl (DhtError ''Failed to create PNG write struct''))
      else if \<not> png_create_info_struct png then Some (Inl (DhtError ''Failed to create PNG info struct''))
      else if height < 0 \<or> height * width < 0 then Some (Inl StdLengthError)
      else
        map_option (\<lambda>rows.
            case png_write_image png width height rows of
              None \<Rightarrow> Inl (DhtError ''PNG write error'')
            | Some content \<Rightarrow> Inr (fs\<lparr>fs_files := (fs_files fs)(path \<mapsto> content)\<rparr>))
          (png_rows pixels (nat width) (nat height)))"

section \<open>What is documented of libpng\<close>


text \<open>The format of the rows after \<open>png_read_update_info\<close>, for the transformations asked for. \<open>png_set_palette_to_rgb\<close> and
  \<open>png_set_tRNS_to_alpha\<close> are names of the same expansion (palette to RGB, small depths to eight bits, \<open>tRNS\<close> to alpha);
  \<open>png_set_expand_gray_1_2_4_to_8\<close> leaves the \<open>tRNS\<close> of types other than palette alone; \<open>png_set_strip_16\<close> and
  \<open>png_set_strip_alpha\<close> reduce the depth and drop the alpha sample. \<open>png_rowbytes\<close> is \<open>png_get_rowbytes\<close>.\<close>

definition png_expands :: "png_transforms \<Rightarrow> bool" where
  "png_expands t \<longleftrightarrow> png_palette_to_rgb t \<or> png_expand_gray t \<or> png_tRNS_to_alpha t"

definition png_channels :: "png_transforms \<Rightarrow> png_info \<Rightarrow> nat" where
  "png_channels t info =
     (let ct = png_color_type info;
          colour = ct \<in> {2, 6} \<or> ct = 3 \<and> png_expands t;
          alpha = ct \<in> {4, 6} \<or> png_tRNS info \<and> (if ct = 3 then png_expands t else png_palette_to_rgb t \<or> png_tRNS_to_alpha t)
      in (if colour then 3 else 1) + (if alpha \<and> \<not> png_strip_alpha t then 1 else 0))"

definition png_depth :: "png_transforms \<Rightarrow> png_info \<Rightarrow> nat" where
  "png_depth t info =
     (let depth = unat (png_bit_depth info);
          depth = (if png_expands t then max 8 depth else depth)
      in if png_strip_16 t \<and> depth = 16 then 8 else depth)"

definition png_rowbytes :: "png_transforms \<Rightarrow> png_info \<Rightarrow> nat" where
  "png_rowbytes t info = (unat (png_width info) * png_channels t info * png_depth t info + 7) div 8"


definition png_lossless :: "png_lib \<Rightarrow> bool" where
  "png_lossless png \<longleftrightarrow>
     png_create_read_struct png \<and> png_create_write_struct png \<and> png_create_info_struct png
     \<and> (\<forall>w h rows. 0 < w \<and> w < 2 ^ 31 \<and> 0 < h \<and> h < 2 ^ 31 \<and> length rows = h \<and> (\<forall>row \<in> set rows. length row = 3 * w) \<longrightarrow>
          (\<exists>content. png_write_image png (int w) (int h) rows = Some content
             \<and> png_read_info png content
               = Some \<lparr>png_width = of_nat w, png_height = of_nat h, png_color_type = 2, png_bit_depth = 8, png_tRNS = False\<rparr>
             \<and> (\<forall>t. png_read_image png content t = Some rows)))"

section \<open>Lemmas\<close>

text \<open>The samples of a pixel in the rows that \<open>readPNG\<close> gets: the transformations it asks for end at eight bits a sample, but
  make no RGB of gray and add an alpha sample for \<open>tRNS\<close>.\<close>

definition png_samples :: "png_info \<Rightarrow> nat" where
  "png_samples info =
     (let t = png_color_type info in
      (if t = 0 then 1 else if t = 4 then 2 else 3) + (if png_tRNS info then 1 else 0))"


definition png_delivers :: "png_lib \<Rightarrow> u8 list \<Rightarrow> png_info \<Rightarrow> u8 list list \<Rightarrow> bool" where
  "png_delivers png content info rows \<longleftrightarrow>
     png_create_read_struct png \<and> png_create_info_struct png
     \<and> png_read_info png content = Some info \<and> png_read_image png content (png_setup info) = Some rows
     \<and> 0 < unat (png_width info) \<and> 0 < unat (png_height info)
     \<and> unat (png_width info) < 2 ^ 31 \<and> unat (png_height info) < 2 ^ 31
     \<and> length rows = unat (png_height info)
     \<and> (\<forall>row \<in> set rows. length row = png_samples info * unat (png_width info))"


lemma png_store_rows_small:
  assumes "\<forall>row \<in> set rows. length row = n" "n \<le> S" "length img = (y + length rows) * S" and S: "S = w * 3"
  shows "\<exists>img'. png_store_rows w y rows img = Some img' \<and> length img' = length img \<and> take (y * S) img' = take (y * S) img
    \<and> (\<forall>j < length rows. \<forall>k < S. img' ! ((y + j) * S + k) = (if k < n then rows ! j ! k else img ! ((y + j) * S + k)))"
  using assms(1,3)
proof (induction rows arbitrary: y img)
  case (Cons row rows)
  let ?img = "buf_write (y * S) row img"
  have fits: "y * S + length row \<le> length img" using Cons.prems assms(2) by (simp add: algebra_simps)
  obtain img' where img': "png_store_rows w (y + 1) rows ?img = Some img'" "length img' = length img"
    "take ((y + 1) * S) img' = take ((y + 1) * S) ?img"
    "\<forall>j < length rows. \<forall>k < S. img' ! ((y + 1 + j) * S + k) = (if k < n then rows ! j ! k else ?img ! ((y + 1 + j) * S + k))"
    using Cons.IH [of ?img "y + 1"] Cons.prems by auto
  have run: "png_store_rows w y (row # rows) img = Some img'" using img'(1) fits S by (simp add: mult.assoc)
  have new: "?img ! i = (if y * S \<le> i \<and> i < y * S + n then row ! (i - y * S) else img ! i)" if "i < length img" for i
    using that fits Cons.prems(1) by (simp add: nth_buf_write)
  have "take (y * S) img' = take (y * S) ?img" using arg_cong [OF img'(3), of "take (y * S)"] by (simp add: min_def)
  also have "\<dots> = take (y * S) img" using fits by (simp add: take_buf_write)
  finally have keep: "take (y * S) img' = take (y * S) img" .
  have "img' ! ((y + j) * S + k) = (if k < n then (row # rows) ! j ! k else img ! ((y + j) * S + k))"
    if j: "j < Suc (length rows)" "k < S" for j k
  proof -
    have "(y + j) * S + k < Suc (y + j) * S" using j(2) by simp
    also have "\<dots> \<le> (y + Suc (length rows)) * S" using j(1) by (intro mult_le_mono1) simp
    finally have len: "(y + j) * S + k < length img" using Cons.prems(2) by simp
    show ?thesis
    proof (cases j)
      case 0
      have "y * S + k < (y + 1) * S" using j(2) by simp
      then have "img' ! (y * S + k) = ?img ! (y * S + k)" using img'(3) by (metis nth_take)
      then show ?thesis using new [of "y * S + k"] len 0 by simp
    next
      case (Suc i)
      have ge: "y * S + n \<le> (y + j) * S + k" using Suc assms(2) by (simp add: algebra_simps)
      have "(y + 1 + i) * S + k = (y + j) * S + k" using Suc by simp
      with img'(4) j Suc have "img' ! ((y + j) * S + k) = (if k < n then rows ! i ! k else ?img ! ((y + j) * S + k))"
        by (metis Suc_less_eq)
      then show ?thesis using new [OF len] ge Suc by simp
    qed
  qed
  then show ?case using run img'(2) keep by auto
qed simp


lemma nth_png_pixels:
  assumes "y < h" "x < w"
  shows "png_pixels w h img ! (y * w + x) = mkRGB (img ! (y * (w * 3) + 3 * x)) (img ! (y * (w * 3) + (3 * x + 1))) (img ! (y * (w * 3) + (3 * x + 2)))"
proof -
  show ?thesis
    unfolding png_pixels_def using assms
    by (subst nth_concat_equal) (simp_all add: Let_def mult.assoc distrib_right mult.commute [of x 3])
qed

lemma length_png_pixels: "length (png_pixels w h img) = h * w"
  unfolding png_pixels_def by (induction h) simp_all

text \<open>What \<open>readPNG\<close> does with rows that libpng provides as documented.\<close>

lemma sint_small: "unat (n :: u32) < 2 ^ 31 \<Longrightarrow> sint n = int (unat n)"
proof -
  assume "unat n < 2 ^ 31"
  moreover have "uint n = int (unat n)" by simp
  ultimately have "uint n < 2 ^ 31" by (simp only: of_nat_less_numeral_power_cancel_iff)
  moreover have "- (2 ^ 31) \<le> uint n" by (rule order_trans [of _ 0]) simp_all
  ultimately have "signed_take_bit 31 (uint n) = uint n" by (intro signed_take_bit_int_eq_self)
  then show ?thesis by (simp add: sint_uint)
qed

lemma png_deliversD:
  assumes "png_delivers png content info rows" "fs_files fs path = Some content"
    and w: "w = unat (png_width info)" and h: "h = unat (png_height info)"
  shows "readPNG png fs path = map_option (\<lambda>img. Inr (png_pixels w h img, int w, int h)) (png_store_rows w 0 rows (replicate (h * w * 3) 0))"
proof -
  have "sint (png_width info) = int w" "sint (png_height info) = int h"
    using assms(1) by (simp_all add: png_delivers_def w h sint_small)
  then show ?thesis using assms(1,2) by (simp add: readPNG_def png_delivers_def flip: of_nat_mult)
qed

definition row_pixel :: "u8 list \<Rightarrow> nat \<Rightarrow> RGB" where
  "row_pixel row x =
     (let byte = (\<lambda>k. if k < length row then row ! k else 0) in mkRGB (byte (3 * x)) (byte (3 * x + 1)) (byte (3 * x + 2)))"

lemma row_pixel_rgb:
  assumes "x < w"
  shows "row_pixel (concat (map (\<lambda>x. let color = f x in [rgb_r color, rgb_g color, rgb_b color]) [0..<w])) x = f x"
proof -
  let ?row = "concat (map (\<lambda>x. let color = f x in [rgb_r color, rgb_g color, rgb_b color]) [0..<w])"
  have "?row ! (x * 3 + k) = [rgb_r (f x), rgb_g (f x), rgb_b (f x)] ! k" if "k < 3" for k
    using assms that by (subst nth_concat_equal) (simp_all add: Let_def)
  from this [of 0] this [of 1] this [of 2]
  have "?row ! (3 * x) = rgb_r (f x)" "?row ! (3 * x + 1) = rgb_g (f x)" "?row ! (3 * x + 2) = rgb_b (f x)"
    by (simp_all add: mult.commute numeral_2_eq_2)
  moreover have "length ?row = 3 * w" by (simp add: length_concat o_def Let_def sum_list_triv)
  ultimately show ?thesis using assms by (simp add: row_pixel_def mkRGB_def)
qed

lemma pixels_eqI:
  assumes "length ps = h * w" "length qs = h * w" "\<And>y x. y < h \<Longrightarrow> x < w \<Longrightarrow> ps ! (y * w + x) = qs ! (y * w + x)"
  shows "ps = qs"
proof (rule nth_equalityI)
  fix i
  assume "i < length ps"
  then have "i div w < h" "i mod w < w" using assms(1) by (auto simp: less_mult_imp_div_less intro!: mod_less_divisor gr0I)
  from assms(3) [OF this] show "ps ! i = qs ! i" by simp
qed (use assms in simp)

lemma readPNG_rows:
  assumes "png_delivers png content info rows" "fs_files fs path = Some content" "png_samples info \<le> 3"
    and w: "w = unat (png_width info)" and h: "h = unat (png_height info)"
  shows "\<exists>pixels. readPNG png fs path = Some (Inr (pixels, int w, int h)) \<and> length pixels = h * w
    \<and> (\<forall>y < h. \<forall>x < w. pixels ! (y * w + x) = row_pixel (rows ! y) x)"
proof -
  have rows: "\<forall>row \<in> set rows. length row = png_samples info * w" "length rows = h"
    using assms(1) by (simp_all add: png_delivers_def w h)
  have "png_samples info * w \<le> w * 3" using assms(3) by (simp add: mult.commute)
  from png_store_rows_small [OF rows(1) this _ refl, of "replicate (h * w * 3) 0" 0] rows(2)
  obtain img where img: "png_store_rows w 0 rows (replicate (h * w * 3) 0) = Some img"
    "\<forall>j < h. \<forall>k < w * 3. img ! (j * (w * 3) + k) = (if k < png_samples info * w then rows ! j ! k else replicate (h * w * 3) 0 ! (j * (w * 3) + k))"
    by (auto simp: mult.assoc)
  have byte: "img ! (y * (w * 3) + k) = (if k < length (rows ! y) then rows ! y ! k else 0)" if "y < h" "k < w * 3" for y k
  proof -
    have "y * (w * 3) + k < Suc y * (w * 3)" using that(2) by simp
    also have "\<dots> \<le> h * (w * 3)" using that(1) by (intro mult_le_mono1) simp
    finally have "y * (w * 3) + k < h * w * 3" by (simp add: mult.assoc)
    moreover have "length (rows ! y) = png_samples info * w" using rows that(1) by simp
    ultimately show ?thesis using img(2) that by simp
  qed
  have "png_pixels w h img ! (y * w + x) = row_pixel (rows ! y) x" if "y < h" "x < w" for y x
    using that byte [of y "3 * x"] byte [of y "3 * x + 1"] byte [of y "3 * x + 2"]
    by (simp add: nth_png_pixels row_pixel_def)
  then show ?thesis using png_deliversD [OF assms(1,2) w h] img(1) by (simp add: length_png_pixels)
qed


section \<open>Properties\<close>


text \<open>An instance of libpng that stores dimensions, type, \<open>tRNS\<close> flag and the bytes of the rows as they are.\<close>

definition toy_png_info :: "u8 list \<Rightarrow> png_info" where
  "toy_png_info content =
     \<lparr>png_width = unaligned_read32le content 0, png_height = unaligned_read32le content 4,
       png_color_type = content ! 8, png_bit_depth = 8, png_tRNS = (content ! 9 = 1)\<rparr>"

definition toy_png_rows :: "u8 list \<Rightarrow> png_transforms \<Rightarrow> u8 list list" where
  "toy_png_rows content t =
     (let n = png_rowbytes t (toy_png_info content)
      in map (\<lambda>y. map (\<lambda>k. if 10 + y * n + k < length content then content ! (10 + y * n + k) else 0) [0..<n])
           [0..<unat (png_height (toy_png_info content))])"

definition toy_png :: png_lib where
  "toy_png = \<lparr>png_create_read_struct = True, png_create_write_struct = True, png_create_info_struct = True,
     png_read_info = (\<lambda>content. Some (toy_png_info content)),
     png_read_image = (\<lambda>content t. Some (toy_png_rows content t)),
     png_write_image = (\<lambda>w h rows. Some (bytes32le (of_int w) @ bytes32le (of_int h) @ [2, 0] @ concat rows))\<rparr>"






text \<open>Over a lossless libpng \<open>readPNG\<close> reads back what \<open>writePNG\<close> wrote, pixel by pixel, and no other file changes.\<close>

theorem png_roundtrip:
  assumes "png_lossless png" "fs_writable fs path" "0 < w" "w < 2 ^ 31" "0 < h" "h < 2 ^ 31" "length pixels = w * h"
  shows "\<exists>fs'. writePNG png fs path pixels (int w) (int h) = Some (Inr fs')
    \<and> readPNG png fs' path = Some (Inr (pixels, int w, int h)) \<and> (\<forall>p. p \<noteq> path \<longrightarrow> fs_files fs' p = fs_files fs p)"
proof -
  define rows where "rows = map (\<lambda>y. concat (map (\<lambda>x. let color = pixels ! (y * w + x) in [rgb_r color, rgb_g color, rgb_b color]) [0..<w])) [0..<h]"
  let ?info = "\<lparr>png_width = of_nat w, png_height = of_nat h, png_color_type = 2, png_bit_depth = 8, png_tRNS = False\<rparr>"
  have rows: "png_rows pixels w h = Some rows" "length rows = h" "\<forall>row \<in> set rows. length row = 3 * w"
    using assms(7) by (auto simp: png_rows_def rows_def mult.commute length_concat o_def Let_def sum_list_triv)
  obtain content where c: "png_write_image png (int w) (int h) rows = Some content" "png_read_info png content = Some ?info"
    "\<And>t. png_read_image png content t = Some rows" and lib: "png_create_read_struct png" "png_create_write_struct png" "png_create_info_struct png"
    using assms(1,3-6) rows(2,3) unfolding png_lossless_def by blast
  let ?fs = "fs\<lparr>fs_files := (fs_files fs)(path \<mapsto> content)\<rparr>"
  have doc: "png_delivers png content ?info rows"
    using c lib rows assms(3-6) by (simp add: png_delivers_def png_samples_def unat_of_nat take_bit_nat_eq_self)
  have dims: "w = unat (png_width ?info)" "h = unat (png_height ?info)" using assms(4,6) by (simp_all add: unat_of_nat take_bit_nat_eq_self)
  obtain ps where ps: "readPNG png ?fs path = Some (Inr (ps, int w, int h))" "length ps = h * w"
    "\<forall>y < h. \<forall>x < w. ps ! (y * w + x) = row_pixel (rows ! y) x"
    using readPNG_rows [OF doc _ _ dims, of ?fs path] by (auto simp: png_samples_def)
  have "row_pixel (rows ! y) x = pixels ! (y * w + x)" if "y < h" "x < w" for y x
    using that by (simp add: rows_def row_pixel_rgb)
  then have "ps = pixels" using pixels_eqI [OF ps(2), of pixels] ps(3) assms(7) by (simp add: mult.commute)
  moreover have "writePNG png fs path pixels (int w) (int h) = Some (Inr ?fs)"
    using assms(2) lib rows(1) c(1) by (simp add: writePNG_def flip: of_nat_mult)
  ultimately show ?thesis using ps(1) by auto
qed

lemma take_drop_concat:
  "\<forall>row \<in> set rows. length row = n \<Longrightarrow> y < length rows \<Longrightarrow> take n (drop (y * n) (concat rows)) = rows ! y"
proof (induction rows arbitrary: y)
  case (Cons row rows)
  then show ?case by (cases y) simp_all
qed simp

lemma png_rowbytes_rgb8:
  "png_color_type info = 2 \<Longrightarrow> png_bit_depth info = 8 \<Longrightarrow> \<not> png_tRNS info \<Longrightarrow> png_rowbytes t info = 3 * unat (png_width info)"
  by (simp add: png_rowbytes_def png_channels_def png_depth_def)

lemma toy_png_lossless: "png_lossless toy_png"
proof -
  have "\<exists>content. png_write_image toy_png (int w) (int h) rows = Some content
      \<and> png_read_info toy_png content
        = Some \<lparr>png_width = of_nat w, png_height = of_nat h, png_color_type = 2, png_bit_depth = 8, png_tRNS = False\<rparr>
      \<and> (\<forall>t. png_read_image toy_png content t = Some rows)"
    if a: "w < 2 ^ 31" "h < 2 ^ 31" "length rows = h" "\<forall>row \<in> set rows. length row = 3 * w" for w h rows
  proof -
    let ?c = "bytes32le (of_nat w) @ bytes32le (of_nat h) @ [2, 0] @ concat rows"
    have info: "toy_png_info ?c = \<lparr>png_width = of_nat w, png_height = of_nat h, png_color_type = 2, png_bit_depth = 8, png_tRNS = False\<rparr>"
      by (simp add: toy_png_info_def unaligned_read32le_eq_iff nth_append)
    have u: "unat (of_nat w :: u32) = w" "unat (of_nat h :: u32) = h" using a(1,2) by (simp_all add: unat_of_nat take_bit_nat_eq_self)
    have "map length rows = replicate h (3 * w)" using a(3,4) by (simp add: list_eq_iff_nth_eq)
    then have len: "length (concat rows) = h * (3 * w)" by (simp add: length_concat sum_list_replicate)
    have "map (\<lambda>k. if 10 + y * (3 * w) + k < length ?c then ?c ! (10 + y * (3 * w) + k) else 0) [0..<3 * w] = rows ! y" if y: "y < h" for y
    proof (rule nth_equalityI)
      fix k
      assume "k < length (map (\<lambda>k. if 10 + y * (3 * w) + k < length ?c then ?c ! (10 + y * (3 * w) + k) else 0) [0..<3 * w])"
      then have k: "k < 3 * w" by simp
      have "y * (3 * w) + k < Suc y * (3 * w)" using k by simp
      also have "\<dots> \<le> h * (3 * w)" using y by (intro mult_le_mono1) simp
      finally have lt: "y * (3 * w) + k < length (concat rows)" by (simp only: len)
      have "rows ! y ! k = take (3 * w) (drop (y * (3 * w)) (concat rows)) ! k" using take_drop_concat [OF a(4)] y a(3) by simp
      also have "\<dots> = concat rows ! (y * (3 * w) + k)" using k lt by simp
      finally show "map (\<lambda>k. if 10 + y * (3 * w) + k < length ?c then ?c ! (10 + y * (3 * w) + k) else 0) [0..<3 * w] ! k = rows ! y ! k"
        using k lt by (simp add: nth_append del: concat_append)
    qed (use a(3,4) y in simp)
    note row = this
    have n: "png_rowbytes t (toy_png_info ?c) = 3 * w" and hh: "unat (png_height (toy_png_info ?c)) = h" for t
      unfolding info by (simp_all add: png_rowbytes_rgb8 u)
    have "toy_png_rows ?c t = rows" for t
      unfolding toy_png_rows_def Let_def n hh
    proof (rule nth_equalityI)
      show "length (map (\<lambda>y. map (\<lambda>k. if 10 + y * (3 * w) + k < length ?c then ?c ! (10 + y * (3 * w) + k) else 0) [0..<3 * w]) [0..<h]) = length rows"
        using a(3) by simp
    qed (simp only: length_map length_upt diff_zero nth_map nth_upt add_0 row)
    then show ?thesis using info by (simp add: toy_png_def)
  qed
  then show ?thesis unfolding png_lossless_def by (auto simp: toy_png_def)
qed

theorem png_roundtrip_witness:
  "\<exists>fs'. writePNG toy_png sample_fs ''a.png'' [mkRGB 1 2 3, mkRGB 4 5 6] 1 2 = Some (Inr fs')
    \<and> readPNG toy_png fs' ''a.png'' = Some (Inr ([mkRGB 1 2 3, mkRGB 4 5 6], 1, 2))"
  using png_roundtrip [OF toy_png_lossless, of sample_fs "''a.png''" 1 2 "[mkRGB 1 2 3, mkRGB 4 5 6]"]
  by (auto simp: sample_fs_def)

end
