(* ===== verification/Dht_Audio.thy ===== *)
theory Dht_Audio
  imports Dht_Base "HOL-Library.Log_Nat"
begin

text \<open>
  \<open>core/audio\<close>: samples as text (\<open>sample_to_text.cpp\<close>, \<open>video/audio_to_text.cpp\<close>) and back (\<open>text_to_audio.cpp\<close>).

  A \<open>double\<close> is a NaN, an infinity, or a number \<open>m * 2 ^ e\<close>; products and quotients are rounded to 53 bits, to the
  nearest and to even in a tie. The range of exponents is not limited: a product too large for a \<open>double\<close> is above 100
  like the infinity it would become, and multiples of the smallest subnormal are exact. A result \<open>None\<close> is undefined
  behaviour: an integer division by zero, or the conversion of a NaN to \<open>int\<close>.
\<close>

section \<open>Doubles\<close>

datatype double = NaN | Infinity bool | Finite int int

definition round53 :: "int \<Rightarrow> int \<Rightarrow> double" where
  "round53 m e =
     (let k = nat (bitlen m) - 53;
          q = m div 2 ^ k;
          r = m mod 2 ^ k
      in if k = 0 then Finite m e
         else Finite (if 2 * r > 2 ^ k \<or> 2 * r = 2 ^ k \<and> odd q then q + 1 else q) (e + int k))"

fun fabs :: "double \<Rightarrow> double" where
  "fabs NaN = NaN"
| "fabs (Infinity neg) = Infinity False"
| "fabs (Finite m e) = Finite \<bar>m\<bar> e"

text \<open>\<open>x * 100.0\<close>, \<open>x > 100.0\<close> and \<open>(int)x\<close> for \<open>x\<close> not negative, and \<open>n / 100.0\<close> for an \<open>int\<close> \<open>n\<close>: the quotient
  is computed to 60 binary places and a sticky bit.\<close>

fun times_100 :: "double \<Rightarrow> double" where
  "times_100 NaN = NaN"
| "times_100 (Infinity neg) = Infinity neg"
| "times_100 (Finite m e) = round53 (m * 100) e"

fun above_100 :: "double \<Rightarrow> bool" where
  "above_100 NaN \<longleftrightarrow> False"
| "above_100 (Infinity neg) \<longleftrightarrow> \<not> neg"
| "above_100 (Finite m e) \<longleftrightarrow> (if 0 \<le> e then 100 < m * 2 ^ nat e else 100 * 2 ^ nat (- e) < m)"

fun double_to_int :: "double \<Rightarrow> int option" where
  "double_to_int NaN = None"
| "double_to_int (Infinity neg) = None"
| "double_to_int (Finite m e) = Some (if 0 \<le> e then m * 2 ^ nat e else m div 2 ^ nat (- e))"

definition div_100 :: "int \<Rightarrow> double" where
  "div_100 n =
     (let q = (\<bar>n\<bar> * 2 ^ 60) div 100;
          sticky = (if (\<bar>n\<bar> * 2 ^ 60) mod 100 = 0 then 0 else 1)
      in case round53 (2 * q + sticky) (- 61) of
           Finite m e \<Rightarrow> Finite (sgn n * m) e
         | other \<Rightarrow> other)"

section \<open>Decimal numbers\<close>

definition digit_char :: "nat \<Rightarrow> char" where "digit_char d = char_of (48 + d)"

fun nat_to_string :: "nat \<Rightarrow> string" where
  "nat_to_string n = (if n < 10 then [digit_char n] else nat_to_string (n div 10) @ [digit_char (n mod 10)])"

declare nat_to_string.simps [simp del]

definition to_string :: "int \<Rightarrow> string" where
  "to_string n = (if n < 0 then ''-'' @ nat_to_string (nat (- n)) else nat_to_string (nat n))"

definition is_digit :: "char \<Rightarrow> bool" where
  "is_digit c \<longleftrightarrow> 48 \<le> (of_char c :: nat) \<and> (of_char c :: nat) \<le> 57"

definition digits_value :: "string \<Rightarrow> nat" where
  "digits_value s = foldl (\<lambda>n c. 10 * n + (of_char c - 48)) 0 s"

text \<open>\<open>std::stoi\<close>: white space, a sign, digits; what follows is ignored.\<close>

definition stoi :: "string \<Rightarrow> int res" where
  "stoi str =
     (let s = dropWhile is_space str;
          neg = (s \<noteq> [] \<and> hd s = CHR ''-'');
          s = (if s \<noteq> [] \<and> hd s \<in> {CHR ''-'', CHR ''+''} then tl s else s);
          digits = takeWhile is_digit s;
          n = (if neg then - int (digits_value digits) else int (digits_value digits))
      in if digits = [] then Inl StdInvalidArgument
         else if n < - (2 ^ 31) \<or> 2 ^ 31 \<le> n then Inl StdOutOfRange
         else Inr n)"

section \<open>The code\<close>

text \<open>The body of the loop of \<open>sampleToText\<close>: the number written for a sample.\<close>

definition amplitude :: "double \<Rightarrow> int option" where
  "amplitude sample =
     (let amplitude = times_100 (fabs sample);
          amplitude = (if above_100 amplitude then Finite 100 0 else amplitude)
      in double_to_int amplitude)"

partial_function (option) sampleToText_loop :: "double list \<Rightarrow> nat \<Rightarrow> nat \<Rightarrow> string \<Rightarrow> string option" where
  "sampleToText_loop samples step i result =
     (if i < length samples
      then Option.bind (amplitude (samples ! i)) (\<lambda>a.
             sampleToText_loop samples step (i + step) (result @ ''A('' @ to_string a @ '')'' @ [newline]))
      else Some result)"

text \<open>The divisor is converted to \<open>size_t\<close>, the quotient to \<open>int\<close>.\<close>

definition sample_step :: "nat \<Rightarrow> int \<Rightarrow> int option" where
  "sample_step n samplesPerSecond =
     (let divisor = unat (of_int samplesPerSecond :: u64) in
      if divisor = 0 then None
      else (let step = size_to_int (n div divisor) in Some (if step < 1 then 1 else step)))"

definition sampleToText :: "double list \<Rightarrow> int \<Rightarrow> string option" where
  "sampleToText samples samplesPerSecond =
     Option.bind (sample_step (length samples) samplesPerSecond) (\<lambda>step.
       sampleToText_loop samples (nat step) 0 [])"

definition audioToText :: "double list \<Rightarrow> int \<Rightarrow> string option" where
  "audioToText samples samplesPerSecond = sampleToText samples samplesPerSecond"

text \<open>The body of the loop of \<open>textToAudio\<close>; \<open>end - start\<close> is of type \<open>size_t\<close> and wraps.\<close>

definition line_sample :: "string \<Rightarrow> double list res" where
  "line_sample line =
     (if find_sub ''A('' line = None then Inr []
      else
        (case (find_sub ''('' line, find_sub '')'' line) of
           (Some paren, Some close) \<Rightarrow>
             (let start = paren + 1;
                  n = (if start \<le> close then close - start else 2 ^ 64 - (start - close))
              in res_bind (substr line start n) (\<lambda>digits. res_bind (stoi digits) (\<lambda>value. Inr [div_100 value])))
         | _ \<Rightarrow> Inr []))"

fun textToAudio_loop :: "string list \<Rightarrow> double list \<Rightarrow> double list res" where
  "textToAudio_loop [] samples = Inr samples"
| "textToAudio_loop (line # rest) samples =
     res_bind (line_sample line) (\<lambda>more. textToAudio_loop rest (samples @ more))"

definition textToAudio :: "string \<Rightarrow> double list res" where
  "textToAudio text = textToAudio_loop (getlines text) []"

section \<open>Decimal numbers are read back\<close>

lemma digit_char_code: "d < 10 \<Longrightarrow> of_char (digit_char d) = (48 + d :: nat)"
  by (simp add: digit_char_def)

lemma digits_value_snoc: "digits_value (s @ [c]) = 10 * digits_value s + (of_char c - 48)"
  by (simp add: digits_value_def)

lemma nat_to_string_digits:
  "digits_value (nat_to_string n) = n \<and> list_all is_digit (nat_to_string n) \<and> nat_to_string n \<noteq> []"
proof (induction n rule: nat_to_string.induct)
  case (1 n)
  show ?case
  proof (cases "n < 10")
    case True
    then show ?thesis by (simp add: nat_to_string.simps [of n] digits_value_def is_digit_def digit_char_code)
  next
    case False
    then show ?thesis
      using 1 by (simp add: nat_to_string.simps [of n] digits_value_snoc is_digit_def digit_char_code)
  qed
qed

lemma digit_no_sign: "is_digit c \<Longrightarrow> \<not> is_space c \<and> c \<notin> {CHR ''-'', CHR ''+'', CHR '')'', newline}"
  by (auto simp: is_digit_def is_space_def newline_def)

lemma stoi_to_string:
  assumes "n < 2 ^ 31"
  shows "stoi (to_string (int n)) = Inr (int n)"
proof -
  obtain c cs where s: "nat_to_string n = c # cs" using nat_to_string_digits [of n] by (cases "nat_to_string n") auto
  have all: "list_all is_digit (c # cs)" "digits_value (c # cs) = n" using nat_to_string_digits [of n] s by auto
  then have "takeWhile is_digit (c # cs) = c # cs" by (simp add: list_all_iff)
  moreover have "\<not> is_space c" "c \<noteq> CHR ''-''" "c \<noteq> CHR ''+''" using digit_no_sign [of c] all(1) by simp_all
  ultimately show ?thesis using assms all(2) by (simp add: stoi_def to_string_def s)
qed

section \<open>Amplitudes\<close>

lemma round53_finite: "0 \<le> m \<Longrightarrow> \<exists>q e'. round53 m e = Finite q e' \<and> 0 \<le> q"
  by (auto simp: round53_def Let_def pos_imp_zdiv_nonneg_iff)

lemma round53_exact: "m < 2 ^ 53 \<Longrightarrow> round53 m e = Finite m e"
proof -
  assume "m < 2 ^ 53"
  then have "bitlen m \<le> 53" using bitlen_le_iff_power [of m 53] by simp
  then show ?thesis by (simp add: round53_def)
qed

lemma small_double_to_int:
  assumes "0 \<le> q" "\<not> above_100 (Finite q e)"
  shows "\<exists>a. double_to_int (Finite q e) = Some a \<and> 0 \<le> a \<and> a \<le> 100"
proof (cases "0 \<le> e")
  case False
  then have "q div 2 ^ nat (- e) \<le> 100 * 2 ^ nat (- e) div 2 ^ nat (- e)" using assms(2) by (intro zdiv_mono1) auto
  then show ?thesis using False assms(1) by (simp add: pos_imp_zdiv_nonneg_iff)
qed (use assms in simp)

lemma amplitude_range:
  assumes "sample \<noteq> NaN"
  shows "\<exists>a. amplitude sample = Some a \<and> 0 \<le> a \<and> a \<le> 100"
proof (cases sample)
  case (Finite m e)
  obtain q e' where q: "round53 (\<bar>m\<bar> * 100) e = Finite q e'" "0 \<le> q"
    using round53_finite [of "\<bar>m\<bar> * 100" e] by auto
  show ?thesis
  proof (cases "above_100 (Finite q e')")
    case False
    from small_double_to_int [OF q(2) this] show ?thesis using False q(1) Finite by (simp add: amplitude_def del: above_100.simps double_to_int.simps)
  qed (use q(1) Finite in \<open>simp add: amplitude_def del: above_100.simps\<close>)
qed (use assms in \<open>simp_all add: amplitude_def\<close>)

section \<open>Rounding of the product\<close>

text \<open>A number \<open>z\<close> of 53 bits before the point is rounded to \<open>q\<close>. The largest double below an integer \<open>k\<close> of \<open>{2 ^ (b - 1) <.. 2 ^ b}\<close>
  is \<open>2 ^ (b - 53)\<close> away from it; \<open>F\<close> is the number of binary places of the product.\<close>

lemma round_up_reaches:
  fixes z :: real and q k :: int
  assumes "k * 2 ^ F \<le> q" and z: "\<bar>z - q\<bar> \<le> 1 / 2" "z = q \<or> 2 ^ 52 \<le> z" and k: "k \<le> 2 ^ b"
  shows "k * 2 ^ F - 2 ^ (b + F) / 2 ^ 54 \<le> z"
proof -
  define N where "N = k * 2 ^ F"
  have q: "N = q \<or> N + 1 \<le> q" using assms(1) by (auto simp: N_def)
  have pos: "0 \<le> (2 :: real) ^ (b + F) / 2 ^ 54" by simp
  have "N - 2 ^ (b + F) / 2 ^ 54 \<le> z" if "N = q" "2 ^ 52 \<le> z"
  proof (cases "b + F \<le> 52")
    case True
    have "k * 2 ^ F \<le> 2 ^ b * 2 ^ F" using k by (intro mult_right_mono) simp_all
    also have "\<dots> \<le> 2 ^ 52" using power_increasing [OF True, of "2 :: int"] by (simp add: power_add)
    finally have "real_of_int N \<le> real_of_int (2 ^ 52)" unfolding N_def by (simp only: of_int_le_iff)
    then have "N \<le> z" using that(2) by simp
    with pos show ?thesis by linarith
  next
    case False
    then have "2 ^ 53 \<le> (2 :: real) ^ (b + F)" by (intro power_increasing) simp_all
    then have "1 / 2 \<le> (2 :: real) ^ (b + F) / 2 ^ 54" by simp
    then show ?thesis using z(1) that(1) by linarith
  qed
  moreover have "N \<le> z" if "N + 1 \<le> q" using that z(1) by linarith
  ultimately have "N - 2 ^ (b + F) / 2 ^ 54 \<le> z" using q z(2) pos by linarith
  then show ?thesis by (simp add: N_def)
qed

lemma far_below:
  fixes k :: int
  assumes k: "k = 1 \<and> b = 0 \<or> 2 ^ b \<le> 2 * (k - 1)" "b \<le> 7" and F: "54 \<le> b + F"
  shows "2 ^ 53 \<le> k * 2 ^ F - 2 ^ (b + F) / (2 ^ 54 :: real)"
proof (cases "k = 1 \<and> b = 0")
  case True
  then have "(2 :: real) ^ 54 \<le> 2 ^ F" using F by (intro power_increasing) simp_all
  then show ?thesis using True by simp
next
  case False
  then have "2 ^ b \<le> 2 * (k - 1)" using k(1) by blast
  then have "real_of_int (2 ^ b) \<le> real_of_int (2 * (k - 1))" by (simp only: of_int_le_iff)
  then have "2 ^ b / 2 + 1 \<le> real_of_int k" by simp
  then have "(2 ^ b / 2 + 1) * 2 ^ F \<le> k * (2 :: real) ^ F" by (intro mult_right_mono) simp_all
  then have "2 ^ (b + F) / 2 + 2 ^ F \<le> k * (2 :: real) ^ F" by (simp add: power_add algebra_simps)
  moreover have "2 ^ 54 \<le> (2 :: real) ^ (b + F)" using F by (intro power_increasing) simp_all
  moreover have "(2 :: real) ^ (b + F) \<le> 2 ^ (54 + F)" using k(2) by (intro power_increasing) simp_all
  then have "2 ^ (b + F) / 2 ^ 54 \<le> (2 :: real) ^ F" by (simp add: power_add)
  ultimately show ?thesis by simp
qed

lemma round_down_misses:
  fixes z :: real and q k :: int
  assumes q: "q < k * 2 ^ F" and z: "z < 2 ^ 53" "\<bar>z - q\<bar> \<le> 1 / 2" "z = q + 1 / 2 \<Longrightarrow> even q"
    and k: "k = 1 \<and> b = 0 \<or> 2 ^ b \<le> 2 * (k - 1)" "b \<le> 7"
  shows "z < k * 2 ^ F - 2 ^ (b + F) / 2 ^ 54"
proof -
  define N where "N = k * 2 ^ F"
  have N: "real_of_int N = k * 2 ^ F" by (simp add: N_def)
  have q: "q \<le> N - 1" using q by (simp add: N_def)
  then have up: "z \<le> N - 1 / 2" using z(2) by linarith
  consider "b + F \<le> 52" | "b + F = 53" | "54 \<le> b + F" by linarith
  then have "z < N - 2 ^ (b + F) / 2 ^ 54"
  proof cases
    case 1
    then have "2 ^ (b + F) / 2 ^ 54 \<le> (1 / 4 :: real)" using power_increasing [of "b + F" 52 "2 :: real"] by simp
    with up show ?thesis by linarith
  next
    case 2
    have "z \<noteq> N - 1 / 2"
    proof
      assume "z = N - 1 / 2"
      then have "q = N - 1" "z = q + 1 / 2" using q z(2) by linarith+
      moreover have "even N" using 2 k(2) by (simp add: N_def)
      ultimately show False using z(3) by simp
    qed
    then show ?thesis using up 2 by simp
  next
    case 3
    with far_below [OF k] z(1) show ?thesis unfolding N by force
  qed
  then show ?thesis by (simp add: N_def)
qed

lemma reaches_iff:
  fixes z :: real and q k :: int
  assumes "z < 2 ^ 53" "\<bar>z - q\<bar> \<le> 1 / 2" "z = q + 1 / 2 \<Longrightarrow> even q" "z = q \<or> 2 ^ 52 \<le> z"
    and "k = 1 \<and> b = 0 \<or> 2 ^ b \<le> 2 * (k - 1)" "k \<le> 2 ^ b" "b \<le> 7"
  shows "k * 2 ^ F \<le> q \<longleftrightarrow> k * 2 ^ F - 2 ^ (b + F) / 2 ^ 54 \<le> z"
  using round_up_reaches [OF _ assms(2,4,6), of F] round_down_misses [OF _ assms(1-3,5,7), of F] by (meson linorder_not_le)

lemma round53_cases:
  assumes "0 \<le> m"
  obtains q K where "round53 m e = Finite q (e + int K)" "0 \<le> q" "real_of_int m / 2 ^ K < 2 ^ 53" "\<bar>real_of_int m / 2 ^ K - q\<bar> \<le> 1 / 2"
    "real_of_int m / 2 ^ K = q + 1 / 2 \<Longrightarrow> even q" "real_of_int m / 2 ^ K = q \<and> K = 0 \<or> 2 ^ 52 \<le> real_of_int m / 2 ^ K"
proof (cases "m < 2 ^ 53")
  case True
  then have "real_of_int m < real_of_int (2 ^ 53)" by (simp only: of_int_less_iff)
  then show thesis using that [of m 0] round53_exact [OF True, of e] assms by simp
next
  case False
  define K where "K = nat (bitlen m) - 53"
  define Q where "Q = m div 2 ^ K"
  define r where "r = m mod 2 ^ K"
  have "\<not> bitlen m \<le> 53" using False bitlen_le_iff_power [of m 53] by simp
  then have len: "bitlen m = int (53 + K)" "0 < K" by (simp_all add: K_def)
  have "m < 2 ^ (53 + K)" using bitlen_le_iff_power [of m "int (53 + K)"] len(1) by (simp del: of_nat_add)
  then have "real_of_int m < real_of_int (2 ^ (53 + K))" by (simp only: of_int_less_iff)
  then have up: "real_of_int m / 2 ^ K < 2 ^ 53" by (simp add: power_add divide_less_eq mult.commute)
  have "\<not> bitlen m \<le> int (52 + K)" using len(1) by simp
  then have "2 ^ (52 + K) \<le> m" using bitlen_le_iff_power [of m "int (52 + K)"] by (simp del: of_nat_add)
  then have "real_of_int (2 ^ (52 + K)) \<le> real_of_int m" by (simp only: of_int_le_iff)
  then have low: "2 ^ 52 \<le> real_of_int m / 2 ^ K" by (simp add: power_add le_divide_eq mult.commute)
  have "m = Q * 2 ^ K + r" unfolding Q_def r_def by (simp only: div_mult_mod_eq)
  then have "real_of_int m = real_of_int Q * 2 ^ K + real_of_int r" by (metis of_int_add of_int_mult of_int_numeral of_int_power)
  then have z: "real_of_int m / 2 ^ K = Q + r / 2 ^ K" by (simp add: add_divide_distrib)
  have r: "0 \<le> r" "r < 2 ^ K" by (simp_all add: r_def)
  then have r': "0 \<le> r / (2 :: real) ^ K" "r / (2 :: real) ^ K < 1" by (simp_all add: divide_less_eq)
  have tie: "2 * r > 2 ^ K \<longleftrightarrow> r / (2 :: real) ^ K > 1 / 2" "2 * r = 2 ^ K \<longleftrightarrow> r / (2 :: real) ^ K = 1 / 2"
  proof -
    have "2 * r > 2 ^ K \<longleftrightarrow> real_of_int (2 ^ K) < real_of_int (2 * r)" "2 * r = 2 ^ K \<longleftrightarrow> real_of_int (2 ^ K) = real_of_int (2 * r)"
      by (simp_all only: of_int_less_iff of_int_eq_iff) auto
    then show "2 * r > 2 ^ K \<longleftrightarrow> r / (2 :: real) ^ K > 1 / 2" "2 * r = 2 ^ K \<longleftrightarrow> r / (2 :: real) ^ K = 1 / 2"
      by (auto simp: field_simps)
  qed
  define q where "q = (if 2 * r > 2 ^ K \<or> 2 * r = 2 ^ K \<and> odd Q then Q + 1 else Q)"
  have "round53 m e = Finite q (e + int K)"
    using len(2) by (simp add: round53_def q_def Let_def flip: K_def Q_def r_def)
  moreover have "0 \<le> q" using assms by (simp add: q_def Q_def pos_imp_zdiv_nonneg_iff)
  moreover define x where "x = r / (2 :: real) ^ K"
  have "q = (if x > 1 / 2 \<or> x = 1 / 2 \<and> odd Q then Q + 1 else Q)" unfolding q_def x_def tie ..
  then have "\<bar>Q + x - q\<bar> \<le> 1 / 2" "Q + x = q + 1 / 2 \<Longrightarrow> even q" using r' [folded x_def] by (auto split: if_splits)
  then have "\<bar>real_of_int m / 2 ^ K - q\<bar> \<le> 1 / 2" "real_of_int m / 2 ^ K = q + 1 / 2 \<Longrightarrow> even q" unfolding z x_def by simp_all
  ultimately show thesis using that up low by blast
qed


lemma int_le_div_iff: "0 < d \<Longrightarrow> k \<le> q div d \<longleftrightarrow> k * d \<le> (q :: int)"
proof
  assume d: "0 < d" "k \<le> q div d"
  then have "k * d \<le> q div d * d" by (intro mult_right_mono) simp_all
  also have "\<dots> \<le> q" using d(1) by (simp add: minus_mod_eq_div_mult [symmetric])
  finally show "k * d \<le> q" .
next
  assume "0 < d" "k * d \<le> q"
  then show "k \<le> q div d" using zdiv_mono1 [of "k * d" q d] by simp
qed

lemma powi_neg: "E < 0 \<Longrightarrow> (2 :: real) powi E = 1 / 2 ^ nat (- E)"
  by (simp add: power_int_def field_simps)

lemma powi_nonneg: "0 \<le> E \<Longrightarrow> (2 :: real) powi E = 2 ^ nat E"
  by (simp add: power_int_def)

lemma clip_reaches:
  assumes "0 \<le> q"
  shows "\<exists>a. double_to_int (if above_100 (Finite q E) then Finite 100 0 else Finite q E) = Some a \<and> 0 \<le> a \<and> a \<le> 100
    \<and> (\<forall>k. k \<le> 100 \<longrightarrow> (k \<le> a \<longleftrightarrow> real_of_int k \<le> q * 2 powi E))"
proof -
  define a where "a = (if 0 \<le> E then q * 2 ^ nat E else q div 2 ^ nat (- E))"
  have reach: "k \<le> a \<longleftrightarrow> real_of_int k \<le> q * 2 powi E" for k
  proof (cases "0 \<le> E")
    case True
    have "real_of_int k \<le> real_of_int (q * 2 ^ nat E) \<longleftrightarrow> k \<le> q * 2 ^ nat E" by (simp only: of_int_le_iff)
    then show ?thesis using True by (simp add: a_def powi_nonneg)
  next
    case False
    have "real_of_int (k * 2 ^ nat (- E)) \<le> real_of_int q \<longleftrightarrow> k * 2 ^ nat (- E) \<le> q" by (simp only: of_int_le_iff)
    then show ?thesis using False by (simp add: a_def powi_neg int_le_div_iff le_divide_eq)
  qed
  show ?thesis
  proof (cases "above_100 (Finite q E)")
    case True
    then have "100 \<le> a" by (auto simp: a_def int_le_div_iff split: if_splits)
    then have "real_of_int k \<le> q * 2 powi E" if "k \<le> 100" for k using reach [of k] that by simp
    then show ?thesis using True by simp
  next
    case False
    from small_double_to_int [OF assms False] show ?thesis using False reach by (auto simp: a_def)
  qed
qed

lemma bitlen_pred:
  assumes "1 \<le> k" "k \<le> 100" "b = nat (bitlen (k - 1))"
  shows "k = 1 \<and> b = 0 \<or> 2 ^ b \<le> 2 * (k - 1)" "k \<le> 2 ^ b" "b \<le> 7"
proof -
  have "bitlen (k - 1) \<le> 7" using assms(2) bitlen_le_iff_power [of "k - 1" 7] by simp
  then show "b \<le> 7" using assms(3) by simp
  have "k - 1 < 2 ^ b" using bitlen_le_iff_power [of "k - 1" "bitlen (k - 1)"] assms(3) by simp
  then show "k \<le> 2 ^ b" by simp
  show "k = 1 \<and> b = 0 \<or> 2 ^ b \<le> 2 * (k - 1)"
  proof (cases "k = 1")
    case False
    then have "0 < bitlen (k - 1)" using assms(1) bitlen_le_iff_power [of "k - 1" 0] by simp
    then obtain c where c: "b = Suc c" "bitlen (k - 1) = int (Suc c)" using assms(3) by (metis gr0_implies_Suc int_nat_eq less_imp_le zero_less_nat_eq)
    then have "2 ^ c \<le> k - 1" using bitlen_le_iff_power [of "k - 1" "int c"] by simp
    then show ?thesis using c(1) by simp
  qed (simp add: assms(3) bitlen_def floorlog_def)
qed

text \<open>Rounding to 53 bits brings a product to an integer up to 100 only from half of the distance to the next smaller double.\<close>

lemma round53_reaches:
  assumes "0 \<le> M" "round53 M e = Finite q E" "1 \<le> k" "k \<le> 100"
  shows "real_of_int k \<le> q * 2 powi E \<longleftrightarrow> k - 2 ^ nat (bitlen (k - 1)) / 2 ^ 54 \<le> real_of_int M * 2 powi e"
proof -
  define b where "b = nat (bitlen (k - 1))"
  note b = bitlen_pred [OF assms(3,4) b_def]
  obtain q' K where r: "round53 M e = Finite q' (e + int K)" "0 \<le> q'" "real_of_int M / 2 ^ K < 2 ^ 53" "\<bar>real_of_int M / 2 ^ K - q'\<bar> \<le> 1 / 2"
    "real_of_int M / 2 ^ K = q' + 1 / 2 \<Longrightarrow> even q'" "real_of_int M / 2 ^ K = q' \<and> K = 0 \<or> 2 ^ 52 \<le> real_of_int M / 2 ^ K"
    using round53_cases [OF assms(1), of e] by blast
  define z where "z = real_of_int M / 2 ^ K"
  have E: "E = e + int K" "q' = q" using assms(2) r(1) by simp_all
  note r = r [unfolded E(2), folded z_def]
  have P: "real_of_int M * 2 powi e = z * 2 powi E" by (simp add: E(1) z_def power_int_add)
  have t: "0 < 2 ^ b / (2 :: real) ^ 54" "2 ^ b / (2 :: real) ^ 54 < 1"
  proof -
    have "(2 :: real) ^ b < 2 ^ 54" using b(3) by (intro power_strict_increasing) simp_all
    then show "2 ^ b / (2 :: real) ^ 54 < 1" by simp
  qed simp
  show ?thesis
  proof (cases "E < 0")
    case True
    have "real_of_int k \<le> q * 2 powi E \<longleftrightarrow> real_of_int (k * 2 ^ nat (- E)) \<le> real_of_int q"
      using True by (simp add: powi_neg le_divide_eq)
    also have "\<dots> \<longleftrightarrow> k * 2 ^ nat (- E) \<le> q" by (simp only: of_int_le_iff)
    also have "\<dots> \<longleftrightarrow> k * 2 ^ nat (- E) - 2 ^ (b + nat (- E)) / 2 ^ 54 \<le> z"
      by (rule reaches_iff [OF r(3-5) _ b]) (use r(6) in blast)+
    also have "\<dots> \<longleftrightarrow> k - 2 ^ b / 2 ^ 54 \<le> z * 2 powi E"
      using True by (simp add: powi_neg le_divide_eq power_add left_diff_distrib)
    finally show ?thesis unfolding P b_def .
  next
    case False
    then have p: "(2 :: real) powi E = 2 ^ nat E" by (simp add: powi_nonneg)
    show ?thesis
    proof (cases "2 ^ 52 \<le> z")
      case True
      then have "101 \<le> z" by simp
      then have "100 \<le> z" "100 \<le> real_of_int q" using r(4) by linarith+
      then have "100 * 1 \<le> z * 2 ^ nat E" "100 * 1 \<le> real_of_int q * 2 ^ nat E" by (intro mult_mono; simp)+
      moreover have "real_of_int k \<le> 100" using assms(4) by simp
      ultimately have "real_of_int k \<le> real_of_int q * 2 ^ nat E" "k - 2 ^ b / 2 ^ 54 \<le> z * 2 ^ nat E" using t(1) by linarith+
      then show ?thesis unfolding P p b_def by blast
    next
      case False
      then have "z = q" using r(6) by simp
      then have "z * 2 powi E = real_of_int (q * 2 ^ nat E)" "q * 2 powi E = real_of_int (q * 2 ^ nat E)" by (simp_all add: p)
      moreover have "real_of_int k \<le> real_of_int n \<longleftrightarrow> k - 2 ^ b / 2 ^ 54 \<le> real_of_int n" for n :: int
      proof (cases "k \<le> n")
        case True
        then have "real_of_int k \<le> real_of_int n" by simp
        with t(1) show ?thesis by linarith
      next
        case False
        then have "real_of_int n + 1 \<le> real_of_int k" by linarith
        with t(2) show ?thesis by linarith
      qed
      ultimately show ?thesis unfolding P b_def [symmetric] by (simp only:)
    qed
  qed
qed

section \<open>The text of the samples\<close>

definition sample_line :: "int \<Rightarrow> string" where
  "sample_line a = ''A('' @ to_string a @ '')''"

lemma sample_line_no_newline:
  assumes "0 \<le> a"
  shows "newline \<notin> set (sample_line a)"
proof -
  have "newline \<notin> set (nat_to_string (nat a))"
    using nat_to_string_digits [of "nat a"] digit_no_sign [of newline] by (auto simp: list_all_iff)
  then show ?thesis using assms by (simp add: sample_line_def to_string_def newline_def)
qed

lemma line_sample_line:
  assumes "0 \<le> a" "a < 2 ^ 31"
  shows "line_sample (sample_line a) = Inr [div_100 a]"
proof -
  let ?d = "to_string a"
  have "CHR '')'' \<notin> set ?d"
    using assms(1) nat_to_string_digits [of "nat a"] digit_no_sign [of "CHR '')''"] by (auto simp: to_string_def list_all_iff)
  then have "find_sub '')'' (''A('' @ ?d @ '')'') = Some (2 + length ?d)"
    using find_sub_skip [of "CHR '')''" "''A('' @ ?d" "[]" "[]"] by simp
  moreover have "find_sub ''A('' (''A('' @ ?d @ '')'') = Some 0" "find_sub ''('' (''A('' @ ?d @ '')'') = Some 1" by simp_all
  moreover have "substr (''A('' @ ?d @ '')'') 2 (length ?d) = Inr ?d" by (simp add: substr_def)
  moreover have "stoi ?d = Inr a" using stoi_to_string [of "nat a"] assms by simp
  ultimately show ?thesis unfolding line_sample_def sample_line_def by (simp add: numeral_2_eq_2)
qed

lemma getlines_lines:
  "\<forall>l \<in> set ls. newline \<notin> set l \<Longrightarrow> getlines (concat (map (\<lambda>l. l @ [newline]) ls)) = ls"
  by (induction ls) (simp_all add: getlines_line)

lemma textToAudio_loop_lines:
  "\<forall>a \<in> set as. 0 \<le> a \<and> a < 2 ^ 31 \<Longrightarrow> textToAudio_loop (map sample_line as) samples = Inr (samples @ map div_100 as)"
  by (induction as arbitrary: samples) (simp_all add: line_sample_line)

text \<open>The indices the loop visits: every \<open>step\<close>-th from \<open>i\<close> on.\<close>

definition sample_count :: "nat \<Rightarrow> nat \<Rightarrow> nat" where
  "sample_count n step = (n + step - 1) div step"

lemma sample_count_step: "0 < n \<Longrightarrow> 0 < step \<Longrightarrow> sample_count n step = Suc (sample_count (n - step) step)"
proof -
  assume n: "0 < n" "0 < step"
  show ?thesis
  proof (cases "step \<le> n")
    case True
    then have "(n + step - 1) div step = (n - step + step - 1 + step) div step" using n by simp
    also have "\<dots> = Suc ((n - step + step - 1) div step)" using n(2) div_add_self2 [of step "n - step + step - 1"] by linarith
    finally show ?thesis by (simp only: sample_count_def)
  next
    case False
    then have "(n + step - 1) div step = (n - 1 + step) div step" using n by simp
    also have "\<dots> = 1" using n False div_add_self2 [of step "n - 1"] by simp
    finally show ?thesis using False n(2) by (simp add: sample_count_def)
  qed
qed

lemma sample_index_less:
  assumes "k < sample_count n step" "0 < step"
  shows "k * step < n"
proof -
  have "Suc k * step \<le> (n + step - 1) div step * step" using assms(1) by (intro mult_le_mono1) (simp add: sample_count_def)
  also have "\<dots> \<le> n + step - 1" by simp
  finally show ?thesis using assms(2) by simp
qed

lemma sampleToText_loop_eq:
  assumes "0 < step" "\<forall>x \<in> set samples. x \<noteq> NaN"
  shows "sampleToText_loop samples step i result
    = Some (result @ concat (map (\<lambda>k. sample_line (the (amplitude (samples ! (i + k * step)))) @ [newline])
        [0..<sample_count (length samples - i) step]))"
proof (induction "length samples - i" arbitrary: i result rule: less_induct)
  case less
  show ?case
  proof (cases "i < length samples")
    case True
    then obtain a where a: "amplitude (samples ! i) = Some a" using amplitude_range assms(2) by (meson nth_mem)
    have "length samples - (i + step) < length samples - i" using True assms(1) by simp
    note ih = less [OF this, of "result @ sample_line a @ [newline]"]
    have count: "sample_count (length samples - i) step = Suc (sample_count (length samples - (i + step)) step)"
      using sample_count_step [of "length samples - i"] True assms(1) by (simp add: diff_diff_left)
    have shift: "i + Suc k * step = i + step + k * step" for k by simp
    have "sampleToText_loop samples step i result = sampleToText_loop samples step (i + step) (result @ sample_line a @ [newline])"
      using True a by (subst sampleToText_loop.simps) (simp add: sample_line_def)
    then show ?thesis unfolding ih count map_upt_Suc shift using a by simp
  next
    case False
    then show ?thesis using assms(1) by (subst sampleToText_loop.simps) (simp add: sample_count_def)
  qed
qed

lemma sample_step_pos:
  assumes "0 < sps" "sps < 2 ^ 31" "n < 2 ^ 31"
  shows "sample_step n sps = Some (int (max 1 (n div nat sps)))"
proof -
  have u: "unat (of_int sps :: u64) = nat sps" using assms(1,2) by (simp add: unsigned_of_int take_bit_int_eq_self)
  have "n div nat sps < 2 ^ 31" using assms(3) by (meson div_le_dividend le_less_trans)
  then have "size_to_int (n div nat sps) = int (n div nat sps)" by (rule size_to_int_small)
  then show ?thesis using u assms(1) by (simp add: sample_step_def Let_def max_def)
qed

text \<open>The amplitudes the loop writes, and their text.\<close>

definition step_amplitudes :: "double list \<Rightarrow> nat \<Rightarrow> int list" where
  "step_amplitudes samples step = map (\<lambda>k. the (amplitude (samples ! (k * step)))) [0..<sample_count (length samples) step]"

definition audio_lines :: "int list \<Rightarrow> string" where
  "audio_lines as = concat (map (\<lambda>a. sample_line a @ [newline]) as)"

lemma sampleToText_eq:
  assumes "\<forall>x \<in> set samples. x \<noteq> NaN" "sample_step (length samples) sps = Some (int step)" "0 < step"
  shows "sampleToText samples sps = Some (audio_lines (step_amplitudes samples step))"
  using assms(2) sampleToText_loop_eq [OF assms(3,1), of 0 "[]"]
  by (simp add: sampleToText_def audio_lines_def step_amplitudes_def o_def)

lemma step_amplitudes_ok:
  assumes "\<forall>x \<in> set samples. x \<noteq> NaN" "0 < step" "k < sample_count (length samples) step"
  shows "amplitude (samples ! (k * step)) = Some (step_amplitudes samples step ! k)"
    "0 \<le> step_amplitudes samples step ! k" "step_amplitudes samples step ! k \<le> 100"
proof -
  have "samples ! (k * step) \<noteq> NaN" using assms(1) sample_index_less [OF assms(3,2)] by simp
  from amplitude_range [OF this] assms(3)
  show "amplitude (samples ! (k * step)) = Some (step_amplitudes samples step ! k)"
    "0 \<le> step_amplitudes samples step ! k" "step_amplitudes samples step ! k \<le> 100"
    by (auto simp: step_amplitudes_def)
qed

lemma step_amplitudes_range:
  assumes "\<forall>x \<in> set samples. x \<noteq> NaN" "0 < step"
  shows "\<forall>a \<in> set (step_amplitudes samples step). 0 \<le> a \<and> a < 2 ^ 31"
proof
  fix a
  assume "a \<in> set (step_amplitudes samples step)"
  then obtain k where "k < sample_count (length samples) step" "a = step_amplitudes samples step ! k"
    by (auto simp: step_amplitudes_def in_set_conv_nth)
  with step_amplitudes_ok [OF assms, of k] show "0 \<le> a \<and> a < 2 ^ 31" by simp
qed

lemma getlines_audio:
  assumes "\<forall>a \<in> set as. 0 \<le> a \<and> a < 2 ^ 31"
  shows "getlines (audio_lines as) = map sample_line as"
proof -
  have "getlines (concat (map (\<lambda>l. l @ [newline]) (map sample_line as))) = map sample_line as"
    by (rule getlines_lines) (use assms sample_line_no_newline in auto)
  then show ?thesis by (simp add: audio_lines_def o_def)
qed

lemma textToAudio_lines:
  assumes "\<forall>a \<in> set as. 0 \<le> a \<and> a < 2 ^ 31"
  shows "textToAudio (audio_lines as) = Inr (map div_100 as)"
  using textToAudio_loop_lines [OF assms, of "[]"] getlines_audio [OF assms] by (simp add: textToAudio_def)

lemma sample_count_bounds:
  assumes "0 < s" "s \<le> n"
  shows "s \<le> sample_count n (n div s)" "sample_count n (n div s) < 2 * s"
proof -
  define q where "q = n div s"
  have q: "0 < q" using assms by (simp add: q_def div_greater_zero_iff)
  have n: "n = q * s + n mod s" "n mod s < s" using assms(1) by (simp_all add: q_def)
  have "s * q \<le> n + q - 1" using n(1) q by (simp add: mult.commute)
  then have "s \<le> (n + q - 1) div q" using q by (simp add: less_eq_div_iff_mult_less_eq)
  then show "s \<le> sample_count n (n div s)" by (simp add: sample_count_def q_def)
  have "s + q \<le> s * q + 1"
  proof -
    obtain s' q' where "s = Suc s'" "q = Suc q'" using assms(1) q by (metis gr0_implies_Suc)
    then show ?thesis by simp
  qed
  moreover have "2 * s * q = s * q + q * s" by simp
  ultimately have "n + q - 1 < 2 * s * q" using n q by linarith
  then have "(n + q - 1) div q < 2 * s" using q by (simp add: div_less_iff_less_mult)
  then show "sample_count n (n div s) < 2 * s" by (simp add: sample_count_def q_def)
qed

lemma sample_step_neg:
  assumes "- (2 ^ 31) \<le> sps" "sps < 0" "n < 2 ^ 31"
  shows "sample_step n sps = Some 1"
proof -
  have "sps mod 2 ^ 64 = (sps + 2 ^ 64) mod 2 ^ 64" by simp
  also have "\<dots> = sps + 2 ^ 64" using assms(1,2) by (intro mod_pos_pos_trivial) simp_all
  finally have "take_bit 64 sps = sps + 2 ^ 64" by (simp add: take_bit_eq_mod)
  then have "unat (of_int sps :: u64) = nat (sps + 2 ^ 64)" by (simp add: unsigned_of_int)
  then have "n < unat (of_int sps :: u64)" using assms by (simp add: zless_nat_conj nat_less_iff)
  then show ?thesis by (simp add: sample_step_def Let_def size_to_int_def)
qed

section \<open>Properties\<close>

text \<open>C38. The text of an audio track is read back as the amplitudes written. For samples that are not NaN, fewer than \<open>2 ^ 31\<close> of
  them, and a positive rate, \<open>sampleToText\<close> visits the samples at multiples of the step; \<open>textToAudio\<close> returns, for
  each of them in order, the hundredths written, a number between 0 and 100: sign and everything above 1.0 are lost.\<close>

theorem audio_text_roundtrip:
  assumes "\<forall>x \<in> set samples. x \<noteq> NaN" "length samples < 2 ^ 31" "0 < sps" "sps < 2 ^ 31"
  shows "\<exists>str as. sampleToText samples sps = Some str \<and> textToAudio str = Inr (map div_100 as)
    \<and> length as = sample_count (length samples) (max 1 (length samples div nat sps))
    \<and> (\<forall>k < length as. amplitude (samples ! (k * max 1 (length samples div nat sps))) = Some (as ! k) \<and> 0 \<le> as ! k \<and> as ! k \<le> 100)"
proof -
  define step where "step = max 1 (length samples div nat sps)"
  have step: "0 < step" "sample_step (length samples) sps = Some (int step)"
    using sample_step_pos [OF assms(3,4,2)] by (simp_all add: step_def)
  have "length (step_amplitudes samples step) = sample_count (length samples) step" by (simp add: step_amplitudes_def)
  then show ?thesis
    unfolding step_def [symmetric]
    using sampleToText_eq [OF assms(1) step(2,1)] textToAudio_lines [OF step_amplitudes_range [OF assms(1) step(1)]]
      step_amplitudes_ok [OF assms(1) step(1)] by auto
qed

theorem audio_text_roundtrip_witness:
  "\<exists>str. sampleToText [Finite 1 (- 1), Finite (- 3) 0, Infinity True] 2 = Some str
    \<and> textToAudio str = Inr [div_100 50, div_100 100, div_100 100]"
proof -
  have amp: "amplitude (Finite 1 (- 1)) = Some 50" "amplitude (Finite (- 3) 0) = Some 100" "amplitude (Infinity True) = Some 100"
    by (simp_all add: amplitude_def round53_exact)
  obtain str as where t: "sampleToText [Finite 1 (- 1), Finite (- 3) 0, Infinity True] 2 = Some str" "textToAudio str = Inr (map div_100 as)"
    "length as = 3" "\<forall>k < length as. amplitude ([Finite 1 (- 1), Finite (- 3) 0, Infinity True] ! k) = Some (as ! k)"
    using audio_text_roundtrip [of "[Finite 1 (- 1), Finite (- 3) 0, Infinity True]" 2] by (auto simp: sample_count_def)
  obtain x y z where "as = [x, y, z]" using t(3) by (auto simp: length_Suc_conv numeral_3_eq_3)
  moreover from this have "x = 50" "y = 100" "z = 100"
    using t(4) [rule_format, of 0] t(4) [rule_format, of 1] t(4) [rule_format, of 2] amp by simp_all
  ultimately show ?thesis using t(1,2) by simp
qed

text \<open>C39. The number written for a sample: none for a NaN, whose conversion to \<open>int\<close> is undefined; 100 for an infinity; and for every
  finite number the hundredths of its absolute value, rounded down and cut at 100, where a product that is at most half
  of a unit in the last place below an integer counts as that integer, because it is rounded before it is cut. So the
  number is at least \<open>k\<close> exactly when the product is at least \<open>k - 2 ^ b / 2 ^ 54\<close>, with \<open>b\<close> the number of bits of \<open>k - 1\<close>.
  For significands of up to 46 bits the product is exact.\<close>

theorem sample_amplitude:
  "amplitude NaN = None \<and> amplitude (Infinity neg) = Some 100
    \<and> (\<exists>a. amplitude (Finite m e) = Some a \<and> 0 \<le> a \<and> a \<le> 100
         \<and> (\<forall>k. 1 \<le> k \<and> k \<le> 100 \<longrightarrow>
              (k \<le> a \<longleftrightarrow> real_of_int k - 2 ^ nat (bitlen (k - 1)) / 2 ^ 54 \<le> 100 * \<bar>real_of_int m\<bar> * 2 powi e)))
    \<and> (\<bar>m\<bar> < 2 ^ 46 \<longrightarrow>
         amplitude (Finite m e) = Some (min 100 (if 0 \<le> e then 100 * \<bar>m\<bar> * 2 ^ nat e else 100 * \<bar>m\<bar> div 2 ^ nat (- e))))"
proof (intro conjI impI)
  obtain q K where r: "round53 (\<bar>m\<bar> * 100) e = Finite q (e + int K)" "0 \<le> q" by (rule round53_cases [of "\<bar>m\<bar> * 100" e]) simp_all
  have P: "real_of_int (\<bar>m\<bar> * 100) * 2 powi e = 100 * \<bar>real_of_int m\<bar> * 2 powi e" by simp
  have amp: "amplitude (Finite m e) = double_to_int (if above_100 (Finite q (e + int K)) then Finite 100 0 else Finite q (e + int K))"
    unfolding amplitude_def fabs.simps times_100.simps r(1) Let_def ..
  show "\<exists>a. amplitude (Finite m e) = Some a \<and> 0 \<le> a \<and> a \<le> 100
      \<and> (\<forall>k. 1 \<le> k \<and> k \<le> 100 \<longrightarrow>
           (k \<le> a \<longleftrightarrow> real_of_int k - 2 ^ nat (bitlen (k - 1)) / 2 ^ 54 \<le> 100 * \<bar>real_of_int m\<bar> * 2 powi e))"
    using clip_reaches [OF r(2), of "e + int K"] round53_reaches [OF _ r(1), unfolded P] unfolding amp by auto
next
  assume m: "\<bar>m\<bar> < 2 ^ 46"
  have "round53 (\<bar>m\<bar> * 100) e = Finite (100 * \<bar>m\<bar>) e" using m by (subst round53_exact) simp_all
  moreover have "100 \<le> 100 * \<bar>m\<bar> div 2 ^ nat (- e)" if "100 * 2 ^ nat (- e) < 100 * \<bar>m\<bar>"
    using that by (simp add: int_le_div_iff)
  moreover have "100 * \<bar>m\<bar> div 2 ^ nat (- e) \<le> 100" if "\<not> 100 * 2 ^ nat (- e) < 100 * \<bar>m\<bar>"
    using that zdiv_mono1 [of "100 * \<bar>m\<bar>" "100 * 2 ^ nat (- e)" "2 ^ nat (- e)"] by simp
  ultimately show "amplitude (Finite m e) = Some (min 100 (if 0 \<le> e then 100 * \<bar>m\<bar> * 2 ^ nat e else 100 * \<bar>m\<bar> div 2 ^ nat (- e)))"
    by (auto simp: amplitude_def min_def)
qed (simp_all add: amplitude_def)

text \<open>The second number is the double for 0.35: its hundredths are less than 35, and 35 is written.\<close>

theorem sample_amplitude_witness:
  "amplitude (Finite (- 5) (- 3)) = Some 62 \<and> amplitude (Finite 6305039478318694 (- 54)) = Some 35
    \<and> 100 * 6305039478318694 div 2 ^ 54 = (34 :: int)"
proof -
  obtain a where a: "amplitude (Finite 6305039478318694 (- 54)) = Some a"
    "\<And>k. 1 \<le> k \<and> k \<le> 100 \<Longrightarrow>
      k \<le> a \<longleftrightarrow> real_of_int k - 2 ^ nat (bitlen (k - 1)) / 2 ^ 54 \<le> 100 * \<bar>real_of_int 6305039478318694\<bar> * 2 powi (- 54)"
    using sample_amplitude [of True 6305039478318694 "- 54"] by blast
  have "bitlen 34 = 6" "bitlen 35 = 6" by code_simp+
  then have "35 \<le> a" "\<not> 36 \<le> a" using a(2) [of 35] a(2) [of 36] by (simp_all add: power_int_def power_one_over)
  then have "a = 35" by simp
  then show ?thesis using a(1) sample_amplitude [of True "- 5" "- 3"] by simp
qed

text \<open>C40. \<open>samplesPerSecond\<close> is not a rate: whatever the length of the track, the text of at least that many samples has no
  fewer than \<open>samplesPerSecond\<close> and fewer than twice as many lines. With the value 0 the division is undefined, with a
  negative value the divisor becomes a huge \<open>size_t\<close> and every sample is written.\<close>

theorem audio_sample_count:
  assumes "\<forall>x \<in> set samples. x \<noteq> NaN" "length samples < 2 ^ 31"
  shows "sampleToText samples 0 = None
    \<and> (\<forall>sps. 0 < sps \<and> sps \<le> int (length samples) \<longrightarrow>
         (\<exists>str. sampleToText samples sps = Some str \<and> sps \<le> int (length (getlines str)) \<and> int (length (getlines str)) < 2 * sps))
    \<and> (\<forall>sps. - (2 ^ 31) \<le> sps \<and> sps < 0 \<longrightarrow>
         (\<exists>str. sampleToText samples sps = Some str \<and> length (getlines str) = length samples))"
proof (intro conjI allI impI; (elim conjE)?)
  have lines: "length (getlines (audio_lines (step_amplitudes samples step))) = sample_count (length samples) step" if "0 < step" for step
    using getlines_audio [OF step_amplitudes_range [OF assms(1) that]] by (simp add: step_amplitudes_def)
  show "sampleToText samples 0 = None" by (simp add: sampleToText_def sample_step_def)
  fix sps :: int
  show "\<exists>str. sampleToText samples sps = Some str \<and> sps \<le> int (length (getlines str)) \<and> int (length (getlines str)) < 2 * sps"
    if sps: "0 < sps" "sps \<le> int (length samples)"
  proof -
    let ?step = "length samples div nat sps"
    have "0 < nat sps" "nat sps \<le> length samples" using sps by simp_all
    note bounds = sample_count_bounds [OF this]
    have step: "0 < ?step" using sps by (simp add: div_greater_zero_iff)
    have "sample_step (length samples) sps = Some (int (max 1 ?step))"
      by (rule sample_step_pos [OF sps(1) _ assms(2)]) (use sps(2) assms(2) in \<open>simp add: le_less_trans\<close>)
    then have "sampleToText samples sps = Some (audio_lines (step_amplitudes samples ?step))"
      using sampleToText_eq [OF assms(1) _ step, of sps] step by (simp add: max_def)
    then show ?thesis using bounds lines [OF step] by auto
  qed
  show "\<exists>str. sampleToText samples sps = Some str \<and> length (getlines str) = length samples" if "- (2 ^ 31) \<le> sps" "sps < 0"
    using sampleToText_eq [OF assms(1), of sps 1] sample_step_neg [OF that assms(2)] lines [of 1] by (simp add: sample_count_def)
qed

theorem audio_sample_count_witness:
  "sampleToText [Finite 1 0, Finite 1 0] 0 = None
    \<and> (\<exists>str. sampleToText [Finite 1 0, Finite 1 0] 1 = Some str \<and> length (getlines str) = 1)
    \<and> (\<exists>str. sampleToText [Finite 1 0, Finite 1 0] (- 1) = Some str \<and> length (getlines str) = 2)"
proof -
  note c = audio_sample_count [of "[Finite 1 0, Finite 1 0]", simplified]
  obtain str where "sampleToText [Finite 1 0, Finite 1 0] 1 = Some str" "1 \<le> length (getlines str)" "length (getlines str) < 2"
    using c [THEN conjunct2, THEN conjunct1, rule_format, of 1] by auto
  moreover have "\<exists>str. sampleToText [Finite 1 0, Finite 1 0] (- 1) = Some str \<and> length (getlines str) = 2"
    using c [THEN conjunct2, THEN conjunct2, rule_format, of "- 1"] by (simp add: numeral_2_eq_2)
  ultimately show ?thesis using c by auto
qed

end
