(* ===== verification/Dht_Interface.thy ===== *)
theory Dht_Interface
  imports Dht_Text Dht_Crypto Dht_Png Dht_Audio
begin

text \<open>
  The functions of \<open>include/dht/dht.hpp\<close>, in \<open>src/interface\<close>: they compose the readers, the text codecs, compression,
  encryption and the writers. What lies outside of this development is collected in the record \<open>dht_env\<close>: the
  iteration order of \<open>BASE_COLORS\<close>, the environments of liblzma, OpenSSL and libpng, the functions over libjpeg
  (\<open>readJPEG\<close>, \<open>writeJPEG\<close>) and over FFmpeg (\<open>readAudio\<close>, \<open>extractFrames\<close>, \<open>extractAudio\<close>), and the initial content of
  the header buffer of \<open>readBMP\<close>.

  A function returns \<open>None\<close> if it does not return or its behaviour is undefined, \<open>Some (Inl e)\<close> if it throws \<open>e\<close>, and
  \<open>Some (Inr fs)\<close> with the new state of the files otherwise.
\<close>

section \<open>The code\<close>

record ('c, 'r, 'x) dht_env =
  de_order :: "(char \<times> RGB) list"
  de_stack :: "u8 list"
  de_easy :: "'c lzma_stream \<Rightarrow> u32 \<Rightarrow> u32 \<Rightarrow> lzma_ret \<times> 'c lzma_stream"
  de_stream :: "'r stream_env"
  de_mem :: "'r stream_coder option"
  de_imem :: "'r stream_coder lzma_internal option"
  de_evp :: "'x evp"
  de_png :: png_lib
  de_readJPEG :: "file_system \<Rightarrow> string \<Rightarrow> (RGB list \<times> int \<times> int) res option"
  de_writeJPEG :: "file_system \<Rightarrow> string \<Rightarrow> RGB list \<Rightarrow> int \<Rightarrow> int \<Rightarrow> file_system res option"
  de_readAudio :: "file_system \<Rightarrow> string \<Rightarrow> double list res option"
  de_extractFrames :: "file_system \<Rightarrow> string \<Rightarrow> int \<Rightarrow> (RGB list list \<times> int \<times> int) res option"
  de_extractAudio :: "file_system \<Rightarrow> string \<Rightarrow> double list res option"

text \<open>Sequencing of statements that may throw or not return.\<close>

definition ro_bind :: "'a res option \<Rightarrow> ('a \<Rightarrow> 'b res option) \<Rightarrow> 'b res option" where
  "ro_bind m f = Option.bind m (\<lambda>r. case r of Inl e \<Rightarrow> Some (Inl e) | Inr x \<Rightarrow> f x)"

definition read_image :: "('c, 'r, 'x) dht_env \<Rightarrow> file_system \<Rightarrow> string \<Rightarrow> (RGB list \<times> int \<times> int) res option" where
  "read_image D fs inputPath =
     (let ext = getFileExtension inputPath in
      if ext = ''png'' then readPNG (de_png D) fs inputPath
      else if ext = ''jpg'' \<or> ext = ''jpeg'' then de_readJPEG D fs inputPath
      else if ext = ''bmp'' then readBMP (de_stack D) fs inputPath
      else Some (Inl (UnsupportedFormatError ext)))"

text \<open>The end of the three encrypting functions: compress, encrypt, write.\<close>

definition store_text :: "('c, 'r, 'x) dht_env \<Rightarrow> file_system \<Rightarrow> string \<Rightarrow> string \<Rightarrow> string \<Rightarrow> file_system res option" where
  "store_text D fs outputPath password textData =
     ro_bind (compressXZ (de_easy D) textData) (\<lambda>compressed.
     ro_bind (Some (encryptData (de_evp D) compressed password)) (\<lambda>encrypted.
     Some (writeFile fs outputPath encrypted)))"

definition encryptImage :: "('c, 'r, 'x) dht_env \<Rightarrow> file_system \<Rightarrow> string \<Rightarrow> string \<Rightarrow> string \<Rightarrow> file_system res option" where
  "encryptImage D fs inputPath outputPath password =
     ro_bind (read_image D fs inputPath) (\<lambda>(pixels, width, height).
       store_text D fs outputPath password (pixelToText (de_order D) pixels width height))"

definition encryptVideo ::
  "('c, 'r, 'x) dht_env \<Rightarrow> file_system \<Rightarrow> string \<Rightarrow> string \<Rightarrow> string \<Rightarrow> int \<Rightarrow> int \<Rightarrow> file_system res option"
where
  "encryptVideo D fs inputPath outputPath password fps audioSamplesPerSecond =
     ro_bind (de_extractFrames D fs inputPath fps) (\<lambda>(frames, width, height).
     ro_bind (de_extractAudio D fs inputPath) (\<lambda>audioSamples.
     Option.bind (audioToText audioSamples audioSamplesPerSecond) (\<lambda>audioText.
       (let frameTexts = map (\<lambda>frame. frameToText (de_order D) frame width height) frames
        in store_text D fs outputPath password (joinVideoText frameTexts audioText)))))"

definition encryptAudio ::
  "('c, 'r, 'x) dht_env \<Rightarrow> file_system \<Rightarrow> string \<Rightarrow> string \<Rightarrow> string \<Rightarrow> int \<Rightarrow> file_system res option"
where
  "encryptAudio D fs inputPath outputPath password samplesPerSecond =
     ro_bind (de_readAudio D fs inputPath) (\<lambda>samples.
     Option.bind (sampleToText samples samplesPerSecond) (\<lambda>textData. store_text D fs outputPath password textData))"

text \<open>The beginning of the three decrypting functions: read, decrypt, decompress.\<close>

definition load_text :: "('c, 'r, 'x) dht_env \<Rightarrow> file_system \<Rightarrow> string \<Rightarrow> string \<Rightarrow> string res option" where
  "load_text D fs inputPath password =
     ro_bind (Some (readFile fs inputPath)) (\<lambda>encrypted.
     ro_bind (Some (decryptData (de_evp D) encrypted password)) (\<lambda>decrypted.
     decompressXZ (de_stream D) (de_mem D) (de_imem D) decrypted))"

definition decryptImage :: "('c, 'r, 'x) dht_env \<Rightarrow> file_system \<Rightarrow> string \<Rightarrow> string \<Rightarrow> string \<Rightarrow> file_system res option" where
  "decryptImage D fs inputPath outputPath password =
     ro_bind (load_text D fs inputPath password) (\<lambda>textData.
       (let (pixels, width, height) = textToPixel textData;
            ext = getFileExtension outputPath
        in if ext = ''png'' then writePNG (de_png D) fs outputPath pixels (int width) (int height)
           else if ext = ''jpg'' \<or> ext = ''jpeg'' then de_writeJPEG D fs outputPath pixels (int width) (int height)
           else if ext = ''bmp'' then writeBMP fs outputPath pixels (int width) (int height)
           else Some (Inl (UnsupportedFormatError ext))))"

definition decryptVideo :: "('c, 'r, 'x) dht_env \<Rightarrow> file_system \<Rightarrow> string \<Rightarrow> string \<Rightarrow> string \<Rightarrow> file_system res option" where
  "decryptVideo D fs inputPath outputPath password =
     ro_bind (load_text D fs inputPath password) (\<lambda>textData.
     ro_bind (Some (decodeVideoText textData)) (\<lambda>(allPixels, width, height, audioText).
       (let ext = getFileExtension outputPath
        in if ext = ''png'' then writePNG (de_png D) fs outputPath allPixels (int width) (int height)
           else if ext = ''jpg'' \<or> ext = ''jpeg'' then de_writeJPEG D fs outputPath allPixels (int width) (int height)
           else Some (Inl (UnsupportedFormatError ext)))))"

definition decryptAudio :: "('c, 'r, 'x) dht_env \<Rightarrow> file_system \<Rightarrow> string \<Rightarrow> string \<Rightarrow> string \<Rightarrow> file_system res option" where
  "decryptAudio D fs inputPath outputPath password =
     ro_bind (load_text D fs inputPath password) (\<lambda>textData.
     ro_bind (Some (textToAudio textData)) (\<lambda>samples.
     Some (Inl (DhtError ''Audio decoding not implemented yet''))))"

section \<open>Lemmas\<close>

lemma ro_bind_simps [simp]:
  "ro_bind None f = None" "ro_bind (Some (Inl e)) f = Some (Inl e)" "ro_bind (Some (Inr x)) f = f x"
  by (simp_all add: ro_bind_def)

lemma ro_bind_Inr_iff: "ro_bind m f = Some (Inr y) \<longleftrightarrow> (\<exists>x. m = Some (Inr x) \<and> f x = Some (Inr y))"
proof (cases m)
  case (Some r)
  then show ?thesis by (cases r) simp_all
qed simp

text \<open>\<open>load_text\<close> gives a text only for an empty payload.\<close>

lemma load_text_fails:
  assumes "raw_chain_ok code good (se_inits (de_stream D))" "chain_expands code good (se_inits (de_stream D)) pot k p0"
    and "\<And>c. de_mem D = Some c \<Longrightarrow> length (sd_buffer c) = 1024"
    and "readFile fs inputPath = Inr file'" "decryptData (de_evp D) file' password = Inr payload" "payload \<noteq> []"
  shows "\<exists>msg \<in> {''Failed to initialize XZ decoder'', ''XZ decompression failed''}.
    load_text D fs inputPath password = Some (Inl (DhtError msg))"
  using decompressXZ_fails [OF assms(1-3,6), where imem = "de_imem D"] assms(4,5) by (simp add: load_text_def)

lemma load_text_empty:
  assumes "raw_chain_ok code good (se_inits (de_stream D))" "chain_expands code good (se_inits (de_stream D)) pot k p0"
    and "\<And>c. de_mem D = Some c \<Longrightarrow> length (sd_buffer c) = 1024" "load_text D fs inputPath password = Some (Inr textData)"
  shows "textData = [] \<and> (\<exists>bytes. readFile fs inputPath = Inr bytes \<and> decryptData (de_evp D) bytes password = Inr [])"
proof -
  obtain bytes payload where p: "readFile fs inputPath = Inr bytes" "decryptData (de_evp D) bytes password = Inr payload"
    "decompressXZ (de_stream D) (de_mem D) (de_imem D) payload = Some (Inr textData)"
    using assms(4) by (auto simp: load_text_def ro_bind_Inr_iff)
  have "payload = []" using load_text_fails [OF assms(1-3) p(1,2)] assms(4) by auto
  then show ?thesis using p by (simp add: decompressXZ_def)
qed

lemma store_text_ok:
  assumes "compressXZ (de_easy D) textData = Some (Inr compressed)" "encryptData (de_evp D) compressed password = Inr bytes"
    and "fs_writable fs outputPath"
  shows "store_text D fs outputPath password textData = Some (Inr (fs\<lparr>fs_files := (fs_files fs)(outputPath \<mapsto> bytes)\<rparr>))"
  using assms by (simp add: store_text_def writeFile_def)

section \<open>Properties\<close>

text \<open>C3. Nothing can be decrypted. \<open>decryptImage\<close> and \<open>decryptVideo\<close> succeed only if the payload of the file is empty, in which
  case there is nothing to restore, and \<open>decryptAudio\<close> never succeeds: it throws also when it has decoded the samples.\<close>

theorem decrypt_only_empty:
  assumes "raw_chain_ok code good (se_inits (de_stream D))" "chain_expands code good (se_inits (de_stream D)) pot k p0"
    and "\<And>c. de_mem D = Some c \<Longrightarrow> length (sd_buffer c) = 1024"
  shows "decryptAudio D fs inputPath outputPath password \<noteq> Some (Inr fs')
    \<and> (decryptImage D fs inputPath outputPath password = Some (Inr fs') \<or> decryptVideo D fs inputPath outputPath password = Some (Inr fs') \<longrightarrow>
         (\<exists>bytes. readFile fs inputPath = Inr bytes \<and> decryptData (de_evp D) bytes password = Inr []))"
proof (intro conjI impI)
  show "decryptAudio D fs inputPath outputPath password \<noteq> Some (Inr fs')" by (auto simp: decryptAudio_def ro_bind_Inr_iff)
  assume "decryptImage D fs inputPath outputPath password = Some (Inr fs') \<or> decryptVideo D fs inputPath outputPath password = Some (Inr fs')"
  then obtain textData where "load_text D fs inputPath password = Some (Inr textData)"
    by (auto simp: decryptImage_def decryptVideo_def ro_bind_Inr_iff)
  from load_text_empty [OF assms this]
  show "\<exists>bytes. readFile fs inputPath = Inr bytes \<and> decryptData (de_evp D) bytes password = Inr []" by blast
qed

text \<open>C2. An image can be encrypted but not decrypted. If the image can be read, its text compressed to fewer than 2 GiB and
  the output written, \<open>encryptImage\<close> succeeds, leaves other files as they are, and the file it writes holds the
  compressed text of the image under the password; but \<open>decryptImage\<close> on this file, with the same password and
  whatever the output path, throws.\<close>

theorem encrypted_image_lost:
  assumes "raw_chain_ok code good (se_inits (de_stream D))" "chain_expands code good (se_inits (de_stream D)) pot k p0"
    and "\<And>c. de_mem D = Some c \<Longrightarrow> length (sd_buffer c) = 1024"
    and "evp_gcm (de_evp D) seal" "RAND_bytes (de_evp D) AES_IV_LENGTH = Some iv" "32 \<le> length password"
    and "read_image D fs inputPath = Some (Inr (pixels, width, height))"
    and "compressXZ (de_easy D) (pixelToText (de_order D) pixels width height) = Some (Inr compressed)"
    and "compressed \<noteq> []" "length compressed < 2 ^ 31" "fs_writable fs outputPath"
  shows "\<exists>bytes fs'. encryptImage D fs inputPath outputPath password = Some (Inr fs')
    \<and> fs_files fs' = (fs_files fs)(outputPath \<mapsto> bytes) \<and> length bytes = 28 + length compressed
    \<and> decryptData (de_evp D) bytes password = Inr compressed
    \<and> (\<forall>restored. \<exists>msg \<in> {''Failed to initialize XZ decoder'', ''XZ decompression failed''}.
         decryptImage D fs' outputPath restored password = Some (Inl (DhtError msg)))"
proof -
  obtain bytes where b: "encryptData (de_evp D) compressed password = Inr bytes" "length bytes = 28 + length compressed"
    "decryptData (de_evp D) bytes password = Inr compressed"
    using encrypt_then_decrypt [OF assms(4,5,10) _ _ assms(6,6) refl, of compressed] size_to_int_small [OF assms(10)] by auto
  let ?fs = "fs\<lparr>fs_files := (fs_files fs)(outputPath \<mapsto> bytes)\<rparr>"
  have enc: "encryptImage D fs inputPath outputPath password = Some (Inr ?fs)"
    using assms(7) store_text_ok [OF assms(8) b(1) assms(11)] by (simp add: encryptImage_def)
  have "readFile ?fs outputPath = Inr bytes" by (simp add: readFile_def)
  from load_text_fails [OF assms(1-3) this b(3) assms(9)]
  have "\<exists>msg \<in> {''Failed to initialize XZ decoder'', ''XZ decompression failed''}.
      decryptImage D ?fs outputPath restored password = Some (Inl (DhtError msg))" for restored
    by (auto simp: decryptImage_def)
  then show ?thesis using enc b(2,3) by (intro exI [of _ bytes] exI [of _ ?fs]) simp
qed

text \<open>A concrete environment: an encoder that turns everything into one byte, a JPEG reader that finds one red pixel.\<close>

definition toy_encode :: "unit lzma_code_function" where
  "toy_encode c in_buf in_pos in_size out out_pos out_size action =
     Some (LZMA_STREAM_END, c, in_size, buf_write out_pos [42] out, out_pos + 1)"

definition toy_easy :: "unit lzma_stream \<Rightarrow> u32 \<Rightarrow> u32 \<Rightarrow> lzma_ret \<times> unit lzma_stream" where
  "toy_easy strm preset check =
     (LZMA_OK, strm\<lparr>st_internal := Some \<lparr>in_next = LZMA_NEXT_CODER_INIT\<lparr>nc_coder := Some (), nc_code := Some toy_encode\<rparr>,
        in_sequence = ISEQ_RUN, in_avail_in = 0, in_supported_actions = replicate 5 True, in_allow_buf_error = False\<rparr>\<rparr>)"

definition toy_env :: "(unit, lzma2_chain, u8 list \<times> u8 list \<times> u8 list \<times> u8 list) dht_env" where
  "toy_env = \<lparr>de_order = BASE_COLORS, de_stack = replicate 54 0, de_easy = toy_easy, de_stream = sample_xz_env,
     de_mem = Some sample_stream_mem, de_imem = Some sample_stream_internal, de_evp = toy_evp, de_png = toy_png,
     de_readJPEG = (\<lambda>fs path. Some (Inr ([mkRGB 255 0 0], 1, 1))), de_writeJPEG = (\<lambda>fs path pixels width height. Some (Inr fs)),
     de_readAudio = (\<lambda>fs path. Some (Inr [])), de_extractFrames = (\<lambda>fs path fps. Some (Inr ([], 0, 0))),
     de_extractAudio = (\<lambda>fs path. Some (Inr []))\<rparr>"

lemma toy_compress:
  assumes "s \<noteq> []"
  shows "compressXZ toy_easy s = Some (Inr [42])"
proof -
  let ?strm = "(snd (toy_easy LZMA_STREAM_INIT 9 LZMA_CHECK_CRC64))\<lparr>st_next_in := Some (bytes_of_string s, 0), st_avail_in := length s\<rparr>"
  have "\<exists>strm'. xz_turn ?strm LZMA_RUN (replicate 8192 0) [] = Some (LZMA_STREAM_END, strm', 42 # replicate 8191 0, [42])"
    by (simp add: xz_turn_def lzma_code_def toy_easy_def toy_encode_def LZMA_STREAM_INIT_def LZMA_NEXT_CODER_INIT_def
        action_index_def LZMA_ACTION_MAX_def iseq_check_def code_verdict_def at_ptr_def ptr_add_def ptr_store_def Let_def buf_write_def)
  then obtain strm' where turn: "xz_turn ?strm LZMA_RUN (replicate 8192 0) [] = Some (LZMA_STREAM_END, strm', 42 # replicate 8191 0, [42])"
    by blast
  have "compress_loop LZMA_OK ?strm (replicate 8192 0) [] = Some (Inr [42])"
    using assms by (subst compress_loop.simps) (simp add: turn compress_loop.simps)
  then show ?thesis using assms by (simp add: compressXZ_def toy_easy_def Let_def)
qed

definition toy_password :: string where
  "toy_password = replicate 32 (CHR ''k'')"

lemma toy_env_ok:
  "raw_chain_ok lz_decode lzma2_chain_good (se_inits (de_stream toy_env))"
  "chain_expands lz_decode lzma2_chain_good (se_inits (de_stream toy_env)) (lz_pot lzma2_pot) 0x200000 0"
  "\<And>c. de_mem toy_env = Some c \<Longrightarrow> length (sd_buffer c) = 1024"
  using sample_xz_chain by (auto simp: toy_env_def sample_stream_mem_def)

theorem decrypt_only_empty_witness:
  "decryptAudio toy_env sample_fs ''in'' ''out.wav'' toy_password \<noteq> Some (Inr sample_fs)
    \<and> decryptImage toy_env sample_fs ''in'' ''out.png'' toy_password \<noteq> Some (Inr sample_fs)"
  using decrypt_only_empty [OF toy_env_ok, of sample_fs "''in''" "''out.wav''" toy_password sample_fs]
    decrypt_only_empty [OF toy_env_ok, of sample_fs "''in''" "''out.png''" toy_password sample_fs]
  by (auto simp: readFile_def sample_fs_def)

theorem encrypted_image_lost_witness:
  "\<exists>bytes fs'. encryptImage toy_env sample_fs ''a.jpg'' ''a.dht'' toy_password = Some (Inr fs')
    \<and> fs_files fs' ''a.dht'' = Some bytes \<and> decryptData toy_evp bytes toy_password = Inr [42]
    \<and> (\<exists>msg. decryptImage toy_env fs' ''a.dht'' ''b.jpg'' toy_password = Some (Inl (DhtError msg)))"
proof -
  have img: "read_image toy_env sample_fs ''a.jpg'' = Some (Inr ([mkRGB 255 0 0], 1, 1))"
    by (simp add: read_image_def toy_env_def getFileExtension_def tolower_def)
  have "pixelToText BASE_COLORS [mkRGB 255 0 0] 1 1 \<noteq> []"
    by (simp add: pixelToText_def rgbToCode_def Let_def)
  then have c: "compressXZ (de_easy toy_env) (pixelToText (de_order toy_env) [mkRGB 255 0 0] 1 1) = Some (Inr [42])"
    using toy_compress by (simp add: toy_env_def)
  have e: "evp_gcm (de_evp toy_env) (\<lambda>key iv m. (m, toy_tag key iv m))" "RAND_bytes (de_evp toy_env) AES_IV_LENGTH = Some (replicate 12 7)"
    using toy_evp_gcm by (simp_all add: toy_env_def toy_evp_def AES_IV_LENGTH_def)
  have "32 \<le> length toy_password" "fs_writable sample_fs ''a.dht''" by (simp_all add: toy_password_def sample_fs_def)
  from encrypted_image_lost [OF toy_env_ok e this(1) img c _ _ this(2)]
  show ?thesis by (fastforce simp: toy_env_def)
qed

end
