(* ===== verification/Spec2Isabelle.thy ===== *)
theory Spec2Isabelle
  imports Dht_Interface
begin

text \<open>
  \<^bold>\<open>A verification development for Dht\<close>

  \<^bold>\<open>The program.\<close> Dht is a C++17 library that turns images, videos and sound into text, compresses the text as XZ data
  and encrypts it with AES-256-GCM. Its own code is in \<open>src/src\<close> and \<open>src/include/dht\<close>. The XZ part is the vendored
  liblzma 5.2.2 (\<open>src/libs/liblzma\<close>), the cipher is OpenSSL's, video and sound are read with FFmpeg, PNG and JPEG
  files with libpng and libjpeg. An encrypted file is made by
  \<open>encryptImage\<close>: reader, \<open>pixelToText\<close>, \<open>compressXZ\<close>, \<open>encryptData\<close>, \<open>writeFile\<close>; it is restored by
  \<open>decryptImage\<close>: \<open>readFile\<close>, \<open>decryptData\<close>, \<open>decompressXZ\<close>, \<open>textToPixel\<close>, writer; videos and sound likewise.
  The development covers the Dht code and the part of liblzma that a decoding call runs through, from \<open>lzma_code\<close>
  down to the bytes of headers, Blocks and Index and to the bits of the LZMA range decoder.

  \<^bold>\<open>Conventions.\<close> A C function is a HOL function that returns the C result first and then the updated pointees. Bytes and
  fixed-width integers whose wrap-around can be seen are words; buffer positions are natural numbers, a buffer is the
  list of its bytes. A pointer that may be NULL is an option. A C++ exception is \<open>Inl\<close> of a value of \<open>dht_exn\<close>. Where a
  function may loop forever or its behaviour may be undefined it returns an option, \<open>None\<close> being that case; loops that
  are not bounded by their arguments are defined with \<open>partial_function (option)\<close>, and that they return is proved.
  There is no fuel. The outcome of an allocation, with the old content of the memory, is an argument.

  \<^bold>\<open>The theories and what they show.\<close>

  \<^item> \<open>Prelude\<close>: machine words, \<open>lzma_ret\<close>, writing into buffers, little-endian loads and stores.

  \<^item> \<open>Vli\<close> (\<open>common/vli_*.c\<close>): variable-length integers, in one call or resumed. Encoding and decoding are inverse, only the
  canonical form is accepted, and piecewise calls move in step.

  \<^item> \<open>Crc\<close>, \<open>Sha256\<close>, \<open>Check\<close> (\<open>check/\<close>): the slicing CRC32 and CRC64 equal the bytewise ones and detect every change of
  one byte; the in-place SHA-256 computes the digest of FIPS 180-4; the dispatch over check types (locale
  \<open>incremental_check\<close>, interpreted for each type) does not depend on how a message is split.

  \<^item> \<open>Stream_Flags\<close> (\<open>common/stream_flags_*.c\<close>), \<open>Filters\<close> (\<open>common/filter_*.c\<close>, the property codecs of the filters, presets),
  \<open>Block_Header\<close> (\<open>common/block_header_*.c\<close>, \<open>block_util.c\<close>): round trips, detection of any changed byte, the accepted
  filter chains, rounding of dictionary sizes, consistency of sizes. The locale \<open>props_codec\<close> is the contract of a
  filter's property encoder and decoder, interpreted for LZMA1, LZMA2, the branch converters and Delta.

  \<^item> \<open>Index_Hash\<close> (\<open>common/index_hash.c\<close>): after any Block sizes within the limits, the Index that lists them is accepted.

  \<^item> \<open>Coder\<close> (\<open>common/common.c\<close>, \<open>filter_decoder.c\<close>): \<open>lzma_stream\<close> and the state machine of \<open>lzma_code\<close>, chains of raw
  decoders. The locale \<open>bounded_coder\<close> is the contract between a coder and its caller: it returns, moves its
  positions forward and stays inside its windows, until it reports a fatal error. The bookkeeping of \<open>lzma_code\<close> is proved
  for every such coder. \<open>code_history\<close> is the life of a stream, from its initialisation through all calls: when
  \<open>LZMA_BUF_ERROR\<close> is returned, and which states are final. The assertion in \<open>lzma_code\<close>, that a coder does not return
  \<open>LZMA_BUF_ERROR\<close>, is a premise of a history.

  \<^item> \<open>Delta\<close> (\<open>delta/\<close>): the delta filter is its own inverse over any split into calls; it is a \<open>bounded_coder\<close>.

  \<^item> \<open>Block_Decoder\<close> (\<open>common/block_decoder.c\<close>): what an accepted Block looks like, and that its check was computed over the
  bytes delivered.

  \<^item> \<open>Stream_Decoder\<close> (\<open>common/stream_decoder.c\<close>): in every reachable state the decoder returns on every input, inside its
  windows; with \<open>LZMA_CONCATENATED\<close> it reports the end only under \<open>LZMA_FINISH\<close>; a memory limit that was too low
  cannot be repaired.

  \<^item> \<open>Lz_Dict\<close> (\<open>lz/lz_decoder.h\<close>): the ring buffer of the last decoded bytes; \<open>dict_repeat\<close> refines the copy of a match byte by byte
  on the history.

  \<^item> \<open>Range_Decoder\<close> (\<open>rangecoder/\<close>), \<open>Lzma_Decoder\<close> (\<open>lzma/lzma_decoder.c\<close>), \<open>Lzma_Safety\<close>: the range decoder; \<open>lzma_decode\<close> as a step function
  over the labels of its \<open>switch\<close>, with the locals \<open>lzma_run\<close> and the tables of probabilities behind explicit references;
  its invariant, kept by every step. The loop ends because each step writes to the dictionary or moves to a label of
  smaller rank.

  \<^item> \<open>Lz_Decoder\<close> (\<open>lz/lz_decoder.c\<close>): the decoder that owns the dictionary. The locale \<open>lz_based\<close> is the contract of the LZ-based
  decoders it calls: for each of them its loops end, stay inside of their windows and stop only without input or room.
  \<open>lz_expanding\<close> extends it by a bound of the output; such a decoder is a \<open>bounded_coder\<close>.

  \<^item> \<open>Lzma2_Decoder\<close> (\<open>lzma/lzma2_decoder.c\<close>): chunks and resets. LZMA is an interpretation of \<open>lz_based\<close>, LZMA2 of \<open>lz_expanding\<close>;
  in every reachable state an LZMA2 decoder is live.

  \<^item> \<open>Lzma2_Chain\<close>: the LZMA2 decoder fulfils what the Stream decoder relies on.

  \<^item> \<open>Dht_Base\<close>, \<open>Dht_Color\<close>, \<open>Dht_Text\<close> (\<open>core/color\<close>, \<open>core/encoder\<close>, \<open>core/decoder\<close>, \<open>core/utils\<close>, \<open>core/video\<close>): exceptions,
  strings and string streams; colour codes and the palette they decode to; the text of images and videos is read
  back.

  \<^item> \<open>Dht_Audio\<close> (\<open>core/audio\<close>): sound as text, with the rounding of binary64; round trip, the number written for
  every sample, the number of samples.

  \<^item> \<open>Dht_Io\<close>, \<open>Dht_Png\<close> (\<open>core/io\<close>, the BMP and PNG readers and writers): BMP and PNG round trips, what \<open>readPNG\<close>
  makes of every colour type and bit depth (with the row format libpng documents for the transformations asked for,
  \<open>png_rowbytes\<close>), \<open>MemoryStream\<close> against its specification.

  \<^item> \<open>Dht_Compression\<close> (\<open>core/compression\<close>): \<open>decompressXZ\<close> throws on every non-empty input.

  \<^item> \<open>Dht_Crypto\<close> (\<open>core/crypto\<close>): encryption and decryption are inverse below 2 GiB, decryption fails closed, larger data is
  rejected or cut, depending on its size modulo \<open>2 ^ 32\<close>.

  \<^item> \<open>Dht_Interface\<close> (\<open>src/interface\<close>): the six public functions; what was encrypted cannot be decrypted.

  \<^bold>\<open>Parameters.\<close> OpenSSL's EVP (\<open>evp\<close>, with its documented behaviour as \<open>evp_gcm\<close> and
  \<open>evp_length_checked\<close>), libpng (\<open>png_lib\<close>, \<open>png_documented\<close>), the libjpeg and
  FFmpeg functions, the easy encoder of liblzma, the initialisation functions of the raw filters below a chain, and the
  iteration order of an unordered map are arguments. The hypotheses on them are named predicates, each with a
  concrete instance in a witness; for the raw filters the instance is the LZMA2 decoder itself (\<open>Lzma2_Chain\<close>).

  \<^bold>\<open>Not modelled.\<close> The LZ encoders with the range encoder and the match finders. The encoding side of liblzma, its
  branch converters (\<open>simple/\<close>), its in-memory index, single-call and legacy
  functions and threads. The JPEG functions, whose source does not compile, and the FFmpeg readers. The logger and the
  platform detection, which have no logic. \<open>interface/encrypt_data.cpp\<close> and \<open>decrypt_data.cpp\<close>, which define functions
  of \<open>core/crypto\<close> a second time. Failures of allocations in C++ code. Products of image dimensions are not cut to
  the width of \<open>int\<close>: the properties are stated below that limit.
\<close>

end
